(* ===== verification/Xi_Prelude.thy ===== *)
theory Xi_Prelude
  imports Main "HOL-Library.Word" "HOL-Library.Monad_Syntax"
begin

text \<open>
  Prelude of the development: the machine types of \<^verbatim>\<open>xi/ext/types.h\<close>, wrap-around
  arithmetic on \<open>usize\<close>, the alignment and bit-count helpers of \<^verbatim>\<open>xi/ext/align.h\<close> and
  \<^verbatim>\<open>xi/ext/number.h\<close>, a byte-addressed memory with loads, stores and moves, and the
  list lemmas the components share.

  A \<open>usize\<close> is kept as a natural number below \<open>2 ^ 64\<close>; every operation of the source that
  can leave that range is written with the wrapping operations below. A failed
  \<^verbatim>\<open>assert\<close> (the build never defines \<^verbatim>\<open>NDEBUG\<close>) is the value \<open>None\<close>.
\<close>

unbundle bit_operations_syntax

type_synonym u8 = "8 word"
type_synonym u16 = "16 word"
type_synonym u32 = "32 word"
type_synonym u64 = "64 word"
type_synonym usize = nat
type_synonym addr = nat
type_synonym memory = "addr \<Rightarrow> u8"

named_theorems xi_defs \<open>definitions that component proofs unfold\<close>
named_theorems xi_frame \<open>what an operation leaves unchanged\<close>

section \<open>Wrap-around arithmetic on usize\<close>

definition uadd :: "usize \<Rightarrow> usize \<Rightarrow> usize" where
  "uadd a b = (a + b) mod 2 ^ 64"

definition usub :: "usize \<Rightarrow> usize \<Rightarrow> usize" where
  "usub a b = (if b \<le> a then a - b else a + 2 ^ 64 - b)"

text \<open>The source writes \<^verbatim>\<open>make_signed_t<usize>(n) >= 0\<close> for a value that did not underflow.\<close>

definition signed_nonneg :: "usize \<Rightarrow> bool" where
  "signed_nonneg n \<longleftrightarrow> n < 2 ^ 63"

definition usize_max :: usize where
  "usize_max = 2 ^ 64 - 1"

lemma uadd_exact [simp]: "a + b < 2 ^ 64 \<Longrightarrow> uadd a b = a + b"
  by (simp add: uadd_def)

lemma usub_exact [simp]: "b \<le> a \<Longrightarrow> usub a b = a - b"
  by (simp add: usub_def)

lemma usub_word: "a < 2 ^ 64 \<Longrightarrow> b < 2 ^ 64 \<Longrightarrow> usub a b = unat (word_of_nat a - word_of_nat b :: u64)"
  by (simp add: usub_def unat_sub_if' unat_of_nat word_le_nat_alt take_bit_nat_eq_self)

lemma uadd_word: "uadd a b = unat (word_of_nat a + word_of_nat b :: u64)"
  by (simp add: uadd_def unat_word_ariths unat_of_nat take_bit_eq_mod mod_simps)

lemma usub_zero_right [simp]: "usub a 0 = a"
  by (simp add: usub_def)

lemma usub_lt: "a < 2 ^ 64 \<Longrightarrow> usub a b < 2 ^ 64"
  by (auto simp: usub_def)

text \<open>\<^verbatim>\<open>u32\<close> and \<^verbatim>\<open>unsigned\<close> counters that are only added to and subtracted from.\<close>

definition add32 :: "nat \<Rightarrow> nat \<Rightarrow> nat" where
  "add32 a b = (a + b) mod 2 ^ 32"

definition sub32 :: "nat \<Rightarrow> nat \<Rightarrow> nat" where
  "sub32 a b = (if b \<le> a then a - b else 2 ^ 32 - (b - a))"

lemma add32_exact [simp]: "a + b < 2 ^ 32 \<Longrightarrow> add32 a b = a + b"
  by (simp add: add32_def)

lemma sub32_exact [simp]: "b \<le> a \<Longrightarrow> sub32 a b = a - b"
  by (simp add: sub32_def)

section \<open>Alignment and bit counts\<close>

text \<open>\<^verbatim>\<open>xi/ext/align.h\<close>: the mask form, at any width; \<open>round_up\<close> is what it means.\<close>

definition align_up :: "'a::len word \<Rightarrow> 'a word \<Rightarrow> 'a word" where
  "align_up v align = (v + align - 1) AND NOT (align - 1)"

definition align_down :: "'a::len word \<Rightarrow> 'a word \<Rightarrow> 'a word" where
  "align_down v align = v AND NOT (align - 1)"

definition round_up :: "nat \<Rightarrow> nat \<Rightarrow> nat" where
  "round_up n a = (n + a - 1) div a * a"

text \<open>\<^verbatim>\<open>xi/ext/number.h\<close>: \<^verbatim>\<open>__builtin_clz\<close> and \<^verbatim>\<open>__builtin_ctz\<close>; their value at zero is undefined.\<close>

definition count_leading_zeroes :: "'a::len word \<Rightarrow> nat option" where
  "count_leading_zeroes x =
     (if x = 0 then None
      else Some (length (takeWhile (\<lambda>i. \<not> bit x i) (rev [0..<LENGTH('a)]))))"

definition count_trailing_zeroes :: "'a::len word \<Rightarrow> nat option" where
  "count_trailing_zeroes x =
     (if x = 0 then None
      else Some (length (takeWhile (\<lambda>i. \<not> bit x i) [0..<LENGTH('a)])))"

section \<open>Byte-addressed memory\<close>

definition load :: "memory \<Rightarrow> addr \<Rightarrow> usize \<Rightarrow> u8 list" where
  "load m p n = map m [p..<p + n]"

definition store :: "memory \<Rightarrow> addr \<Rightarrow> u8 list \<Rightarrow> memory" where
  "store m p bs = (\<lambda>a. if p \<le> a \<and> a < p + length bs then bs ! (a - p) else m a)"

definition memmove :: "memory \<Rightarrow> addr \<Rightarrow> addr \<Rightarrow> usize \<Rightarrow> memory" where
  "memmove m dst src n = store m dst (load m src n)"

section \<open>Shared lemmas\<close>

lemma unat_and_not_mask: "unat (v AND NOT (mask k) :: 'a::len word) = unat v div 2 ^ k * 2 ^ k"
proof -
  have "v AND NOT (mask k) = push_bit k (drop_bit k v)"
    by (rule bit_word_eqI) (auto simp: bit_simps)
  also have "\<dots> = v - take_bit k v"
    using bits_ident [of k v] by (simp add: algebra_simps)
  finally have "unat (v AND NOT (mask k)) = unat (v - take_bit k v)" by simp
  also have "\<dots> = unat v - unat (take_bit k v)"
    by (rule unat_sub) (simp add: word_le_nat_alt unsigned_take_bit_eq take_bit_nat_less_eq_self)
  also have "\<dots> = unat v div 2 ^ k * 2 ^ k"
    by (simp add: unsigned_take_bit_eq take_bit_eq_mod [of k "unat v"] minus_mod_eq_div_mult)
  finally show ?thesis .
qed
lemma unat_align_down: "unat (align_down v (2 ^ k)) = unat v div 2 ^ k * 2 ^ k"
  by (simp add: align_down_def unat_and_not_mask flip: mask_eq_exp_minus_1)

lemma unat_mask_lt: "k < LENGTH('a) \<Longrightarrow> unat (2 ^ k - 1 :: 'a::len word) = 2 ^ k - 1"
proof -
  assume "k < LENGTH('a)"
  then have "(2::nat) ^ k - 1 < 2 ^ LENGTH('a)"
    by (meson diff_le_self le_less_trans one_less_numeral_iff power_strict_increasing semiring_norm(76))
  moreover have "(2 ^ k - 1 :: 'a word) = word_of_nat (2 ^ k - 1)"
    by (simp add: of_nat_diff)
  ultimately show ?thesis by (metis unat_of_nat mod_less)
qed

lemma unat_align_up:
  fixes v :: "'a::len word"
  assumes "unat v + 2 ^ k \<le> 2 ^ LENGTH('a)" "k < LENGTH('a)"
  shows "unat (align_up v (2 ^ k)) = round_up (unat v) (2 ^ k)"
proof -
  have "0 < (2::nat) ^ k" by simp
  with assms(1) have "unat v + (2 ^ k - 1) < 2 ^ LENGTH('a)" by linarith
  then have "unat (v + (2 ^ k - 1)) = unat v + (2 ^ k - 1)"
    using unat_add_lem [of v "2 ^ k - 1"] by (simp add: unat_mask_lt [OF assms(2)])
  then have "unat (v + 2 ^ k - 1) = unat v + 2 ^ k - 1"
    by (simp add: algebra_simps)
  then show ?thesis
    by (simp add: align_up_def round_up_def unat_and_not_mask flip: mask_eq_exp_minus_1)
qed

lemma round_up_dvd [simp]: "a dvd round_up n a"
  by (simp add: round_up_def)

lemma round_up_bounds: "0 < a \<Longrightarrow> n \<le> round_up n a \<and> round_up n a < n + a"
  using div_mult_mod_eq [of "n + a - 1" a] mod_less_divisor [of a "n + a - 1"]
  unfolding round_up_def by linarith

lemma length_load [simp]: "length (load m p n) = n"
  by (simp add: load_def)

lemma load_0 [simp]: "load m p 0 = []"
  by (simp add: load_def)

lemma load_eq_Nil_iff [simp]: "load m p n = [] \<longleftrightarrow> n = 0"
  by (metis length_load length_0_conv)

lemma nth_load [simp]: "i < n \<Longrightarrow> load m p n ! i = m (p + i)"
  by (simp add: load_def)

lemma load_Suc: "load m p (Suc n) = m p # load m (Suc p) n"
  by (rule nth_equalityI) (auto simp: nth_Cons split: nat.splits)

lemma load_append: "load m p (a + b) = load m p a @ load m (p + a) b"
  by (rule nth_equalityI) (auto simp: nth_append)

lemma take_load [simp]: "take k (load m p n) = load m p (min k n)"
  by (rule nth_equalityI) auto

lemma drop_load [simp]: "drop k (load m p n) = load m (p + k) (n - k)"
  by (rule nth_equalityI) (auto simp: ac_simps)

lemma load_store_same [simp]: "n = length bs \<Longrightarrow> load (store m p bs) p n = bs"
  by (rule nth_equalityI) (auto simp: store_def)

lemma load_store_other: "q + n \<le> p \<or> p + length bs \<le> q \<Longrightarrow> load (store m p bs) q n = load m q n"
  by (rule nth_equalityI) (auto simp: store_def)

lemma store_Nil [simp]: "store m p [] = m"
  by (rule ext) (auto simp: store_def)

lemma store_outside [simp]: "a < p \<or> p + length bs \<le> a \<Longrightarrow> store m p bs a = m a"
  by (auto simp: store_def)

lemma store_store_append: "store (store m p xs) (p + length xs) ys = store m p (xs @ ys)"
  by (rule ext) (auto simp: store_def nth_append)

lemma load_memmove_dst [simp]: "load (memmove m dst src n) dst n = load m src n"
  by (simp add: memmove_def)

lemma memmove_0 [simp]: "memmove m dst src 0 = m"
  by (simp add: memmove_def)

lemma unat_of_nat_small: "n < 2 ^ LENGTH('a) \<Longrightarrow> unat (of_nat n :: 'a::len word) = n"
  by (simp add: unat_of_nat take_bit_nat_eq_self)

lemma bit_word_unat: "bit x n \<longleftrightarrow> odd (unat x div 2 ^ n)" for x :: "'a::len word"
proof -
  have "bit (unat x) n = bit x n" by (simp add: bit_unsigned_iff)
  then show ?thesis by (simp add: bit_iff_odd)
qed

lemma ctz_bit:
  fixes x :: u64
  assumes "count_trailing_zeroes x = Some k"
  shows "bit x k" and "\<And>j. j < k \<Longrightarrow> \<not> bit x j"
proof -
  let ?P = "\<lambda>i. \<not> bit x i" and ?xs = "[0..<64]"
  have k: "k = length (takeWhile ?P ?xs)" "x \<noteq> 0" using assms by (auto simp: count_trailing_zeroes_def split: if_splits)
  have "\<exists>i\<in>set ?xs. \<not> ?P i"
  proof (rule ccontr)
    assume "\<not> (\<exists>i\<in>set ?xs. \<not> ?P i)"
    then have "x = 0" by (intro bit_word_eqI) auto
    with k show False by simp
  qed
  then have lt: "k < 64" using k takeWhile_eq_all_conv [of ?P ?xs] length_takeWhile_le [of ?P ?xs]
    by (metis (no_types, lifting) antisym_conv2 diff_zero length_upt takeWhile_eq_take take_all_iff)
  have "\<not> ?P (?xs ! k)" using nth_length_takeWhile [of ?P ?xs] k lt by simp
  then show "bit x k" using lt by simp
  show "\<not> bit x j" if "j < k" for j
  proof -
    have "takeWhile ?P ?xs ! j = ?xs ! j" using that k by (simp add: takeWhile_nth)
    moreover have "?P (takeWhile ?P ?xs ! j)" using that k nth_mem [of j "takeWhile ?P ?xs"] by (blast dest: set_takeWhileD)
    ultimately show ?thesis using that lt by simp
  qed
qed

text \<open>\<^verbatim>\<open>count_leading_zeroes\<close> is the logarithm, read from the other end.\<close>

lemma count_leading_zeroes_log:
  fixes x :: "'a::len word"
  assumes "2 ^ k \<le> unat x" "unat x < 2 ^ Suc k"
  shows "count_leading_zeroes x = Some (LENGTH('a) - Suc k)"
proof -
  have "(2::nat) ^ k < 2 ^ LENGTH('a)" using assms(1) unsigned_less [of x] by (rule le_less_trans)
  then have k: "k < LENGTH('a)" by simp
  have "unat x div 2 ^ k = 1" using assms by (simp add: div_nat_eqI)
  then have top: "bit x k" by (simp add: bit_word_unat)
  have high: "\<not> bit x i" if "i \<in> {Suc k..<LENGTH('a)}" for i
  proof -
    have "(2::nat) ^ Suc k \<le> 2 ^ i" using that by (intro power_increasing) auto
    then show ?thesis using assms(2) by (simp add: bit_word_unat)
  qed
  have "[0..<LENGTH('a)] = [0..<k] @ k # [Suc k..<LENGTH('a)]"
    using k by (metis upt_add_eq_append upt_conv_Cons le_add1 less_imp_le_nat add_0 le_add_diff_inverse)
  then have "rev [0..<LENGTH('a)] = rev [Suc k..<LENGTH('a)] @ k # rev [0..<k]" by simp
  moreover have "takeWhile (\<lambda>i. \<not> bit x i) (rev [Suc k..<LENGTH('a)] @ k # rev [0..<k]) = rev [Suc k..<LENGTH('a)]"
    using high top by (subst takeWhile_append2) auto
  moreover have "x \<noteq> 0" using assms(1) by auto
  ultimately show ?thesis by (simp add: count_leading_zeroes_def)
qed

end
