(* ===== verification/Page_List.thy ===== *)
theory Page_List
  imports Xi_Prelude
begin

text \<open>
  \<^verbatim>\<open>src/core/memory/memory.cpp\<close>: the page structures and the intrusive, index-linked lists of pages
  (\<^verbatim>\<open>page_list\<close>). A page is named by its index in the page array; index 0 is the null link. The
  array is a function from indices, so an update through a reference is a function update.
\<close>

type_synonym pageidx = nat

record page =
  pg_free :: bool
  offset_in_span :: nat
  nr_small_alloc :: nat
  span_size :: nat
  link_prev :: pageidx
  link_next :: pageidx
  pg_pool :: "nat option"
  pg_freelist :: addr

type_synonym page_array = "pageidx \<Rightarrow> page"

record page_list =
  pl_front :: pageidx
  pl_back :: pageidx

definition page_list_new :: page_list where
  "page_list_new = \<lparr>pl_front = 0, pl_back = 0\<rparr>"

definition set_prev :: "pageidx \<Rightarrow> pageidx \<Rightarrow> page_array \<Rightarrow> page_array" where
  "set_prev i p ary = ary(i := (ary i)\<lparr>link_prev := p\<rparr>)"

definition set_next :: "pageidx \<Rightarrow> pageidx \<Rightarrow> page_array \<Rightarrow> page_array" where
  "set_next i n ary = ary(i := (ary i)\<lparr>link_next := n\<rparr>)"

definition pl_empty :: "page_list \<Rightarrow> bool" where
  "pl_empty l \<longleftrightarrow> pl_front l = 0"

definition pl_erase :: "pageidx \<Rightarrow> page_array \<Rightarrow> page_list \<Rightarrow> page_array \<times> page_list" where
  "pl_erase i ary l =
     (let (ary1, l1) = (if link_next (ary i) \<noteq> 0
                        then (set_prev (link_next (ary i)) (link_prev (ary i)) ary, l)
                        else (ary, l\<lparr>pl_back := link_prev (ary i)\<rparr>))
      in if link_prev (ary1 i) \<noteq> 0
         then (set_next (link_prev (ary1 i)) (link_next (ary1 i)) ary1, l1)
         else (ary1, l1\<lparr>pl_front := link_next (ary1 i)\<rparr>))"

definition pl_push_front :: "pageidx \<Rightarrow> page_array \<Rightarrow> page_list \<Rightarrow> page_array \<times> page_list" where
  "pl_push_front i ary l =
     (let (ary1, l1) = (if pl_front l \<noteq> 0 then (set_prev (pl_front l) i ary, l)
                        else (ary, l\<lparr>pl_back := i\<rparr>))
      in (set_prev i 0 (set_next i (pl_front l1) ary1), l1\<lparr>pl_front := i\<rparr>))"

definition pl_pop_front :: "page_array \<Rightarrow> page_list \<Rightarrow> page_array \<times> page_list" where
  "pl_pop_front ary l =
     (let (ary1, l1) = (if link_next (ary (pl_front l)) \<noteq> 0
                        then (set_prev (link_next (ary (pl_front l))) 0 ary, l)
                        else (ary, l\<lparr>pl_back := 0\<rparr>))
      in (ary1, l1\<lparr>pl_front := link_next (ary1 (pl_front l1))\<rparr>))"

text \<open>\<^verbatim>\<open>find\<close>: 0 is the null pointer. The walk runs on fuel; the list's length is enough.\<close>

fun pl_find_loop :: "nat \<Rightarrow> nat \<Rightarrow> page_array \<Rightarrow> pageidx \<Rightarrow> pageidx option" where
  "pl_find_loop 0 n_pages ary n = None"
| "pl_find_loop (Suc k) n_pages ary n =
     (if n \<noteq> 0 \<and> span_size (ary n) < n_pages then pl_find_loop k n_pages ary (link_next (ary n)) else Some n)"

definition pl_find :: "nat \<Rightarrow> nat \<Rightarrow> page_array \<Rightarrow> page_list \<Rightarrow> pageidx option" where
  "pl_find fuel n_pages ary l = pl_find_loop fuel n_pages ary (pl_front l)"

section \<open>Page lists represent lists of indices\<close>

definition hd0 :: "nat \<Rightarrow> nat list \<Rightarrow> nat" where
  "hd0 d xs = (case xs of [] \<Rightarrow> d | x # _ \<Rightarrow> x)"

definition last0 :: "nat \<Rightarrow> nat list \<Rightarrow> nat" where
  "last0 d xs = (if xs = [] then d else last xs)"

fun pl_seg :: "page_array \<Rightarrow> pageidx \<Rightarrow> pageidx list \<Rightarrow> pageidx \<Rightarrow> bool" where
  "pl_seg ary p [] n = True"
| "pl_seg ary p (x # xs) n \<longleftrightarrow>
     x \<noteq> 0 \<and> link_prev (ary x) = p \<and> link_next (ary x) = hd0 n xs \<and> pl_seg ary x xs n"

definition plist :: "page_array \<Rightarrow> page_list \<Rightarrow> pageidx list \<Rightarrow> bool" where
  "plist ary l xs \<longleftrightarrow> pl_front l = hd0 0 xs \<and> pl_back l = last0 0 xs \<and> distinct xs \<and> pl_seg ary 0 xs 0"

lemma hd0_simps [simp]: "hd0 d [] = d" "hd0 d (x # xs) = x" "hd0 d (xs @ ys) = hd0 (hd0 d ys) xs"
  by (simp_all add: hd0_def split: list.splits)

lemma last0_simps [simp]: "last0 d [] = d" "last0 d (x # xs) = last0 x xs" "last0 d (xs @ ys) = last0 (last0 d xs) ys"
  by (simp_all add: last0_def)

lemma hd0_mem: "xs \<noteq> [] \<Longrightarrow> hd0 d xs \<in> set xs" "hd0 d xs = d \<or> hd0 d xs \<in> set xs"
  by (cases xs; simp)+

lemma last0_mem: "xs \<noteq> [] \<Longrightarrow> last0 d xs \<in> set xs" "last0 d xs = d \<or> last0 d xs \<in> set xs"
  by (auto simp: last0_def)

lemma pl_seg_append [simp]:
  "pl_seg ary p (xs @ ys) n \<longleftrightarrow> pl_seg ary p xs (hd0 n ys) \<and> pl_seg ary (last0 p xs) ys n"
  by (induction xs arbitrary: p) auto

lemma pl_seg_nonzero: "pl_seg ary p xs n \<Longrightarrow> x \<in> set xs \<Longrightarrow> x \<noteq> 0"
  by (induction xs arbitrary: p) auto

lemma pl_seg_cong:
  "(\<And>x. x \<in> set xs \<Longrightarrow> link_prev (ary' x) = link_prev (ary x) \<and> link_next (ary' x) = link_next (ary x)) \<Longrightarrow>
     pl_seg ary' p xs n = pl_seg ary p xs n"
  by (induction xs arbitrary: p) auto

lemma plist_cong:
  assumes "\<And>x. x \<in> set xs \<Longrightarrow> link_prev (ary' x) = link_prev (ary x) \<and> link_next (ary' x) = link_next (ary x)"
  shows "plist ary' l xs = plist ary l xs"
  using pl_seg_cong [OF assms] by (simp add: plist_def)

lemma plist_nonzero: "plist ary l xs \<Longrightarrow> x \<in> set xs \<Longrightarrow> x \<noteq> 0"
  by (auto simp: plist_def dest: pl_seg_nonzero)

lemma plist_distinct: "plist ary l xs \<Longrightarrow> distinct xs"
  by (simp add: plist_def)

lemma plist_empty: "plist ary l xs \<Longrightarrow> pl_empty l \<longleftrightarrow> xs = []"
  by (cases xs) (auto simp: plist_def pl_empty_def)

lemma plist_new [simp]: "plist ary page_list_new []"
  by (simp add: plist_def page_list_new_def)

lemma set_prev_simps [simp]:
  "link_prev (set_prev i p ary j) = (if i = j then p else link_prev (ary j))"
  "link_next (set_prev i p ary j) = link_next (ary j)"
  "link_next (set_next i p ary j) = (if i = j then p else link_next (ary j))"
  "link_prev (set_next i p ary j) = link_prev (ary j)"
  by (simp_all add: set_prev_def set_next_def)

text \<open>Changing the link at one end of a segment.\<close>

lemma pl_seg_set_prev:
  assumes "distinct xs" "pl_seg ary p xs n" "xs \<noteq> []"
  shows "pl_seg (set_prev (hd0 0 xs) q ary) q xs n"
proof -
  obtain x ys where xs: "xs = x # ys" using assms(3) by (cases xs) auto
  have "pl_seg (set_prev x q ary) x ys n = pl_seg ary x ys n"
    using assms(1) xs by (intro pl_seg_cong) auto
  with assms xs show ?thesis by simp
qed

lemma pl_seg_set_next:
  assumes "distinct xs" "pl_seg ary p xs n" "xs \<noteq> []"
  shows "pl_seg (set_next (last0 0 xs) m ary) p xs m"
proof -
  obtain ys y where xs: "xs = ys @ [y]" using assms(3) by (metis rev_exhaust)
  have "pl_seg (set_next y m ary) p ys y = pl_seg ary p ys y"
    using assms(1) xs by (intro pl_seg_cong) auto
  with assms xs show ?thesis by simp
qed

lemma pl_seg_set_other:
  "i \<notin> set xs \<Longrightarrow> pl_seg (set_prev i q ary) p xs n = pl_seg ary p xs n"
  "i \<notin> set xs \<Longrightarrow> pl_seg (set_next i q ary) p xs n = pl_seg ary p xs n"
  by (auto intro!: pl_seg_cong)

lemma plist_push_front:
  assumes "plist ary l xs" "i \<noteq> 0" "i \<notin> set xs" "pl_push_front i ary l = (ary', l')"
  shows "plist ary' l' (i # xs)"
proof (cases "xs = []")
  case True
  with assms show ?thesis by (auto simp: plist_def pl_push_front_def)
next
  case False
  let ?f = "hd0 0 xs"
  from assms(1) have P: "pl_front l = ?f" "pl_back l = last0 0 xs" "distinct xs" "pl_seg ary 0 xs 0"
    by (auto simp: plist_def)
  have "?f \<noteq> 0" using pl_seg_nonzero [OF P(4)] hd0_mem(1) [OF False] by auto
  then have r: "ary' = set_prev i 0 (set_next i ?f (set_prev ?f i ary))" "l' = l\<lparr>pl_front := i\<rparr>"
    using assms(4) P(1) by (auto simp: pl_push_front_def)
  have "pl_seg (set_prev ?f i ary) i xs 0" using P(3,4) False by (rule pl_seg_set_prev)
  then have "pl_seg ary' i xs 0" using assms(3) by (simp add: r pl_seg_set_other)
  moreover have "last0 i xs = last0 0 xs" using False by (simp add: last0_def)
  moreover have "hd0 (hd0 0 xs) xs = ?f" "link_next (ary' i) = ?f" "link_prev (ary' i) = 0" by (auto simp: r hd0_def split: list.splits)
  ultimately show ?thesis using P assms(2,3) r(2) by (simp add: plist_def)
qed

lemma plist_erase:
  assumes "plist ary l (xs @ i # ys)" "pl_erase i ary l = (ary', l')"
  shows "plist ary' l' (xs @ ys)"
proof -
  from assms(1) have P: "pl_front l = hd0 0 (xs @ i # ys)" "pl_back l = last0 0 (xs @ i # ys)"
    "distinct (xs @ i # ys)" "pl_seg ary 0 xs i" "i \<noteq> 0" "link_prev (ary i) = last0 0 xs"
    "link_next (ary i) = hd0 0 ys" "pl_seg ary i ys 0"
    by (auto simp: plist_def)
  let ?p = "last0 0 xs" and ?n = "hd0 0 ys"
  define ary1 where "ary1 = (if ys = [] then ary else set_prev ?n ?p ary)"
  have n0: "?n \<noteq> 0 \<longleftrightarrow> ys \<noteq> []" using pl_seg_nonzero [OF P(8)] hd0_mem(1) [of ys 0] by (cases ys) auto
  have p0: "?p \<noteq> 0 \<longleftrightarrow> xs \<noteq> []" using pl_seg_nonzero [OF P(4)] last0_mem(1) [of xs 0] by (cases "xs = []") auto
  have ni: "?n \<noteq> i" "?p \<noteq> i" using P(3,5) hd0_mem(2) [of 0 ys] last0_mem(2) [of 0 xs] by auto
  have i1: "link_prev (ary1 i) = ?p" "link_next (ary1 i) = ?n" using P(6,7) ni by (auto simp: ary1_def)
  have r: "ary' = (if xs = [] then ary1 else set_next ?p ?n ary1)"
    "pl_front l' = (if xs = [] then ?n else pl_front l)" "pl_back l' = (if ys = [] then ?p else pl_back l)"
    using assms(2) n0 p0 i1 P(6,7) by (auto simp: pl_erase_def ary1_def split: if_splits)
  have nx: "?n \<notin> set xs" if "ys \<noteq> []" using P(3) hd0_mem(1) [OF that, of 0] by auto
  have px: "?p \<notin> set ys" if "xs \<noteq> []" using P(3) last0_mem(1) [OF that, of 0] by auto
  have sx: "pl_seg ary1 0 xs i" using P(4) nx by (auto simp: ary1_def pl_seg_set_other)
  have sy: "pl_seg ary1 ?p ys 0"
    using P(3,8) pl_seg_set_prev [of ys ary i 0 ?p] by (cases "ys = []") (auto simp: ary1_def)
  have "pl_seg ary' 0 xs ?n"
    using sx P(3) pl_seg_set_next [of xs ary1 0 i ?n] by (cases "xs = []") (auto simp: r)
  moreover have "pl_seg ary' ?p ys 0" using sy px by (auto simp: r pl_seg_set_other)
  moreover have "pl_front l' = hd0 0 (xs @ ys)" "pl_back l' = last0 0 (xs @ ys)"
    using P(1,2) by (cases xs; auto simp: r last0_def)+
  ultimately show ?thesis using P(3) by (simp add: plist_def)
qed

lemma plist_pop_front:
  assumes "plist ary l (x # xs)" "pl_pop_front ary l = (ary', l')"
  shows "plist ary' l' xs"
proof -
  from assms(1) have P: "pl_front l = x" "pl_back l = last0 x xs" "distinct (x # xs)" "x \<noteq> 0"
    "link_next (ary x) = hd0 0 xs" "pl_seg ary x xs 0" by (auto simp: plist_def)
  have n0: "hd0 0 xs \<noteq> 0 \<longleftrightarrow> xs \<noteq> []" using pl_seg_nonzero [OF P(6)] by (cases xs) auto
  show ?thesis
  proof (cases "xs = []")
    case True
    with assms(2) P show ?thesis by (auto simp: pl_pop_front_def plist_def)
  next
    case False
    with assms(2) P n0 have "ary' = set_prev (hd0 0 xs) 0 ary" "pl_front l' = hd0 0 xs" "pl_back l' = last0 x xs"
      by (auto simp: pl_pop_front_def)
    with False P pl_seg_set_prev [of xs ary x 0 0] show ?thesis by (simp add: plist_def last0_def)
  qed
qed

text \<open>\<^verbatim>\<open>find\<close> is first fit.\<close>

definition first_fit :: "nat \<Rightarrow> page_array \<Rightarrow> pageidx list \<Rightarrow> pageidx" where
  "first_fit n ary xs = (case find (\<lambda>x. n \<le> span_size (ary x)) xs of None \<Rightarrow> 0 | Some x \<Rightarrow> x)"

lemma pl_find_loop_seg:
  "pl_seg ary p xs 0 \<Longrightarrow> length xs < k \<Longrightarrow> pl_find_loop k n ary (hd0 0 xs) = Some (first_fit n ary xs)"
proof (induction xs arbitrary: p k)
  case Nil then show ?case by (cases k) (auto simp: first_fit_def)
next
  case (Cons x xs)
  then obtain j where "k = Suc j" by (cases k) auto
  with Cons show ?case by (auto simp: first_fit_def)
qed

lemma plist_find: "plist ary l xs \<Longrightarrow> length xs < k \<Longrightarrow> pl_find k n ary l = Some (first_fit n ary xs)"
  by (auto simp: plist_def pl_find_def intro: pl_find_loop_seg)

lemma first_fit_cases:
  assumes "0 \<notin> set xs"
  shows "first_fit n ary xs = 0 \<and> (\<forall>x \<in> set xs. span_size (ary x) < n) \<or>
    first_fit n ary xs \<in> set xs \<and> n \<le> span_size (ary (first_fit n ary xs))"
  using assms by (auto simp: first_fit_def find_None_iff find_Some_iff not_le split: option.splits)

text \<open>The list operations change links only, and only of the list's own pages and the one handled.\<close>

definition same_but_links :: "page_array \<Rightarrow> page_array \<Rightarrow> bool" where
  "same_but_links ary ary' \<longleftrightarrow> (\<forall>i. \<exists>p n. ary' i = (ary i)\<lparr>link_prev := p, link_next := n\<rparr>)"

lemma same_but_linksD:
  assumes "same_but_links ary ary'"
  shows "pg_free (ary' i) = pg_free (ary i)" "offset_in_span (ary' i) = offset_in_span (ary i)"
    "nr_small_alloc (ary' i) = nr_small_alloc (ary i)" "span_size (ary' i) = span_size (ary i)"
    "pg_pool (ary' i) = pg_pool (ary i)" "pg_freelist (ary' i) = pg_freelist (ary i)"
  using assms unfolding same_but_links_def by (metis page.simps page.select_convs page.surjective page.update_convs)+

lemma same_but_links_refl [simp]: "same_but_links ary ary"
  unfolding same_but_links_def by (metis page.surjective page.update_convs(5,6))

lemma same_but_links_set [simp]:
  "same_but_links ary ary1 \<Longrightarrow> same_but_links ary (set_prev i p ary1)"
  "same_but_links ary ary1 \<Longrightarrow> same_but_links ary (set_next i n ary1)"
proof -
  assume A: "same_but_links ary ary1"
  have "\<exists>q m. set_prev i p ary1 j = (ary j)\<lparr>link_prev := q, link_next := m\<rparr>" for j
  proof -
    from A obtain q m where "ary1 j = (ary j)\<lparr>link_prev := q, link_next := m\<rparr>" unfolding same_but_links_def by blast
    then have "set_prev i p ary1 j = (ary j)\<lparr>link_prev := if i = j then p else q, link_next := m\<rparr>"
      by (auto simp: set_prev_def)
    then show ?thesis by blast
  qed
  then show "same_but_links ary (set_prev i p ary1)" by (simp add: same_but_links_def)
  have "\<exists>q m. set_next i n ary1 j = (ary j)\<lparr>link_prev := q, link_next := m\<rparr>" for j
  proof -
    from A obtain q m where "ary1 j = (ary j)\<lparr>link_prev := q, link_next := m\<rparr>" unfolding same_but_links_def by blast
    then have "set_next i n ary1 j = (ary j)\<lparr>link_prev := q, link_next := if i = j then n else m\<rparr>"
      by (auto simp: set_next_def)
    then show ?thesis by blast
  qed
  then show "same_but_links ary (set_next i n ary1)" by (simp add: same_but_links_def)
qed

lemma set_other [simp]: "j \<noteq> i \<Longrightarrow> set_prev i p ary j = ary j" "j \<noteq> i \<Longrightarrow> set_next i p ary j = ary j"
  by (simp_all add: set_prev_def set_next_def)

lemma pl_push_front_frame:
  assumes "pl_push_front i ary l = (ary', l')"
  shows "same_but_links ary ary'" "plist ary l xs \<Longrightarrow> j \<notin> set (i # xs) \<Longrightarrow> ary' j = ary j"
proof -
  show "same_but_links ary ary'" using assms by (auto simp: pl_push_front_def Let_def split: if_splits)
  assume P: "plist ary l xs" and j: "j \<notin> set (i # xs)"
  have "j \<noteq> pl_front l \<or> pl_front l = 0" using P j hd0_mem(2) [of 0 xs] by (auto simp: plist_def)
  with assms j show "ary' j = ary j" by (auto simp: pl_push_front_def Let_def split: if_splits)
qed

lemma pl_erase_frame:
  assumes "pl_erase i ary l = (ary', l')"
  shows "same_but_links ary ary'"
    "plist ary l (xs @ i # ys) \<Longrightarrow> j \<notin> set (xs @ ys) \<Longrightarrow> ary' j = ary j"
proof -
  show "same_but_links ary ary'" using assms by (auto simp: pl_erase_def Let_def split: if_splits)
  assume P: "plist ary l (xs @ i # ys)" and j: "j \<notin> set (xs @ ys)"
  from P have lk: "link_prev (ary i) = last0 0 xs" "link_next (ary i) = hd0 0 ys" "i \<noteq> 0" "distinct (xs @ i # ys)"
    by (auto simp: plist_def)
  have n: "link_next (ary i) = 0 \<or> link_next (ary i) \<noteq> j \<and> link_next (ary i) \<noteq> i"
    and p: "link_prev (ary i) = 0 \<or> link_prev (ary i) \<noteq> j"
    using j lk hd0_mem(2) [of 0 ys] last0_mem(2) [of 0 xs] by auto
  with assms show "ary' j = ary j" by (auto simp: pl_erase_def Let_def split: if_splits)
qed

end
