(* ===== verification/Cpu_Pages.thy ===== *)
theory Cpu_Pages
  imports Page_List
begin

text \<open>
  \<^verbatim>\<open>src/core/memory/memory.cpp\<close> (the branch that replaces the C allocator) and
  \<^verbatim>\<open>xi/core/memory/memory.h\<close>: one cpu's pool of pages, its free spans, its small pools, reclaiming,
  and the frees other cpus hand over. Page indices and page counts are 32-bit, written with
  \<open>add32\<close> and \<open>sub32\<close> where they change. Address 0 is the null pointer; \<open>obj_next\<close> is the \<^verbatim>\<open>next\<close>
  word of the free objects.
\<close>

abbreviation (input) page_bits :: nat where "page_bits \<equiv> 12"
abbreviation (input) page_size :: nat where "page_size \<equiv> 4096"
abbreviation (input) huge_page_size :: nat where "huge_page_size \<equiv> 512 * page_size"
abbreviation (input) nr_span_lists :: nat where "nr_span_lists \<equiv> 32"
abbreviation (input) cpu_id_shift :: nat where "cpu_id_shift \<equiv> 36"
abbreviation (input) max_cpus :: nat where "max_cpus \<equiv> 256"
abbreviation (input) min_free_pages :: nat where "min_free_pages \<equiv> 20000000 div page_size"
abbreviation (input) sizeof_page :: nat where "sizeof_page \<equiv> 32"
abbreviation (input) sizeof_free_object :: nat where "sizeof_free_object \<equiv> 8"

datatype reclaimer_scope = Async | Sync

fun scope_ge :: "reclaimer_scope \<Rightarrow> reclaimer_scope \<Rightarrow> bool" where
  "scope_ge Async Sync = False"
| "scope_ge _ _ = True"

record small_pool =
  object_size :: nat
  pool_span_size :: nat
  pool_free :: addr
  free_count :: nat
  min_free :: nat
  max_free :: nat
  spans_in_use :: nat
  span_list :: page_list

record cpu_pages =
  memory_at :: addr
  pages_at :: addr
  pages :: page_array
  nr_pages :: nat
  nr_free_pages :: nat
  current_min_free_pages :: nat
  cpu_id :: nat
  free_spans :: "nat \<Rightarrow> page_list"
  small_pools :: "nat \<Rightarrow> small_pool"
  reclaimers :: "(nat \<times> reclaimer_scope) list"
  hook_calls :: nat
  xcpu_freelist :: addr
  obj_next :: "addr \<Rightarrow> addr"
  xcpu_sent :: "(nat \<times> addr) list"
  g_allocs :: nat
  g_frees :: nat
  g_cross_cpu_frees :: nat
  g_reclaims :: nat

text \<open>
  What lies outside: the base of the address space, the cpu number handed out at initialization,
  which cpus are alive, the registered reclaimers' code, and a bound on the rounds of the loops
  that wait for reclaimers or walk the list of frees from other cpus.
\<close>

record mem_env =
  env_base :: addr
  env_ticket :: nat
  env_live :: "nat \<Rightarrow> bool"
  env_reclaim :: "nat \<Rightarrow> cpu_pages \<Rightarrow> bool \<times> cpu_pages"
  env_rounds :: nat

text \<open>A call returns, throws \<^verbatim>\<open>std::bad_alloc\<close>, or aborts (a failed assertion, or out of rounds).\<close>

datatype ('a, 's) outcome = Returned 'a 's | Thrown 's | Aborted

fun obind :: "('a, 's) outcome \<Rightarrow> ('a \<Rightarrow> 's \<Rightarrow> ('b, 's) outcome) \<Rightarrow> ('b, 's) outcome" where
  "obind (Returned a s) f = f a s"
| "obind (Thrown s) f = Thrown s"
| "obind Aborted f = Aborted"

definition or_abort :: "('a \<times> 's) option \<Rightarrow> ('a, 's) outcome" where
  "or_abort r = (case r of None \<Rightarrow> Aborted | Some (a, s) \<Rightarrow> Returned a s)"

definition object_cpu_id :: "addr \<Rightarrow> nat" where
  "object_cpu_id p = p div 2 ^ cpu_id_shift mod 256"

definition to_page :: "addr \<Rightarrow> cpu_pages \<Rightarrow> pageidx" where
  "to_page p c = (p - memory_at c) div page_size"

definition index_of :: "nat \<Rightarrow> nat option" where
  "index_of n = map_option (\<lambda>z. 32 - z - 1) (count_leading_zeroes (of_nat n :: u32))"

definition index_of_conservative :: "nat \<Rightarrow> nat option" where
  "index_of_conservative n =
     (if n = 1 then Some 0
      else map_option (\<lambda>z. 32 - z) (count_leading_zeroes (of_nat (sub32 n 1) :: u32)))"

definition upd_page :: "pageidx \<Rightarrow> (page \<Rightarrow> page) \<Rightarrow> cpu_pages \<Rightarrow> cpu_pages" where
  "upd_page i f c = c\<lparr>pages := (pages c)(i := f (pages c i))\<rparr>"

definition unlink :: "nat \<Rightarrow> pageidx \<Rightarrow> cpu_pages \<Rightarrow> cpu_pages" where
  "unlink idx span c =
     (let (ary, l) = pl_erase span (pages c) (free_spans c idx)
      in c\<lparr>pages := ary, free_spans := (free_spans c)(idx := l)\<rparr>)"

definition link :: "nat \<Rightarrow> pageidx \<Rightarrow> cpu_pages \<Rightarrow> cpu_pages" where
  "link idx span c =
     (let (ary, l) = pl_push_front span (pages c) (free_spans c idx)
      in c\<lparr>pages := ary, free_spans := (free_spans c)(idx := l)\<rparr>)"

section \<open>Spans\<close>

definition free_span_no_merge :: "pageidx \<Rightarrow> nat \<Rightarrow> cpu_pages \<Rightarrow> cpu_pages option" where
  "free_span_no_merge start n c =
     (if n = 0 then None
      else let e = sub32 (add32 start n) 1;
               c1 = c\<lparr>nr_free_pages := add32 (nr_free_pages c) n\<rparr>;
               c2 = upd_page start (pg_free_update (\<lambda>_. True)) (upd_page e (pg_free_update (\<lambda>_. True)) c1);
               c3 = upd_page start (span_size_update (\<lambda>_. n)) (upd_page e (span_size_update (\<lambda>_. n)) c2)
           in map_option (\<lambda>idx. link idx start c3) (index_of n))"

text \<open>The two halves of \<^verbatim>\<open>free_span\<close>: absorb the free span before, then the one behind.\<close>

definition merge_before :: "pageidx \<Rightarrow> nat \<Rightarrow> cpu_pages \<Rightarrow> (pageidx \<times> nat \<times> cpu_pages) option" where
  "merge_before start n c =
     (let before = sub32 start 1
      in if pg_free (pages c before)
         then let b_size = span_size (pages c before)
              in if b_size = 0 then None
                 else map_option (\<lambda>idx. (sub32 start b_size, add32 n b_size,
                          unlink idx (before - (b_size - 1))
                            (c\<lparr>nr_free_pages := sub32 (nr_free_pages c) b_size\<rparr>)))
                        (index_of b_size)
         else Some (start, n, c))"

definition merge_after :: "pageidx \<Rightarrow> nat \<Rightarrow> cpu_pages \<Rightarrow> (nat \<times> cpu_pages) option" where
  "merge_after start n c =
     (let after = add32 start n
      in if pg_free (pages c after)
         then let a_size = span_size (pages c after)
              in if a_size = 0 then None
                 else map_option (\<lambda>idx. (add32 n a_size,
                          unlink idx after (c\<lparr>nr_free_pages := sub32 (nr_free_pages c) a_size\<rparr>)))
                        (index_of a_size)
         else Some (n, c))"

definition free_span :: "pageidx \<Rightarrow> nat \<Rightarrow> cpu_pages \<Rightarrow> cpu_pages option" where
  "free_span start n c =
     do { (start1, n1, c1) \<leftarrow> merge_before start n c;
          (n2, c2) \<leftarrow> merge_after start1 n1 c1;
          free_span_no_merge start1 n2 c2 }"

text \<open>
  A cpu that goes away is no longer offered frees; \<^verbatim>\<open>live_cpus\<close> and \<^verbatim>\<open>all_cpus\<close> are shared by all
  cpus, so they belong to the environment, which the caller of \<^verbatim>\<open>initialize\<close> updates with
  \<open>announce_cpu\<close> when it succeeded.
\<close>

definition announce_cpu :: "nat \<Rightarrow> mem_env \<Rightarrow> mem_env" where
  "announce_cpu k env = env\<lparr>env_live := (env_live env)(k := True)\<rparr>"

definition cpu_pages_destroy :: "cpu_pages \<Rightarrow> mem_env \<Rightarrow> mem_env" where
  "cpu_pages_destroy c env = env\<lparr>env_live := (env_live env)(cpu_id c := False)\<rparr>"

definition is_initialized :: "cpu_pages \<Rightarrow> bool" where
  "is_initialized c \<longleftrightarrow> nr_pages c \<noteq> 0"

definition zero_page :: page where
  "zero_page = \<lparr>pg_free = False, offset_in_span = 0, nr_small_alloc = 0, span_size = 0,
     link_prev = 0, link_next = 0, pg_pool = None, pg_freelist = 0\<rparr>"

text \<open>
  \<^verbatim>\<open>initialize\<close>: the mapping is anonymous, so the page array starts out zeroed; marking the first
  pages and the one past the last as taken leaves them as they are.
\<close>

definition initialize :: "mem_env \<Rightarrow> cpu_pages \<Rightarrow> (bool \<times> cpu_pages) option" where
  "initialize env c =
     (if is_initialized c then Some (False, c)
      else if \<not> env_ticket env < max_cpus then None
      else let base = env_base env + env_ticket env * 2 ^ cpu_id_shift;
               size = 32 * 2 ^ 20;
               n = size div page_size;
               reserved = round_up (sizeof_page * (n + 1)) page_size div page_size;
               ary = (\<lambda>i. if i < reserved \<or> i = n then zero_page\<lparr>pg_free := False\<rparr> else zero_page)
           in map_option (\<lambda>c'. (True, c'))
                (free_span_no_merge reserved (n - reserved)
                   (c\<lparr>cpu_id := env_ticket env, memory_at := base, pages_at := base, pages := ary,
                      nr_pages := n\<rparr>)))"

definition next_nonempty :: "nat \<Rightarrow> cpu_pages \<Rightarrow> nat" where
  "next_nonempty idx c =
     (case find (\<lambda>i. \<not> pl_empty (free_spans c i)) [idx..<nr_span_lists] of None \<Rightarrow> nr_span_lists | Some i \<Rightarrow> i)"

definition take_from_list :: "nat \<Rightarrow> nat \<Rightarrow> cpu_pages \<Rightarrow> (pageidx, cpu_pages) outcome" where
  "take_from_list idx n c =
     (case pl_find (nr_pages c + 1) n (pages c) (free_spans c idx) of
        None \<Rightarrow> Aborted
      | Some span \<Rightarrow> if span = 0 then Returned 0 c else Returned span (unlink idx span c))"

text \<open>\<^verbatim>\<open>find_and_unlink_span\<close> calls itself once more after a first initialization; \<open>depth\<close> counts that.\<close>

fun find_and_unlink :: "nat \<Rightarrow> mem_env \<Rightarrow> nat \<Rightarrow> cpu_pages \<Rightarrow> (pageidx, cpu_pages) outcome" where
  "find_and_unlink 0 env n c = Aborted"
| "find_and_unlink (Suc depth) env n c =
     (case index_of_conservative n of
        None \<Rightarrow> Aborted
      | Some orig_idx \<Rightarrow>
          if nr_span_lists \<le> orig_idx then Aborted
          else if 2 * 2 ^ orig_idx mod 2 ^ 32 \<le> n then Thrown c
          else let idx = next_nonempty orig_idx c
               in if idx = nr_span_lists
                  then (case initialize env c of
                          None \<Rightarrow> Aborted
                        | Some (True, c') \<Rightarrow> find_and_unlink depth env n c'
                        | Some (False, c') \<Rightarrow>
                            (case index_of n of
                               None \<Rightarrow> Aborted
                             | Some i \<Rightarrow> if i = orig_idx then Returned 0 c' else take_from_list i n c'))
                  else take_from_list idx n c)"

definition find_and_unlink_span :: "mem_env \<Rightarrow> nat \<Rightarrow> cpu_pages \<Rightarrow> (pageidx, cpu_pages) outcome" where
  "find_and_unlink_span env n c = find_and_unlink 2 env n c"

section \<open>Small pools\<close>

definition set_pool :: "nat \<Rightarrow> (small_pool \<Rightarrow> small_pool) \<Rightarrow> cpu_pages \<Rightarrow> cpu_pages" where
  "set_pool k f c = c\<lparr>small_pools := (small_pools c)(k := f (small_pools c k))\<rparr>"

abbreviation (input) idx_frac_bits :: nat where "idx_frac_bits \<equiv> 2"

definition idx_to_size :: "nat \<Rightarrow> nat" where
  "idx_to_size idx = (4 + idx mod 4) * 2 ^ (idx div 4) div 4"

definition log2ceil :: "nat \<Rightarrow> nat option" where
  "log2ceil n = map_option (\<lambda>z. 32 - z) (count_leading_zeroes (of_nat (sub32 n 1) :: u32))"

definition log2floor :: "nat \<Rightarrow> nat option" where
  "log2floor n = map_option (\<lambda>z. 32 - z - 1) (count_leading_zeroes (of_nat n :: u32))"

definition usizeo_idx :: "nat \<Rightarrow> nat option" where
  "usizeo_idx sz =
     (case log2floor sz of None \<Rightarrow> None
      | Some l \<Rightarrow> if l < idx_frac_bits then None
                 else Some ((l * 4 - 3) + (sz - 1) div 2 ^ (l - idx_frac_bits)))"

definition nr_small_pools :: nat where
  "nr_small_pools = (case usizeo_idx (4 * page_size) of None \<Rightarrow> 0 | Some k \<Rightarrow> k + 1)"

definition max_small_allocation :: nat where
  "max_small_allocation = idx_to_size (nr_small_pools - 1)"

text \<open>
  The constructor doubles the span until the objects fit with little waste. The waste is an exact
  binary fraction, so comparing it with 0.05 is comparing integers.
\<close>

definition waste_above_limit :: "nat \<Rightarrow> nat \<Rightarrow> bool" where
  "waste_above_limit osize ssize \<longleftrightarrow> 20 * (ssize * page_size mod osize) > ssize * page_size"

definition span_too_small :: "nat \<Rightarrow> nat \<Rightarrow> bool" where
  "span_too_small osize ssize \<longleftrightarrow>
     osize > ssize * page_size \<or>
     (ssize < 32 \<and> waste_above_limit osize ssize) \<or>
     ssize * page_size div osize < 32"

fun grow_span :: "nat \<Rightarrow> nat \<Rightarrow> nat \<Rightarrow> nat option" where
  "grow_span 0 osize ssize = None"
| "grow_span (Suc k) osize ssize =
     (if span_too_small osize ssize then grow_span k osize (ssize * 2) else Some ssize)"

definition small_pool_new :: "nat \<Rightarrow> small_pool option" where
  "small_pool_new osize =
     map_option (\<lambda>ssize. let mx = max 100 (ssize * page_size * 2 div osize)
        in \<lparr>object_size = osize, pool_span_size = ssize, pool_free = 0, free_count = 0,
            min_free = mx div 2, max_free = mx, spans_in_use = 0, span_list = page_list_new\<rparr>)
       (grow_span 20 osize 1)"

text \<open>
  The array of pools, one per size class, and a cpu's pages before they are initialized. The array
  is accessed below \<open>nr_small_pools\<close> only.
\<close>

definition small_pool_array_new :: "nat \<Rightarrow> small_pool" where
  "small_pool_array_new i =
     (case small_pool_new (idx_to_size i) of
        Some p \<Rightarrow> p
      | None \<Rightarrow> \<lparr>object_size = 0, pool_span_size = 0, pool_free = 0, free_count = 0, min_free = 0, max_free = 0,
                 spans_in_use = 0, span_list = page_list_new\<rparr>)"

definition cpu_pages_new :: cpu_pages where
  "cpu_pages_new =
     \<lparr>memory_at = 0, pages_at = 0, pages = (\<lambda>_. zero_page), nr_pages = 0, nr_free_pages = 0,
      current_min_free_pages = 0, cpu_id = 2 ^ 32 - 1, free_spans = (\<lambda>_. page_list_new),
      small_pools = small_pool_array_new, reclaimers = [], hook_calls = 0, xcpu_freelist = 0,
      obj_next = (\<lambda>_. 0), xcpu_sent = [], g_allocs = 0, g_frees = 0, g_cross_cpu_frees = 0, g_reclaims = 0\<rparr>"

text \<open>One round of \<^verbatim>\<open>trim_free_list\<close>: the first free object goes back to its span, the span maybe to the pages.\<close>

definition trim_one :: "nat \<Rightarrow> cpu_pages \<Rightarrow> cpu_pages option" where
  "trim_one k c =
     (let obj = pool_free (small_pools c k);
          c1 = set_pool k (\<lambda>p. p\<lparr>pool_free := obj_next c obj, free_count := free_count p - 1\<rparr>) c;
          pg = to_page obj c1;
          span = pg - offset_in_span (pages c1 pg);
          c2 = (if pg_freelist (pages c1 span) = 0
                then let c' = upd_page span (\<lambda>p. p\<lparr>link_prev := 0, link_next := 0\<rparr>) c1;
                         (ary, l) = pl_push_front span (pages c') (span_list (small_pools c' k))
                     in set_pool k (span_list_update (\<lambda>_. l)) (c'\<lparr>pages := ary\<rparr>)
                else c1);
          c3 = c2\<lparr>obj_next := (obj_next c2)(obj := pg_freelist (pages c2 span))\<rparr>;
          c4 = upd_page span (\<lambda>p. p\<lparr>pg_freelist := obj, nr_small_alloc := (nr_small_alloc p + 65535) mod 65536\<rparr>) c3
      in if nr_small_alloc (pages c4 span) = 0
         then let (ary, l) = pl_erase span (pages c4) (span_list (small_pools c4 k));
                  c5 = set_pool k (span_list_update (\<lambda>_. l)) (c4\<lparr>pages := ary\<rparr>)
              in map_option (set_pool k (\<lambda>p. p\<lparr>spans_in_use := sub32 (spans_in_use p) 1\<rparr>))
                   (free_span span (span_size (pages c5 span)) c5)
         else Some c4)"

fun trim_loop :: "nat \<Rightarrow> nat \<Rightarrow> nat \<Rightarrow> cpu_pages \<Rightarrow> cpu_pages option" where
  "trim_loop 0 goal k c = None"
| "trim_loop (Suc n) goal k c =
     (if pool_free (small_pools c k) \<noteq> 0 \<and> free_count (small_pools c k) > goal
      then do { c' \<leftarrow> trim_one k c; trim_loop n goal k c' }
      else Some c)"

definition trim_free_list :: "nat \<Rightarrow> cpu_pages \<Rightarrow> cpu_pages option" where
  "trim_free_list k c =
     (let p = small_pools c k in trim_loop (free_count p + 1) ((min_free p + max_free p) div 2) k c)"

definition pool_destroy :: "nat \<Rightarrow> cpu_pages \<Rightarrow> cpu_pages option" where
  "pool_destroy k c = trim_free_list k (set_pool k (\<lambda>p. p\<lparr>min_free := 0, max_free := 0\<rparr>) c)"

definition pool_deallocate :: "nat \<Rightarrow> addr \<Rightarrow> cpu_pages \<Rightarrow> cpu_pages option" where
  "pool_deallocate k obj c =
     (let c1 = c\<lparr>obj_next := (obj_next c)(obj := pool_free (small_pools c k))\<rparr>;
          c2 = set_pool k (\<lambda>p. p\<lparr>pool_free := obj, free_count := free_count p + 1\<rparr>) c1
      in if free_count (small_pools c2 k) \<ge> max_free (small_pools c2 k) then trim_free_list k c2 else Some c2)"

section \<open>Freeing\<close>

definition cpu_free_large :: "addr \<Rightarrow> cpu_pages \<Rightarrow> cpu_pages option" where
  "cpu_free_large p c = (let idx = to_page p c in free_span idx (span_size (pages c idx)) c)"

definition cpu_object_size :: "addr \<Rightarrow> cpu_pages \<Rightarrow> usize" where
  "cpu_object_size p c =
     (let span = pages c (to_page p c)
      in case pg_pool span of Some k \<Rightarrow> object_size (small_pools c k)
         | None \<Rightarrow> span_size span * page_size)"

text \<open>
  \<^verbatim>\<open>free_cross_cpu\<close>: the object is handed to its cpu; \<open>cross_cpu_push\<close> is the exchange loop as the
  receiving cpu sees it.
\<close>

definition free_cross_cpu :: "mem_env \<Rightarrow> nat \<Rightarrow> addr \<Rightarrow> cpu_pages \<Rightarrow> cpu_pages" where
  "free_cross_cpu env cpu p c =
     (if \<not> env_live env cpu then c
      else c\<lparr>xcpu_sent := xcpu_sent c @ [(cpu, p)], g_cross_cpu_frees := uadd (g_cross_cpu_frees c) 1\<rparr>)"

definition cross_cpu_push :: "addr \<Rightarrow> cpu_pages \<Rightarrow> cpu_pages" where
  "cross_cpu_push p c = c\<lparr>obj_next := (obj_next c)(p := xcpu_freelist c), xcpu_freelist := p\<rparr>"

definition cpu_free :: "mem_env \<Rightarrow> addr \<Rightarrow> cpu_pages \<Rightarrow> cpu_pages option" where
  "cpu_free env p c =
     (if object_cpu_id p \<noteq> cpu_id c then Some (free_cross_cpu env (object_cpu_id p) p c)
      else case pg_pool (pages c (to_page p c)) of
             Some k \<Rightarrow> pool_deallocate k p c
           | None \<Rightarrow> cpu_free_large p c)"

definition cpu_free_sized :: "mem_env \<Rightarrow> addr \<Rightarrow> usize \<Rightarrow> cpu_pages \<Rightarrow> cpu_pages option" where
  "cpu_free_sized env p sz c =
     (let sz' = (if sz \<le> sizeof_free_object then sizeof_free_object else sz)
      in if object_cpu_id p \<noteq> cpu_id c then Some (free_cross_cpu env (object_cpu_id p) p c)
         else if sz' \<le> max_small_allocation
         then (case usizeo_idx sz' of None \<Rightarrow> None | Some k \<Rightarrow> pool_deallocate k p c)
         else cpu_free_large p c)"

fun drain_loop :: "nat \<Rightarrow> mem_env \<Rightarrow> addr \<Rightarrow> cpu_pages \<Rightarrow> cpu_pages option" where
  "drain_loop 0 env p c = None"
| "drain_loop (Suc n) env p c =
     (if p = 0 then Some c
      else let nx = obj_next c p in do { c' \<leftarrow> cpu_free env p c; drain_loop n env nx c' })"

definition drain_cross_cpu_freelist :: "mem_env \<Rightarrow> cpu_pages \<Rightarrow> (bool \<times> cpu_pages) option" where
  "drain_cross_cpu_freelist env c =
     (if xcpu_freelist c = 0 then Some (False, c)
      else map_option (\<lambda>c'. (True, c'))
             (drain_loop (env_rounds env) env (xcpu_freelist c) (c\<lparr>xcpu_freelist := 0\<rparr>)))"

definition cpu_shrink :: "addr \<Rightarrow> usize \<Rightarrow> cpu_pages \<Rightarrow> cpu_pages option" where
  "cpu_shrink p new_size c =
     (if object_cpu_id p \<noteq> cpu_id c then None
      else let span = to_page p c
           in if pg_pool (pages c span) \<noteq> None then Some c
              else let new_pages = round_up new_size page_size div page_size;
                       old_pages = span_size (pages c span)
                   in if \<not> new_pages \<le> old_pages then None
                      else if new_pages = old_pages then Some c
                      else let c1 = upd_page span (span_size_update (\<lambda>_. new_pages)) c;
                               c2 = upd_page (span + new_pages - 1)
                                      (\<lambda>g. g\<lparr>pg_free := False, span_size := new_pages\<rparr>) c1
                           in free_span (span + new_pages) (old_pages - new_pages) c2)"

section \<open>Reclaiming and large allocations\<close>

fun reclaim_round :: "mem_env \<Rightarrow> reclaimer_scope \<Rightarrow> (nat \<times> reclaimer_scope) list \<Rightarrow> cpu_pages \<Rightarrow> bool \<times> cpu_pages" where
  "reclaim_round env scope [] c = (False, c)"
| "reclaim_round env scope ((r, sc) # rs) c =
     (if scope_ge sc scope
      then let (a, c1) = env_reclaim env r c; (b, c2) = reclaim_round env scope rs c1 in (a \<or> b, c2)
      else reclaim_round env scope rs c)"

fun reclaim_loop :: "nat \<Rightarrow> mem_env \<Rightarrow> reclaimer_scope \<Rightarrow> nat \<Rightarrow> bool \<Rightarrow> cpu_pages \<Rightarrow> (bool \<times> cpu_pages) option" where
  "reclaim_loop 0 env scope target result c = None"
| "reclaim_loop (Suc n) env scope target result c =
     (if nr_free_pages c < target
      then let (made_progress, c') = reclaim_round env scope (reclaimers c) (c\<lparr>g_reclaims := uadd (g_reclaims c) 1\<rparr>)
           in if made_progress then reclaim_loop n env scope target True c' else Some (result, c')
      else Some (result, c))"

definition run_reclaimers :: "mem_env \<Rightarrow> reclaimer_scope \<Rightarrow> cpu_pages \<Rightarrow> (bool \<times> cpu_pages) option" where
  "run_reclaimers env scope c =
     reclaim_loop (env_rounds env + 1) env scope (max (add32 (nr_free_pages c) 1) min_free_pages) False c"

definition schedule_reclaim :: "cpu_pages \<Rightarrow> cpu_pages" where
  "schedule_reclaim c = c\<lparr>current_min_free_pages := 0, hook_calls := hook_calls c + 1\<rparr>"

text \<open>What the hook runs later.\<close>

definition reclaim_callback :: "mem_env \<Rightarrow> cpu_pages \<Rightarrow> cpu_pages option" where
  "reclaim_callback env c =
     map_option (current_min_free_pages_update (\<lambda>_. min_free_pages))
       (if nr_free_pages c < min_free_pages then map_option snd (run_reclaimers env Async c) else Some c)"

definition set_reclaim_hook :: "cpu_pages \<Rightarrow> cpu_pages" where
  "set_reclaim_hook c = c\<lparr>current_min_free_pages := min_free_pages\<rparr>"

fun find_reclaiming :: "nat \<Rightarrow> mem_env \<Rightarrow> nat \<Rightarrow> cpu_pages \<Rightarrow> (pageidx, cpu_pages) outcome" where
  "find_reclaiming 0 env n c = Aborted"
| "find_reclaiming (Suc k) env n c =
     obind (find_and_unlink_span env n c)
       (\<lambda>span c1. if span \<noteq> 0 then Returned span c1
                  else case run_reclaimers env Sync c1 of
                         None \<Rightarrow> Aborted
                       | Some (something, c2) \<Rightarrow> if something then find_reclaiming k env n c2 else Returned 0 c2)"

definition find_and_unlink_span_reclaiming :: "mem_env \<Rightarrow> nat \<Rightarrow> cpu_pages \<Rightarrow> (pageidx, cpu_pages) outcome" where
  "find_and_unlink_span_reclaiming env n c = find_reclaiming (env_rounds env + 1) env n c"

record trim =
  trim_offset :: nat
  trim_pages :: nat

text \<open>Cutting the span that was found: what is in front and what is behind goes back.\<close>

definition cut_span :: "pageidx \<Rightarrow> trim \<Rightarrow> cpu_pages \<Rightarrow> (pageidx \<times> cpu_pages) option" where
  "cut_span span t c =
     (let size0 = span_size (pages c span);
          c1 = c\<lparr>nr_free_pages := sub32 (nr_free_pages c) size0\<rparr>
      in do { (idx, size1, c2) \<leftarrow>
                (if trim_offset t \<noteq> 0
                 then map_option (\<lambda>c'. (span + trim_offset t, sub32 size0 (trim_offset t), c'))
                        (free_span_no_merge span (trim_offset t) c1)
                 else Some (span, size0, c1));
              c3 \<leftarrow> (if trim_pages t < size1
                     then free_span_no_merge (idx + trim_pages t) (size1 - trim_pages t) c2
                     else Some c2);
              let e = idx + trim_pages t - 1;
              let c4 = upd_page idx (pg_free_update (\<lambda>_. False)) (upd_page e (pg_free_update (\<lambda>_. False)) c3);
              let c5 = upd_page idx (span_size_update (\<lambda>_. trim_pages t))
                         (upd_page e (span_size_update (\<lambda>_. trim_pages t)) c4);
              Some (idx, upd_page idx (pg_pool_update (\<lambda>_. None)) c5) })"

definition low_memory :: "mem_env \<Rightarrow> cpu_pages \<Rightarrow> cpu_pages option" where
  "low_memory env c =
     (if nr_free_pages c < current_min_free_pages c
      then do { (_, c1) \<leftarrow> drain_cross_cpu_freelist env c;
                (_, c2) \<leftarrow> run_reclaimers env Sync c1;
                Some (if nr_free_pages c2 < current_min_free_pages c2 then schedule_reclaim c2 else c2) }
      else Some c)"

definition allocate_large_and_trim ::
    "mem_env \<Rightarrow> nat \<Rightarrow> (pageidx \<Rightarrow> nat \<Rightarrow> trim) \<Rightarrow> cpu_pages \<Rightarrow> (addr, cpu_pages) outcome" where
  "allocate_large_and_trim env n trimmer c =
     obind (find_and_unlink_span_reclaiming env n c)
       (\<lambda>span c1. if span = 0 then Returned 0 c1
                  else or_abort (do { (idx, c2) \<leftarrow> cut_span span (trimmer span (nr_pages c1)) c1;
                                      c3 \<leftarrow> low_memory env c2;
                                      Some (memory_at c3 + idx * page_size, c3) }))"

definition cpu_allocate_large :: "mem_env \<Rightarrow> nat \<Rightarrow> cpu_pages \<Rightarrow> (addr, cpu_pages) outcome" where
  "cpu_allocate_large env n c =
     allocate_large_and_trim env n (\<lambda>idx m. \<lparr>trim_offset = 0, trim_pages = min m n\<rparr>) c"

definition cpu_allocate_large_aligned :: "mem_env \<Rightarrow> nat \<Rightarrow> nat \<Rightarrow> cpu_pages \<Rightarrow> (addr, cpu_pages) outcome" where
  "cpu_allocate_large_aligned env align_pages n c =
     allocate_large_and_trim env (sub32 (add32 n align_pages) 1)
       (\<lambda>idx m. \<lparr>trim_offset = unat (align_up (of_nat idx :: u32) (of_nat align_pages)) - idx, trim_pages = n\<rparr>) c"

end
