(* ===== verification/Spans.thy ===== *)
theory Spans
  imports Cpu_Pages
begin

text \<open>
  Correctness of the page-span layer. \<open>S\<close> is the set of spans \<open>(start, size, free)\<close> that make up
  the pool from page \<open>s0\<close> to the last one; a hole is the one stretch of pages an operation has in
  its hands. The invariant ties the boundary tags in the page array, the free lists and the count
  of free pages to \<open>S\<close>.
\<close>

section \<open>Logarithms\<close>

lemma log_interval:
  fixes n :: nat
  assumes "0 < n"
  obtains k where "2 ^ k \<le> n" "n < 2 ^ Suc k"
  using ex_power_ivl1 [of 2 n] assms by auto

lemma index_of_log:
  assumes "2 ^ k \<le> n" "n < 2 ^ Suc k" "n < 2 ^ 32"
  shows "index_of n = Some k" "k < 32"
proof -
  have "(2::nat) ^ k < 2 ^ 32" using assms(1,3) by (rule le_less_trans)
  then show k: "k < 32" using power_less_imp_less_exp [of "2::nat" k 32] by simp
  have u: "unat (of_nat n :: u32) = n" using assms(3) by (intro unat_of_nat_small) simp
  have "count_leading_zeroes (of_nat n :: u32) = Some (32 - Suc k)"
    using count_leading_zeroes_log [of k "of_nat n :: u32"] assms(1,2) u by simp
  with k show "index_of n = Some k" by (simp add: index_of_def)
qed

lemma index_of_Some:
  assumes "0 < n" "n < 2 ^ 32"
  obtains k where "index_of n = Some k" "k < 32" "2 ^ k \<le> n" "n < 2 ^ Suc k"
  using log_interval [OF assms(1)] index_of_log assms(2) by metis

lemma index_of_conservative_Some:
  assumes "0 < n" "n < 2 ^ 32"
  obtains k where "index_of_conservative n = Some k" "k \<le> 32" "n \<le> 2 ^ k" "n = 1 \<or> 2 ^ k < 2 * n"
proof (cases "n = 1")
  case True
  then show ?thesis using that [of 0] by (simp add: index_of_conservative_def)
next
  case False
  then have n1: "0 < n - 1" using assms(1) by simp
  from log_interval [OF n1] obtain k where k: "2 ^ k \<le> n - 1" "n - 1 < 2 ^ Suc k" by blast
  have "index_of (n - 1) = Some k" "k < 32" using index_of_log [OF k] assms(2) by simp_all
  then have "count_leading_zeroes (of_nat (n - 1) :: u32) = Some (32 - Suc k)"
    using count_leading_zeroes_log [of k "of_nat (n - 1) :: u32"] k assms(2) unat_of_nat_small [of "n - 1", where 'a = 32]
    by simp
  then have "index_of_conservative n = Some (Suc k)"
    using False assms(1) \<open>k < 32\<close> by (simp add: index_of_conservative_def)
  moreover have "2 ^ k < n" using k(1) assms(1) by linarith
  ultimately show ?thesis using k \<open>k < 32\<close> by (intro that [of "Suc k"]) auto
qed

section \<open>The invariant\<close>

type_synonym span = "nat \<times> nat \<times> bool"

text \<open>The spans and the hole lie in the pool, do not overlap, and leave no page out.\<close>

definition spans_in :: "nat \<Rightarrow> nat \<Rightarrow> span set \<Rightarrow> nat \<Rightarrow> nat \<Rightarrow> bool" where
  "spans_in s0 nr S h k \<longleftrightarrow> (\<forall>p n f. (p, n, f) \<in> S \<longrightarrow>
     0 < n \<and> s0 \<le> p \<and> p + n \<le> nr \<and> (p + n \<le> h \<or> h + k \<le> p))"

definition spans_apart :: "span set \<Rightarrow> bool" where
  "spans_apart S \<longleftrightarrow> (\<forall>p n f q m g. (p, n, f) \<in> S \<and> (q, m, g) \<in> S \<longrightarrow>
     (p, n, f) = (q, m, g) \<or> p + n \<le> q \<or> q + m \<le> p)"

definition in_span :: "nat \<Rightarrow> span set \<Rightarrow> bool" where
  "in_span i S \<longleftrightarrow> (\<exists>p n f. (p, n, f) \<in> S \<and> p \<le> i \<and> i < p + n)"

definition spans_cover :: "nat \<Rightarrow> nat \<Rightarrow> span set \<Rightarrow> nat \<Rightarrow> nat \<Rightarrow> bool" where
  "spans_cover s0 nr S h k \<longleftrightarrow>
     (\<forall>i. s0 \<le> i \<and> i < nr \<longrightarrow> h \<le> i \<and> i < h + k \<or> in_span i S)"

definition layout :: "nat \<Rightarrow> nat \<Rightarrow> span set \<Rightarrow> nat \<Rightarrow> nat \<Rightarrow> bool" where
  "layout s0 nr S h k \<longleftrightarrow> finite S \<and> 0 < s0 \<and> s0 \<le> nr \<and> nr < 2 ^ 32 \<and> s0 \<le> h \<and> h + k \<le> nr \<and>
     spans_in s0 nr S h k \<and> spans_apart S \<and> spans_cover s0 nr S h k"

text \<open>The first and the last page of a span carry its size and whether it is free.\<close>

definition tagged :: "page_array \<Rightarrow> span set \<Rightarrow> bool" where
  "tagged ary S \<longleftrightarrow> (\<forall>p n f. (p, n, f) \<in> S \<longrightarrow>
     pg_free (ary p) = f \<and> pg_free (ary (p + n - 1)) = f \<and>
     span_size (ary p) = n \<and> span_size (ary (p + n - 1)) = n)"

definition listed :: "span set \<Rightarrow> cpu_pages \<Rightarrow> (nat \<Rightarrow> pageidx list) \<Rightarrow> bool" where
  "listed S c L \<longleftrightarrow> (\<forall>i < nr_span_lists. plist (pages c) (free_spans c i) (L i) \<and>
     set (L i) = {p. \<exists>n. (p, n, True) \<in> S \<and> index_of n = Some i})"

definition free_pages :: "span set \<Rightarrow> nat" where
  "free_pages S = (\<Sum>(p, n, f) \<in> S. if f then n else 0)"

definition span_inv :: "nat \<Rightarrow> span set \<Rightarrow> nat \<Rightarrow> nat \<Rightarrow> cpu_pages \<Rightarrow> bool" where
  "span_inv s0 S h k c \<longleftrightarrow> layout s0 (nr_pages c) S h k \<and> tagged (pages c) S \<and>
     \<not> pg_free (pages c (s0 - 1)) \<and> \<not> pg_free (pages c (nr_pages c)) \<and>
     (\<exists>L. listed S c L) \<and> nr_free_pages c = free_pages S"

text \<open>No two free spans are neighbours.\<close>

definition coalesced :: "span set \<Rightarrow> bool" where
  "coalesced S \<longleftrightarrow> (\<forall>p n q m. (p, n, True) \<in> S \<and> (q, m, True) \<in> S \<longrightarrow> p + n \<noteq> q)"

lemma coalesced_insert:
  assumes "coalesced S" "\<And>m. (h + k, m, True) \<notin> S" "\<And>q m. (q, m, True) \<in> S \<Longrightarrow> q + m \<noteq> h" "0 < k"
  shows "coalesced (insert (h, k, True) S)"
  unfolding coalesced_def
proof (intro allI impI, elim conjE)
  fix p n q m assume a: "(p, n, True) \<in> insert (h, k, True) S" "(q, m, True) \<in> insert (h, k, True) S"
  show "p + n \<noteq> q"
  proof (cases "(p, n) = (h, k)"; cases "(q, m) = (h, k)")
    assume "(p, n) \<noteq> (h, k)" "(q, m) \<noteq> (h, k)"
    with a have "(p, n, True) \<in> S" "(q, m, True) \<in> S" by auto
    with assms(1) show ?thesis unfolding coalesced_def by blast
  qed (use a assms(2-4) in auto)
qed

lemma coalesced_subset: "coalesced S \<Longrightarrow> T \<subseteq> S \<Longrightarrow> coalesced T"
  unfolding coalesced_def by blast

lemma layoutD:
  assumes "layout s0 nr S h k"
  shows "finite S" "0 < s0" "s0 \<le> nr" "nr < 2 ^ 32" "s0 \<le> h" "h + k \<le> nr"
    "spans_in s0 nr S h k" "spans_apart S" "spans_cover s0 nr S h k"
  using assms by (simp_all add: layout_def)

lemma spans_inD:
  assumes "spans_in s0 nr S h k" "(p, n, f) \<in> S"
  shows "0 < n" "s0 \<le> p" "p + n \<le> nr" "p + n \<le> h \<or> h + k \<le> p"
  using assms unfolding spans_in_def by blast+

lemma spans_apartD: "spans_apart S \<Longrightarrow> (p, n, f) \<in> S \<Longrightarrow> (q, m, g) \<in> S \<Longrightarrow>
    (p, n, f) = (q, m, g) \<or> p + n \<le> q \<or> q + m \<le> p"
  unfolding spans_apart_def by blast

lemma layout_same_start:
  assumes "layout s0 nr S h k" "(p, n, f) \<in> S" "(p, m, g) \<in> S"
  shows "n = m" "f = g"
  using spans_apartD [OF layoutD(8) [OF assms(1)] assms(2,3)] spans_inD(1) [OF layoutD(7) [OF assms(1)] assms(2)]
    spans_inD(1) [OF layoutD(7) [OF assms(1)] assms(3)] by auto

lemma layout_span_small: "layout s0 nr S h k \<Longrightarrow> (p, n, f) \<in> S \<Longrightarrow> n < 2 ^ 32"
  using spans_inD(3) [of s0 nr S h k p n f] layoutD(4,7) [of s0 nr S h k] by force

lemma in_span_simps [simp]:
  "in_span i (insert (p, n, f) S) \<longleftrightarrow> p \<le> i \<and> i < p + n \<or> in_span i S"
  by (auto simp: in_span_def)

lemma in_span_remove: "in_span i S \<Longrightarrow> in_span i (S - {(p, n, f)}) \<or> p \<le> i \<and> i < p + n"
  unfolding in_span_def by blast

lemma spans_apart_subset: "spans_apart S \<Longrightarrow> T \<subseteq> S \<Longrightarrow> spans_apart T"
  unfolding spans_apart_def by blast

text \<open>Taking a span out next to the hole, and putting part of the hole back.\<close>

lemma layout_absorb:
  assumes "layout s0 nr S h k" "(p, n, f) \<in> S" "p + n = h \<and> h' = p \<or> h + k = p \<and> h' = h"
  shows "layout s0 nr (S - {(p, n, f)}) h' (n + k)"
proof -
  note D = layoutD [OF assms(1)]
  note P = spans_inD [OF D(7) assms(2)]
  have "spans_in s0 nr (S - {(p, n, f)}) h' (n + k)"
    unfolding spans_in_def
  proof (intro allI impI)
    fix q m g assume "(q, m, g) \<in> S - {(p, n, f)}"
    then have q: "(q, m, g) \<in> S" "(q, m, g) \<noteq> (p, n, f)" by auto
    note Q = spans_inD [OF D(7) q(1)]
    have "q + m \<le> p \<or> p + n \<le> q" using spans_apartD [OF D(8) q(1) assms(2)] q(2) by auto
    with Q assms(3) P(1) show "0 < m \<and> s0 \<le> q \<and> q + m \<le> nr \<and> (q + m \<le> h' \<or> h' + (n + k) \<le> q)" by auto
  qed
  moreover have "spans_apart (S - {(p, n, f)})" using D(8) by (rule spans_apart_subset) auto
  moreover have "spans_cover s0 nr (S - {(p, n, f)}) h' (n + k)"
    unfolding spans_cover_def
  proof (intro allI impI)
    fix i assume "s0 \<le> i \<and> i < nr"
    with D(9) have "h \<le> i \<and> i < h + k \<or> in_span i S" unfolding spans_cover_def by blast
    then have "h \<le> i \<and> i < h + k \<or> in_span i (S - {(p, n, f)}) \<or> p \<le> i \<and> i < p + n" using in_span_remove by blast
    with assms(3) show "h' \<le> i \<and> i < h' + (n + k) \<or> in_span i (S - {(p, n, f)})" by auto
  qed
  ultimately show ?thesis using D(1-6) P assms(3) unfolding layout_def by auto
qed

lemma layout_fill:
  assumes "layout s0 nr S h k" "0 < n"
    and "h' = h \<and> h' + k' = p \<and> p + n = h + k \<or> p = h \<and> h' = p + n \<and> h' + k' = h + k"
  shows "layout s0 nr (insert (p, n, f) S) h' k'"
proof -
  note D = layoutD [OF assms(1)]
  have "spans_in s0 nr (insert (p, n, f) S) h' k'"
    unfolding spans_in_def
  proof (intro allI impI)
    fix q m g assume q: "(q, m, g) \<in> insert (p, n, f) S"
    show "0 < m \<and> s0 \<le> q \<and> q + m \<le> nr \<and> (q + m \<le> h' \<or> h' + k' \<le> q)"
    proof (cases "(q, m, g) = (p, n, f)")
      case True then show ?thesis using D(5,6) assms(2,3) by auto
    next
      case False
      with q have "(q, m, g) \<in> S" by blast
      from spans_inD [OF D(7) this] assms(2,3) show ?thesis by auto
    qed
  qed
  moreover have "spans_apart (insert (p, n, f) S)"
    unfolding spans_apart_def
  proof (intro allI impI, elim conjE)
    fix q m g r l e assume a: "(q, m, g) \<in> insert (p, n, f) S" "(r, l, e) \<in> insert (p, n, f) S"
    consider "(q, m, g) \<in> S" "(r, l, e) \<in> S" | "(q, m, g) = (p, n, f)" "(r, l, e) \<in> S"
      | "(q, m, g) \<in> S" "(r, l, e) = (p, n, f)" | "(q, m, g) = (r, l, e)" using a by blast
    then show "(q, m, g) = (r, l, e) \<or> q + m \<le> r \<or> r + l \<le> q"
    proof cases
      case 1 then show ?thesis by (rule spans_apartD [OF D(8)])
    next
      case 2 then show ?thesis using spans_inD(4) [OF D(7) 2(2)] assms(3) by auto
    next
      case 3 then show ?thesis using spans_inD(4) [OF D(7) 3(1)] assms(3) by auto
    qed simp
  qed
  moreover have "spans_cover s0 nr (insert (p, n, f) S) h' k'"
    unfolding spans_cover_def
  proof (intro allI impI)
    fix i assume "s0 \<le> i \<and> i < nr"
    with D(9) have "h \<le> i \<and> i < h + k \<or> in_span i S" unfolding spans_cover_def by blast
    with assms(3) show "h' \<le> i \<and> i < h' + k' \<or> in_span i (insert (p, n, f) S)" by auto
  qed
  ultimately show ?thesis using D(1-6) assms(2,3) unfolding layout_def by auto
qed

text \<open>The spans and the hole together are no larger than the pool, so the count of free pages does not wrap.\<close>

lemma layout_total:
  assumes "layout s0 nr S h k"
  shows "(\<Sum>(p, n, f) \<in> S. n) + k + s0 \<le> nr"
proof -
  note D = layoutD [OF assms]
  let ?I = "\<lambda>(p, n, f :: bool). {p..<p + n}"
  have "(\<Sum>s \<in> S. card (?I s)) = card (\<Union>s \<in> S. ?I s)"
  proof (rule card_UN_disjoint [symmetric])
    show "\<forall>s \<in> S. \<forall>t \<in> S. s \<noteq> t \<longrightarrow> ?I s \<inter> ?I t = {}"
      using D(8) unfolding spans_apart_def by fastforce
  qed (use D(1) in auto)
  moreover have "(\<Sum>s \<in> S. card (?I s)) = (\<Sum>(p, n, f) \<in> S. n)" by (rule sum.cong) auto
  moreover have "card (\<Union>s \<in> S. ?I s) + card {h..<h + k} \<le> card {s0..<nr}"
  proof -
    have "(\<Union>s \<in> S. ?I s) \<inter> {h..<h + k} = {}" using D(7) unfolding spans_in_def by fastforce
    then have "card (\<Union>s \<in> S. ?I s) + card {h..<h + k} = card ((\<Union>s \<in> S. ?I s) \<union> {h..<h + k})"
      using D(1) by (intro card_Un_disjoint [symmetric]) auto
    also have "\<dots> \<le> card {s0..<nr}"
      using D(5,6,7) unfolding spans_in_def by (intro card_mono) fastforce+
    finally show ?thesis .
  qed
  ultimately show ?thesis using D(3) by simp
qed

lemma free_pages_le: "finite S \<Longrightarrow> free_pages S \<le> (\<Sum>(p, n, f) \<in> S. n)"
  unfolding free_pages_def by (rule sum_mono) (auto split: prod.splits)

lemma free_pages_insert:
  "finite S \<Longrightarrow> (p, n, f) \<notin> S \<Longrightarrow> free_pages (insert (p, n, f) S) = (if f then n else 0) + free_pages S"
  by (simp add: free_pages_def)

lemma free_pages_remove:
  "finite S \<Longrightarrow> (p, n, f) \<in> S \<Longrightarrow> free_pages S = (if f then n else 0) + free_pages (S - {(p, n, f)})"
  unfolding free_pages_def by (subst sum.remove) auto

section \<open>Tags and lists under the elementary updates\<close>

lemma tagged_cong:
  assumes "\<And>i. pg_free (ary' i) = pg_free (ary i) \<and> span_size (ary' i) = span_size (ary i)"
  shows "tagged ary' S = tagged ary S"
  by (simp add: tagged_def assms)

lemma tagged_remove: "tagged ary S \<Longrightarrow> tagged ary (S - T)"
  unfolding tagged_def by blast

text \<open>Writing tags inside the hole leaves those of the spans alone.\<close>

lemma tagged_hole:
  assumes "layout s0 nr S h k" "tagged ary S" "\<And>i. i < h \<or> h + k \<le> i \<Longrightarrow> ary' i = ary i"
  shows "tagged ary' S"
  unfolding tagged_def
proof (intro allI impI)
  fix p n f assume s: "(p, n, f) \<in> S"
  note P = spans_inD [OF layoutD(7) [OF assms(1)] s]
  have "ary' p = ary p" "ary' (p + n - 1) = ary (p + n - 1)" using P(1,4) by (auto intro!: assms(3))
  then show "pg_free (ary' p) = f \<and> pg_free (ary' (p + n - 1)) = f \<and> span_size (ary' p) = n \<and>
      span_size (ary' (p + n - 1)) = n"
    using assms(2) s by (simp add: tagged_def)
qed

lemma listed_disjoint:
  assumes "layout s0 nr S h k" "listed S c L" "i < 32" "j < 32" "i \<noteq> j" "x \<in> set (L i)"
  shows "x \<notin> set (L j)"
proof
  assume "x \<in> set (L j)"
  with assms obtain n m where "(x, n, True) \<in> S" "index_of n = Some i" "(x, m, True) \<in> S" "index_of m = Some j"
    unfolding listed_def by blast
  with layout_same_start(1) [OF assms(1), of x n True m True] assms(5) show False by simp
qed

lemma listed_link:
  assumes lay: "layout s0 nr S h k" and lst: "listed S c L"
    and p: "p \<noteq> 0" "\<And>m. (p, m, True) \<notin> S" "index_of n = Some i" "i < 32"
  shows "listed (insert (p, n, True) S) (link i p c) (L(i := p # L i))"
  unfolding listed_def
proof (intro allI impI)
  fix j :: nat assume j: "j < 32"
  obtain ary l where pf: "pl_push_front p (pages c) (free_spans c i) = (ary, l)" by force
  then have lk: "link i p c = c\<lparr>pages := ary, free_spans := (free_spans c)(i := l)\<rparr>" by (simp add: link_def)
  have Li: "plist (pages c) (free_spans c i) (L i)" "set (L i) = {p. \<exists>n. (p, n, True) \<in> S \<and> index_of n = Some i}"
    using lst p(4) by (auto simp: listed_def)
  have Lj: "plist (pages c) (free_spans c j) (L j)" "set (L j) = {p. \<exists>n. (p, n, True) \<in> S \<and> index_of n = Some j}"
    using lst j by (auto simp: listed_def)
  have pL: "p \<notin> set (L i)" using p(2) Li(2) by auto
  show "plist (pages (link i p c)) (free_spans (link i p c) j) ((L(i := p # L i)) j) \<and>
    set ((L(i := p # L i)) j) = {q. \<exists>m. (q, m, True) \<in> insert (p, n, True) S \<and> index_of m = Some j}"
  proof (cases "j = i")
    case True
    with plist_push_front [OF Li(1) p(1) pL pf] Li(2) p(3) show ?thesis by (auto simp: lk)
  next
    case False
    have "ary x = pages c x" if "x \<in> set (L j)" for x
    proof (rule pl_push_front_frame(2) [OF pf Li(1)])
      have "x \<noteq> p" using that p(2) Lj(2) by auto
      with listed_disjoint [OF lay lst j p(4) False that] show "x \<notin> set (p # L i)" by auto
    qed
    then have "plist ary (free_spans c j) (L j) = plist (pages c) (free_spans c j) (L j)" by (intro plist_cong) simp
    with Lj False p(3) show ?thesis by (auto simp: lk)
  qed
qed

lemma listed_unlink:
  assumes lay: "layout s0 nr S h k" and lst: "listed S c L"
    and p: "(p, n, True) \<in> S" "index_of n = Some i" "i < 32"
  shows "\<exists>L'. listed (S - {(p, n, True)}) (unlink i p c) L'"
proof -
  have Li: "plist (pages c) (free_spans c i) (L i)" "set (L i) = {p. \<exists>n. (p, n, True) \<in> S \<and> index_of n = Some i}"
    using lst p(3) by (auto simp: listed_def)
  have "p \<in> set (L i)" using Li(2) p by blast
  then obtain xs ys where xy: "L i = xs @ p # ys" by (meson split_list)
  obtain ary l where er: "pl_erase p (pages c) (free_spans c i) = (ary, l)" by force
  then have ul: "unlink i p c = c\<lparr>pages := ary, free_spans := (free_spans c)(i := l)\<rparr>" by (simp add: unlink_def)
  have "listed (S - {(p, n, True)}) (unlink i p c) (L(i := xs @ ys))"
    unfolding listed_def
  proof (intro allI impI)
    fix j :: nat assume j: "j < 32"
    have Lj: "plist (pages c) (free_spans c j) (L j)" "set (L j) = {p. \<exists>n. (p, n, True) \<in> S \<and> index_of n = Some j}"
      using lst j by (auto simp: listed_def)
    show "plist (pages (unlink i p c)) (free_spans (unlink i p c) j) ((L(i := xs @ ys)) j) \<and>
      set ((L(i := xs @ ys)) j) = {q. \<exists>m. (q, m, True) \<in> S - {(p, n, True)} \<and> index_of m = Some j}"
    proof (cases "j = i")
      case True
      have "distinct (xs @ p # ys)" using plist_distinct [OF Li(1)] xy by simp
      then have "set (xs @ ys) = set (L i) - {p}" using xy by auto
      also have "\<dots> = {q. \<exists>m. (q, m, True) \<in> S - {(p, n, True)} \<and> index_of m = Some i}"
        using Li(2) layout_same_start(1) [OF lay p(1)] by auto
      finally show ?thesis using True plist_erase [OF _ er] Li(1) xy by (simp add: ul)
    next
      case False
      have "ary x = pages c x" if "x \<in> set (L j)" for x
      proof (rule pl_erase_frame(2) [OF er])
        show "plist (pages c) (free_spans c i) (xs @ p # ys)" using Li(1) xy by simp
        show "x \<notin> set (xs @ ys)" using listed_disjoint [OF lay lst j p(3) False that] xy by auto
      qed
      then have "plist ary (free_spans c j) (L j) = plist (pages c) (free_spans c j) (L j)" by (intro plist_cong) simp
      with Lj False p(2) show ?thesis by (auto simp: ul)
    qed
  qed
  then show ?thesis by blast
qed

lemma listed_cong:
  assumes "\<And>i. link_prev (pages c' i) = link_prev (pages c i) \<and> link_next (pages c' i) = link_next (pages c i)"
    and "free_spans c' = free_spans c"
  shows "listed S c' L = listed S c L"
proof -
  have "plist (pages c') l xs = plist (pages c) l xs" for l xs using assms(1) by (intro plist_cong) simp
  then show ?thesis using assms(2) by (simp add: listed_def)
qed

lemma link_tags:
  "pg_free (pages (link i p c) q) = pg_free (pages c q)" "span_size (pages (link i p c) q) = span_size (pages c q)"
  "pg_free (pages (unlink i p c) q) = pg_free (pages c q)" "span_size (pages (unlink i p c) q) = span_size (pages c q)"
proof -
  obtain ary l where "pl_push_front p (pages c) (free_spans c i) = (ary, l)" by force
  with pl_push_front_frame(1) [OF this] show "pg_free (pages (link i p c) q) = pg_free (pages c q)"
    "span_size (pages (link i p c) q) = span_size (pages c q)" by (simp_all add: link_def same_but_linksD)
  obtain ary l where "pl_erase p (pages c) (free_spans c i) = (ary, l)" by force
  with pl_erase_frame(1) [OF this] show "pg_free (pages (unlink i p c) q) = pg_free (pages c q)"
    "span_size (pages (unlink i p c) q) = span_size (pages c q)" by (simp_all add: unlink_def same_but_linksD)
qed

section \<open>Freeing\<close>

text \<open>What the span operations may change of a cpu's state.\<close>

definition only_spans :: "cpu_pages \<Rightarrow> cpu_pages \<Rightarrow> bool" where
  "only_spans c c' \<longleftrightarrow> c' = c\<lparr>pages := pages c', nr_free_pages := nr_free_pages c', free_spans := free_spans c'\<rparr>"

lemma only_spansI: "only_spans c (c\<lparr>pages := a, nr_free_pages := b, free_spans := d\<rparr>)"
  by (simp add: only_spans_def)

lemma only_spans_refl [simp]: "only_spans c c"
  by (simp add: only_spans_def)

lemma only_spans_trans [trans]: "only_spans a b \<Longrightarrow> only_spans b c \<Longrightarrow> only_spans a c"
  unfolding only_spans_def by (metis cpu_pages.update_convs(3,5,8) cpu_pages.select_convs cpu_pages.surjective)

lemma only_spans_simps:
  assumes "only_spans c c'"
  shows "nr_pages c' = nr_pages c" "memory_at c' = memory_at c" "current_min_free_pages c' = current_min_free_pages c"
    "cpu_id c' = cpu_id c" "small_pools c' = small_pools c" "reclaimers c' = reclaimers c"
    "xcpu_freelist c' = xcpu_freelist c" "obj_next c' = obj_next c" "pages_at c' = pages_at c"
  using assms unfolding only_spans_def by (metis cpu_pages.simps cpu_pages.select_convs cpu_pages.update_convs cpu_pages.surjective)+

lemma span_invD:
  assumes "span_inv s0 S h k c"
  shows "layout s0 (nr_pages c) S h k" "tagged (pages c) S" "\<not> pg_free (pages c (s0 - 1))"
    "\<not> pg_free (pages c (nr_pages c))" "\<exists>L. listed S c L" "nr_free_pages c = free_pages S"
  using assms by (simp_all add: span_inv_def)

lemma not_in_hole:
  assumes "layout s0 nr S h k" "h \<le> p" "p < h + k"
  shows "(p, m, f) \<notin> S"
proof
  assume s: "(p, m, f) \<in> S"
  from spans_inD(1,4) [OF layoutD(7) [OF assms(1)] s] assms(2,3) show False by auto
qed

lemma free_span_no_merge_inv:
  assumes inv: "span_inv s0 S h k c" and n: "0 < n"
    and pos: "h' = h \<and> h' + k' = p \<and> p + n = h + k \<or> p = h \<and> h' = p + n \<and> h' + k' = h + k"
  shows "\<exists>c'. free_span_no_merge p n c = Some c' \<and> span_inv s0 (insert (p, n, True) S) h' k' c' \<and> only_spans c c'"
proof -
  note I = span_invD [OF inv]
  note D = layoutD [OF I(1)]
  obtain L where L: "listed S c L" using I(5) by blast
  have lay: "layout s0 (nr_pages c) (insert (p, n, True) S) h' k'" using layout_fill [OF I(1) n pos] .
  have pin: "s0 \<le> p" "p + n \<le> nr_pages c" "h \<le> p" "p + n \<le> h + k" using pos D(5,6) by auto
  then have lt: "n < 2 ^ 32" "p + n < 2 ^ 32" "p \<noteq> 0" using D(2,4) by auto
  obtain i where i: "index_of n = Some i" "i < 32" using index_of_Some [OF n lt(1)] by blast
  have new: "(p, m, f) \<notin> S" for m f using not_in_hole [OF I(1)] pin n by simp
  have tot: "free_pages S + n < 2 ^ 32"
    using layout_total [OF I(1)] free_pages_le [OF D(1)] D(4) pin by linarith
  let ?e = "p + n - 1"
  define c3 where "c3 = upd_page p (span_size_update (\<lambda>_. n)) (upd_page ?e (span_size_update (\<lambda>_. n))
      (upd_page p (pg_free_update (\<lambda>_. True)) (upd_page ?e (pg_free_update (\<lambda>_. True))
        (c\<lparr>nr_free_pages := nr_free_pages c + n\<rparr>))))"
  have run: "free_span_no_merge p n c = Some (link i p c3)"
    using n lt i(1) tot I(6) by (simp add: free_span_no_merge_def c3_def Let_def)
  have c3: "\<And>j. link_prev (pages c3 j) = link_prev (pages c j) \<and> link_next (pages c3 j) = link_next (pages c j)"
    "\<And>j. j \<noteq> p \<Longrightarrow> j \<noteq> ?e \<Longrightarrow> pages c3 j = pages c j"
    "pg_free (pages c3 p)" "pg_free (pages c3 ?e)" "span_size (pages c3 p) = n" "span_size (pages c3 ?e) = n"
    "free_spans c3 = free_spans c" "nr_pages c3 = nr_pages c" "nr_free_pages c3 = nr_free_pages c + n"
    by (auto simp: c3_def upd_page_def)
  have "listed S c3 L" using L listed_cong [of c3 c S L] c3(1,7) by simp
  from listed_link [OF I(1) this lt(3) new i] have lst: "\<exists>L'. listed (insert (p, n, True) S) (link i p c3) L'" by blast
  have "tagged (pages c3) S"
    using I(1,2) by (rule tagged_hole) (use pin n in \<open>auto intro!: c3(2)\<close>)
  then have "tagged (pages c3) (insert (p, n, True) S)" using c3(3-6) by (auto simp: tagged_def)
  then have tag: "tagged (pages (link i p c3)) (insert (p, n, True) S)"
    using tagged_cong [of "pages (link i p c3)" "pages c3"] by (simp add: link_tags)
  have nrp: "nr_pages (link i p c3) = nr_pages c" "nr_free_pages (link i p c3) = nr_free_pages c + n"
    using c3(8,9) by (auto simp: link_def split: prod.splits)
  have b: "pages c3 (s0 - 1) = pages c (s0 - 1)" "pages c3 (nr_pages c) = pages c (nr_pages c)"
    using pin n D(2) by (auto intro!: c3(2))
  have "only_spans c (link i p c3)"
    by (simp add: link_def c3_def upd_page_def only_spans_def split: prod.splits)
  moreover have "span_inv s0 (insert (p, n, True) S) h' k' (link i p c3)"
    unfolding span_inv_def nrp
    using lay tag lst b I(3,4,6) free_pages_insert [OF D(1) new] by (simp add: link_tags)
  ultimately show ?thesis using run by blast
qed

text \<open>Taking a free span off its list makes it part of the hole.\<close>

lemma unlink_inv:
  assumes inv: "span_inv s0 S h k c" and s: "(p, n, True) \<in> S" and i: "index_of n = Some i"
    and adj: "p + n = h \<and> h' = p \<or> h + k = p \<and> h' = h"
  shows "span_inv s0 (S - {(p, n, True)}) h' (n + k) (unlink i p (c\<lparr>nr_free_pages := sub32 (nr_free_pages c) n\<rparr>))"
    (is "span_inv _ _ _ _ ?c")
proof -
  note I = span_invD [OF inv]
  note D = layoutD [OF I(1)]
  obtain L where L: "listed S c L" using I(5) by blast
  have i32: "i < 32" using index_of_Some [OF spans_inD(1) [OF D(7) s] layout_span_small [OF I(1) s]] i by auto
  have fr: "free_pages S = n + free_pages (S - {(p, n, True)})" using free_pages_remove [OF D(1) s] by simp
  let ?c1 = "c\<lparr>nr_free_pages := sub32 (nr_free_pages c) n\<rparr>"
  have "listed S ?c1 L" using L listed_cong [of ?c1 c S L] by simp
  from listed_unlink [OF I(1) this s i i32] have "\<exists>L'. listed (S - {(p, n, True)}) ?c L'" .
  moreover have "tagged (pages ?c) (S - {(p, n, True)})"
    using tagged_cong [of "pages ?c" "pages c"] tagged_remove [OF I(2)] by (simp add: link_tags)
  moreover have "nr_pages ?c = nr_pages c" "nr_free_pages ?c = free_pages (S - {(p, n, True)})"
    using I(6) fr by (auto simp: unlink_def split: prod.splits)
  ultimately show ?thesis
    using layout_absorb [OF I(1) s adj] I(3,4) by (simp add: span_inv_def link_tags)
qed

text \<open>The pages on both sides of the hole tell what lies there.\<close>

lemma page_before:
  assumes "span_inv s0 S h k c"
  shows "h = s0 \<and> \<not> pg_free (pages c (h - 1)) \<and> (\<forall>q m f. (q, m, f) \<in> S \<longrightarrow> q + m \<noteq> h) \<or>
    (\<exists>q m f. (q, m, f) \<in> S \<and> q + m = h \<and> pg_free (pages c (h - 1)) = f \<and> span_size (pages c (h - 1)) = m)"
proof (cases "h = s0")
  case True
  have "q + m \<noteq> h" if "(q, m, f) \<in> S" for q m f
    using spans_inD(1,2) [OF layoutD(7) [OF span_invD(1) [OF assms]] that] True by auto
  with True span_invD(3) [OF assms] show ?thesis by blast
next
  case False
  note D = layoutD [OF span_invD(1) [OF assms]]
  have "s0 \<le> h - 1" "h - 1 < nr_pages c" using False D(2,5,6) by auto
  with D(9) have "h \<le> h - 1 \<and> h - 1 < h + k \<or> in_span (h - 1) S" unfolding spans_cover_def by blast
  then obtain q m f where s: "(q, m, f) \<in> S" "q \<le> h - 1" "h - 1 < q + m"
    using False D(2,5) unfolding in_span_def by auto
  then have e: "q + m = h" using spans_inD(4) [OF D(7) s(1)] D(2,5) by auto
  with span_invD(2) [OF assms] s(1) show ?thesis unfolding tagged_def by blast
qed

lemma page_after:
  assumes "span_inv s0 S h k c"
  shows "h + k = nr_pages c \<and> \<not> pg_free (pages c (h + k)) \<and> (\<forall>m f. (h + k, m, f) \<notin> S) \<or>
    (\<exists>m f. (h + k, m, f) \<in> S \<and> pg_free (pages c (h + k)) = f \<and> span_size (pages c (h + k)) = m)"
proof (cases "h + k = nr_pages c")
  case True
  have "(h + k, m, f) \<notin> S" for m f
  proof
    assume "(h + k, m, f) \<in> S"
    from spans_inD(1,3) [OF layoutD(7) [OF span_invD(1) [OF assms]] this] True show False by simp
  qed
  with True span_invD(4) [OF assms] show ?thesis by simp
next
  case False
  note D = layoutD [OF span_invD(1) [OF assms]]
  have "s0 \<le> h + k" "h + k < nr_pages c" using False D(5,6) by auto
  with D(9) have "h \<le> h + k \<and> h + k < h + k \<or> in_span (h + k) S" unfolding spans_cover_def by blast
  then obtain q m f where s: "(q, m, f) \<in> S" "q \<le> h + k" "h + k < q + m" unfolding in_span_def by auto
  then have "q = h + k" using spans_inD(4) [OF D(7) s(1)] by auto
  with span_invD(2) [OF assms] s(1) show ?thesis unfolding tagged_def by blast
qed

text \<open>Used spans, which no operation on other spans may touch.\<close>

definition used :: "span set \<Rightarrow> (nat \<times> nat) set" where
  "used S = {(p, n). (p, n, False) \<in> S}"

lemma used_simps [simp]:
  "used (insert (p, n, True) S) = used S" "used (S - {(p, n, True)}) = used S"
  "used (insert (p, n, False) S) = insert (p, n) (used S)" "used (S - {(p, n, False)}) = used S - {(p, n)}"
  by (auto simp: used_def)

lemma merge_before_inv:
  assumes inv: "span_inv s0 S h k c" and co: "coalesced S" and k: "0 < k"
  shows "\<exists>h' k' S' c'. merge_before h k c = Some (h', k', c') \<and> span_inv s0 S' h' k' c' \<and> only_spans c c' \<and>
    coalesced S' \<and> used S' = used S \<and> h' \<le> h \<and> h' + k' = h + k \<and> (\<forall>q m. (q, m, True) \<in> S' \<longrightarrow> q + m \<noteq> h') \<and>
    free_pages S' + k' = free_pages S + k"
proof -
  note D = layoutD [OF span_invD(1) [OF inv]]
  have b: "sub32 h 1 = h - 1" using D(2,5) by (intro sub32_exact) simp
  show ?thesis
  proof (cases "pg_free (pages c (h - 1))")
    case False
    have "q + m \<noteq> h" if q: "(q, m, True) \<in> S" for q m
    proof
      assume e: "q + m = h"
      then have "pg_free (pages c (h - 1))" using span_invD(2) [OF inv] q unfolding tagged_def by blast
      with False show False by simp
    qed
    with False inv co b show ?thesis by (auto simp: merge_before_def)
  next
    case True
    with page_before [OF inv] obtain q m where
      s: "(q, m, True) \<in> S" "q + m = h" "span_size (pages c (h - 1)) = m" by auto
    note P = spans_inD [OF D(7) s(1)]
    obtain i where i: "index_of m = Some i"
      using index_of_Some [OF P(1) layout_span_small [OF span_invD(1) [OF inv] s(1)]] by blast
    let ?c = "unlink i q (c\<lparr>nr_free_pages := sub32 (nr_free_pages c) m\<rparr>)"
    have "h - 1 - (m - 1) = q" "sub32 h m = q" "add32 k m = m + k"
      using s(2) P(1) D(4,6) by (auto simp: add.commute)
    then have run: "merge_before h k c = Some (q, m + k, ?c)"
      using True b s(3) i P(1) by (simp add: merge_before_def)
    have inv': "span_inv s0 (S - {(q, m, True)}) q (m + k) ?c" using unlink_inv [OF inv s(1) i] s(2) by blast
    have co': "coalesced (S - {(q, m, True)})" using co unfolding coalesced_def by blast
    have "\<forall>q' m'. (q', m', True) \<in> S - {(q, m, True)} \<longrightarrow> q' + m' \<noteq> q" using co s(1) unfolding coalesced_def by blast
    moreover have "free_pages S = m + free_pages (S - {(q, m, True)})" using free_pages_remove [OF D(1) s(1)] by simp
    moreover have "only_spans c ?c" by (simp add: unlink_def only_spans_def split: prod.splits)
    ultimately show ?thesis using run inv' co' s(2) by (intro exI [of _ q] exI [of _ "m + k"] exI) auto
  qed
qed

lemma merge_after_inv:
  assumes inv: "span_inv s0 S h k c" and co: "coalesced S" and k: "0 < k"
    and bef: "\<forall>q m. (q, m, True) \<in> S \<longrightarrow> q + m \<noteq> h"
  shows "\<exists>k' S' c'. merge_after h k c = Some (k', c') \<and> span_inv s0 S' h k' c' \<and> only_spans c c' \<and>
    used S' = used S \<and> k \<le> k' \<and> coalesced (insert (h, k', True) S') \<and> free_pages S' + k' = free_pages S + k"
proof -
  note D = layoutD [OF span_invD(1) [OF inv]]
  have b: "add32 h k = h + k" using D(4,6) by (intro add32_exact) simp
  show ?thesis
  proof (cases "pg_free (pages c (h + k))")
    case False
    have "(h + k, m, True) \<notin> S" for m
    proof
      assume "(h + k, m, True) \<in> S"
      then have "pg_free (pages c (h + k))" using span_invD(2) [OF inv] unfolding tagged_def by blast
      with False show False by simp
    qed
    with co bef k have "coalesced (insert (h, k, True) S)" by (intro coalesced_insert) blast+
    with False inv b show ?thesis by (auto simp: merge_after_def)
  next
    case True
    with page_after [OF inv] obtain m where
      s: "(h + k, m, True) \<in> S" "span_size (pages c (h + k)) = m" by auto
    note P = spans_inD [OF D(7) s(1)]
    obtain i where i: "index_of m = Some i"
      using index_of_Some [OF P(1) layout_span_small [OF span_invD(1) [OF inv] s(1)]] by blast
    let ?c = "unlink i (h + k) (c\<lparr>nr_free_pages := sub32 (nr_free_pages c) m\<rparr>)" and ?S = "S - {(h + k, m, True)}"
    have "add32 k m = m + k" using P(3) D(4) by (simp add: add.commute)
    then have run: "merge_after h k c = Some (m + k, ?c)"
      using True b s(2) i P(1) by (simp add: merge_after_def)
    have inv': "span_inv s0 ?S h (m + k) ?c" using unlink_inv [OF inv s(1) i] by blast
    have "(h + (m + k), m', True) \<notin> ?S" for m'
    proof
      assume "(h + (m + k), m', True) \<in> ?S"
      then have "(h + k + m, m', True) \<in> S" by (simp add: ac_simps)
      with co s(1) show False unfolding coalesced_def by blast
    qed
    then have co': "coalesced (insert (h, m + k, True) ?S)"
      using bef k by (intro coalesced_insert coalesced_subset [OF co]) auto
    have "free_pages S = m + free_pages ?S" using free_pages_remove [OF D(1) s(1)] by simp
    moreover have "only_spans c ?c" by (simp add: unlink_def only_spans_def split: prod.splits)
    ultimately show ?thesis using run inv' co' by (intro exI [of _ "m + k"] exI [of _ ?S] exI [of _ ?c]) auto
  qed
qed

text \<open>A closed pool has no hole; it is placed at the end.\<close>

definition pool_inv :: "nat \<Rightarrow> span set \<Rightarrow> cpu_pages \<Rightarrow> bool" where
  "pool_inv s0 S c \<longleftrightarrow> span_inv s0 S (nr_pages c) 0 c \<and> coalesced S"

lemma layout_move_hole:
  assumes "layout s0 nr S h 0" "s0 \<le> h'" "h' \<le> nr" "\<And>p n f. (p, n, f) \<in> S \<Longrightarrow> p + n \<le> h' \<or> h' \<le> p"
  shows "layout s0 nr S h' 0"
proof -
  note D = layoutD [OF assms(1)]
  have "spans_in s0 nr S h' 0" unfolding spans_in_def
  proof (intro allI impI)
    fix p n f assume s: "(p, n, f) \<in> S"
    show "0 < n \<and> s0 \<le> p \<and> p + n \<le> nr \<and> (p + n \<le> h' \<or> h' + 0 \<le> p)"
      using spans_inD(1-3) [OF D(7) s] assms(4) [OF s] by simp
  qed
  moreover have "spans_cover s0 nr S h' 0" unfolding spans_cover_def
  proof (intro allI impI)
    fix i assume "s0 \<le> i \<and> i < nr"
    with D(9) have "h \<le> i \<and> i < h + 0 \<or> in_span i S" unfolding spans_cover_def by blast
    then show "h' \<le> i \<and> i < h' + 0 \<or> in_span i S" by (metis add_0_right not_le)
  qed
  ultimately show ?thesis using D(1-4,8) assms(2,3) by (simp add: layout_def)
qed

lemma pool_close:
  assumes "span_inv s0 S h 0 c" "coalesced S"
  shows "pool_inv s0 S c"
proof -
  have "layout s0 (nr_pages c) S (nr_pages c) 0"
  proof (rule layout_move_hole [OF span_invD(1) [OF assms(1)]])
    show "s0 \<le> nr_pages c" using layoutD(3) [OF span_invD(1) [OF assms(1)]] .
    show "p + n \<le> nr_pages c \<or> nr_pages c \<le> p" if "(p, n, f) \<in> S" for p n f
      using spans_inD(3) [OF layoutD(7) [OF span_invD(1) [OF assms(1)]] that] by simp
  qed simp
  with assms show ?thesis by (simp add: pool_inv_def span_inv_def)
qed

text \<open>Opening a used span: its pages become the hole.\<close>

lemma pool_open:
  assumes "pool_inv s0 S c" "(p, n, False) \<in> S"
  shows "span_inv s0 (S - {(p, n, False)}) p n c"
proof -
  have inv: "span_inv s0 S (nr_pages c) 0 c" using assms(1) by (simp add: pool_inv_def)
  note D = layoutD [OF span_invD(1) [OF inv]]
  note P = spans_inD [OF D(7) assms(2)]
  have "layout s0 (nr_pages c) S p 0"
  proof (rule layout_move_hole [OF span_invD(1) [OF inv]])
    fix q m f assume "(q, m, f) \<in> S"
    from spans_apartD [OF D(8) this assms(2)] P(1) show "q + m \<le> p \<or> p \<le> q" by auto
  qed (use P in auto)
  from layout_absorb [OF this assms(2), of p] have "layout s0 (nr_pages c) (S - {(p, n, False)}) p n" by simp
  moreover have "free_pages S = free_pages (S - {(p, n, False)})" using free_pages_remove [OF D(1) assms(2)] by simp
  moreover have "listed (S - {(p, n, False)}) c L = listed S c L" for L by (simp add: listed_def)
  ultimately show ?thesis using span_invD [OF inv] tagged_remove by (simp add: span_inv_def)
qed

text \<open>Freeing the pages of the hole.\<close>

lemma free_hole_correct:
  assumes inv: "span_inv s0 S p n c" and co: "coalesced S" and n: "0 < n"
  shows "\<exists>c' S'. free_span p n c = Some c' \<and> pool_inv s0 S' c' \<and> only_spans c c' \<and>
    used S' = used S \<and> nr_free_pages c' = nr_free_pages c + n \<and>
    (\<exists>q m. (q, m, True) \<in> S' \<and> q \<le> p \<and> p + n \<le> q + m)"
proof -
  from merge_before_inv [OF inv co n] obtain h1 k1 S1 c1 where
    b: "merge_before p n c = Some (h1, k1, c1)" "span_inv s0 S1 h1 k1 c1" "only_spans c c1" "coalesced S1"
    "used S1 = used S" "h1 \<le> p" "h1 + k1 = p + n" "\<forall>q m. (q, m, True) \<in> S1 \<longrightarrow> q + m \<noteq> h1"
    "free_pages S1 + k1 = free_pages S + n" by blast
  have k1: "0 < k1" using b(6,7) n by linarith
  from merge_after_inv [OF b(2,4) k1 b(8)] obtain k2 S2 c2 where
    a: "merge_after h1 k1 c1 = Some (k2, c2)" "span_inv s0 S2 h1 k2 c2" "only_spans c1 c2" "used S2 = used S1"
    "k1 \<le> k2" "coalesced (insert (h1, k2, True) S2)" "free_pages S2 + k2 = free_pages S1 + k1" by blast
  have k2: "0 < k2" using a(5) k1 by simp
  from free_span_no_merge_inv [OF a(2) k2, of "h1 + k2" 0 h1] obtain c3 where
    f: "free_span_no_merge h1 k2 c2 = Some c3" "span_inv s0 (insert (h1, k2, True) S2) (h1 + k2) 0 c3"
    "only_spans c2 c3" by auto
  have "free_span p n c = Some c3" using b(1) a(1) f(1) by (simp add: free_span_def)
  moreover have "pool_inv s0 (insert (h1, k2, True) S2) c3" using pool_close [OF f(2) a(6)] .
  moreover have "only_spans c c3" using b(3) a(3) f(3) only_spans_trans by blast
  moreover have "used (insert (h1, k2, True) S2) = used S" using a(4) b(5) by simp
  moreover have "nr_free_pages c3 = nr_free_pages c + n"
  proof -
    have "(h1, k2, True) \<notin> S2" using not_in_hole [OF span_invD(1) [OF a(2)], of h1] k2 by simp
    then have "free_pages (insert (h1, k2, True) S2) = k2 + free_pages S2"
      using free_pages_insert layoutD(1) [OF span_invD(1) [OF a(2)]] by simp
    then show ?thesis using span_invD(6) [OF f(2)] span_invD(6) [OF inv] a(7) b(9) by simp
  qed
  moreover have "(h1, k2, True) \<in> insert (h1, k2, True) S2" "h1 \<le> p" "p + n \<le> h1 + k2" using b(6,7) a(5) by auto
  ultimately show ?thesis by blast
qed

lemma free_span_correct:
  assumes "pool_inv s0 S c" "(p, n, False) \<in> S"
  shows "\<exists>c' S'. free_span p n c = Some c' \<and> pool_inv s0 S' c' \<and> only_spans c c' \<and>
    used S' = used S - {(p, n)} \<and> nr_free_pages c' = nr_free_pages c + n \<and>
    (\<exists>q m. (q, m, True) \<in> S' \<and> q \<le> p \<and> p + n \<le> q + m)"
proof -
  have "0 < n" using spans_inD(1) [OF layoutD(7) [OF span_invD(1)] assms(2)] assms(1) by (auto simp: pool_inv_def)
  moreover have "coalesced (S - {(p, n, False)})" using assms(1) by (auto simp: pool_inv_def coalesced_def)
  ultimately show ?thesis using free_hole_correct [OF pool_open [OF assms]] by simp
qed

end
