(* ===== verification/Span_Alloc.thy ===== *)
theory Span_Alloc
  imports Spans
begin

text \<open>
  Allocation of page spans: what \<^verbatim>\<open>find_and_unlink_span\<close> finds, what cutting it leaves, and the
  contract of \<^verbatim>\<open>allocate_large\<close> and \<^verbatim>\<open>allocate_large_aligned\<close>.
\<close>

section \<open>Finding a span\<close>

lemma pool_invD:
  assumes "pool_inv s0 S c"
  shows "span_inv s0 S (nr_pages c) 0 c" "coalesced S" "layout s0 (nr_pages c) S (nr_pages c) 0"
    "\<exists>L. listed S c L" "nr_free_pages c = free_pages S"
  using assms span_invD [of s0 S "nr_pages c" 0 c] by (auto simp: pool_inv_def)

lemma listed_plist: "listed S c L \<Longrightarrow> i < 32 \<Longrightarrow> plist (pages c) (free_spans c i) (L i)"
  by (simp add: listed_def)

lemma listed_mem: "listed S c L \<Longrightarrow> i < 32 \<Longrightarrow> p \<in> set (L i) \<longleftrightarrow> (\<exists>n. (p, n, True) \<in> S \<and> index_of n = Some i)"
  by (auto simp: listed_def)

text \<open>A list has no more entries than there are pages, so the walk through it has fuel enough.\<close>

lemma listed_length:
  assumes "pool_inv s0 S c" "listed S c L" "i < 32"
  shows "length (L i) < nr_pages c + 1"
proof -
  have "set (L i) \<subseteq> {0..<nr_pages c}"
  proof
    fix p assume "p \<in> set (L i)"
    then obtain n where s: "(p, n, True) \<in> S" using listed_mem [OF assms(2,3)] by blast
    from spans_inD(1,3) [OF layoutD(7) [OF pool_invD(3) [OF assms(1)]] s] show "p \<in> {0..<nr_pages c}" by simp
  qed
  then have "card (set (L i)) \<le> nr_pages c" using card_mono [of "{0..<nr_pages c}"] by simp
  then show ?thesis using plist_distinct [OF listed_plist [OF assms(2,3)]] by (simp add: distinct_card)
qed

definition fits :: "nat \<Rightarrow> span set \<Rightarrow> bool" where
  "fits n S \<longleftrightarrow> (\<exists>p m. (p, m, True) \<in> S \<and> n \<le> m)"

lemma take_from_list_result:
  assumes inv: "pool_inv s0 S c" and L: "listed S c L" and i: "i < 32"
  shows "take_from_list i n c = Returned 0 c \<and> (\<forall>p m. (p, m, True) \<in> S \<and> index_of m = Some i \<longrightarrow> m < n) \<or>
    (\<exists>p m. take_from_list i n c = Returned p (unlink i p c) \<and> (p, m, True) \<in> S \<and> index_of m = Some i \<and> n \<le> m \<and> p \<noteq> 0)"
proof -
  have pl: "plist (pages c) (free_spans c i) (L i)" using listed_plist [OF L i] .
  have nz: "0 \<notin> set (L i)" using plist_nonzero [OF pl] by blast
  have sz: "span_size (pages c p) = m" if "(p, m, True) \<in> S" for p m
    using span_invD(2) [OF pool_invD(1) [OF inv]] that unfolding tagged_def by blast
  let ?f = "first_fit n (pages c) (L i)"
  have run: "take_from_list i n c = (if ?f = 0 then Returned 0 c else Returned ?f (unlink i ?f c))"
    using plist_find [OF pl listed_length [OF inv L i], of n] by (simp add: take_from_list_def)
  from first_fit_cases [OF nz, of n "pages c"] show ?thesis
  proof (elim disjE conjE)
    assume z: "?f = 0" and all: "\<forall>x \<in> set (L i). span_size (pages c x) < n"
    have "m < n" if "(p, m, True) \<in> S" "index_of m = Some i" for p m
    proof -
      have "p \<in> set (L i)" using listed_mem [OF L i] that by blast
      with all sz [OF that(1)] show ?thesis by auto
    qed
    with z run show ?thesis by auto
  next
    assume m: "?f \<in> set (L i)" and fit: "n \<le> span_size (pages c ?f)"
    obtain k where k: "(?f, k, True) \<in> S" "index_of k = Some i" using listed_mem [OF L i] m by blast
    moreover have "?f \<noteq> 0" using m nz by metis
    ultimately show ?thesis using run fit sz [OF k(1)] by auto
  qed
qed

lemma next_nonempty_result:
  assumes L: "listed S c L" and i: "i \<le> 32"
  defines "j \<equiv> next_nonempty i c"
  shows "j = 32 \<and> (\<forall>k. i \<le> k \<and> k < 32 \<longrightarrow> L k = []) \<or> i \<le> j \<and> j < 32 \<and> L j \<noteq> []"
proof -
  have e: "pl_empty (free_spans c k) \<longleftrightarrow> L k = []" if "k < 32" for k
    using plist_empty [OF listed_plist [OF L that]] .
  show ?thesis
  proof (cases "find (\<lambda>k. \<not> pl_empty (free_spans c k)) [i..<32]")
    case None
    then have "\<forall>k. i \<le> k \<and> k < 32 \<longrightarrow> L k = []" using e by (auto simp: find_None_iff)
    with None show ?thesis by (simp add: j_def next_nonempty_def)
  next
    case (Some k)
    then have "\<not> pl_empty (free_spans c k)" "k \<in> set [i..<32]" by (auto simp: find_Some_iff)
    with Some e show ?thesis by (auto simp: j_def next_nonempty_def)
  qed
qed

lemma index_of_mono_bounds:
  assumes "index_of m = Some i" "0 < m" "m < 2 ^ 32"
  shows "2 ^ i \<le> m" "m < 2 ^ Suc i"
  using index_of_Some [OF assms(2,3)] assms(1) by auto

text \<open>The order the search starts at, and that the test for overflow does not fire.\<close>

lemma start_order:
  assumes n: "0 < n" "n \<le> 2 ^ 30"
  obtains o_idx where "index_of_conservative n = Some o_idx" "n \<le> 2 ^ o_idx" "n = 1 \<and> o_idx = 0 \<or> 2 ^ o_idx < 2 * n"
    "o_idx < 31" "\<not> 2 * 2 ^ o_idx mod 2 ^ 32 \<le> n"
proof -
  have n32: "n < 2 ^ 32" using n(2) by simp
  obtain o_idx where o: "index_of_conservative n = Some o_idx" "n \<le> 2 ^ o_idx" "n = 1 \<or> 2 ^ o_idx < 2 * n"
    using index_of_conservative_Some [OF n(1) n32] by blast
  have one: "n = 1 \<Longrightarrow> o_idx = 0" using o(1) by (simp add: index_of_conservative_def)
  then have "(2::nat) ^ o_idx < 2 ^ 31" using o(3) n(2) by (cases "n = 1") auto
  then have o31: "o_idx < 31" using power_less_imp_less_exp [of "2::nat" o_idx 31] by simp
  then have "(2::nat) ^ Suc o_idx < 2 ^ 32" by (intro power_strict_increasing) auto
  then have "\<not> 2 * 2 ^ o_idx mod 2 ^ 32 \<le> n" using o(2) n(1) by simp
  then show ?thesis using that o one o31 by blast
qed

lemma free_span_order:
  assumes "pool_inv s0 S c" "(p, m, True) \<in> S"
  obtains i where "index_of m = Some i" "i < 32" "2 ^ i \<le> m" "m < 2 ^ Suc i"
proof -
  have m: "0 < m" "m < 2 ^ 32"
    using spans_inD(1) [OF layoutD(7) [OF pool_invD(3) [OF assms(1)]] assms(2)]
      layout_span_small [OF pool_invD(3) [OF assms(1)] assms(2)] by auto
  from index_of_Some [OF this] show ?thesis using that by blast
qed

text \<open>When the lists from an order on are empty, every free span is below that order.\<close>

lemma lists_empty_above:
  assumes inv: "pool_inv s0 S c" and L: "listed S c L" and none: "\<forall>k. o_idx \<le> k \<and> k < 32 \<longrightarrow> L k = []"
    and s: "(p, m, True) \<in> S"
  shows "m < 2 ^ o_idx"
proof -
  obtain i where i: "index_of m = Some i" "i < 32" "m < 2 ^ Suc i" by (rule free_span_order [OF inv s])
  have "p \<in> set (L i)" using listed_mem [OF L i(2)] s i(1) by blast
  then have "i < o_idx" using none i(2) by (metis empty_iff empty_set not_le)
  then have "(2::nat) ^ Suc i \<le> 2 ^ o_idx" by (intro power_increasing) auto
  with i(3) show ?thesis by simp
qed

text \<open>Then only the list of the size's own order can hold a span that is large enough.\<close>

lemma own_order_only:
  assumes inv: "pool_inv s0 S c" and i: "2 ^ i \<le> n" "n < 2 ^ Suc i" "i \<noteq> o_idx"
    and o: "n \<le> 2 ^ o_idx" "n = 1 \<and> o_idx = 0 \<or> 2 ^ o_idx < 2 * n"
    and above: "m < 2 ^ o_idx" and s: "(p, m, True) \<in> S" "n \<le> m"
  shows "index_of m = Some i"
proof -
  have "(2::nat) ^ i \<le> 2 ^ o_idx" using i(1) o(1) by linarith
  then have lt: "i < o_idx" using i(3) power_increasing_iff [of "2::nat" i o_idx] by simp
  then have "(2::nat) ^ o_idx < 2 ^ Suc (Suc i)" using o(2) i(2) by auto
  then have "o_idx = Suc i" using lt power_less_imp_less_exp [of "2::nat" o_idx "Suc (Suc i)"] by simp
  then show ?thesis
    using index_of_log(1) [of i m] above s i(1) layout_span_small [OF pool_invD(3) [OF inv] s(1)] by simp
qed

lemma find_and_unlink_span_result:
  assumes inv: "pool_inv s0 S c" and n: "0 < n" "n \<le> 2 ^ 30"
  shows "find_and_unlink_span env n c = Returned 0 c \<and> \<not> fits n S \<or>
    (\<exists>p m i. find_and_unlink_span env n c = Returned p (unlink i p c) \<and> (p, m, True) \<in> S \<and>
       index_of m = Some i \<and> n \<le> m \<and> p \<noteq> 0)"
proof -
  obtain L where L: "listed S c L" using pool_invD(4) [OF inv] by blast
  obtain o_idx where o: "index_of_conservative n = Some o_idx" "n \<le> 2 ^ o_idx" "n = 1 \<and> o_idx = 0 \<or> 2 ^ o_idx < 2 * n"
    "o_idx < 31" "\<not> 2 * 2 ^ o_idx mod 2 ^ 32 \<le> n" by (rule start_order [OF n])
  let ?j = "next_nonempty o_idx c"
  from next_nonempty_result [OF L, of o_idx] o(4)
  consider "?j = 32" "\<forall>k. o_idx \<le> k \<and> k < 32 \<longrightarrow> L k = []" | "o_idx \<le> ?j" "?j < 32" "L ?j \<noteq> []" by auto
  then show ?thesis
  proof cases
    case 1
    note above = lists_empty_above [OF inv L 1(2)]
    have init: "initialize env c = Some (False, c)"
      using layoutD(2,3) [OF pool_invD(3) [OF inv]] by (simp add: initialize_def is_initialized_def)
    obtain i where i: "index_of n = Some i" "i < 32" "2 ^ i \<le> n" "n < 2 ^ Suc i" using index_of_Some [of n] n by auto
    have run: "find_and_unlink_span env n c = (if i = o_idx then Returned 0 c else take_from_list i n c)"
      using o 1(1) init i(1) by (simp add: find_and_unlink_span_def numeral_2_eq_2)
    show ?thesis
    proof (cases "i = o_idx")
      case True
      then show ?thesis using run above i(3) by (force simp: fits_def)
    next
      case False
      have "\<not> fits n S" if none: "\<forall>p m. (p, m, True) \<in> S \<and> index_of m = Some i \<longrightarrow> m < n"
        using none own_order_only [OF inv i(3,4) False o(2,3) above] unfolding fits_def by (meson not_le)
      moreover from False run have "find_and_unlink_span env n c = take_from_list i n c" by simp
      ultimately show ?thesis using take_from_list_result [OF inv L i(2), of n] by metis
    qed
  next
    case 2
    have run: "find_and_unlink_span env n c = take_from_list ?j n c"
      using o 2(2) by (simp add: find_and_unlink_span_def numeral_2_eq_2)
    obtain p where "p \<in> set (L ?j)" using 2(3) by (meson hd_in_set)
    then obtain m where m: "(p, m, True) \<in> S" "index_of m = Some ?j" using listed_mem [OF L 2(2)] by blast
    have "(2::nat) ^ o_idx \<le> 2 ^ ?j" using 2(1) by (intro power_increasing) auto
    moreover obtain i where "index_of m = Some i" "2 ^ i \<le> m" by (rule free_span_order [OF inv m(1)])
    ultimately have "n \<le> m" using o(2) m(2) by (metis le_trans option.inject)
    with take_from_list_result [OF inv L 2(2), of n] m run show ?thesis by (metis not_le)
  qed
qed

section \<open>Cutting it\<close>

lemma unlink_count: "unlink i p (c\<lparr>nr_free_pages := x\<rparr>) = (unlink i p c)\<lparr>nr_free_pages := x\<rparr>"
  by (simp add: unlink_def split: prod.splits)

lemma pool_hole_at:
  assumes "pool_inv s0 S c" "(p, n, f) \<in> S"
  shows "span_inv s0 S p 0 c"
proof -
  have inv: "span_inv s0 S (nr_pages c) 0 c" using assms(1) by (simp add: pool_inv_def)
  note D = layoutD [OF span_invD(1) [OF inv]]
  note P = spans_inD [OF D(7) assms(2)]
  have "layout s0 (nr_pages c) S p 0"
  proof (rule layout_move_hole [OF span_invD(1) [OF inv]])
    fix q m g assume "(q, m, g) \<in> S"
    from spans_apartD [OF D(8) this assms(2)] P(1) show "q + m \<le> p \<or> p \<le> q" by auto
  qed (use P in auto)
  with inv show ?thesis by (simp add: span_inv_def)
qed

lemma listed_insert_used: "listed (insert (p, n, False) S) c L = listed S c L"
  by (simp add: listed_def)

text \<open>Filling the hole with a used span: the tags are written at both ends.\<close>

lemma mark_used_inv:
  assumes inv: "span_inv s0 S h k c" and k: "0 < k"
    and ary: "\<And>j. j \<noteq> h \<Longrightarrow> j \<noteq> h + k - 1 \<Longrightarrow> pages c' j = pages c j"
      "\<And>j. link_prev (pages c' j) = link_prev (pages c j) \<and> link_next (pages c' j) = link_next (pages c j)"
      "\<not> pg_free (pages c' h)" "\<not> pg_free (pages c' (h + k - 1))"
      "span_size (pages c' h) = k" "span_size (pages c' (h + k - 1)) = k"
    and rest: "free_spans c' = free_spans c" "nr_pages c' = nr_pages c" "nr_free_pages c' = nr_free_pages c"
  shows "span_inv s0 (insert (h, k, False) S) (h + k) 0 c'"
proof -
  note I = span_invD [OF inv]
  note D = layoutD [OF I(1)]
  have lay: "layout s0 (nr_pages c) (insert (h, k, False) S) (h + k) 0"
    using layout_fill [OF I(1) k, of "h + k" 0 h] by simp
  have "tagged (pages c') S"
    using I(1,2) by (rule tagged_hole) (use k in \<open>auto intro!: ary(1)\<close>)
  then have "tagged (pages c') (insert (h, k, False) S)" using ary(3-6) by (auto simp: tagged_def)
  moreover obtain L where "listed S c L" using I(5) by blast
  then have "listed (insert (h, k, False) S) c' L" using listed_cong [OF ary(2) rest(1)] listed_insert_used by blast
  moreover have "pages c' (s0 - 1) = pages c (s0 - 1)" "pages c' (nr_pages c) = pages c (nr_pages c)"
    using D(2,5,6) k by (auto intro!: ary(1))
  moreover have "free_pages (insert (h, k, False) S) = free_pages S"
    using free_pages_insert [OF D(1), of h k False] not_in_hole [OF I(1), of h] k by simp
  ultimately show ?thesis using lay I(3,4,6) rest by (auto simp: span_inv_def)
qed

text \<open>The cut: \<open>off\<close> pages in front and what is behind the \<open>t\<close> pages go back to the lists.\<close>

text \<open>
  Cutting in three steps. \<open>hole_ok\<close>: pages are taken out of the layout \<open>S\<close> at \<open>p\<close>, and the span behind
  them is not free.
\<close>

definition hole_ok :: "nat \<Rightarrow> span set \<Rightarrow> nat \<Rightarrow> nat \<Rightarrow> cpu_pages \<Rightarrow> bool" where
  "hole_ok s0 S p m c \<longleftrightarrow> span_inv s0 S p m c \<and> coalesced S \<and> finite S \<and> (\<forall>x. (p + m, x, True) \<notin> S)"

lemma hole_out: "hole_ok s0 S p m c \<Longrightarrow> (q, x, f) \<in> S \<Longrightarrow> 0 < x \<and> (q + x \<le> p \<or> p + m \<le> q)"
  unfolding hole_ok_def using spans_inD(1,4) [OF layoutD(7) [OF span_invD(1)]] by blast

text \<open>The span is unlinked and its pages are no longer counted as free.\<close>

lemma cut_open:
  assumes inv: "pool_inv s0 S c" and s: "(p, m, True) \<in> S" "index_of m = Some i"
    and c1: "c1 = (unlink i p c)\<lparr>nr_free_pages := sub32 (nr_free_pages (unlink i p c)) m\<rparr>"
  shows "hole_ok s0 (S - {(p, m, True)}) p m c1" "only_spans c c1" "span_size (pages (unlink i p c) p) = m"
    "\<And>q x. (q, x, True) \<in> S - {(p, m, True)} \<Longrightarrow> q + x \<noteq> p"
proof -
  let ?S1 = "S - {(p, m, True)}"
  have c1': "c1 = unlink i p (c\<lparr>nr_free_pages := sub32 (nr_free_pages c) m\<rparr>)"
    by (simp add: c1 unlink_count unlink_def split: prod.splits)
  have "span_inv s0 ?S1 p m c1"
    using unlink_inv [OF pool_hole_at [OF inv s(1)] s, of p] by (simp add: c1')
  moreover have "coalesced ?S1" using pool_invD(2) [OF inv] by (rule coalesced_subset) auto
  moreover have "\<forall>x. (p + m, x, True) \<notin> ?S1" using pool_invD(2) [OF inv] s(1) unfolding coalesced_def by blast
  moreover have "finite ?S1" using layoutD(1) [OF pool_invD(3) [OF inv]] by simp
  ultimately show "hole_ok s0 ?S1 p m c1" by (simp add: hole_ok_def)
  show "only_spans c c1" by (simp add: c1' unlink_def only_spans_def split: prod.splits)
  show "span_size (pages (unlink i p c) p) = m"
    using span_invD(2) [OF pool_invD(1) [OF inv]] s(1) unfolding tagged_def link_tags by blast
  show "q + x \<noteq> p" if "(q, x, True) \<in> ?S1" for q x
    using pool_invD(2) [OF inv] s(1) that unfolding coalesced_def by blast
qed

text \<open>What lies in front of the wanted pages goes back.\<close>

lemma cut_front:
  assumes h: "hole_ok s0 S p m c" and before: "\<And>q x. (q, x, True) \<in> S \<Longrightarrow> q + x \<noteq> p" and off: "off < m"
    and S': "S' = (if off = 0 then S else insert (p, off, True) S)"
  shows "\<exists>c'. (if off \<noteq> 0 then map_option (\<lambda>c'. (p + off, sub32 m off, c')) (free_span_no_merge p off c) else Some (p, m, c)) =
      Some (p + off, m - off, c') \<and> hole_ok s0 S' (p + off) (m - off) c' \<and> free_pages S' = off + free_pages S \<and> only_spans c c'"
proof (cases "off = 0")
  case True
  then show ?thesis using h by (simp add: S' only_spans_def)
next
  case False
  have inv: "span_inv s0 S p m c" using h by (simp add: hole_ok_def)
  from free_span_no_merge_inv [OF inv, of off "p + off" "m - off" p] off False obtain c' where
    c': "free_span_no_merge p off c = Some c'" "span_inv s0 S' (p + off) (m - off) c'" "only_spans c c'"
    by (auto simp: S')
  have "(p + off, x, True) \<notin> S" "(p, off, True) \<notin> S" for x
    using hole_out [OF h, of "p + off" x True] hole_out [OF h, of p off True] off False by auto
  then have "coalesced S'" "free_pages S' = off + free_pages S"
    using h before coalesced_insert [of S p off] free_pages_insert [of S p off] False by (auto simp: hole_ok_def S')
  moreover have "finite S'" "\<forall>x. (p + m, x, True) \<notin> S'" using h off by (auto simp: hole_ok_def S')
  ultimately show ?thesis using c' False off by (auto simp: hole_ok_def)
qed

text \<open>What lies behind them goes back.\<close>

lemma cut_back:
  assumes h: "hole_ok s0 S p m c" and t: "0 < t" "t \<le> m"
    and S': "S' = (if m - t = 0 then S else insert (p + t, m - t, True) S)"
  shows "\<exists>c'. (if t < m then free_span_no_merge (p + t) (m - t) c else Some c) = Some c' \<and>
      span_inv s0 S' p t c' \<and> coalesced S' \<and> free_pages S' = (m - t) + free_pages S \<and> only_spans c c'"
proof (cases "m - t = 0")
  case True
  then have "m = t" using t by simp
  then show ?thesis using h by (simp add: S' hole_ok_def only_spans_def)
next
  case False
  have inv: "span_inv s0 S p m c" using h by (simp add: hole_ok_def)
  from free_span_no_merge_inv [OF inv, of "m - t" p t "p + t"] t False obtain c' where
    c': "free_span_no_merge (p + t) (m - t) c = Some c'" "span_inv s0 S' p t c'" "only_spans c c'"
    by (auto simp: S')
  have "(p + t, m - t, True) \<notin> S" "\<And>q x. (q, x, True) \<in> S \<Longrightarrow> q + x \<noteq> p + t"
    using hole_out [OF h] t False by fastforce+
  then have "coalesced S'" "free_pages S' = (m - t) + free_pages S"
    using h t False coalesced_insert [of S "p + t" "m - t"] free_pages_insert [of S "p + t" "m - t"]
    by (auto simp: hole_ok_def S')
  then show ?thesis using c' False by auto
qed

lemma cut_span_correct:
  assumes inv: "pool_inv s0 S c" and s: "(p, m, True) \<in> S" "index_of m = Some i"
    and t: "0 < t" "off + t \<le> m"
  shows "\<exists>c' S'. cut_span p \<lparr>trim_offset = off, trim_pages = t\<rparr> (unlink i p c) = Some (p + off, c') \<and>
    pool_inv s0 S' c' \<and> only_spans c c' \<and> used S' = insert (p + off, t) (used S) \<and>
    nr_free_pages c' = nr_free_pages c - t \<and> pg_pool (pages c' (p + off)) = None"
proof -
  define c1 where "c1 = (unlink i p c)\<lparr>nr_free_pages := sub32 (nr_free_pages (unlink i p c)) m\<rparr>"
  note o1 = cut_open [OF inv s c1_def]
  define S1 where "S1 = S - {(p, m, True)}"
  define S2 where "S2 = (if off = 0 then S1 else insert (p, off, True) S1)"
  define S3 where "S3 = (if m - off - t = 0 then S2 else insert (p + off + t, m - off - t, True) S2)"
  have "off < m" "t \<le> m - off" using t by auto
  obtain c2 where c2: "(if off \<noteq> 0 then map_option (\<lambda>c'. (p + off, sub32 m off, c')) (free_span_no_merge p off c1) else Some (p, m, c1)) =
      Some (p + off, m - off, c2)" "hole_ok s0 S2 (p + off) (m - off) c2" "free_pages S2 = off + free_pages S1" "only_spans c1 c2"
    using cut_front [OF o1(1,4) \<open>off < m\<close> S2_def [unfolded S1_def]] unfolding S1_def by blast
  obtain c3 where c3: "(if t < m - off then free_span_no_merge (p + off + t) (m - off - t) c2 else Some c2) = Some c3"
      "span_inv s0 S3 (p + off) t c3" "coalesced S3" "free_pages S3 = (m - off - t) + free_pages S2" "only_spans c2 c3"
    using cut_back [OF c2(2) t(1) \<open>t \<le> m - off\<close> S3_def] by blast
  let ?e = "p + off + t - 1"
  define c4 where "c4 = upd_page (p + off) (pg_pool_update (\<lambda>_. None)) (upd_page (p + off) (span_size_update (\<lambda>_. t))
     (upd_page ?e (span_size_update (\<lambda>_. t)) (upd_page (p + off) (pg_free_update (\<lambda>_. False))
       (upd_page ?e (pg_free_update (\<lambda>_. False)) c3))))"
  have run: "cut_span p \<lparr>trim_offset = off, trim_pages = t\<rparr> (unlink i p c) = Some (p + off, c4)"
    unfolding cut_span_def Let_def o1(3) c1_def [symmetric] trim.select_convs c2(1) using c3(1) by (simp add: c4_def)
  have "span_inv s0 (insert (p + off, t, False) S3) (p + off + t) 0 c4"
    using c3(2) t(1) by (rule mark_used_inv) (auto simp: c4_def upd_page_def)
  moreover have "coalesced (insert (p + off, t, False) S3)" using c3(3) unfolding coalesced_def by auto
  ultimately have "pool_inv s0 (insert (p + off, t, False) S3) c4" by (rule pool_close)
  moreover have "used (insert (p + off, t, False) S3) = insert (p + off, t) (used S)" by (simp add: S3_def S2_def S1_def)
  moreover have "only_spans c3 c4" by (simp add: c4_def upd_page_def only_spans_def)
  then have "only_spans c c4" using o1(2) c2(4) c3(5) only_spans_trans by blast
  moreover have "nr_free_pages c4 = nr_free_pages c - t"
    using span_invD(6) [OF c3(2)] c3(4) c2(3) free_pages_remove [OF layoutD(1) [OF pool_invD(3) [OF inv]] s(1)]
      pool_invD(5) [OF inv] t(2) by (simp add: c4_def upd_page_def S1_def)
  moreover have "pg_pool (pages c4 (p + off)) = None" by (simp add: c4_def upd_page_def)
  ultimately show ?thesis using run by blast
qed

section \<open>The contract of the large allocator\<close>

text \<open>
  A pool in its normal state: no reclaimer is registered and no reclaim hook is set (the state the
  program starts in), so an allocation neither calls back nor drains.
\<close>

definition quiet :: "cpu_pages \<Rightarrow> bool" where
  "quiet c \<longleftrightarrow> reclaimers c = [] \<and> current_min_free_pages c = 0"

lemma run_reclaimers_quiet:
  assumes "reclaimers c = []" "nr_free_pages c < 2 ^ 32 - 1"
  shows "run_reclaimers env sc c = Some (False, c\<lparr>g_reclaims := uadd (g_reclaims c) 1\<rparr>)"
  using assms by (simp add: run_reclaimers_def)

lemma low_memory_quiet: "current_min_free_pages c = 0 \<Longrightarrow> low_memory env c = Some c"
  by (simp add: low_memory_def)

lemma pool_inv_reclaims: "pool_inv s0 S (c\<lparr>g_reclaims := x\<rparr>) = pool_inv s0 S c"
  by (simp add: pool_inv_def span_inv_def listed_def)

lemma allocate_and_trim_correct:
  assumes inv: "pool_inv s0 S c" and q: "quiet c" and n: "0 < n" "n \<le> 2 ^ 30"
    and t: "0 < t" and off: "\<And>p m. (p, m, True) \<in> S \<Longrightarrow> n \<le> m \<Longrightarrow>
      trimmer p (nr_pages c) = \<lparr>trim_offset = off p, trim_pages = t\<rparr> \<and> off p + t \<le> m"
  shows "(\<exists>c'. allocate_large_and_trim env n trimmer c = Returned 0 c' \<and> \<not> fits n S \<and> pool_inv s0 S c' \<and>
      nr_free_pages c' = nr_free_pages c \<and> quiet c' \<and> memory_at c' = memory_at c) \<or>
    (\<exists>p m c' S'. allocate_large_and_trim env n trimmer c = Returned (memory_at c + (p + off p) * 4096) c' \<and>
      (p, m, True) \<in> S \<and> n \<le> m \<and> pool_inv s0 S' c' \<and> only_spans c c' \<and>
      used S' = insert (p + off p, t) (used S) \<and>
      nr_free_pages c' = nr_free_pages c - t \<and> pg_pool (pages c' (p + off p)) = None)"
proof -
  from q have q': "reclaimers c = []" "current_min_free_pages c = 0" by (simp_all add: quiet_def)
  from find_and_unlink_span_result [OF inv n, of env] show ?thesis
  proof (elim disjE conjE exE)
    assume r: "find_and_unlink_span env n c = Returned 0 c" and nf: "\<not> fits n S"
    note D = layoutD [OF pool_invD(3) [OF inv]]
    have "nr_free_pages c < 2 ^ 32 - 1"
      using layout_total [OF pool_invD(3) [OF inv]] free_pages_le [OF D(1)] D(2,4) pool_invD(5) [OF inv] by linarith
    from run_reclaimers_quiet [OF q'(1) this] r
    have "allocate_large_and_trim env n trimmer c = Returned 0 (c\<lparr>g_reclaims := uadd (g_reclaims c) 1\<rparr>)"
      by (simp add: allocate_large_and_trim_def find_and_unlink_span_reclaiming_def)
    with nf inv q' show ?thesis by (auto simp: pool_inv_reclaims quiet_def)
  next
    fix p m i
    assume r: "find_and_unlink_span env n c = Returned p (unlink i p c)" "(p, m, True) \<in> S" "index_of m = Some i"
      "n \<le> m" "p \<noteq> 0"
    have tr: "trimmer p (nr_pages c) = \<lparr>trim_offset = off p, trim_pages = t\<rparr>" "off p + t \<le> m"
      using off [OF r(2,4)] by auto
    from cut_span_correct [OF inv r(2,3) t tr(2)] obtain c' S' where
      c': "cut_span p \<lparr>trim_offset = off p, trim_pages = t\<rparr> (unlink i p c) = Some (p + off p, c')"
      "pool_inv s0 S' c'" "only_spans c c'" "used S' = insert (p + off p, t) (used S)"
      "nr_free_pages c' = nr_free_pages c - t" "pg_pool (pages c' (p + off p)) = None" by blast
    have "nr_pages (unlink i p c) = nr_pages c" by (simp add: unlink_def split: prod.splits)
    moreover have "low_memory env c' = Some c'" "memory_at c' = memory_at c"
      using q'(2) only_spans_simps [OF c'(3)] by (simp_all add: low_memory_quiet)
    ultimately have "allocate_large_and_trim env n trimmer c = Returned (memory_at c + (p + off p) * 4096) c'"
      using r(1,5) c'(1) tr(1)
      by (simp add: allocate_large_and_trim_def find_and_unlink_span_reclaiming_def or_abort_def)
    with c' r(2,4) show ?thesis by blast
  qed
qed

text \<open>
  The new span overlaps none of the used ones; this is what the layout says, written out.
\<close>

lemma used_apart:
  assumes "pool_inv s0 S c" "(p, n) \<in> used S" "(q, m) \<in> used S"
  shows "(p, n) = (q, m) \<or> p + n \<le> q \<or> q + m \<le> p"
  using spans_apartD [OF layoutD(8) [OF pool_invD(3) [OF assms(1)]], of p n False q m False] assms(2,3)
  by (auto simp: used_def)

lemma allocate_large_contract:
  assumes inv: "pool_inv s0 S c" and q: "quiet c" and n: "0 < n" "n \<le> 2 ^ 30"
  shows "(\<exists>c'. cpu_allocate_large env n c = Returned 0 c' \<and> \<not> fits n S \<and> pool_inv s0 S c' \<and>
      nr_free_pages c' = nr_free_pages c \<and> quiet c' \<and> memory_at c' = memory_at c) \<or>
    (\<exists>p c' S'. cpu_allocate_large env n c = Returned (memory_at c + p * 4096) c' \<and>
      pool_inv s0 S' c' \<and> only_spans c c' \<and> used S' = insert (p, n) (used S) \<and> (p, n) \<notin> used S \<and> fits n S \<and>
      n \<le> nr_free_pages c \<and> nr_free_pages c' = nr_free_pages c - n \<and> pg_pool (pages c' p) = None)"
proof -
  let ?tr = "\<lambda>idx m. \<lparr>trim_offset = 0, trim_pages = min m n\<rparr>"
  have tr: "\<And>p m. (p, m, True) \<in> S \<Longrightarrow> n \<le> m \<Longrightarrow>
      ?tr p (nr_pages c) = \<lparr>trim_offset = (\<lambda>_. 0) p, trim_pages = n\<rparr> \<and> (\<lambda>_. 0) p + n \<le> m"
  proof -
    fix p m assume s: "(p, m, True) \<in> S" "n \<le> m"
    show "?tr p (nr_pages c) = \<lparr>trim_offset = (\<lambda>_. 0) p, trim_pages = n\<rparr> \<and> (\<lambda>_. 0) p + n \<le> m"
      using spans_inD(3) [OF layoutD(7) [OF pool_invD(3) [OF inv]] s(1)] s(2) by (simp add: min_def)
  qed
  have fresh: "(p, n) \<notin> used S" if s: "(p, m, True) \<in> S" for p m
    using layout_same_start(2) [OF pool_invD(3) [OF inv] s] by (auto simp: used_def)
  have fitting: "fits n S" if "(p, m, True) \<in> S" "n \<le> m" for p m using that by (auto simp: fits_def)
  have enough: "m \<le> nr_free_pages c" if s: "(p, m, True) \<in> S" for p m
    using free_pages_remove [OF layoutD(1) [OF pool_invD(3) [OF inv]] s] pool_invD(5) [OF inv] by simp
  have "(\<exists>c'. cpu_allocate_large env n c = Returned 0 c' \<and> \<not> fits n S \<and> pool_inv s0 S c' \<and>
      nr_free_pages c' = nr_free_pages c \<and> quiet c' \<and> memory_at c' = memory_at c) \<or>
    (\<exists>p m c' S'. cpu_allocate_large env n c = Returned (memory_at c + (p + 0) * 4096) c' \<and>
      (p, m, True) \<in> S \<and> n \<le> m \<and> pool_inv s0 S' c' \<and> only_spans c c' \<and>
      used S' = insert (p + 0, n) (used S) \<and>
      nr_free_pages c' = nr_free_pages c - n \<and> pg_pool (pages c' (p + 0)) = None)"
    unfolding cpu_allocate_large_def
    by (rule allocate_and_trim_correct [OF inv q n n(1)]) (use tr in simp)
  then show ?thesis by (elim disjE exE conjE) (use fresh enough fitting le_trans in \<open>simp_all, blast\<close>)
qed

lemma allocate_large_aligned_contract:
  assumes inv: "pool_inv s0 S c" and q: "quiet c" and n: "0 < n" "n + 2 ^ k \<le> 2 ^ 30"
  shows "(\<exists>c'. cpu_allocate_large_aligned env (2 ^ k) n c = Returned 0 c' \<and> \<not> fits (n + 2 ^ k - 1) S \<and>
      pool_inv s0 S c' \<and> nr_free_pages c' = nr_free_pages c) \<or>
    (\<exists>p c' S'. cpu_allocate_large_aligned env (2 ^ k) n c = Returned (memory_at c + p * 4096) c' \<and>
      2 ^ k dvd p \<and> pool_inv s0 S' c' \<and> only_spans c c' \<and> used S' = insert (p, n) (used S) \<and>
      nr_free_pages c' = nr_free_pages c - n)"
proof -
  have k30: "k < 30"
  proof -
    have "(2::nat) ^ k < 2 ^ 30" using n by linarith
    then show ?thesis using power_less_imp_less_exp [of "2::nat" k 30] by simp
  qed
  have tot: "sub32 (add32 n (2 ^ k)) 1 = n + 2 ^ k - 1" using n by simp
  have of_nat_pow: "(of_nat (2 ^ k) :: u32) = 2 ^ k" by simp
  define off where "off p = round_up p (2 ^ k) - p" for p :: nat
  let ?tr = "\<lambda>idx m. \<lparr>trim_offset = unat (align_up (of_nat idx :: u32) (of_nat (2 ^ k))) - idx, trim_pages = n\<rparr>"
  have tr: "\<And>p m. (p, m, True) \<in> S \<Longrightarrow> n + 2 ^ k - 1 \<le> m \<Longrightarrow>
      ?tr p (nr_pages c) = \<lparr>trim_offset = off p, trim_pages = n\<rparr> \<and> off p + n \<le> m"
  proof -
    fix p m assume s: "(p, m, True) \<in> S" "n + 2 ^ k - 1 \<le> m"
    note D = layoutD [OF pool_invD(3) [OF inv]]
    have pm: "p + m < 2 ^ 32" using spans_inD(3) [OF D(7) s(1)] D(4) by simp
    have u: "unat (of_nat p :: u32) = p" using pm by (intro unat_of_nat_small) simp
    have "p + 2 ^ k \<le> 2 ^ 32" using pm s(2) n(1) by linarith
    then have "unat (align_up (of_nat p :: u32) (2 ^ k)) = round_up p (2 ^ k)"
      using unat_align_up [of "of_nat p :: u32" k] u k30 by simp
    moreover have "round_up p (2 ^ k) - p + n \<le> m" using round_up_bounds [of "2 ^ k" p] s(2) by auto
    ultimately show "?tr p (nr_pages c) = \<lparr>trim_offset = off p, trim_pages = n\<rparr> \<and> off p + n \<le> m"
      unfolding of_nat_pow off_def by simp
  qed
  have al: "p + off p = round_up p (2 ^ k)" for p using round_up_bounds [of "2 ^ k" p] by (simp add: off_def)
  have "(0::nat) < 2 ^ k" by simp
  then have "0 < n + 2 ^ k - 1" "n + 2 ^ k - 1 \<le> 2 ^ 30" using n by linarith+
  note pos = this
  have "(\<exists>c'. cpu_allocate_large_aligned env (2 ^ k) n c = Returned 0 c' \<and> \<not> fits (n + 2 ^ k - 1) S \<and>
      pool_inv s0 S c' \<and> nr_free_pages c' = nr_free_pages c \<and> quiet c' \<and> memory_at c' = memory_at c) \<or>
    (\<exists>p m c' S'. cpu_allocate_large_aligned env (2 ^ k) n c = Returned (memory_at c + (p + off p) * 4096) c' \<and>
      (p, m, True) \<in> S \<and> n + 2 ^ k - 1 \<le> m \<and> pool_inv s0 S' c' \<and> only_spans c c' \<and>
      used S' = insert (p + off p, n) (used S) \<and>
      nr_free_pages c' = nr_free_pages c - n \<and> pg_pool (pages c' (p + off p)) = None)"
    unfolding cpu_allocate_large_aligned_def tot by (rule allocate_and_trim_correct [OF inv q pos n(1)]) (fact tr)
  then show ?thesis unfolding al
  proof (elim disjE exE conjE)
    fix p m c' S'
    assume "cpu_allocate_large_aligned env (2 ^ k) n c = Returned (memory_at c + round_up p (2 ^ k) * 4096) c'"
      "pool_inv s0 S' c'" "only_spans c c'" "used S' = insert (round_up p (2 ^ k), n) (used S)"
      "nr_free_pages c' = nr_free_pages c - n"
    then show ?thesis using round_up_dvd [of "2 ^ k" p] by blast
  qed simp
qed

end
