(* ===== verification/Span_Client.thy ===== *)
theory Span_Client
  imports Span_Alloc
begin

text \<open>
  The page-span layer as a client sees it: \<^verbatim>\<open>initialize\<close> sets it up, \<^verbatim>\<open>allocate_large\<close> and
  \<^verbatim>\<open>free_large\<close> keep the contract of a region allocator, and \<^verbatim>\<open>shrink\<close> gives the tail of a span back.
\<close>

section \<open>Bootstrapping\<close>

definition empty_lists :: "cpu_pages \<Rightarrow> bool" where
  "empty_lists c \<longleftrightarrow> (\<forall>i < nr_span_lists. free_spans c i = page_list_new)"

lemma initialize_correct:
  assumes "nr_pages c = 0" "nr_free_pages c = 0" "empty_lists c" "env_ticket env < 256"
  shows "\<exists>c'. initialize env c = Some (True, c') \<and> pool_inv 65 {(65, 8127, True)} c' \<and>
    nr_pages c' = 8192 \<and> memory_at c' = env_base env + env_ticket env * 2 ^ 36 \<and>
    reclaimers c' = reclaimers c \<and> current_min_free_pages c' = current_min_free_pages c \<and>
    cpu_id c' = env_ticket env"
proof -
  have r: "round_up (32 * (8192 + 1)) 4096 div 4096 = 65" by (simp add: round_up_def)
  let ?ary = "\<lambda>i. if i < 65 \<or> i = 8192 then zero_page\<lparr>pg_free := False\<rparr> else zero_page"
  define c0 where "c0 = c\<lparr>cpu_id := env_ticket env, memory_at := env_base env + env_ticket env * 2 ^ 36,
    pages_at := env_base env + env_ticket env * 2 ^ 36, pages := ?ary, nr_pages := 8192\<rparr>"
  have "layout 65 8192 {} 65 8127"
    by (auto simp: layout_def spans_in_def spans_apart_def spans_cover_def)
  moreover have "listed {} c0 (\<lambda>_. [])" using assms(3) by (simp add: listed_def c0_def empty_lists_def)
  ultimately have inv: "span_inv 65 {} 65 8127 c0"
    using assms(2) by (auto simp: span_inv_def tagged_def c0_def zero_page_def free_pages_def)
  from free_span_no_merge_inv [OF inv, of 8127 8192 0 65] obtain c' where
    c': "free_span_no_merge 65 8127 c0 = Some c'" "span_inv 65 {(65, 8127, True)} 8192 0 c'" "only_spans c0 c'" by auto
  have "coalesced {(65, 8127, True)}" by (simp add: coalesced_def)
  with c'(2) have "pool_inv 65 {(65, 8127, True)} c'" by (rule pool_close)
  moreover have "initialize env c = Some (True, c')"
    using assms(1,4) c'(1) r by (simp add: initialize_def is_initialized_def c0_def)
  ultimately show ?thesis using only_spans_simps [OF c'(3)] by (simp add: c0_def)
qed

section \<open>Freeing by address\<close>

lemma to_page_of: "to_page (memory_at c + p * 4096) c = p"
  by (simp add: to_page_def)

lemma free_large_correct:
  assumes "pool_inv s0 S c" "(p, n) \<in> used S"
  shows "\<exists>c' S'. cpu_free_large (memory_at c + p * 4096) c = Some c' \<and> pool_inv s0 S' c' \<and> only_spans c c' \<and>
    used S' = used S - {(p, n)} \<and> nr_free_pages c' = nr_free_pages c + n"
proof -
  have s: "(p, n, False) \<in> S" using assms(2) by (simp add: used_def)
  have "span_size (pages c p) = n" using span_invD(2) [OF pool_invD(1) [OF assms(1)]] s unfolding tagged_def by blast
  with free_span_correct [OF assms(1) s] show ?thesis
    by (auto simp: cpu_free_large_def to_page_of)
qed

section \<open>The contract of a region allocator\<close>

text \<open>
  A client's session: it allocates regions of some number of units, and frees one of the regions it
  holds. An allocation that fails leaves it with what it had; an aborted call ends the run.
\<close>

datatype region_op = Op_alloc nat | Op_free nat

fun region_step :: "(nat \<Rightarrow> 's \<Rightarrow> (addr, 's) outcome) \<Rightarrow> (addr \<Rightarrow> 's \<Rightarrow> 's option) \<Rightarrow> region_op \<Rightarrow>
    (addr \<times> nat) list \<times> 's \<Rightarrow> ((addr \<times> nat) list \<times> 's) option" where
  "region_step alloc release (Op_alloc n) (live, s) =
     (case alloc n s of Returned a s' \<Rightarrow> Some (if a = 0 then live else (a, n) # live, s') | _ \<Rightarrow> None)"
| "region_step alloc release (Op_free k) (live, s) =
     (if k < length live
      then map_option (\<lambda>s'. (take k live @ drop (Suc k) live, s')) (release (fst (live ! k)) s)
      else Some (live, s))"

fun region_run :: "(nat \<Rightarrow> 's \<Rightarrow> (addr, 's) outcome) \<Rightarrow> (addr \<Rightarrow> 's \<Rightarrow> 's option) \<Rightarrow> region_op list \<Rightarrow>
    (addr \<times> nat) list \<times> 's \<Rightarrow> ((addr \<times> nat) list \<times> 's) option" where
  "region_run alloc release [] r = Some r"
| "region_run alloc release (x # xs) r = do { r' \<leftarrow> region_step alloc release x r; region_run alloc release xs r' }"

fun op_ok :: "(nat \<Rightarrow> bool) \<Rightarrow> region_op \<Rightarrow> bool" where
  "op_ok good (Op_alloc n) = good n"
| "op_ok good (Op_free k) = True"

definition regions_apart :: "nat \<Rightarrow> (addr \<times> nat) list \<Rightarrow> bool" where
  "regions_apart u live \<longleftrightarrow> (\<forall>i < length live. \<forall>j < length live. i \<noteq> j \<longrightarrow>
     fst (live ! i) + snd (live ! i) * u \<le> fst (live ! j) \<or> fst (live ! j) + snd (live ! j) * u \<le> fst (live ! i))"

locale region_allocator =
  fixes alloc :: "nat \<Rightarrow> 's \<Rightarrow> (addr, 's) outcome"
    and release :: "addr \<Rightarrow> 's \<Rightarrow> 's option"
    and holds :: "(addr \<times> nat) set \<Rightarrow> 's \<Rightarrow> bool"
    and avail :: "'s \<Rightarrow> nat"
    and good :: "nat \<Rightarrow> bool"
    and u :: nat
  assumes alloc_law: "holds U s \<Longrightarrow> good n \<Longrightarrow>
      (\<exists>s'. alloc n s = Returned 0 s' \<and> holds U s' \<and> avail s' = avail s) \<or>
      (\<exists>a s'. alloc n s = Returned a s' \<and> a \<noteq> 0 \<and> (a, n) \<notin> U \<and> holds (insert (a, n) U) s' \<and> avail s' + n = avail s)"
    and release_law: "holds U s \<Longrightarrow> (a, n) \<in> U \<Longrightarrow>
      \<exists>s'. release a s = Some s' \<and> holds (U - {(a, n)}) s' \<and> avail s' = avail s + n"
    and apart_law: "holds U s \<Longrightarrow> (a, n) \<in> U \<Longrightarrow> (b, m) \<in> U \<Longrightarrow> (a, n) = (b, m) \<or> a + n * u \<le> b \<or> b + m * u \<le> a"
begin

text \<open>What a session keeps: its live regions are what the allocator holds, none twice, and no unit is lost.\<close>

definition session :: "nat \<Rightarrow> (addr \<times> nat) list \<times> 's \<Rightarrow> bool" where
  "session q r \<longleftrightarrow> distinct (fst r) \<and> holds (set (fst r)) (snd r) \<and> avail (snd r) + sum_list (map snd (fst r)) = q"

lemma session_apart: "session q (live, s) \<Longrightarrow> regions_apart u live"
  unfolding session_def regions_apart_def
  by (metis apart_law fst_conv snd_conv nth_eq_iff_index_eq nth_mem prod.collapse)

lemma step_session:
  assumes "session q (live, s)" "op_ok good x"
  shows "\<exists>r. region_step alloc release x (live, s) = Some r \<and> session q r"
proof (cases x)
  case (Op_alloc n)
  with assms alloc_law [of "set live" s n] show ?thesis by (auto simp: session_def)
next
  case (Op_free k)
  show ?thesis
  proof (cases "k < length live")
    case True
    obtain a n where e: "live ! k = (a, n)" by fastforce
    have m: "(a, n) \<in> set live" using True e nth_mem [of k live] by simp
    have split: "live = take k live @ (a, n) # drop (Suc k) live" using True e by (metis id_take_nth_drop)
    have d: "distinct live" and h: "holds (set live) s" using assms(1) by (simp_all add: session_def)
    have "set (take k live @ drop (Suc k) live) = set live - {(a, n)}"
      using d by (subst (3) split, subst (asm) split) auto
    moreover have "distinct (take k live @ drop (Suc k) live)" using d by (subst (asm) split) auto
    moreover have "sum_list (map snd live) = sum_list (map snd (take k live @ drop (Suc k) live)) + n"
      by (subst split) simp
    ultimately show ?thesis using release_law [OF h m] assms(1) True e Op_free
      by (auto simp: session_def)
  qed (use assms Op_free in auto)
qed

lemma run_session:
  "session q r \<Longrightarrow> list_all (op_ok good) xs \<Longrightarrow> \<exists>r'. region_run alloc release xs r = Some r' \<and> session q r'"
proof (induction xs arbitrary: r)
  case (Cons x xs)
  obtain live s where r: "r = (live, s)" by fastforce
  from step_session [of q live s x] Cons.prems obtain r1 where
    "region_step alloc release x r = Some r1" "session q r1" by (auto simp: r)
  with Cons.IH [of r1] Cons.prems(2) show ?case by simp
qed simp

lemma run_safe:
  assumes "holds {} s" "list_all (op_ok good) xs"
  shows "\<exists>live s'. region_run alloc release xs ([], s) = Some (live, s') \<and> regions_apart u live \<and>
    avail s' + sum_list (map snd live) = avail s"
proof -
  have "session (avail s) ([], s)" using assms(1) by (simp add: session_def)
  from run_session [OF this assms(2)] obtain live s' where
    "region_run alloc release xs ([], s) = Some (live, s')" "session (avail s) (live, s')" by auto
  then show ?thesis using session_apart by (auto simp: session_def)
qed

end

text \<open>The page pool keeps the contract: a unit is a page, and it holds the regions of its used spans.\<close>

definition page_region :: "cpu_pages \<Rightarrow> nat \<times> nat \<Rightarrow> addr \<times> nat" where
  "page_region c s = (memory_at c + fst s * page_size, snd s)"

definition pool_holds :: "(addr \<times> nat) set \<Rightarrow> cpu_pages \<Rightarrow> bool" where
  "pool_holds U c \<longleftrightarrow> quiet c \<and> (\<exists>s0 S. pool_inv s0 S c \<and> U = page_region c ` used S)"

definition page_count_ok :: "nat \<Rightarrow> bool" where
  "page_count_ok n \<longleftrightarrow> 0 < n \<and> n \<le> 2 ^ 30"

lemma page_region_inj: "inj (page_region c)"
  by (rule injI) (auto simp: page_region_def prod_eq_iff)

lemma page_region_cong: "memory_at c' = memory_at c \<Longrightarrow> page_region c' = page_region c"
  by (simp add: page_region_def fun_eq_iff)

interpretation page_pool: region_allocator "cpu_allocate_large env" cpu_free_large pool_holds nr_free_pages page_count_ok 4096
  for env
proof
  fix U c n assume h: "pool_holds U c" and n: "page_count_ok n"
  from h obtain s0 S where i: "pool_inv s0 S c" "quiet c" and U: "U = page_region c ` used S"
    by (auto simp: pool_holds_def)
  from allocate_large_contract [OF i, of n env] n consider
    (full) c' where "cpu_allocate_large env n c = Returned 0 c'" "pool_inv s0 S c'"
      "nr_free_pages c' = nr_free_pages c" "quiet c'" "memory_at c' = memory_at c"
  | (ok) p c' S' where "cpu_allocate_large env n c = Returned (memory_at c + p * 4096) c'" "pool_inv s0 S' c'"
      "only_spans c c'" "used S' = insert (p, n) (used S)" "(p, n) \<notin> used S" "n \<le> nr_free_pages c"
      "nr_free_pages c' = nr_free_pages c - n" by (auto simp: page_count_ok_def)
  then show "(\<exists>s'. cpu_allocate_large env n c = Returned 0 s' \<and> pool_holds U s' \<and> nr_free_pages s' = nr_free_pages c) \<or>
      (\<exists>a s'. cpu_allocate_large env n c = Returned a s' \<and> a \<noteq> 0 \<and> (a, n) \<notin> U \<and> pool_holds (insert (a, n) U) s' \<and>
         nr_free_pages s' + n = nr_free_pages c)"
  proof cases
    case full
    have "page_region c' = page_region c" using full(5) by (rule page_region_cong)
    then have "pool_holds U c'" unfolding pool_holds_def using full(2,4) U by metis
    with full(1,3) show ?thesis by blast
  next
    case ok
    have "(p, n, False) \<in> S'" using ok(4) by (auto simp: used_def)
    from spans_inD(2) [OF layoutD(7) [OF pool_invD(3) [OF ok(2)]] this] layoutD(2) [OF pool_invD(3) [OF ok(2)]]
    have "0 < p" by simp
    moreover have "quiet c'" using i(2) only_spans_simps [OF ok(3)] by (simp add: quiet_def)
    moreover have "page_region c' = page_region c" using only_spans_simps(2) [OF ok(3)] by (rule page_region_cong)
    moreover have "page_region c (p, n) \<notin> U" using ok(5) U page_region_inj by (simp add: inj_image_mem_iff)
    moreover have "page_region c (p, n) = (memory_at c + p * 4096, n)" by (simp add: page_region_def)
    ultimately have H: "pool_holds (insert (memory_at c + p * 4096, n) U) c'" and N: "(memory_at c + p * 4096, n) \<notin> U"
      and P: "memory_at c + p * 4096 \<noteq> 0"
      using ok(2,4) U unfolding pool_holds_def by (metis image_insert, simp, simp)
    have "nr_free_pages c' + n = nr_free_pages c" using ok(6,7) by simp
    with H N P ok(1) show ?thesis by blast
  qed
next
  fix U c a n assume h: "pool_holds U c" and m: "(a, n) \<in> U"
  from h obtain s0 S where i: "pool_inv s0 S c" "quiet c" and U: "U = page_region c ` used S"
    by (auto simp: pool_holds_def)
  from m U obtain p where p: "(p, n) \<in> used S" and a: "a = memory_at c + p * 4096" by (auto simp: page_region_def)
  from free_large_correct [OF i(1) p] obtain c' S' where c': "cpu_free_large a c = Some c'" "pool_inv s0 S' c'"
    "only_spans c c'" "used S' = used S - {(p, n)}" "nr_free_pages c' = nr_free_pages c + n" unfolding a by blast
  have "U - {(a, n)} = page_region c ` used S'"
    using U c'(4) a page_region_inj image_set_diff [of "page_region c" "used S" "{(p, n)}"] by (simp add: page_region_def)
  moreover have "page_region c' = page_region c" using only_spans_simps(2) [OF c'(3)] by (rule page_region_cong)
  moreover have "quiet c'" using i(2) only_spans_simps [OF c'(3)] by (simp add: quiet_def)
  ultimately have "pool_holds (U - {(a, n)}) c'" unfolding pool_holds_def using c'(2) by metis
  with c'(1,5) show "\<exists>s'. cpu_free_large a c = Some s' \<and> pool_holds (U - {(a, n)}) s' \<and> nr_free_pages s' = nr_free_pages c + n"
    by blast
next
  fix U c a n b m assume h: "pool_holds U c" and m: "(a, n) \<in> U" "(b, m) \<in> U"
  from h obtain s0 S where i: "pool_inv s0 S c" and U: "U = page_region c ` used S"
    by (auto simp: pool_holds_def)
  from m U obtain p q where "(p, n) \<in> used S" "a = memory_at c + p * 4096" "(q, m) \<in> used S" "b = memory_at c + q * 4096"
    by (auto simp: page_region_def)
  then show "(a, n) = (b, m) \<or> a + n * 4096 \<le> b \<or> b + m * 4096 \<le> a"
    using used_apart [OF i, of p n q m] by auto
qed

text \<open>A pool set up by \<^verbatim>\<open>initialize\<close> starts a session with 8127 free pages.\<close>

lemma initialize_holds:
  assumes "nr_pages c = 0" "nr_free_pages c = 0" "empty_lists c" "env_ticket env < 256" "quiet c"
  shows "\<exists>c'. initialize env c = Some (True, c') \<and> pool_holds {} c' \<and> nr_free_pages c' = 8127"
proof -
  from initialize_correct [OF assms(1-4)] obtain c' where c': "initialize env c = Some (True, c')"
    "pool_inv 65 {(65, 8127, True)} c'" "reclaimers c' = reclaimers c"
    "current_min_free_pages c' = current_min_free_pages c" by blast
  moreover have "used {(65, 8127, True)} = {}" by (simp add: used_def)
  moreover have "nr_free_pages c' = 8127" using pool_invD(5) [OF c'(2)] by (simp add: free_pages_def)
  ultimately show ?thesis using assms(5) by (auto simp: pool_holds_def quiet_def intro!: exI [of _ "{(65, 8127, True)}"])
qed

end
