(* ===== verification/Malloc.thy ===== *)
theory Malloc
  imports Cpu_Pages
begin

text \<open>
  The upper half of \<^verbatim>\<open>src/core/memory/memory.cpp\<close>: filling the small pools, resizing the pool of
  pages, and the functions that replace the C and C++ allocation interface. \<open>junk\<close> is what the
  memory of a newly allocated page array holds before it is written.
\<close>

section \<open>Small pool allocation\<close>

text \<open>Taking the free objects of a span that is on the pool's list; a span holds no more than fit into it.\<close>

fun take_span_objects :: "nat \<Rightarrow> nat \<Rightarrow> pageidx \<Rightarrow> cpu_pages \<Rightarrow> cpu_pages option" where
  "take_span_objects 0 k span c = None"
| "take_span_objects (Suc n) k span c =
     (let obj = pg_freelist (pages c span)
      in if obj = 0 then Some c
         else let c1 = upd_page span (pg_freelist_update (\<lambda>_. obj_next c obj)) c;
                  c2 = c1\<lparr>obj_next := (obj_next c1)(obj := pool_free (small_pools c1 k))\<rparr>;
                  c3 = set_pool k (\<lambda>p. p\<lparr>pool_free := obj, free_count := free_count p + 1\<rparr>) c2
              in take_span_objects n k span
                   (upd_page span (\<lambda>g. g\<lparr>nr_small_alloc := (nr_small_alloc g + 1) mod 65536\<rparr>) c3))"

fun reuse_spans :: "nat \<Rightarrow> nat \<Rightarrow> nat \<Rightarrow> cpu_pages \<Rightarrow> cpu_pages option" where
  "reuse_spans 0 goal k c = None"
| "reuse_spans (Suc n) goal k c =
     (let p = small_pools c k
      in if \<not> pl_empty (span_list p) \<and> free_count p < goal
         then let span = pl_front (span_list p);
                  (ary, l) = pl_pop_front (pages c) (span_list p);
                  c1 = set_pool k (span_list_update (\<lambda>_. l)) (c\<lparr>pages := ary\<rparr>)
              in do { c2 \<leftarrow> take_span_objects (pool_span_size p * page_size div object_size p + 1) k span c1;
                      reuse_spans n goal k c2 }
         else Some c)"

text \<open>A new span: its pages name the pool, and its objects go to the free list one by one.\<close>

definition claim_pages :: "nat \<Rightarrow> pageidx \<Rightarrow> nat \<Rightarrow> cpu_pages \<Rightarrow> cpu_pages" where
  "claim_pages k span n c =
     fold (\<lambda>i. upd_page (span + i) (\<lambda>g. g\<lparr>offset_in_span := i mod 256, pg_pool := Some k\<rparr>)) [0..<n] c"

definition add_object :: "nat \<Rightarrow> pageidx \<Rightarrow> addr \<Rightarrow> cpu_pages \<Rightarrow> cpu_pages" where
  "add_object k span h c =
     (let c1 = c\<lparr>obj_next := (obj_next c)(h := pool_free (small_pools c k))\<rparr>;
          c2 = set_pool k (\<lambda>p. p\<lparr>pool_free := h, free_count := free_count p + 1\<rparr>) c1
      in upd_page span (\<lambda>g. g\<lparr>nr_small_alloc := (nr_small_alloc g + 1) mod 65536\<rparr>) c2)"

definition fill_span :: "nat \<Rightarrow> addr \<Rightarrow> cpu_pages \<Rightarrow> cpu_pages" where
  "fill_span k data c =
     (let p = small_pools c k;
          c1 = set_pool k (\<lambda>p. p\<lparr>spans_in_use := add32 (spans_in_use p) 1\<rparr>) c;
          span = to_page data c1;
          c2 = claim_pages k span (pool_span_size p) c1;
          c3 = upd_page span (\<lambda>g. g\<lparr>nr_small_alloc := 0, pg_freelist := 0\<rparr>) c2
      in fold (\<lambda>i. add_object k span (data + i * object_size p))
           [0..<pool_span_size p * page_size div object_size p] c3)"

fun new_spans :: "nat \<Rightarrow> mem_env \<Rightarrow> nat \<Rightarrow> nat \<Rightarrow> cpu_pages \<Rightarrow> (unit, cpu_pages) outcome" where
  "new_spans 0 env goal k c = Aborted"
| "new_spans (Suc n) env goal k c =
     (if free_count (small_pools c k) < goal
      then obind (cpu_allocate_large env (pool_span_size (small_pools c k)) c)
             (\<lambda>data c1. if data = 0 then Returned () c1 else new_spans n env goal k (fill_span k data c1))
      else Returned () c)"

definition add_more_objects :: "mem_env \<Rightarrow> nat \<Rightarrow> cpu_pages \<Rightarrow> (unit, cpu_pages) outcome" where
  "add_more_objects env k c =
     (let p = small_pools c k; goal = (min_free p + max_free p) div 2
      in case reuse_spans (nr_pages c + 1) goal k c of
           None \<Rightarrow> Aborted
         | Some c1 \<Rightarrow> new_spans (goal + 1) env goal k c1)"

definition pool_pop :: "nat \<Rightarrow> cpu_pages \<Rightarrow> addr \<times> cpu_pages" where
  "pool_pop k c =
     (let obj = pool_free (small_pools c k)
      in if obj = 0 then (0, c)
         else (obj, set_pool k (\<lambda>p. p\<lparr>pool_free := obj_next c obj, free_count := free_count p - 1\<rparr>) c))"

definition pool_allocate :: "mem_env \<Rightarrow> nat \<Rightarrow> cpu_pages \<Rightarrow> (addr, cpu_pages) outcome" where
  "pool_allocate env k c =
     obind (if pool_free (small_pools c k) = 0 then add_more_objects env k c else Returned () c)
       (\<lambda>_ c1. let (p, c2) = pool_pop k c1 in Returned p c2)"

definition allocate_small :: "mem_env \<Rightarrow> nat \<Rightarrow> cpu_pages \<Rightarrow> (addr, cpu_pages) outcome" where
  "allocate_small env sz c =
     (case usizeo_idx sz of
        None \<Rightarrow> Aborted
      | Some idx \<Rightarrow> if sz \<le> object_size (small_pools c idx) then pool_allocate env idx c else Aborted)"

section \<open>The page pool as a whole\<close>

definition do_resize :: "mem_env \<Rightarrow> bool \<Rightarrow> page_array \<Rightarrow> usize \<Rightarrow> cpu_pages \<Rightarrow> (unit, cpu_pages) outcome" where
  "do_resize env mmap_ok junk new_size c =
     (let new_pages = new_size div page_size
      in if new_pages \<le> nr_pages c then Returned () c
         else if \<not> mmap_ok then Thrown c
         else obind (cpu_allocate_large env (round_up (sizeof_page * (new_pages + 1)) page_size div page_size) c)
           (\<lambda>a c1. if a = 0 then Thrown c1
              else let ary = (\<lambda>i. if i < nr_pages c1 then pages c1 i else junk i)
                               (new_pages := (junk new_pages)\<lparr>pg_free := False\<rparr>);
                       old_nr = nr_pages c1;
                       old_size = round_up (sizeof_page * (old_nr + 1)) page_size;
                       old_start = (pages_at c1 - memory_at c1) div page_size;
                       (start, sz) = (if old_start = 0 then (1, old_size - page_size) else (old_start, old_size));
                       c2 = c1\<lparr>pages := ary, pages_at := a, nr_pages := new_pages\<rparr>
                   in or_abort (do { c3 \<leftarrow> free_span start (sz div page_size) c2;
                                     c4 \<leftarrow> free_span old_nr (new_pages - old_nr) c3;
                                     Some ((), c4) })))"

fun resize_loop :: "nat \<Rightarrow> mem_env \<Rightarrow> bool \<Rightarrow> page_array \<Rightarrow> usize \<Rightarrow> cpu_pages \<Rightarrow> (unit, cpu_pages) outcome" where
  "resize_loop 0 env mmap_ok junk new_size c = Aborted"
| "resize_loop (Suc n) env mmap_ok junk new_size c =
     (if nr_pages c * page_size < new_size
      then obind (do_resize env mmap_ok junk (min new_size (4 * nr_pages c * page_size)) c)
             (\<lambda>_ c1. resize_loop n env mmap_ok junk new_size c1)
      else Returned () c)"

definition cpu_resize :: "mem_env \<Rightarrow> bool \<Rightarrow> page_array \<Rightarrow> usize \<Rightarrow> cpu_pages \<Rightarrow> (unit, cpu_pages) outcome" where
  "cpu_resize env mmap_ok junk new_size c =
     resize_loop (env_rounds env) env mmap_ok junk (new_size div huge_page_size * huge_page_size) c"

record mem_resource =
  res_bytes :: usize
  res_nodeid :: nat

definition configure :: "mem_env \<Rightarrow> bool \<Rightarrow> page_array \<Rightarrow> mem_resource list \<Rightarrow> cpu_pages \<Rightarrow> (unit, cpu_pages) outcome" where
  "configure env mmap_ok junk m c = cpu_resize env mmap_ok junk (fold (\<lambda>x t. uadd t (res_bytes x)) m 0) c"

record mem_statistics =
  st_mallocs :: nat
  st_frees :: nat
  st_cross_cpu_frees :: nat
  st_total_memory :: usize
  st_free_memory :: usize
  st_reclaims :: nat

definition mem_stats :: "cpu_pages \<Rightarrow> mem_statistics" where
  "mem_stats c = \<lparr>st_mallocs = g_allocs c, st_frees = g_frees c, st_cross_cpu_frees = g_cross_cpu_frees c,
     st_total_memory = nr_pages c * page_size, st_free_memory = nr_free_pages c * page_size,
     st_reclaims = g_reclaims c\<rparr>"

definition mem_layout :: "cpu_pages \<Rightarrow> (addr \<times> addr) option" where
  "mem_layout c =
     (if is_initialized c then Some (memory_at c, memory_at c + nr_pages c * page_size) else None)"

definition reclaimer_register :: "nat \<Rightarrow> reclaimer_scope \<Rightarrow> cpu_pages \<Rightarrow> cpu_pages" where
  "reclaimer_register r scope c = c\<lparr>reclaimers := reclaimers c @ [(r, scope)]\<rparr>"

fun erase_reclaimer :: "nat \<Rightarrow> (nat \<times> reclaimer_scope) list \<Rightarrow> (nat \<times> reclaimer_scope) list option" where
  "erase_reclaimer r [] = None"
| "erase_reclaimer r (x # xs) = (if fst x = r then Some xs else map_option ((#) x) (erase_reclaimer r xs))"

definition reclaimer_unregister :: "nat \<Rightarrow> cpu_pages \<Rightarrow> cpu_pages option" where
  "reclaimer_unregister r c = map_option (\<lambda>rs. c\<lparr>reclaimers := rs\<rparr>) (erase_reclaimer r (reclaimers c))"

section \<open>Allocation by byte sizes\<close>

definition abort_on_underflow :: "usize \<Rightarrow> bool" where
  "abort_on_underflow sz \<longleftrightarrow> \<not> signed_nonneg sz"

definition mem_allocate_large :: "mem_env \<Rightarrow> usize \<Rightarrow> cpu_pages \<Rightarrow> (addr, cpu_pages) outcome" where
  "mem_allocate_large env sz c =
     (if abort_on_underflow sz then Aborted
      else let size_in_pages = uadd sz (page_size - 1) div 2 ^ page_bits mod 2 ^ 32
           in if size_in_pages * 2 ^ page_bits mod 2 ^ 64 < sz then Aborted
              else cpu_allocate_large env size_in_pages c)"

definition mem_allocate_large_aligned :: "mem_env \<Rightarrow> usize \<Rightarrow> usize \<Rightarrow> cpu_pages \<Rightarrow> (addr, cpu_pages) outcome" where
  "mem_allocate_large_aligned env align sz c =
     (if abort_on_underflow sz then Aborted
      else let size_in_pages = uadd sz (page_size - 1) div 2 ^ page_bits mod 2 ^ 32;
               align_in_pages = max align page_size div 2 ^ page_bits mod 2 ^ 32
           in cpu_allocate_large_aligned env align_in_pages size_in_pages c)"

definition mem_allocate :: "mem_env \<Rightarrow> usize \<Rightarrow> cpu_pages \<Rightarrow> (addr, cpu_pages) outcome" where
  "mem_allocate env sz c =
     (let c1 = c\<lparr>g_allocs := uadd (g_allocs c) 1\<rparr>;
          sz' = (if sz \<le> sizeof_free_object then sizeof_free_object else sz)
      in if sz' \<le> max_small_allocation then allocate_small env sz' c1 else mem_allocate_large env sz' c1)"

definition mem_allocate_aligned :: "mem_env \<Rightarrow> usize \<Rightarrow> usize \<Rightarrow> cpu_pages \<Rightarrow> (addr, cpu_pages) outcome" where
  "mem_allocate_aligned env align sz c =
     (let c1 = c\<lparr>g_allocs := uadd (g_allocs c) 1\<rparr>;
          sz1 = max sz align;
          sz2 = (if sz1 \<le> sizeof_free_object then sizeof_free_object else sz1)
      in if sz2 \<le> max_small_allocation \<and> align \<le> page_size
         then (case log2ceil sz2 of None \<Rightarrow> Aborted | Some l \<Rightarrow> allocate_small env (2 ^ l) c1)
         else mem_allocate_large_aligned env align sz2 c1)"

definition mem_free :: "mem_env \<Rightarrow> addr \<Rightarrow> cpu_pages \<Rightarrow> cpu_pages option" where
  "mem_free env p c = cpu_free env p (c\<lparr>g_frees := uadd (g_frees c) 1\<rparr>)"

definition mem_free_sized :: "mem_env \<Rightarrow> addr \<Rightarrow> usize \<Rightarrow> cpu_pages \<Rightarrow> cpu_pages option" where
  "mem_free_sized env p sz c = cpu_free_sized env p sz (c\<lparr>g_frees := uadd (g_frees c) 1\<rparr>)"

definition mem_shrink :: "addr \<Rightarrow> usize \<Rightarrow> cpu_pages \<Rightarrow> cpu_pages option" where
  "mem_shrink p new_size c =
     cpu_shrink p new_size (c\<lparr>g_frees := uadd (g_frees c) 1, g_allocs := uadd (g_allocs c) 1\<rparr>)"

text \<open>\<^verbatim>\<open>object_size\<close> asks the cpu the object belongs to; \<open>all_cpus\<close> are the others.\<close>

definition mem_object_size :: "(nat \<Rightarrow> cpu_pages) \<Rightarrow> addr \<Rightarrow> cpu_pages \<Rightarrow> usize" where
  "mem_object_size all_cpus p c =
     (if object_cpu_id p = cpu_id c then cpu_object_size p c
      else cpu_object_size p (all_cpus (object_cpu_id p)))"

section \<open>The C and C++ interface\<close>

text \<open>The bytes the program sees, next to the allocator's state.\<close>

record heap_state =
  hs_cpu :: cpu_pages
  hs_mem :: memory

definition on_cpu :: "(addr, cpu_pages) outcome \<Rightarrow> heap_state \<Rightarrow> (addr, heap_state) outcome" where
  "on_cpu r s = (case r of Returned p c \<Rightarrow> Returned p (s\<lparr>hs_cpu := c\<rparr>)
                 | Thrown c \<Rightarrow> Thrown (s\<lparr>hs_cpu := c\<rparr>) | Aborted \<Rightarrow> Aborted)"

fun catch_bad_alloc :: "'a \<Rightarrow> ('a, 's) outcome \<Rightarrow> ('a, 's) outcome" where
  "catch_bad_alloc d (Thrown s) = Returned d s"
| "catch_bad_alloc d r = r"

definition c_malloc :: "mem_env \<Rightarrow> usize \<Rightarrow> heap_state \<Rightarrow> (addr, heap_state) outcome" where
  "c_malloc env n s = (if n = 0 then Returned 0 s else catch_bad_alloc 0 (on_cpu (mem_allocate env n (hs_cpu s)) s))"

definition c_free :: "mem_env \<Rightarrow> addr \<Rightarrow> heap_state \<Rightarrow> heap_state option" where
  "c_free env p s =
     (if p \<noteq> 0 then map_option (\<lambda>c. s\<lparr>hs_cpu := c\<rparr>) (mem_free env p (hs_cpu s)) else Some s)"

definition c_calloc :: "mem_env \<Rightarrow> usize \<Rightarrow> usize \<Rightarrow> heap_state \<Rightarrow> (addr, heap_state) outcome" where
  "c_calloc env nmemb sz s =
     (if \<not> nmemb * sz < 2 ^ 64 then Aborted
      else obind (c_malloc env (nmemb * sz) s)
             (\<lambda>p s'. Returned p (if p \<noteq> 0 then s'\<lparr>hs_mem := store (hs_mem s') p (replicate (nmemb * sz) 0)\<rparr> else s')))"

definition c_realloc ::
    "mem_env \<Rightarrow> (nat \<Rightarrow> cpu_pages) \<Rightarrow> addr \<Rightarrow> usize \<Rightarrow> heap_state \<Rightarrow> (addr, heap_state) outcome" where
  "c_realloc env all_cpus p sz s =
     (let old_size = (if p \<noteq> 0 then mem_object_size all_cpus p (hs_cpu s) else 0)
      in if sz = old_size then Returned p s
         else if sz = 0 then (case c_free env p s of None \<Rightarrow> Aborted | Some s' \<Rightarrow> Returned 0 s')
         else if sz < old_size
         then (case mem_shrink p sz (hs_cpu s) of None \<Rightarrow> Aborted | Some c \<Rightarrow> Returned p (s\<lparr>hs_cpu := c\<rparr>))
         else obind (c_malloc env sz s)
                (\<lambda>np s1. if np = 0 then Returned 0 s1
                   else if p \<noteq> 0
                   then let s2 = s1\<lparr>hs_mem := memmove (hs_mem s1) np p (min sz old_size)\<rparr>
                        in (case c_free env p s2 of None \<Rightarrow> Aborted | Some s3 \<Rightarrow> Returned np s3)
                   else Returned np s1))"

definition ENOMEM :: int where
  "ENOMEM = 12"

text \<open>\<^verbatim>\<open>posix_memalign\<close>: the code returned, and the pointer stored when there was no exception.\<close>

definition c_posix_memalign ::
    "mem_env \<Rightarrow> usize \<Rightarrow> usize \<Rightarrow> heap_state \<Rightarrow> (int \<times> addr option, heap_state) outcome" where
  "c_posix_memalign env align sz s =
     (case on_cpu (mem_allocate_aligned env align sz (hs_cpu s)) s of
        Returned p s' \<Rightarrow> Returned (if p = 0 then ENOMEM else 0, Some p) s'
      | Thrown s' \<Rightarrow> Returned (ENOMEM, None) s'
      | Aborted \<Rightarrow> Aborted)"

definition c_memalign :: "mem_env \<Rightarrow> usize \<Rightarrow> usize \<Rightarrow> heap_state \<Rightarrow> (addr, heap_state) outcome" where
  "c_memalign env align sz s = catch_bad_alloc 0 (on_cpu (mem_allocate_aligned env align sz (hs_cpu s)) s)"

definition c_aligned_alloc :: "mem_env \<Rightarrow> usize \<Rightarrow> usize \<Rightarrow> heap_state \<Rightarrow> (addr, heap_state) outcome" where
  "c_aligned_alloc env align sz s = catch_bad_alloc 0 (on_cpu (mem_allocate_aligned env align sz (hs_cpu s)) s)"

definition c_malloc_usable_size :: "(nat \<Rightarrow> cpu_pages) \<Rightarrow> addr \<Rightarrow> heap_state \<Rightarrow> usize" where
  "c_malloc_usable_size all_cpus p s = mem_object_size all_cpus p (hs_cpu s)"

definition throw_if_null :: "(addr, 's) outcome \<Rightarrow> (addr, 's) outcome" where
  "throw_if_null r = obind r (\<lambda>p s. if p = 0 then Thrown s else Returned p s)"

definition operator_new :: "mem_env \<Rightarrow> usize \<Rightarrow> heap_state \<Rightarrow> (addr, heap_state) outcome" where
  "operator_new env sz s = throw_if_null (on_cpu (mem_allocate env (if sz = 0 then 1 else sz) (hs_cpu s)) s)"

definition operator_new_nothrow :: "mem_env \<Rightarrow> usize \<Rightarrow> heap_state \<Rightarrow> (addr, heap_state) outcome" where
  "operator_new_nothrow env sz s =
     catch_bad_alloc 0 (on_cpu (mem_allocate env (if sz = 0 then 1 else sz) (hs_cpu s)) s)"

definition operator_delete :: "mem_env \<Rightarrow> addr \<Rightarrow> heap_state \<Rightarrow> heap_state option" where
  "operator_delete env p s =
     (if p \<noteq> 0 then map_option (\<lambda>c. s\<lparr>hs_cpu := c\<rparr>) (mem_free env p (hs_cpu s)) else Some s)"

definition operator_delete_sized :: "mem_env \<Rightarrow> addr \<Rightarrow> usize \<Rightarrow> heap_state \<Rightarrow> heap_state option" where
  "operator_delete_sized env p sz s =
     (if p \<noteq> 0 then map_option (\<lambda>c. s\<lparr>hs_cpu := c\<rparr>) (mem_free_sized env p sz (hs_cpu s)) else Some s)"

text \<open>The remaining entry points: the array forms and the ones that do not throw.\<close>

definition c_cfree :: "mem_env \<Rightarrow> addr \<Rightarrow> heap_state \<Rightarrow> heap_state option" where
  "c_cfree env p s = c_free env p s"

definition c_malloc_trim :: "usize \<Rightarrow> int" where
  "c_malloc_trim pad = 0"

definition operator_new_array :: "mem_env \<Rightarrow> usize \<Rightarrow> heap_state \<Rightarrow> (addr, heap_state) outcome" where
  "operator_new_array env sz s = throw_if_null (on_cpu (mem_allocate env (if sz = 0 then 1 else sz) (hs_cpu s)) s)"

definition operator_new_array_nothrow :: "mem_env \<Rightarrow> usize \<Rightarrow> heap_state \<Rightarrow> (addr, heap_state) outcome" where
  "operator_new_array_nothrow env sz s =
     catch_bad_alloc 0 (on_cpu (mem_allocate env (if sz = 0 then 1 else sz) (hs_cpu s)) s)"

definition operator_delete_array :: "mem_env \<Rightarrow> addr \<Rightarrow> heap_state \<Rightarrow> heap_state option" where
  "operator_delete_array env p s =
     (if p \<noteq> 0 then map_option (\<lambda>c. s\<lparr>hs_cpu := c\<rparr>) (mem_free env p (hs_cpu s)) else Some s)"

definition operator_delete_array_sized :: "mem_env \<Rightarrow> addr \<Rightarrow> usize \<Rightarrow> heap_state \<Rightarrow> heap_state option" where
  "operator_delete_array_sized env p sz s =
     (if p \<noteq> 0 then map_option (\<lambda>c. s\<lparr>hs_cpu := c\<rparr>) (mem_free_sized env p sz (hs_cpu s)) else Some s)"

definition operator_delete_nothrow :: "mem_env \<Rightarrow> addr \<Rightarrow> heap_state \<Rightarrow> heap_state option" where
  "operator_delete_nothrow env p s =
     (if p \<noteq> 0 then map_option (\<lambda>c. s\<lparr>hs_cpu := c\<rparr>) (mem_free env p (hs_cpu s)) else Some s)"

definition operator_delete_sized_nothrow :: "mem_env \<Rightarrow> addr \<Rightarrow> usize \<Rightarrow> heap_state \<Rightarrow> heap_state option" where
  "operator_delete_sized_nothrow env p sz s =
     (if p \<noteq> 0 then map_option (\<lambda>c. s\<lparr>hs_cpu := c\<rparr>) (mem_free_sized env p sz (hs_cpu s)) else Some s)"

section \<open>The default build\<close>

text \<open>
  With \<^verbatim>\<open>DEFAULT_ALLOCATOR\<close> defined the C library's allocator stays in place and the module only
  answers queries: registering, configuring and draining do nothing.
\<close>

definition default_stats :: mem_statistics where
  "default_stats = \<lparr>st_mallocs = 0, st_frees = 0, st_cross_cpu_frees = 0, st_total_memory = 2 ^ 30,
     st_free_memory = 0, st_reclaims = 0\<rparr>"

definition default_drain_cross_cpu_freelist :: bool where
  "default_drain_cross_cpu_freelist = False"

end
