(* ===== verification/Small_Pools.thy ===== *)
theory Small_Pools
  imports Spans Malloc
begin

text \<open>
  The small pools of the page allocator: the arithmetic of the size classes, the free lists as
  linked objects, and the small path of \<^verbatim>\<open>allocate\<close>.
\<close>

section \<open>Size classes\<close>

lemma log2floor_correct:
  assumes "0 < n" "n < 2 ^ 32"
  obtains k where "log2floor n = Some k" "2 ^ k \<le> n" "n < 2 ^ (k + 1)"
proof -
  have "log2floor n = index_of n" by (simp add: log2floor_def index_of_def)
  with index_of_Some [OF assms] show thesis using that by auto
qed

lemma idx_to_size_step:
  assumes "2 \<le> l" "3 \<le> q" "q \<le> 7"
  shows "idx_to_size (l * 4 - 3 + q) = (q + 1) * 2 ^ (l - 2)"
proof -
  obtain m where l: "l = m + 2" using assms(1) by (metis le_add_diff_inverse2)
  have "q = 3 \<or> q = 4 \<or> q = 5 \<or> q = 6 \<or> q = 7" using assms(2,3) by auto
  then show ?thesis by (auto simp: idx_to_size_def l power_add)
qed

lemma idx_to_size_Suc: "idx_to_size i \<le> idx_to_size (Suc i)"
proof (cases "i mod 4 = 3")
  case True
  then have "Suc i div 4 = Suc (i div 4)" "Suc i mod 4 = 0" by presburger+
  then show ?thesis using True by (simp add: idx_to_size_def div_le_mono)
next
  case False
  then have "Suc i div 4 = i div 4" "Suc i mod 4 = Suc (i mod 4)" by presburger+
  then show ?thesis by (simp add: idx_to_size_def div_le_mono)
qed

lemma idx_to_size_mono: "i \<le> j \<Longrightarrow> idx_to_size i \<le> idx_to_size j"
  by (rule lift_Suc_mono_le [of idx_to_size]) (rule idx_to_size_Suc)

lemma usizeo_idx_correct:
  assumes "4 \<le> sz" "sz < 2 ^ 32"
  obtains i where "usizeo_idx sz = Some i" "sz \<le> idx_to_size i" "0 < i" "idx_to_size (i - 1) < sz"
    "4 * (idx_to_size i - sz) < sz"
proof -
  have "0 < sz" using assms(1) by simp
  from log2floor_correct [OF this assms(2)] obtain l where
    l: "log2floor sz = Some l" "2 ^ l \<le> sz" "sz < 2 ^ (l + 1)" .
  have l2: "2 \<le> l"
  proof (rule ccontr)
    assume "\<not> 2 \<le> l"
    then have "(2::nat) ^ (l + 1) \<le> 2 ^ 2" by (intro power_increasing) auto
    with l(3) assms(1) show False by simp
  qed
  obtain m where m: "l = m + 2" using l2 by (metis le_add_diff_inverse2)
  define q where "q = (sz - 1) div 2 ^ m"
  have b: "q * 2 ^ m \<le> sz - 1" "sz - 1 < (q + 1) * 2 ^ m"
    unfolding q_def using div_times_less_eq_dividend [of "sz - 1" "2 ^ m"] dividend_less_div_times [of "2 ^ m" "sz - 1"]
    by (simp_all add: add.commute)
  have P: "(4::nat) * 2 ^ m \<le> sz" "sz < 8 * 2 ^ m" "1 \<le> (2::nat) ^ m" using l(2,3) by (simp_all add: m power_add)
  have q: "3 \<le> q" "q \<le> 7"
  proof -
    have "3 * 2 ^ m \<le> sz - 1" using P by linarith
    then show "3 \<le> q" unfolding q_def by (simp add: less_eq_div_iff_mult_less_eq)
    have "sz - 1 < 8 * 2 ^ m" using P by linarith
    then have "q < 8" unfolding q_def by (simp add: less_mult_imp_div_less)
    then show "q \<le> 7" by simp
  qed
  define i where "i = l * 4 - 3 + q"
  have size: "idx_to_size i = (q + 1) * 2 ^ m" unfolding i_def using idx_to_size_step [OF l2 q] by (simp add: m)
  have "usizeo_idx sz = Some i" using l(1) l2 by (simp add: usizeo_idx_def i_def q_def m)
  moreover have "sz \<le> idx_to_size i" using b(2) by (simp add: size)
  moreover have "0 < i" using q(1) by (simp add: i_def)
  moreover have "idx_to_size (i - 1) < sz"
  proof (cases "q = 3")
    case True
    then have "i - 1 = (m + 1) * 4 + 3" by (simp add: i_def m)
    moreover have h: "7 * x div 2 < 4 * x" if "1 \<le> x" for x :: nat using that by presburger
    ultimately show ?thesis using less_le_trans [OF h [OF P(3)] P(1)] by (simp add: idx_to_size_def)
  next
    case False
    then have "i - 1 = l * 4 - 3 + (q - 1)" "3 \<le> q - 1" "q - 1 \<le> 7" using q l2 by (auto simp: i_def)
    with idx_to_size_step [OF l2, of "q - 1"] q have "idx_to_size (i - 1) = q * 2 ^ m" by (simp add: m)
    with b(1) assms(1) show ?thesis by simp
  qed
  moreover have "4 * (idx_to_size i - sz) < sz"
  proof -
    have "idx_to_size i = q * 2 ^ m + 2 ^ m" by (simp add: size)
    then have "idx_to_size i - sz < 2 ^ m" using b(1) assms(1) P(3) by linarith
    then show ?thesis using P(1) by linarith
  qed
  ultimately show thesis by (rule that)
qed

text \<open>The index is the least one whose objects are large enough.\<close>

lemma usizeo_idx_least:
  assumes "4 \<le> sz" "sz < 2 ^ 32" "usizeo_idx sz = Some i"
  shows "sz \<le> idx_to_size j \<longleftrightarrow> i \<le> j"
proof -
  from usizeo_idx_correct [OF assms(1,2)] have i: "sz \<le> idx_to_size i" "0 < i" "idx_to_size (i - 1) < sz"
    using assms(3) by auto
  show ?thesis
  proof
    assume j: "sz \<le> idx_to_size j"
    show "i \<le> j"
    proof (rule ccontr)
      assume "\<not> i \<le> j"
      then have "idx_to_size j \<le> idx_to_size (i - 1)" by (intro idx_to_size_mono) simp
      with j i(3) show False by simp
    qed
  qed (use i(1) idx_to_size_mono [of i j] in simp)
qed

lemma nr_small_pools_eq: "nr_small_pools = 57"
proof -
  from log2floor_correct [of "4 * 4096"] obtain k where k: "log2floor (4 * 4096) = Some k" "2 ^ k \<le> (16384::nat)"
    "(16384::nat) < 2 ^ (k + 1)" by auto
  have "k = 14" using k(2,3) power_le_imp_le_exp [of "2::nat" k 14] power_less_imp_less_exp [of "2::nat" 14 "k + 1"] by simp
  with k(1) show ?thesis by (simp add: nr_small_pools_def usizeo_idx_def)
qed

lemma max_small_allocation_eq: "max_small_allocation = 16384"
  by (simp add: max_small_allocation_def nr_small_pools_eq idx_to_size_def)

lemma usizeo_idx_in_range:
  assumes "4 \<le> sz" "sz \<le> max_small_allocation"
  obtains i where "usizeo_idx sz = Some i" "i < nr_small_pools" "sz \<le> idx_to_size i" "4 * (idx_to_size i - sz) < sz"
proof -
  have s: "sz < 2 ^ 32" using assms(2) by (simp add: max_small_allocation_eq)
  from usizeo_idx_correct [OF assms(1) s] obtain i where i: "usizeo_idx sz = Some i" "sz \<le> idx_to_size i"
    "4 * (idx_to_size i - sz) < sz" by blast
  have "i \<le> nr_small_pools - 1"
    using usizeo_idx_least [OF assms(1) s i(1), of "nr_small_pools - 1"] assms(2) by (simp add: max_small_allocation_def)
  then have "i < nr_small_pools" by (simp add: nr_small_pools_eq)
  with i show thesis using that by blast
qed

section \<open>Free objects as linked lists\<close>

fun chain :: "(addr \<Rightarrow> addr) \<Rightarrow> addr \<Rightarrow> addr list \<Rightarrow> bool" where
  "chain nx a [] = (a = 0)"
| "chain nx a (x # xs) = (a = x \<and> x \<noteq> 0 \<and> chain nx (nx x) xs)"

lemma chain_other [simp]: "y \<notin> set xs \<Longrightarrow> chain (nx(y := z)) a xs = chain nx a xs"
  by (induction xs arbitrary: a) auto

lemma chain_null: "chain nx 0 xs \<longleftrightarrow> xs = []"
  by (cases xs) auto

text \<open>The free list of a pool holds its objects once, and the pool counts them.\<close>

definition free_list :: "nat \<Rightarrow> addr list \<Rightarrow> cpu_pages \<Rightarrow> bool" where
  "free_list k xs c \<longleftrightarrow> chain (obj_next c) (pool_free (small_pools c k)) xs \<and> distinct xs \<and>
     free_count (small_pools c k) = length xs"

lemma pool_pop_empty: "free_list k [] c \<Longrightarrow> pool_pop k c = (0, c)"
  by (simp add: free_list_def pool_pop_def)

lemma pool_pop_head:
  assumes "free_list k (x # xs) c"
  shows "\<exists>c'. pool_pop k c = (x, c') \<and> free_list k xs c'"
  using assms by (simp add: free_list_def pool_pop_def set_pool_def)

lemma pool_deallocate_push:
  assumes "free_list k xs c" "x \<noteq> 0" "x \<notin> set xs" "length xs + 1 < max_free (small_pools c k)"
  shows "\<exists>c'. pool_deallocate k x c = Some c' \<and> free_list k (x # xs) c' \<and> pages c' = pages c"
  using assms by (simp add: free_list_def pool_deallocate_def set_pool_def)

lemma add_object_push:
  assumes "free_list k xs c" "h \<noteq> 0" "h \<notin> set xs"
  shows "free_list k (h # xs) (add_object k span h c)"
  using assms by (simp add: free_list_def add_object_def set_pool_def upd_page_def)

lemma add_objects_push:
  assumes "free_list k xs c" "0 < sz" "0 < data" "\<And>x. x \<in> set xs \<Longrightarrow> x < data \<or> data + n * sz \<le> x"
  shows "free_list k (rev (map (\<lambda>i. data + i * sz) [0..<n]) @ xs)
    (fold (\<lambda>i. add_object k span (data + i * sz)) [0..<n] c)"
  using assms(4)
proof (induction n)
  case 0
  then show ?case using assms(1) by simp
next
  case (Suc n)
  have ih: "free_list k (rev (map (\<lambda>i. data + i * sz) [0..<n]) @ xs)
    (fold (\<lambda>i. add_object k span (data + i * sz)) [0..<n] c)" using Suc.prems by (intro Suc.IH) fastforce
  have "data + n * sz \<notin> set (rev (map (\<lambda>i. data + i * sz) [0..<n]) @ xs)"
    using Suc.prems assms(2) by fastforce
  from add_object_push [OF ih _ this] assms(3) show ?case by simp
qed

text \<open>A fresh span is cut into objects, and all of them become free.\<close>

lemma claim_pages_pool:
  "small_pools (claim_pages k span n c) = small_pools c \<and> obj_next (claim_pages k span n c) = obj_next c"
  by (induction n) (simp_all add: claim_pages_def upd_page_def)

text \<open>The objects a pool has parked with one of its spans are moved to its free list.\<close>

lemma take_span_objects_moves:
  assumes "free_list k xs c" "chain (obj_next c) (pg_freelist (pages c span)) ys" "distinct (ys @ xs)" "length ys < n"
  shows "\<exists>c'. take_span_objects n k span c = Some c' \<and> free_list k (rev ys @ xs) c' \<and> pg_freelist (pages c' span) = 0"
  using assms
proof (induction n arbitrary: xs ys c)
  case (Suc n)
  show ?case
  proof (cases ys)
    case Nil
    then show ?thesis using Suc.prems by simp
  next
    case (Cons y ys')
    let ?c3 = "set_pool k (\<lambda>p. p\<lparr>pool_free := y, free_count := free_count p + 1\<rparr>)
      ((upd_page span (pg_freelist_update (\<lambda>_. obj_next c y)) c)\<lparr>obj_next := (obj_next c)(y := pool_free (small_pools c k))\<rparr>)"
    let ?c4 = "upd_page span (\<lambda>g. g\<lparr>nr_small_alloc := (nr_small_alloc g + 1) mod 65536\<rparr>) ?c3"
    have y: "pg_freelist (pages c span) = y" "y \<noteq> 0" using Suc.prems(2) Cons by auto
    have d: "y \<notin> set xs" "y \<notin> set ys'" "distinct (ys' @ y # xs)" "length ys' < n" using Suc.prems(3,4) Cons by auto
    have fl: "free_list k (y # xs) ?c4"
      using Suc.prems(1) y(2) d(1,3) by (simp add: free_list_def set_pool_def upd_page_def)
    have ch: "chain (obj_next ?c4) (pg_freelist (pages ?c4 span)) ys'"
      using Suc.prems(2) Cons d(2) by (simp add: set_pool_def upd_page_def)
    have "\<exists>c'. take_span_objects n k span ?c4 = Some c' \<and> free_list k (rev ys' @ y # xs) c' \<and> pg_freelist (pages c' span) = 0"
      by (rule Suc.IH [OF fl ch d(3,4)])
    then show ?thesis using y by (simp add: Let_def Cons upd_page_def set_pool_def)
  qed
qed simp

section \<open>The small path of allocation\<close>

text \<open>The pools as \<^verbatim>\<open>small_pool_array\<close> builds them, as far as the object sizes go.\<close>

definition pools_sized :: "cpu_pages \<Rightarrow> bool" where
  "pools_sized c \<longleftrightarrow> (\<forall>i < nr_small_pools. object_size (small_pools c i) = idx_to_size i)"

lemma allocate_small_takes:
  assumes "pools_sized c" "8 \<le> sz" "sz \<le> max_small_allocation" "usizeo_idx sz = Some i" "free_list i (x # xs) c"
  shows "\<exists>c'. allocate_small env sz c = Returned x c' \<and> free_list i xs c'"
proof -
  have r: "i < nr_small_pools" "sz \<le> idx_to_size i"
    using assms(2,3,4) usizeo_idx_in_range [of sz] by auto
  have "pool_free (small_pools c i) \<noteq> 0" using assms(5) by (simp add: free_list_def)
  with pool_pop_head [OF assms(5)] r assms(1,4) show ?thesis
    by (auto simp: allocate_small_def pools_sized_def pool_allocate_def)
qed

text \<open>
  The loop of the constructor ends: a span of 128 pages is large enough for every size class, and
  the span it settles on holds at least 32 objects.
\<close>

lemma large_span_enough: "0 < osize \<Longrightarrow> osize \<le> 16384 \<Longrightarrow> \<not> span_too_small osize 128"
  using div_le_mono2 [of osize 16384 "128 * 4096"] by (simp add: span_too_small_def)

lemma grow_span_ends:
  assumes "s * 2 ^ k = 128" "k < n" "0 < osize" "osize \<le> 16384"
  shows "\<exists>r. grow_span n osize s = Some r \<and> r \<le> 128 \<and> \<not> span_too_small osize r"
  using assms(1,2)
proof (induction k arbitrary: s n)
  case 0
  then show ?case using large_span_enough [OF assms(3,4)] by (cases n) auto
next
  case (Suc k)
  from Suc.prems(2) obtain n' where n: "n = Suc n'" "k < n'" by (metis Suc_lessE)
  have "s * 2 * 2 ^ k = 128" using Suc.prems(1) by simp
  moreover have "s * 1 \<le> s * 2 ^ Suc k" by (intro mult_le_mono2) simp
  then have "s \<le> 128" unfolding Suc.prems(1) by simp
  ultimately have "s * 2 * 2 ^ k = 128" "s \<le> 128" by simp_all
  with Suc.IH [of "s * 2" n'] n show ?case by auto
qed

lemma small_pool_new_ok:
  assumes "0 < osize" "osize \<le> 16384"
  shows "\<exists>p. small_pool_new osize = Some p \<and> object_size p = osize \<and> pool_span_size p \<le> 128 \<and>
    32 * osize \<le> pool_span_size p * 4096 \<and> min_free p \<le> max_free p \<and> 100 \<le> max_free p \<and>
    pool_free p = 0 \<and> free_count p = 0"
proof -
  obtain r where r: "grow_span 20 osize 1 = Some r" "r \<le> 128" "\<not> span_too_small osize r"
    using grow_span_ends [of 1 7 20 osize] assms by auto
  have "32 \<le> r * 4096 div osize" using r(3) by (simp add: span_too_small_def)
  then have "32 * osize \<le> r * 4096" using assms(1) by (simp add: less_eq_div_iff_mult_less_eq)
  then show ?thesis using r(1,2) by (auto simp: small_pool_new_def Let_def)
qed

lemma idx_to_size_range:
  assumes "i < nr_small_pools"
  shows "0 < idx_to_size i" "idx_to_size i \<le> 16384"
proof -
  have "idx_to_size 0 \<le> idx_to_size i" by (rule idx_to_size_mono) simp
  then show "0 < idx_to_size i" by (simp add: idx_to_size_def [of 0])
  have "idx_to_size i \<le> idx_to_size (nr_small_pools - 1)" using assms by (intro idx_to_size_mono) simp
  then show "idx_to_size i \<le> 16384" using max_small_allocation_eq by (simp add: max_small_allocation_def)
qed

lemma small_pool_array_ok:
  assumes "i < nr_small_pools"
  shows "object_size (small_pool_array_new i) = idx_to_size i" "pool_free (small_pool_array_new i) = 0"
    "free_count (small_pool_array_new i) = 0" "100 \<le> max_free (small_pool_array_new i)"
  using small_pool_new_ok [OF idx_to_size_range [OF assms]] by (auto simp: small_pool_array_new_def)

lemma cpu_pages_new_sized: "pools_sized cpu_pages_new"
  by (simp add: pools_sized_def cpu_pages_new_def small_pool_array_ok)

lemma cpu_pages_new_free_list: "i < nr_small_pools \<Longrightarrow> free_list i [] cpu_pages_new"
  by (simp add: free_list_def cpu_pages_new_def small_pool_array_ok)

end
