(* ===== verification/Memory_Properties.thy ===== *)
theory Memory_Properties
  imports Span_Client Small_Pools
begin

text \<open>
  The properties of the memory allocator (\<^verbatim>\<open>src/core/memory/memory.cpp\<close>), with concrete instances.
\<close>

section \<open>A concrete cpu\<close>

definition ex_env :: mem_env where
  "ex_env = \<lparr>env_base = 2 ^ 44, env_ticket = 3, env_live = (\<lambda>_. True), env_reclaim = (\<lambda>_ c. (False, c)),
     env_rounds = 10\<rparr>"

lemma cpu_pages_new_simps [simp]:
  "nr_pages cpu_pages_new = 0" "nr_free_pages cpu_pages_new = 0" "empty_lists cpu_pages_new" "quiet cpu_pages_new"
  "reclaimers cpu_pages_new = []" "current_min_free_pages cpu_pages_new = 0" "small_pools cpu_pages_new = small_pool_array_new"
  by (simp_all add: cpu_pages_new_def empty_lists_def quiet_def)

lemma ex_env_simps [simp]: "env_ticket ex_env = 3" "env_base ex_env = 2 ^ 44"
  by (simp_all add: ex_env_def)

lemma ex_initialized:
  obtains c where "initialize ex_env cpu_pages_new = Some (True, c)" "pool_inv 65 {(65, 8127, True)} c" "quiet c"
    "memory_at c = 2 ^ 44 + 3 * 2 ^ 36" "cpu_id c = 3" "nr_pages c = 8192"
proof -
  from initialize_correct [of cpu_pages_new ex_env] obtain c where
    "initialize ex_env cpu_pages_new = Some (True, c)" "pool_inv 65 {(65, 8127, True)} c"
    "reclaimers c = [] \<and> current_min_free_pages c = 0"
    "memory_at c = 2 ^ 44 + 3 * 2 ^ 36" "cpu_id c = 3" "nr_pages c = 8192" by auto
  then show thesis using that by (simp add: quiet_def)
qed

lemma ex_fits: "fits n {(65, 8127, True)} \<longleftrightarrow> n \<le> 8127"
  by (auto simp: fits_def)

text \<open>The same cpu after five pages were allocated.\<close>

lemma ex_allocated:
  obtains c S p where "pool_inv 65 S c" "used S = {(p, 5)}" "quiet c" "pg_pool (pages c p) = None"
    "memory_at c = 2 ^ 44 + 3 * 2 ^ 36" "cpu_id c = 3" "p < 8192"
proof -
  obtain c0 where c0: "pool_inv 65 {(65, 8127, True)} c0" "quiet c0" "memory_at c0 = 2 ^ 44 + 3 * 2 ^ 36"
    "cpu_id c0 = 3" "nr_pages c0 = 8192"
    using ex_initialized by metis
  from allocate_large_contract [OF c0(1,2), of 5 ex_env] ex_fits [of 5] obtain p c S where
    c: "pool_inv 65 S c" "only_spans c0 c" "used S = insert (p, 5) (used {(65, 8127, True)})" "pg_pool (pages c p) = None"
    by auto
  have u: "used S = {(p, 5)}" using c(3) by (simp add: used_def)
  then have "(p, 5, False) \<in> S" by (auto simp: used_def)
  from spans_inD(3) [OF layoutD(7) [OF pool_invD(3) [OF c(1)]] this] have "p < 8192"
    using only_spans_simps(1) [OF c(2)] c0(5) by simp
  then show thesis using that [OF c(1) u] c(4) c0 only_spans_simps [OF c(2)] by (simp add: quiet_def)
qed

section \<open>Page spans\<close>

text \<open>
  C1. From the first initialization on, every sequence of page allocations and frees runs to its
  end, the regions a client holds never overlap, and no page is lost or invented.
\<close>

theorem page_sessions_safe:
  assumes "env_ticket env < 256" "list_all (op_ok page_count_ok) ops"
  shows "\<exists>c live c'. initialize env cpu_pages_new = Some (True, c) \<and>
    region_run (cpu_allocate_large env) cpu_free_large ops ([], c) = Some (live, c') \<and>
    regions_apart 4096 live \<and> nr_free_pages c' + sum_list (map snd live) = 8127"
proof -
  obtain c where c: "initialize env cpu_pages_new = Some (True, c)" "pool_holds {} c" "nr_free_pages c = 8127"
    using initialize_holds [of cpu_pages_new env] assms(1) by auto
  from page_pool.run_safe [OF c(2) assms(2), of env] c(1,3) show ?thesis by auto
qed

theorem page_sessions_safe_witness:
  "\<exists>c live c'. initialize ex_env cpu_pages_new = Some (True, c) \<and>
    region_run (cpu_allocate_large ex_env) cpu_free_large
      [Op_alloc 3, Op_alloc 100, Op_free 1, Op_alloc 9000, Op_free 7] ([], c) = Some (live, c') \<and>
    regions_apart 4096 live \<and> nr_free_pages c' + sum_list (map snd live) = 8127"
  by (rule page_sessions_safe) (simp_all add: page_count_ok_def)

text \<open>
  C5. \<^verbatim>\<open>cpu_pages::allocate_large\<close> returns null only when no free span has enough pages, and then
  changes nothing; otherwise it returns pages that were free, and keeps the pool's invariant.
\<close>

theorem allocate_large_spec:
  assumes "pool_inv s0 S c" "quiet c" "0 < n" "n \<le> 2 ^ 30"
  shows "\<exists>a c' S'. cpu_allocate_large env n c = Returned a c' \<and> pool_inv s0 S' c' \<and>
    (if fits n S
     then \<exists>p. a = memory_at c + p * 4096 \<and> used S' = insert (p, n) (used S) \<and> (p, n) \<notin> used S \<and>
       nr_free_pages c' + n = nr_free_pages c
     else a = 0 \<and> S' = S \<and> nr_free_pages c' = nr_free_pages c)"
  using allocate_large_contract [OF assms, of env]
proof (elim disjE exE conjE)
  fix c' assume "cpu_allocate_large env n c = Returned 0 c'" "\<not> fits n S" "pool_inv s0 S c'"
    "nr_free_pages c' = nr_free_pages c"
  then show ?thesis by auto
next
  fix p c' S' assume "cpu_allocate_large env n c = Returned (memory_at c + p * 4096) c'" "pool_inv s0 S' c'"
    "used S' = insert (p, n) (used S)" "(p, n) \<notin> used S" "fits n S" "n \<le> nr_free_pages c"
    "nr_free_pages c' = nr_free_pages c - n"
  then show ?thesis by (intro exI conjI) auto
qed

theorem allocate_large_spec_witness:
  "\<exists>c a c' S'. cpu_allocate_large ex_env 5 c = Returned a c' \<and> pool_inv 65 S' c' \<and>
    (\<exists>p. a = memory_at c + p * 4096 \<and> used S' = {(p, 5)})"
proof -
  obtain c where c: "pool_inv 65 {(65, 8127, True)} c" "quiet c" using ex_initialized by metis
  from allocate_large_spec [OF c, of 5 ex_env] show ?thesis by (simp add: ex_fits used_def) blast
qed

text \<open>
  \<^verbatim>\<open>cpu_pages::allocate_large_aligned\<close> returns a page index that is a multiple of the
  alignment, and fails only when no free span could hold an aligned run of pages in every position.
\<close>

theorem allocate_large_aligned_spec:
  assumes "pool_inv s0 S c" "quiet c" "0 < n" "n + 2 ^ k \<le> 2 ^ 30"
  shows "(\<exists>c'. cpu_allocate_large_aligned env (2 ^ k) n c = Returned 0 c' \<and> \<not> fits (n + 2 ^ k - 1) S \<and>
      pool_inv s0 S c' \<and> nr_free_pages c' = nr_free_pages c) \<or>
    (\<exists>p c' S'. cpu_allocate_large_aligned env (2 ^ k) n c = Returned (memory_at c + p * 4096) c' \<and>
      2 ^ k dvd p \<and> pool_inv s0 S' c' \<and> only_spans c c' \<and> used S' = insert (p, n) (used S) \<and>
      nr_free_pages c' = nr_free_pages c - n)"
  using assms by (rule allocate_large_aligned_contract)

theorem allocate_large_aligned_spec_witness:
  "\<exists>c p c' S'. cpu_allocate_large_aligned ex_env (2 ^ 4) 7 c = Returned (memory_at c + p * 4096) c' \<and>
    2 ^ 4 dvd p \<and> pool_inv 65 S' c' \<and> used S' = {(p, 7)}"
proof -
  obtain c where c: "pool_inv 65 {(65, 8127, True)} c" "quiet c" using ex_initialized by metis
  from allocate_large_aligned_spec [OF c, of 7 4 ex_env] show ?thesis
    by (simp add: ex_fits [of 22] used_def) blast
qed

text \<open>
  C13. Freeing a large object by its address merges it with its free neighbours: the pool's
  invariant is kept (so again no two free spans touch), and exactly that object is gone.
\<close>

theorem free_large_spec:
  assumes "pool_inv s0 S c" "(p, n) \<in> used S"
  shows "\<exists>c' S'. cpu_free_large (memory_at c + p * 4096) c = Some c' \<and> pool_inv s0 S' c' \<and> coalesced S' \<and>
    used S' = used S - {(p, n)} \<and> nr_free_pages c' = nr_free_pages c + n"
  using free_large_correct [OF assms] pool_invD(2) by blast

theorem free_large_spec_witness:
  "\<exists>c c' S' p. cpu_free_large (memory_at c + p * 4096) c = Some c' \<and> pool_inv 65 S' c' \<and> used S' = {}"
proof -
  obtain c S p where c: "pool_inv 65 S c" "used S = {(p, 5)}" using ex_allocated by metis
  then have "(p, 5) \<in> used S" by simp
  from free_large_spec [OF c(1) this] c(2) show ?thesis by auto
qed

text \<open>
  Freeing what was just allocated restores the set of used regions and the count of free pages.
\<close>

theorem large_alloc_free_roundtrip:
  assumes "pool_inv s0 S c" "quiet c" "0 < n" "n \<le> 2 ^ 30" "cpu_allocate_large env n c = Returned a c1" "a \<noteq> 0"
  shows "\<exists>c2 S2. cpu_free_large a c1 = Some c2 \<and> pool_inv s0 S2 c2 \<and> used S2 = used S \<and>
    nr_free_pages c2 = nr_free_pages c"
proof -
  from allocate_large_contract [OF assms(1-4), of env] assms(5,6) obtain p S1 where
    a: "a = memory_at c + p * 4096" and s: "pool_inv s0 S1 c1" "only_spans c c1" "used S1 = insert (p, n) (used S)"
      "(p, n) \<notin> used S" "n \<le> nr_free_pages c" "nr_free_pages c1 = nr_free_pages c - n" by auto
  have "(p, n) \<in> used S1" using s(3) by simp
  from free_large_correct [OF s(1) this] s only_spans_simps(2) [OF s(2)] show ?thesis unfolding a by auto
qed

theorem large_alloc_free_roundtrip_witness:
  "\<exists>c a c1 c2 S2. cpu_allocate_large ex_env 5 c = Returned a c1 \<and> cpu_free_large a c1 = Some c2 \<and>
    pool_inv 65 S2 c2 \<and> used S2 = {} \<and> nr_free_pages c2 = nr_free_pages c"
proof -
  obtain c where c: "pool_inv 65 {(65, 8127, True)} c" "quiet c" "memory_at c = 2 ^ 44 + 3 * 2 ^ 36"
    using ex_initialized by metis
  from allocate_large_contract [OF c(1,2), of 5 ex_env] ex_fits [of 5] c(3) obtain a c1 where
    a: "cpu_allocate_large ex_env 5 c = Returned a c1" "a \<noteq> 0" by auto
  have "used {(65, 8127, True)} = {}" by (simp add: used_def)
  with large_alloc_free_roundtrip [OF c(1,2) _ _ a] obtain c2 S2 where
    "cpu_free_large a c1 = Some c2" "pool_inv 65 S2 c2" "used S2 = {}" "nr_free_pages c2 = nr_free_pages c" by auto
  with a(1) show ?thesis by metis
qed

text \<open>
  \<^verbatim>\<open>cpu_pages::shrink\<close> keeps the first pages of a large object and frees the others.
\<close>

theorem shrink_spec:
  assumes inv: "pool_inv s0 S c" and u: "(p, n) \<in> used S" and own: "object_cpu_id (memory_at c + p * 4096) = cpu_id c"
    and pool: "pg_pool (pages c p) = None" and sz: "0 < sz" "round_up sz 4096 div 4096 < n"
  defines "k \<equiv> round_up sz 4096 div 4096"
  shows "\<exists>c' S'. cpu_shrink (memory_at c + p * 4096) sz c = Some c' \<and> pool_inv s0 S' c' \<and> only_spans c c' \<and>
    used S' = insert (p, k) (used S - {(p, n)}) \<and> nr_free_pages c' = nr_free_pages c + (n - k)"
proof -
  have s: "(p, n, False) \<in> S" using u by (simp add: used_def)
  have k: "0 < k" "k < n"
  proof -
    have "sz \<le> round_up sz 4096" using round_up_bounds [of 4096 sz] by simp
    moreover have "4096 dvd round_up sz 4096" by simp
    ultimately have "4096 \<le> round_up sz 4096" using sz(1) by (intro dvd_imp_le) auto
    then show "0 < k" by (simp add: k_def div_greater_zero_iff)
  qed (use sz(2) in \<open>simp add: k_def\<close>)
  have size: "span_size (pages c p) = n"
    using span_invD(2) [OF pool_invD(1) [OF inv]] s unfolding tagged_def by blast
  note D = layoutD [OF pool_invD(3) [OF inv]]
  note P = spans_inD [OF D(7) s]
  let ?S1 = "S - {(p, n, False)}"
  define c2 where "c2 = upd_page (p + k - 1) (\<lambda>g. g\<lparr>pg_free := False, span_size := k\<rparr>)
    (upd_page p (span_size_update (\<lambda>_. k)) c)"
  text \<open>The span is two spans now, the second one still used and without tags.\<close>
  have inv1: "span_inv s0 ?S1 p n c" using pool_open [OF inv s] .
  have lay: "layout s0 (nr_pages c) (insert (p, k, False) ?S1) (p + k) (n - k)"
    using layout_fill [OF span_invD(1) [OF inv1] k(1), of "p + k" "n - k" p] k(2) by simp
  have free_p: "\<not> pg_free (pages c p)"
    using span_invD(2) [OF pool_invD(1) [OF inv]] s unfolding tagged_def by blast
  have tag2: "tagged (pages c2) ?S1"
    using span_invD(1,2) [OF inv1] by (rule tagged_hole) (use k in \<open>auto simp: c2_def upd_page_def\<close>)
  then have "tagged (pages c2) (insert (p, k, False) ?S1)"
    using free_p by (auto simp: tagged_def c2_def upd_page_def)
  moreover obtain L where "listed ?S1 c L" using span_invD(5) [OF inv1] by blast
  then have "listed ?S1 c2 L" using listed_cong [of c2 c ?S1 L] by (simp add: c2_def upd_page_def)
  then have "\<exists>L. listed (insert (p, k, False) ?S1) c2 L" using listed_insert_used by blast
  moreover have "free_pages (insert (p, k, False) ?S1) = nr_free_pages c"
    using free_pages_insert [of ?S1 p k False] not_in_hole [OF span_invD(1) [OF inv1], of p] P(1) D(1)
      span_invD(6) [OF inv1] by simp
  ultimately have inv2: "span_inv s0 (insert (p, k, False) ?S1) (p + k) (n - k) c2"
    using lay span_invD(3,4) [OF inv1] k P D(2) by (auto simp: span_inv_def c2_def upd_page_def)
  have run: "cpu_shrink (memory_at c + p * 4096) sz c = free_span (p + k) (n - k) c2"
    using own pool size k by (simp add: cpu_shrink_def to_page_of c2_def flip: k_def)
  have co: "coalesced (insert (p, k, False) ?S1)"
    using pool_invD(2) [OF inv] unfolding coalesced_def by auto
  have nk: "0 < n - k" using k by simp
  from free_hole_correct [OF inv2 co nk] obtain c' S' where
    "free_span (p + k) (n - k) c2 = Some c'" "pool_inv s0 S' c'" "only_spans c2 c'"
    "used S' = used (insert (p, k, False) ?S1)" "nr_free_pages c' = nr_free_pages c2 + (n - k)" by blast
  moreover have "only_spans c c2" "nr_free_pages c2 = nr_free_pages c"
    by (simp_all add: c2_def upd_page_def only_spans_def)
  ultimately show ?thesis using run only_spans_trans by auto
qed

theorem shrink_spec_witness:
  "\<exists>c p c' S'. cpu_shrink (memory_at c + p * 4096) 5000 c = Some c' \<and> pool_inv 65 S' c' \<and> used S' = {(p, 2)}"
proof -
  obtain c S p where c: "pool_inv 65 S c" "used S = {(p, 5)}" "pg_pool (pages c p) = None"
    "memory_at c = 2 ^ 44 + 3 * 2 ^ 36" "cpu_id c = 3" "p < 8192" using ex_allocated by metis
  have u: "(p, 5) \<in> used S" using c(2) by simp
  have "(2 ^ 44 + 3 * 2 ^ 36 + p * 4096) div 2 ^ 36 = (259 :: nat)" using c(6) by (intro div_nat_eqI) auto
  then have own: "object_cpu_id (memory_at c + p * 4096) = cpu_id c" using c(4,5) by (simp add: object_cpu_id_def)
  from shrink_spec [OF c(1) u own c(3), of 5000] show ?thesis using c(2) by (auto simp: round_up_def)
qed

section \<open>Small objects\<close>



text \<open>
  The constructor's loop ends for every size class; the span it settles on has at most 128 pages
  and room for at least 32 objects.
\<close>

theorem small_pool_constructed:
  assumes "i < nr_small_pools"
  shows "\<exists>p. small_pool_new (idx_to_size i) = Some p \<and> object_size p = idx_to_size i \<and>
    pool_span_size p \<le> 128 \<and> 32 * idx_to_size i \<le> pool_span_size p * 4096 \<and> min_free p \<le> max_free p"
  using small_pool_new_ok [OF idx_to_size_range [OF assms]] by blast

theorem small_pool_constructed_witness:
  "\<exists>p. small_pool_new (idx_to_size 40) = Some p \<and> object_size p = idx_to_size 40 \<and>
    pool_span_size p \<le> 128 \<and> 32 * idx_to_size 40 \<le> pool_span_size p * 4096 \<and> min_free p \<le> max_free p"
  by (rule small_pool_constructed) (simp add: nr_small_pools_eq)

text \<open>
  Freeing an object into its pool and allocating from the pool gives the same object back and
  leaves the free list as it was.
\<close>

theorem small_free_allocate_roundtrip:
  assumes "free_list k xs c" "x \<noteq> 0" "x \<notin> set xs" "length xs + 1 < max_free (small_pools c k)"
  shows "\<exists>c1 c2. pool_deallocate k x c = Some c1 \<and> pool_allocate env k c1 = Returned x c2 \<and> free_list k xs c2"
proof -
  from pool_deallocate_push [OF assms] obtain c1 where
    c1: "pool_deallocate k x c = Some c1" "free_list k (x # xs) c1" by blast
  have "pool_free (small_pools c1 k) \<noteq> 0" using c1(2) by (simp add: free_list_def)
  with c1 pool_pop_head [OF c1(2)] show ?thesis by (auto simp: pool_allocate_def)
qed

theorem small_free_allocate_roundtrip_witness:
  "\<exists>c1 c2. pool_deallocate 20 4096 cpu_pages_new = Some c1 \<and> pool_allocate ex_env 20 c1 = Returned 4096 c2 \<and> free_list 20 [] c2"
  by (rule small_free_allocate_roundtrip)
     (use small_pool_array_ok(4) [of 20] in \<open>simp_all add: cpu_pages_new_free_list nr_small_pools_eq\<close>)

text \<open>
  A new span is cut into as many objects as fit; all of them become free, each once, in front of
  the objects that were free before.
\<close>

theorem fill_span_spec:
  assumes "free_list k xs c" "0 < object_size (small_pools c k)" "0 < data"
    "\<And>x. x \<in> set xs \<Longrightarrow> x < data \<or> data + pool_span_size (small_pools c k) * 4096 \<le> x"
  shows "free_list k
    (rev (map (\<lambda>i. data + i * object_size (small_pools c k))
       [0..<pool_span_size (small_pools c k) * 4096 div object_size (small_pools c k)]) @ xs)
    (fill_span k data c)"
proof -
  let ?p = "small_pools c k"
  let ?n = "pool_span_size ?p * 4096 div object_size ?p"
  have "?n * object_size ?p \<le> pool_span_size ?p * 4096" by simp
  have far: "\<And>x. x \<in> set xs \<Longrightarrow> x < data \<or> data + ?n * object_size ?p \<le> x" 
  proof -
    fix x assume "x \<in> set xs"
    from assms(4) [OF this] \<open>?n * object_size ?p \<le> pool_span_size ?p * 4096\<close>
    show "x < data \<or> data + ?n * object_size ?p \<le> x" by linarith
  qed
  show ?thesis unfolding fill_span_def Let_def
    by (rule add_objects_push)
       (use assms far in \<open>simp_all add: free_list_def set_pool_def upd_page_def claim_pages_pool\<close>)
qed

theorem fill_span_spec_witness:
  "free_list 20 (rev (map (\<lambda>i. 8192 + i * object_size (small_pools cpu_pages_new 20))
     [0..<pool_span_size (small_pools cpu_pages_new 20) * 4096 div object_size (small_pools cpu_pages_new 20)]) @ [])
   (fill_span 20 8192 cpu_pages_new)"
  by (rule fill_span_spec)
     (use small_pool_array_ok(1) [of 20] in \<open>simp_all add: cpu_pages_new_free_list nr_small_pools_eq idx_to_size_def\<close>)

text \<open>
  \<^verbatim>\<open>malloc\<close> of a small size takes the first free object of the size class, which is large
  enough, and does not touch the memory.
\<close>

theorem malloc_small_spec:
  assumes "pools_sized (hs_cpu s)" "0 < n" "n \<le> max_small_allocation" "usizeo_idx (max 8 n) = Some i"
    "free_list i (x # xs) (hs_cpu s)"
  shows "\<exists>s'. c_malloc env n s = Returned x s' \<and> free_list i xs (hs_cpu s') \<and> hs_mem s' = hs_mem s \<and>
    n \<le> object_size (small_pools (hs_cpu s) i)"
proof -
  let ?c = "(hs_cpu s)\<lparr>g_allocs := uadd (g_allocs (hs_cpu s)) 1\<rparr>"
  have m: "8 \<le> max 8 n" "max 8 n \<le> max_small_allocation" using assms(3) by (simp_all add: max_small_allocation_eq)
  have "pools_sized ?c" "free_list i (x # xs) ?c" using assms(1,5) by (simp_all add: pools_sized_def free_list_def)
  from allocate_small_takes [OF this(1) m assms(4) this(2), of env] obtain c' where
    c': "allocate_small env (max 8 n) ?c = Returned x c'" "free_list i xs c'" by blast
  have "(if n \<le> 8 then 8 else n) = max 8 n" by simp
  then have "mem_allocate env n (hs_cpu s) = Returned x c'"
    using c'(1) m(2) by (simp only: mem_allocate_def Let_def if_True)
  moreover have "n \<le> object_size (small_pools (hs_cpu s) i)"
  proof -
    obtain j where "usizeo_idx (max 8 n) = Some j" "j < nr_small_pools" "max 8 n \<le> idx_to_size j"
      by (rule usizeo_idx_in_range [of "max 8 n"]) (use m in auto)
    then show ?thesis using assms(1,4) by (simp add: pools_sized_def)
  qed
  ultimately show ?thesis using assms(2) c'(2) by (simp add: c_malloc_def on_cpu_def)
qed

theorem malloc_small_spec_witness:
  "\<exists>s s'. c_malloc ex_env 100 s = Returned 4096 s' \<and> hs_mem s' = hs_mem s"
proof -
  obtain i where i: "usizeo_idx (max 8 100) = Some i" "i < nr_small_pools"
    by (rule usizeo_idx_in_range [of "max 8 100"]) (simp_all add: max_small_allocation_eq)
  have "length [] + 1 < max_free (small_pools cpu_pages_new i)"
    using small_pool_array_ok(4) [OF i(2)] by simp
  from pool_deallocate_push [OF cpu_pages_new_free_list [OF i(2)] _ _ this, of 4096] obtain c where
    c: "pool_deallocate i 4096 cpu_pages_new = Some c" "free_list i [4096] c" by auto
  have "small_pools c j = (small_pools cpu_pages_new j)\<lparr>pool_free := pool_free (small_pools c j), free_count := free_count (small_pools c j)\<rparr>" for j
    using c(1) \<open>length [] + 1 < max_free (small_pools cpu_pages_new i)\<close> cpu_pages_new_free_list [OF i(2)]
    by (auto simp: pool_deallocate_def set_pool_def Let_def free_list_def split: if_splits)
  then have "object_size (small_pools c j) = object_size (small_pools cpu_pages_new j)" for j
    by (metis small_pool.select_convs(1) small_pool.surjective small_pool.update_convs(3,4))
  then have p: "pools_sized c" using cpu_pages_new_sized by (simp add: pools_sized_def)
  from malloc_small_spec [of "\<lparr>hs_cpu = c, hs_mem = (\<lambda>_. 0)\<rparr>" 100 i 4096 "[]" ex_env] p c(2) i(1)
  obtain s' where "c_malloc ex_env 100 \<lparr>hs_cpu = c, hs_mem = (\<lambda>_. 0)\<rparr> = Returned 4096 s'"
    "hs_mem s' = hs_mem \<lparr>hs_cpu = c, hs_mem = (\<lambda>_. 0)\<rparr>"
    by (auto simp: max_small_allocation_eq)
  then show ?thesis by metis
qed

section \<open>The C and C++ interface\<close>

text \<open>
  Running out of memory is reported the way each interface promises: \<^verbatim>\<open>malloc\<close> and the
  \<^verbatim>\<open>nothrow\<close> form never throw, \<^verbatim>\<open>operator new\<close> never returns null, \<^verbatim>\<open>posix_memalign\<close> returns 0 exactly
  with a pointer.
\<close>

theorem out_of_memory_reports:
  "c_malloc env n s \<noteq> Thrown s' \<and> operator_new_nothrow env n s \<noteq> Thrown s' \<and> operator_new env n s \<noteq> Returned 0 s' \<and>
   c_posix_memalign env al n s \<noteq> Returned (0, None) s' \<and> c_posix_memalign env al n s \<noteq> Returned (0, Some 0) s' \<and>
   c_posix_memalign env al n s \<noteq> Thrown s'"
proof -
  have "catch_bad_alloc 0 r \<noteq> Thrown s'" for r :: "(addr, heap_state) outcome" by (cases r) auto
  moreover have "throw_if_null r \<noteq> Returned 0 s'" for r :: "(addr, heap_state) outcome"
    by (cases r) (auto simp: throw_if_null_def)
  ultimately show ?thesis
    by (auto simp: c_malloc_def operator_new_nothrow_def operator_new_def c_posix_memalign_def ENOMEM_def
        split: outcome.splits)
qed

end
