(* ===== verification/Guard.thy ===== *)
theory Guard
  imports Xi_Prelude "HOL-Library.Multiset"
begin

text \<open>
  \<^verbatim>\<open>xi/ext/tagged_ptr.h\<close> and \<^verbatim>\<open>xi/io/detail/guard.h\<close>: the reference-counted guards that
  keep the memory behind a blob alive. A guard is one tagged pointer. With bit 0 set it owns a
  \<^verbatim>\<open>malloc\<close>ed object directly; otherwise it points to a heap object
  \<^verbatim>\<open>guard::impl\<close> with a reference count, or is null.

  The record \<open>world\<close> is the state the io components share: the bytes, the guard
  implementations on the heap, the blocks obtained from \<^verbatim>\<open>malloc\<close> and not yet freed, and the
  callbacks run. \<^verbatim>\<open>operator new\<close> hands out consecutive aligned addresses. \<open>None\<close> is an access
  to an implementation that no longer exists or a \<^verbatim>\<open>free\<close> of something that is not a live
  block; the lemmas exclude both.
\<close>

section \<open>Tagged pointers\<close>

type_synonym tagged_ptr = nat

definition bit_counter :: "nat \<Rightarrow> nat option" where
  "bit_counter align = (if align = 1 then Some 1 else if align = 4 then Some 2
     else if align = 8 then Some 3 else None)"

definition tp_set_tag :: "nat \<Rightarrow> tagged_ptr \<Rightarrow> tagged_ptr" where
  "tp_set_tag tag p = p OR tag"

definition tp_reset_tag :: "nat \<Rightarrow> tagged_ptr \<Rightarrow> tagged_ptr" where
  "tp_reset_tag tag p = p - (p AND tag)"

definition tp_get_tag :: "nat \<Rightarrow> tagged_ptr \<Rightarrow> nat" where
  "tp_get_tag tag p = p AND tag"

definition tp_get :: "nat \<Rightarrow> tagged_ptr \<Rightarrow> addr" where
  "tp_get n p = p - (p AND mask n)"

definition tp_reset :: "addr \<Rightarrow> tagged_ptr" where
  "tp_reset p = p"

text \<open>Move construction: the new pointer and what is left in the old one.\<close>

definition tp_move :: "tagged_ptr \<Rightarrow> tagged_ptr \<times> tagged_ptr" where
  "tp_move p = (p, 0)"

section \<open>Guards and their heap\<close>

definition USE_FREE :: nat where
  "USE_FREE = 1"

type_synonym guard = tagged_ptr

definition guard_ptr :: "guard \<Rightarrow> addr" where
  "guard_ptr g = tp_get 1 g"

definition guard_tagged :: "guard \<Rightarrow> bool" where
  "guard_tagged g \<longleftrightarrow> tp_get_tag USE_FREE g = USE_FREE"

text \<open>What a derived \<^verbatim>\<open>impl\<close> releases in its destructor: a \<^verbatim>\<open>malloc\<close>ed object, a
  callback, or a guard held as an object (as \<^verbatim>\<open>append\<close> makes).\<close>

datatype guard_payload = Free_obj addr | Func_obj nat | Guard_obj guard

record guard_impl =
  refs :: usize
  nxt :: guard
  payload :: guard_payload

record world =
  mem :: memory
  impls :: "(addr \<times> guard_impl) list"
  lim :: addr
  blocks :: "(addr \<times> usize) list"
  ran :: "nat list"

definition free_guard_impl :: "addr \<Rightarrow> guard_impl" where
  "free_guard_impl obj = \<lparr>refs = 1, nxt = 0, payload = Free_obj obj\<rparr>"

definition func_guard_impl :: "guard \<Rightarrow> nat \<Rightarrow> guard_impl" where
  "func_guard_impl next f = \<lparr>refs = 1, nxt = next, payload = Func_obj f\<rparr>"

definition make_object_guard_impl :: "guard \<Rightarrow> guard \<Rightarrow> guard_impl" where
  "make_object_guard_impl next obj = \<lparr>refs = 1, nxt = next, payload = Guard_obj obj\<rparr>"

definition new_impl :: "guard_impl \<Rightarrow> world \<Rightarrow> addr \<times> world" where
  "new_impl i w = (lim w, w\<lparr>impls := (lim w, i) # impls w, lim := lim w + 16\<rparr>)"

definition free_ptr :: "addr \<Rightarrow> world \<Rightarrow> world option" where
  "free_ptr p w =
     (if p \<in> fst ` set (blocks w)
      then Some (w\<lparr>blocks := filter (\<lambda>(a, _). a \<noteq> p) (blocks w)\<rparr>) else None)"

definition upd_impl :: "addr \<Rightarrow> (guard_impl \<Rightarrow> guard_impl) \<Rightarrow> world \<Rightarrow> world" where
  "upd_impl p f w = w\<lparr>impls := map (\<lambda>(a, i). if a = p then (a, f i) else (a, i)) (impls w)\<rparr>"

definition guard_simple :: "addr \<Rightarrow> guard" where
  "guard_simple obj = tp_set_tag USE_FREE obj"

definition make_simple_guard :: "addr \<Rightarrow> guard" where
  "make_simple_guard obj = (if obj = 0 then 0 else guard_simple obj)"

definition guard_empty :: "guard \<Rightarrow> bool" where
  "guard_empty g \<longleftrightarrow> guard_ptr g = 0"

text \<open>\<^verbatim>\<open>guard::share\<close>: the guard shared (its pointer is \<^verbatim>\<open>mutable\<close>), the new guard, the world.\<close>

definition guard_share :: "guard \<Rightarrow> world \<Rightarrow> guard \<times> guard \<times> world" where
  "guard_share g w =
     (if guard_empty g then (g, 0, w)
      else let (g1, w1) = (if guard_tagged g
                           then new_impl (free_guard_impl (guard_ptr g)) w else (g, w))
           in (g1, guard_ptr g1, upd_impl (guard_ptr g1) (\<lambda>i. i\<lparr>refs := uadd (refs i) 1\<rparr>) w1))"

text \<open>
  \<^verbatim>\<open>~guard\<close> and the destructors it runs. \<open>guard_destroy_all\<close> destroys a stack of guards:
  deleting an implementation runs the derived destructor, then destroys its members (the held
  guard first, then \<^verbatim>\<open>next\<close>), before anything that was already waiting.
\<close>

fun run_payload :: "guard_payload \<Rightarrow> world \<Rightarrow> world option" where
  "run_payload (Free_obj p) w = free_ptr p w"
| "run_payload (Func_obj f) w = Some (w\<lparr>ran := ran w @ [f]\<rparr>)"
| "run_payload (Guard_obj g) w = Some w"

fun payload_guards :: "guard_payload \<Rightarrow> guard list" where
  "payload_guards (Guard_obj g) = [g]"
| "payload_guards _ = []"

definition impl_guards :: "guard_impl \<Rightarrow> guard list" where
  "impl_guards i = payload_guards (payload i) @ [nxt i]"

lemma free_ptr_impls: "free_ptr p w = Some w' \<Longrightarrow> impls w' = impls w"
  by (auto simp: free_ptr_def split: if_splits)

lemma run_payload_impls: "run_payload p w = Some w' \<Longrightarrow> impls w' = impls w"
  by (cases p) (auto simp: free_ptr_impls)

lemma length_impls_upd [simp]: "length (impls (upd_impl p f w)) = length (impls w)"
  by (simp add: upd_impl_def)

lemma length_filter_key_less:
  "map_of xs k = Some v \<Longrightarrow> length (filter (\<lambda>(a, _). a \<noteq> k) xs) < length xs"
  by (rule length_filter_less [where x = "(k, v)"]) (auto dest: map_of_SomeD)

function guard_destroy_all :: "guard list \<Rightarrow> world \<Rightarrow> world option" where
  "guard_destroy_all [] w = Some w"
| "guard_destroy_all (g # gs) w =
     (if guard_tagged g
      then (case free_ptr (guard_ptr g) w of None \<Rightarrow> None | Some w1 \<Rightarrow> guard_destroy_all gs w1)
      else if guard_ptr g = 0 then guard_destroy_all gs w
      else case map_of (impls w) (guard_ptr g) of
        None \<Rightarrow> None
      | Some i \<Rightarrow>
          (if usub (refs i) 1 \<noteq> 0
           then guard_destroy_all gs (upd_impl (guard_ptr g) (\<lambda>i. i\<lparr>refs := usub (refs i) 1\<rparr>) w)
           else (case run_payload (payload i)
                        (w\<lparr>impls := filter (\<lambda>(a, _). a \<noteq> guard_ptr g) (impls w)\<rparr>) of
                   None \<Rightarrow> None
                 | Some w1 \<Rightarrow> guard_destroy_all (impl_guards i @ gs) w1)))"
  by pat_completeness auto

termination
  by (relation "measures [\<lambda>(gs, w). length (impls w), \<lambda>(gs, w). length gs]")
     (auto simp: length_filter_key_less dest!: free_ptr_impls run_payload_impls)

definition guard_destroy :: "guard \<Rightarrow> world \<Rightarrow> world option" where
  "guard_destroy g w = guard_destroy_all [g] w"

text \<open>Move assignment \<^verbatim>\<open>a = move(b)\<close>: destroys the old value, takes the new one.\<close>

definition guard_assign :: "guard \<Rightarrow> guard \<Rightarrow> world \<Rightarrow> (guard \<times> world) option" where
  "guard_assign old new w = do { w' \<leftarrow> guard_destroy old w; Some (new, w') }"


section \<open>Tagged pointer laws\<close>

lemma tp_get_set_tag:
  assumes "2 ^ n dvd p" "tag < 2 ^ n"
  shows "tp_get n (tp_set_tag tag p) = p" "tp_get_tag tag (tp_set_tag tag p) = tag"
    "tp_reset_tag tag (tp_set_tag tag p) = p"
proof -
  have p0: "take_bit n p = 0" using assms(1) by (simp add: take_bit_eq_0_iff)
  have tg: "take_bit n tag = tag" using assms(2) by (simp add: take_bit_nat_eq_self)
  have m: "(p OR tag) AND mask n = tag"
    by (simp add: p0 tg flip: take_bit_eq_mask)
  have "drop_bit n tag = 0" using assms(2) by (simp add: drop_bit_eq_div)
  then have sum: "p OR tag = p + tag"
    using bits_ident [of n "p OR tag"] bits_ident [of n p] by (simp add: p0 tg)
  have t: "(p OR tag) AND tag = tag" by (rule bit_eqI) (auto simp: bit_simps)
  show "tp_get n (tp_set_tag tag p) = p" by (simp add: tp_get_def tp_set_tag_def m) (simp add: sum)
  show "tp_get_tag tag (tp_set_tag tag p) = tag" by (simp add: tp_get_tag_def tp_set_tag_def t)
  show "tp_reset_tag tag (tp_set_tag tag p) = p" by (simp add: tp_reset_tag_def tp_set_tag_def t) (simp add: sum)
qed

lemma guard_tagged_odd: "guard_tagged g \<longleftrightarrow> odd g"
  by (simp add: guard_tagged_def tp_get_tag_def USE_FREE_def and_one_eq odd_iff_mod_2_eq_one)

lemma guard_ptr_mod: "guard_ptr g = g - g mod 2"
proof -
  have "g AND mask 1 = g mod 2" by (metis take_bit_eq_mask take_bit_eq_mod power_one_right)
  then show ?thesis by (simp add: guard_ptr_def tp_get_def)
qed

lemma guard_untagged_ptr [simp]: "\<not> guard_tagged g \<Longrightarrow> guard_ptr g = g"
  by (simp add: guard_tagged_odd guard_ptr_mod)

lemma guard_even_untagged: "even g \<Longrightarrow> \<not> guard_tagged g"
  by (simp add: guard_tagged_odd)

lemma guard_null [simp]: "\<not> guard_tagged 0" "guard_ptr 0 = 0"
  by (simp_all add: guard_tagged_odd guard_ptr_mod)

lemma guard_simple_ptr [simp]:
  "even p \<Longrightarrow> guard_ptr (guard_simple p) = p" "even p \<Longrightarrow> guard_tagged (guard_simple p)"
  by (simp_all add: guard_tagged_odd guard_ptr_mod guard_simple_def tp_set_tag_def USE_FREE_def
      or_Suc_0_eq mod_Suc even_iff_mod_2_eq_zero)

section \<open>The reference-count invariant\<close>

text \<open>
  \<open>M\<close> is the multiset of the guards that live outside the heap (in blobs, on the stack). An
  implementation's count is the number of guards that point to it, wherever they are; every
  guard that points to an implementation points to an existing one; and the addresses that
  guards will free are distinct live blocks.
\<close>

fun payload_owned :: "guard_payload \<Rightarrow> addr list" where
  "payload_owned (Free_obj p) = [p]"
| "payload_owned _ = []"

definition heap_guards :: "world \<Rightarrow> guard multiset" where
  "heap_guards w = mset (concat (map (impl_guards \<circ> snd) (impls w)))"

definition heap_owned :: "world \<Rightarrow> addr multiset" where
  "heap_owned w = mset (concat (map (payload_owned \<circ> payload \<circ> snd) (impls w)))"

definition owned :: "guard multiset \<Rightarrow> world \<Rightarrow> addr multiset" where
  "owned M w = image_mset guard_ptr (filter_mset guard_tagged (M + heap_guards w)) + heap_owned w"

definition guard_inv :: "guard multiset \<Rightarrow> world \<Rightarrow> bool" where
  "guard_inv M w \<longleftrightarrow>
     distinct (map fst (impls w)) \<and> even (lim w) \<and> 0 < lim w \<and>
     (\<forall>(a, i) \<in> set (impls w). even a \<and> 0 < a \<and> a < lim w) \<and>
     (\<forall>(a, i) \<in> set (impls w). 0 < refs i \<and> refs i = count (M + heap_guards w) a) \<and>
     (\<forall>g \<in># M + heap_guards w. guard_tagged g \<or> g = 0 \<or> g \<in> fst ` set (impls w)) \<and>
     distinct (map fst (blocks w)) \<and> owned M w \<subseteq># mset (map fst (blocks w))"

lemma filter_key_split:
  assumes "distinct (map fst xs)" "map_of xs k = Some v"
  shows "mset xs = add_mset (k, v) (mset (filter (\<lambda>(a, _). a \<noteq> k) xs))"
  using assms
proof (induction xs)
  case (Cons x xs)
  obtain a b where x: "x = (a, b)" by force
  show ?case
  proof (cases "a = k")
    case True
    with Cons.prems x have "k \<notin> fst ` set xs" by simp
    then have "filter (\<lambda>(a, _). a \<noteq> k) xs = xs" by (force intro: filter_True)
    with True Cons.prems x show ?thesis by simp
  qed (use Cons x in simp)
qed simp

lemma mset_concat_map: "mset (concat (map f xs)) = (\<Sum>x\<in>#mset xs. mset (f x))"
  by (induction xs) simp_all

lemma heap_split:
  assumes "distinct (map fst (impls w))" "map_of (impls w) k = Some i"
    and "w' = w\<lparr>impls := filter (\<lambda>(a, _). a \<noteq> k) (impls w)\<rparr>"
  shows "heap_guards w = mset (impl_guards i) + heap_guards w'"
    and "heap_owned w = mset (payload_owned (payload i)) + heap_owned w'"
  unfolding heap_guards_def heap_owned_def mset_concat_map assms(3) filter_key_split [OF assms(1,2)]
  by (simp_all del: mset_filter)

lemma impl_guards_refs [simp]: "impl_guards (i\<lparr>refs := r\<rparr>) = impl_guards i"
  by (simp add: impl_guards_def)

lemma heap_upd_refs [simp]:
  "heap_guards (upd_impl p (\<lambda>i. i\<lparr>refs := f i\<rparr>) w) = heap_guards w"
  "heap_owned (upd_impl p (\<lambda>i. i\<lparr>refs := f i\<rparr>) w) = heap_owned w"
  by (simp_all add: heap_guards_def heap_owned_def upd_impl_def comp_def split_def if_distrib cong: if_cong)


lemma guard_invD:
  assumes "guard_inv M w"
  shows "distinct (map fst (impls w))" "even (lim w)" "0 < lim w"
    and "(a, i) \<in> set (impls w) \<Longrightarrow> even a \<and> 0 < a \<and> a < lim w"
    and "(a, i) \<in> set (impls w) \<Longrightarrow> 0 < refs i \<and> refs i = count (M + heap_guards w) a"
    and "g \<in># M + heap_guards w \<Longrightarrow> guard_tagged g \<or> g = 0 \<or> g \<in> fst ` set (impls w)"
    and "distinct (map fst (blocks w))" "owned M w \<subseteq># mset (map fst (blocks w))"
  using assms unfolding guard_inv_def by blast+

lemma guard_inv_lookup:
  assumes "guard_inv (add_mset g M) w" "\<not> guard_tagged g" "g \<noteq> 0"
  obtains i where "map_of (impls w) g = Some i" "(g, i) \<in> set (impls w)"
proof -
  have "g \<in> fst ` set (impls w)"
    using guard_invD(6) [OF assms(1), of g] assms(2,3) by auto
  with guard_invD(1) [OF assms(1)] show ?thesis
    by (force intro: that map_of_is_SomeI)
qed

lemma guard_invI:
  assumes "distinct (map fst (impls w))" "even (lim w)" "0 < lim w"
    and "\<And>a i. (a, i) \<in> set (impls w) \<Longrightarrow> even a \<and> 0 < a \<and> a < lim w"
    and "\<And>a i. (a, i) \<in> set (impls w) \<Longrightarrow> 0 < refs i \<and> refs i = count (M + heap_guards w) a"
    and "\<And>g. g \<in># M + heap_guards w \<Longrightarrow> guard_tagged g \<or> g = 0 \<or> g \<in> fst ` set (impls w)"
    and "distinct (map fst (blocks w))" "owned M w \<subseteq># mset (map fst (blocks w))"
  shows "guard_inv M w"
  using assms unfolding guard_inv_def by blast

lemma guard_inv_mem [simp]: "guard_inv M (w\<lparr>mem := m\<rparr>) = guard_inv M w"
  by (simp add: guard_inv_def heap_guards_def heap_owned_def owned_def)

lemma filter_key_fst:
  assumes "distinct (map fst xs)" "k \<in> fst ` set xs"
  shows "mset (map fst xs) = add_mset k (mset (map fst (filter (\<lambda>(a, _). a \<noteq> k) xs)))"
proof -
  obtain v where "map_of xs k = Some v" using assms(2) by (metis map_of_eq_None_iff not_None_eq)
  from filter_key_split [OF assms(1) this]
  have "image_mset fst (mset xs) = image_mset fst (add_mset (k, v) (mset (filter (\<lambda>(a, _). a \<noteq> k) xs)))"
    by (rule arg_cong)
  then show ?thesis by (simp del: mset_filter)
qed

lemma free_ptr_live:
  assumes "distinct (map fst (blocks w))" "add_mset p A \<subseteq># mset (map fst (blocks w))"
  obtains w' where "free_ptr p w = Some w'" "distinct (map fst (blocks w'))"
    "A \<subseteq># mset (map fst (blocks w'))" "mem w' = mem w" "lim w' = lim w" "impls w' = impls w"
    "p \<notin> fst ` set (blocks w')"
proof -
  have "p \<in># mset (map fst (blocks w))" using mset_subset_eqD [OF assms(2)] by simp
  then have p: "p \<in> fst ` set (blocks w)" by auto
  have "add_mset p A \<subseteq># add_mset p (mset (map fst (filter (\<lambda>(a, _). a \<noteq> p) (blocks w))))"
    using assms(2) unfolding filter_key_fst [OF assms(1) p] .
  then have "A \<subseteq># mset (map fst (filter (\<lambda>(a, _). a \<noteq> p) (blocks w)))"
    by (simp only: mset_subset_eq_add_mset_cancel)
  with p assms(1) show ?thesis
    by (intro that [of "w\<lparr>blocks := filter (\<lambda>(a, _). a \<noteq> p) (blocks w)\<rparr>"])
       (auto simp: free_ptr_def distinct_map_filter simp del: mset_map mset_filter)
qed

lemma heap_cong: "impls w' = impls w \<Longrightarrow> heap_guards w' = heap_guards w \<and> heap_owned w' = heap_owned w"
  by (simp add: heap_guards_def heap_owned_def)

lemma guard_inv_free:
  assumes "guard_inv (add_mset g M) w" "guard_tagged g"
  obtains w' where "free_ptr (guard_ptr g) w = Some w'" "guard_inv M w'" "mem w' = mem w"
    "guard_ptr g \<notin> fst ` set (blocks w')"
proof -
  note inv = guard_invD [OF assms(1)]
  have own: "owned (add_mset g M) w = add_mset (guard_ptr g) (owned M w)"
    using assms(2) by (simp add: owned_def)
  from inv(8) have "add_mset (guard_ptr g) (owned M w) \<subseteq># mset (map fst (blocks w))"
    unfolding own .
  with inv(7) obtain w' where w': "free_ptr (guard_ptr g) w = Some w'" "distinct (map fst (blocks w'))"
    "owned M w \<subseteq># mset (map fst (blocks w'))" "mem w' = mem w" "lim w' = lim w" "impls w' = impls w"
    "guard_ptr g \<notin> fst ` set (blocks w')"
    by (rule free_ptr_live)
  note hc = heap_cong [OF w'(6)]
  have ng: "a \<noteq> g" if "(a, i) \<in> set (impls w)" for a i
    using inv(4) [OF that] assms(2) by (auto simp: guard_tagged_odd)
  have "guard_inv M w'"
  proof (rule guard_invI)
    show "0 < refs i \<and> refs i = count (M + heap_guards w') a" if "(a, i) \<in> set (impls w')" for a i
      using that inv(5) [of a i] ng [of a i] w'(6) hc by (auto simp del: count_greater_zero_iff)
    show "owned M w' \<subseteq># mset (map fst (blocks w'))" using w'(3) hc by (simp add: owned_def)
  qed (use inv w' hc in auto)
  with that w' show ?thesis by blast
qed

lemma guard_inv_null:
  assumes "guard_inv (add_mset 0 M) w"
  shows "guard_inv M w"
proof (rule guard_invI)
  note inv = guard_invD [OF assms]
  show "0 < refs i \<and> refs i = count (M + heap_guards w) a" if "(a, i) \<in> set (impls w)" for a i
    using inv(5) [OF that] inv(4) [OF that] by (auto simp del: count_greater_zero_iff)
  show "owned M w \<subseteq># mset (map fst (blocks w))"
    using inv(8) by (simp add: owned_def)
qed (use guard_invD [OF assms] in auto)

lemma guard_inv_add_null:
  assumes "guard_inv M w"
  shows "guard_inv (add_mset 0 M) w"
proof (rule guard_invI)
  note inv = guard_invD [OF assms]
  show "0 < refs i \<and> refs i = count (add_mset 0 M + heap_guards w) a" if "(a, i) \<in> set (impls w)" for a i
    using inv(5) [OF that] inv(4) [OF that] by (auto simp del: count_greater_zero_iff)
  show "owned (add_mset 0 M) w \<subseteq># mset (map fst (blocks w))"
    using inv(8) by (simp add: owned_def)
  show "h \<in># add_mset 0 M + heap_guards w \<Longrightarrow> guard_tagged h \<or> h = 0 \<or> h \<in> fst ` set (impls w)" for h
    using inv(6) [of h] by auto
qed (use guard_invD [OF assms] in auto)

lemma upd_impl_simps [simp]:
  "lim (upd_impl p f w) = lim w" "blocks (upd_impl p f w) = blocks w" "mem (upd_impl p f w) = mem w"
  "map fst (impls (upd_impl p f w)) = map fst (impls w)"
  by (auto simp: upd_impl_def)

lemma upd_impl_keys [simp]: "fst ` set (impls (upd_impl p f w)) = fst ` set (impls w)"
  by (metis list.set_map upd_impl_simps(4))

lemma upd_impl_mem:
  assumes "(a, j) \<in> set (impls (upd_impl p f w))"
  obtains j0 where "(a, j0) \<in> set (impls w)" "j = (if a = p then f j0 else j0)"
  using assms by (auto simp: upd_impl_def split: if_splits)

lemma guard_inv_decr:
  assumes "guard_inv (add_mset g M) w" "(g, i) \<in> set (impls w)" "\<not> guard_tagged g" "1 < refs i"
  shows "guard_inv M (upd_impl g (\<lambda>i. i\<lparr>refs := usub (refs i) 1\<rparr>) w)" (is "guard_inv M ?w")
proof (rule guard_invI)
  note inv = guard_invD [OF assms(1)]
  show "0 < refs j \<and> refs j = count (M + heap_guards ?w) a" if "(a, j) \<in> set (impls ?w)" for a j
  proof -
    from that obtain j0 where j0: "(a, j0) \<in> set (impls w)"
      and j: "j = (if a = g then j0\<lparr>refs := usub (refs j0) 1\<rparr> else j0)" by (rule upd_impl_mem)
    have "a = g \<Longrightarrow> j0 = i" using inv(1) j0 assms(2) by (metis eq_key_imp_eq_value)
    with inv(5) [OF j0] j assms(4) show ?thesis by auto
  qed
  show "even a \<and> 0 < a \<and> a < lim ?w" if "(a, j) \<in> set (impls ?w)" for a j
    using that inv(4) by (auto elim: upd_impl_mem)
  show "owned M ?w \<subseteq># mset (map fst (blocks ?w))"
    using inv(8) assms(3) by (simp add: owned_def)
  show "h \<in># M + heap_guards ?w \<Longrightarrow> guard_tagged h \<or> h = 0 \<or> h \<in> fst ` set (impls ?w)" for h
    using inv(6) [of h] by auto
qed (use guard_invD [OF assms(1)] in simp_all)

lemma run_payload_live:
  assumes "distinct (map fst (blocks w))" "mset (payload_owned pl) + A \<subseteq># mset (map fst (blocks w))"
  obtains w' where "run_payload pl w = Some w'" "distinct (map fst (blocks w'))"
    "A \<subseteq># mset (map fst (blocks w'))" "mem w' = mem w" "lim w' = lim w" "impls w' = impls w"
proof (cases pl)
  case (Free_obj p)
  then have "add_mset p A \<subseteq># mset (map fst (blocks w))" using assms(2) by simp
  with assms(1) obtain w' where "free_ptr p w = Some w'" "distinct (map fst (blocks w'))"
    "A \<subseteq># mset (map fst (blocks w'))" "mem w' = mem w" "lim w' = lim w" "impls w' = impls w"
    by (rule free_ptr_live)
  with that Free_obj show ?thesis by simp
qed (use that assms in auto)

lemma guard_inv_delete:
  assumes "guard_inv (add_mset g M) w" "map_of (impls w) g = Some i" "\<not> guard_tagged g" "refs i = 1"
  obtains w' where
    "run_payload (payload i) (w\<lparr>impls := filter (\<lambda>(a, _). a \<noteq> g) (impls w)\<rparr>) = Some w'"
    "guard_inv (mset (impl_guards i) + M) w'" "mem w' = mem w"
proof -
  let ?w = "w\<lparr>impls := filter (\<lambda>(a, _). a \<noteq> g) (impls w)\<rparr>" and ?M = "mset (impl_guards i) + M"
  note inv = guard_invD [OF assms(1)]
  note sp = heap_split [OF inv(1) assms(2) refl]
  have own: "owned (add_mset g M) w = mset (payload_owned (payload i)) + owned ?M ?w"
    using assms(3) by (simp add: owned_def sp)
  have "distinct (map fst (blocks ?w))" using inv(7) by simp
  moreover have "mset (payload_owned (payload i)) + owned ?M ?w \<subseteq># mset (map fst (blocks ?w))"
    using inv(8) unfolding own by simp
  ultimately obtain w' where w': "run_payload (payload i) ?w = Some w'" "distinct (map fst (blocks w'))"
    "owned ?M ?w \<subseteq># mset (map fst (blocks w'))" "mem w' = mem ?w" "lim w' = lim ?w" "impls w' = impls ?w"
    by (rule run_payload_live)
  note hc = heap_cong [OF w'(6)]
  have "(g, i) \<in> set (impls w)" using assms(2) by (rule map_of_SomeD)
  then have none: "count (M + heap_guards w) g = 0"
    using inv(5) [of g i] assms(4) by simp
  have sub: "(a, j) \<in> set (impls w') \<longleftrightarrow> (a, j) \<in> set (impls w) \<and> a \<noteq> g" for a j
    using w'(6) by auto
  have "guard_inv ?M w'"
  proof (rule guard_invI)
    show "0 < refs j \<and> refs j = count (?M + heap_guards w') a" if "(a, j) \<in> set (impls w')" for a j
      using inv(5) [of a j] that sub [of a j] hc by (auto simp: sp simp del: count_greater_zero_iff)
    show "h \<in># ?M + heap_guards w' \<Longrightarrow> guard_tagged h \<or> h = 0 \<or> h \<in> fst ` set (impls w')" for h
    proof -
      assume "h \<in># ?M + heap_guards w'"
      then have h: "h \<in># M + heap_guards w" using hc by (auto simp: sp)
      with none have "h \<noteq> g" by (metis not_in_iff)
      with inv(6) [of h] h show ?thesis using w'(6) by (auto simp: image_iff)
    qed
    show "owned ?M w' \<subseteq># mset (map fst (blocks w'))" using w'(3) hc by (simp add: owned_def)
    show "distinct (map fst (impls w'))" using inv(1) w'(6) by (simp add: distinct_map_filter)
  qed (use inv w' in auto)
  with that w' show ?thesis by simp
qed

lemma guard_destroy_all_inv:
  "guard_inv (mset gs + M) w \<Longrightarrow>
     \<exists>w'. guard_destroy_all gs w = Some w' \<and> guard_inv M w' \<and> mem w' = mem w"
proof (induction gs w rule: guard_destroy_all.induct)
  case (1 w)
  then show ?case by simp
next
  case (2 g gs w)
  have inv: "guard_inv (add_mset g (mset gs + M)) w" using "2.prems" by simp
  show ?case
  proof (cases "guard_tagged g")
    case True
    from inv True obtain w1 where "free_ptr (guard_ptr g) w = Some w1" "guard_inv (mset gs + M) w1"
      "mem w1 = mem w" by (rule guard_inv_free)
    with "2.IH"(1) True show ?thesis by auto
  next
    case nt: False
    show ?thesis
    proof (cases "g = 0")
      case True
      with "2.IH"(2) nt guard_inv_null inv show ?thesis by auto
    next
      case False
      then obtain i where i: "map_of (impls w) g = Some i" "(g, i) \<in> set (impls w)"
        using guard_inv_lookup [OF inv nt] by metis
      have pos: "0 < refs i" using guard_invD(5) [OF inv i(2)] by simp
      show ?thesis
      proof (cases "refs i = 1")
        case True
        with inv i(1) nt obtain w1 where
          "run_payload (payload i) (w\<lparr>impls := filter (\<lambda>(a, _). a \<noteq> g) (impls w)\<rparr>) = Some w1"
          "guard_inv (mset (impl_guards i) + (mset gs + M)) w1" "mem w1 = mem w"
          by (rule guard_inv_delete)
        with "2.IH"(4) [of i w1] nt i False True show ?thesis by (simp add: add.assoc)
      next
        case False
        with pos have "1 < refs i" by simp
        with "2.IH"(3) [of i] guard_inv_decr [OF inv i(2) nt] nt i \<open>g \<noteq> 0\<close> show ?thesis by simp
      qed
    qed
  qed
qed

lemma guard_destroy_inv:
  "guard_inv (add_mset g M) w \<Longrightarrow> \<exists>w'. guard_destroy g w = Some w' \<and> guard_inv M w' \<and> mem w' = mem w"
  using guard_destroy_all_inv [of "[g]"] by (simp add: guard_destroy_def)


lemma guard_inv_incr:
  assumes "guard_inv (add_mset g M) w" "(g, i) \<in> set (impls w)" "\<not> guard_tagged g" "refs i + 1 < 2 ^ 64"
  shows "guard_inv (add_mset g (add_mset g M)) (upd_impl g (\<lambda>i. i\<lparr>refs := uadd (refs i) 1\<rparr>) w)"
    (is "guard_inv ?M ?w")
proof (rule guard_invI)
  note inv = guard_invD [OF assms(1)]
  show "0 < refs j \<and> refs j = count (?M + heap_guards ?w) a" if "(a, j) \<in> set (impls ?w)" for a j
  proof -
    from that obtain j0 where j0: "(a, j0) \<in> set (impls w)"
      and j: "j = (if a = g then j0\<lparr>refs := uadd (refs j0) 1\<rparr> else j0)" by (rule upd_impl_mem)
    have "a = g \<Longrightarrow> j0 = i" using inv(1) j0 assms(2) by (metis eq_key_imp_eq_value)
    with inv(5) [OF j0] j assms(4) show ?thesis by auto
  qed
  show "even a \<and> 0 < a \<and> a < lim ?w" if "(a, j) \<in> set (impls ?w)" for a j
    using that inv(4) by (auto elim: upd_impl_mem)
  show "owned ?M ?w \<subseteq># mset (map fst (blocks ?w))"
    using inv(8) assms(3) by (simp add: owned_def)
  show "h \<in># ?M + heap_guards ?w \<Longrightarrow> guard_tagged h \<or> h = 0 \<or> h \<in> fst ` set (impls ?w)" for h
    using inv(6) [of h] by auto
qed (use guard_invD [OF assms(1)] in simp_all)

lemma guard_inv_new:
  assumes "guard_inv (add_mset g M) w" "guard_tagged g" "new_impl (free_guard_impl (guard_ptr g)) w = (p, w')"
  shows "guard_inv (add_mset p M) w'" "(p, free_guard_impl (guard_ptr g)) \<in> set (impls w')"
    "owned (add_mset p M) w' = owned (add_mset g M) w" "even p" "0 < p"
    "heap_guards w' = add_mset 0 (heap_guards w)" "mem w' = mem w" "blocks w' = blocks w"
proof -
  note inv = guard_invD [OF assms(1)]
  have p: "p = lim w" and w': "w' = w\<lparr>impls := (lim w, free_guard_impl (guard_ptr g)) # impls w, lim := lim w + 16\<rparr>"
    using assms(3) by (auto simp: new_impl_def)
  show ev: "even p" and pos: "0 < p" and inset: "(p, free_guard_impl (guard_ptr g)) \<in> set (impls w')"
    and "mem w' = mem w" and fr: "blocks w' = blocks w"
    using inv(2,3) by (simp_all add: p w')
  show hg: "heap_guards w' = add_mset 0 (heap_guards w)"
    by (simp add: w' heap_guards_def impl_guards_def free_guard_impl_def)
  have ho: "heap_owned w' = add_mset (guard_ptr g) (heap_owned w)"
    by (simp add: w' heap_owned_def free_guard_impl_def)
  show own: "owned (add_mset p M) w' = owned (add_mset g M) w"
    using assms(2) guard_even_untagged [OF ev] by (simp add: owned_def hg ho)
  have fresh: "p \<notin> fst ` set (impls w)" using inv(4) by (force simp: p)
  then have "p \<notin># add_mset g M + heap_guards w"
    using inv(6) [of p] ev pos by (auto simp: guard_tagged_odd)
  then have c0: "count (M + heap_guards w) p = 0" by (auto simp: not_in_iff)
  have nk: "a \<noteq> g" if "(a, i) \<in> set (impls w)" for a i
    using inv(4) [OF that] assms(2) by (auto simp: guard_tagged_odd)
  show "guard_inv (add_mset p M) w'"
  proof (rule guard_invI)
    show "0 < refs j \<and> refs j = count (add_mset p M + heap_guards w') a" if "(a, j) \<in> set (impls w')" for a j
    proof (cases "a = p")
      case True
      with that fresh have "j = free_guard_impl (guard_ptr g)" by (force simp: w' p)
      with True c0 pos show ?thesis by (simp add: hg free_guard_impl_def)
    next
      case False
      with that have old: "(a, j) \<in> set (impls w)" by (auto simp: w' p)
      with inv(4) [OF old] inv(5) [OF old] nk [OF old] False show ?thesis
        by (auto simp: hg simp del: count_greater_zero_iff)
    qed
    show "owned (add_mset p M) w' \<subseteq># mset (map fst (blocks w'))"
      using inv(8) by (simp add: own fr)
    show "h \<in># add_mset p M + heap_guards w' \<Longrightarrow> guard_tagged h \<or> h = 0 \<or> h \<in> fst ` set (impls w')" for h
    proof -
      have "fst ` set (impls w') = insert p (fst ` set (impls w))" by (simp add: w' p)
      moreover assume "h \<in># add_mset p M + heap_guards w'"
      ultimately show ?thesis using inv(6) [of h] by (auto simp: hg)
    qed
    show "even a \<and> 0 < a \<and> a < lim w'" if "(a, j) \<in> set (impls w')" for a j
      using that inv(2,3) inv(4) [of a j] by (auto simp: w' p)
    show "distinct (map fst (impls w'))" using inv(1) fresh by (simp add: w' p)
  qed (use inv(2,3,7) in \<open>simp_all add: w'\<close>)
qed

lemma guard_share_cases:
  assumes "guard_inv (add_mset g M) w" "guard_share g w = (g1, g2, w')"
    and "size (M + heap_guards w) + 2 < 2 ^ 64"
  shows "guard_inv (add_mset g1 (add_mset g2 M)) w' \<and> mem w' = mem w \<and> blocks w' = blocks w \<and>
         owned (add_mset g1 (add_mset g2 M)) w' = owned (add_mset g M) w"
proof (cases "guard_empty g")
  case True
  with assms(2) have "g1 = g" "g2 = 0" "w' = w" by (simp_all add: guard_share_def)
  moreover have "guard_inv (add_mset g (add_mset 0 M)) w"
    using guard_inv_add_null [OF assms(1)] by (simp add: add_mset_commute)
  ultimately show ?thesis by (simp add: owned_def)
next
  case ne: False
  show ?thesis
  proof (cases "guard_tagged g")
    case True
    obtain p w1 where n: "new_impl (free_guard_impl (guard_ptr g)) w = (p, w1)" by force
    note new = guard_inv_new [OF assms(1) True n]
    have unt: "\<not> guard_tagged p" using new(4) by (rule guard_even_untagged)
    with assms(2) ne True n have eqs: "g1 = p" "g2 = p"
        "w' = upd_impl p (\<lambda>i. i\<lparr>refs := uadd (refs i) 1\<rparr>) w1"
      by (auto simp: guard_share_def)
    have "guard_inv (add_mset p (add_mset p M)) w'"
      unfolding eqs by (rule guard_inv_incr [OF new(1,2) unt]) (simp add: free_guard_impl_def)
    then show ?thesis using new unt by (simp add: eqs owned_def)
  next
    case nt: False
    then have g0: "g \<noteq> 0" and p: "guard_ptr g = g" using ne by (auto simp: guard_empty_def)
    obtain i where i: "map_of (impls w) g = Some i" "(g, i) \<in> set (impls w)"
      using guard_inv_lookup [OF assms(1) nt g0] by metis
    have "refs i \<le> size (add_mset g M + heap_guards w)"
      using guard_invD(5) [OF assms(1) i(2)] count_le_size by metis
    then have "refs i + 1 < 2 ^ 64" using assms(3) by simp
    with guard_inv_incr [OF assms(1) i(2) nt] assms(2) ne nt p show ?thesis
      by (auto simp: guard_share_def owned_def)
  qed
qed

lemma mem_guard_share [simp]: "guard_share g w = (g1, g2, w') \<Longrightarrow> mem w' = mem w"
  by (auto simp: guard_share_def new_impl_def split: if_splits prod.splits)

lemma heap_guards_new:
  "new_impl (free_guard_impl p) w = (q, w') \<Longrightarrow> heap_guards w' = add_mset 0 (heap_guards w)"
  by (auto simp: new_impl_def heap_guards_def free_guard_impl_def impl_guards_def)

lemma guard_share_heap:
  assumes "guard_share g w = (g1, g2, w')"
  shows "size (heap_guards w') \<le> size (heap_guards w) + 1"
proof (cases "guard_empty g \<or> \<not> guard_tagged g")
  case True
  then have "heap_guards (snd (snd (guard_share g w))) = heap_guards w"
    by (cases "guard_empty g") (simp_all add: guard_share_def)
  then show ?thesis by (simp add: assms)
next
  case False
  obtain q w1 where n: "new_impl (free_guard_impl (guard_ptr g)) w = (q, w1)" by force
  have "upd_impl (guard_ptr q) (\<lambda>i. i\<lparr>refs := uadd (refs i) 1\<rparr>) w1 = snd (snd (guard_share g w))"
    using False by (simp add: guard_share_def n)
  then have "upd_impl (guard_ptr q) (\<lambda>i. i\<lparr>refs := uadd (refs i) 1\<rparr>) w1 = w'"
    by (simp add: assms)
  then have "heap_guards w' = heap_guards w1" by (metis heap_upd_refs(1))
  then show ?thesis using heap_guards_new [OF n] by simp
qed

lemma mset_concat_filter: "mset (concat (map f (filter P xs))) \<subseteq># mset (concat (map f xs))"
  by (induction xs) (auto intro: subset_mset.add_increasing)

lemma guard_destroy_all_heap:
  "guard_destroy_all gs w = Some w' \<Longrightarrow> heap_guards w' \<subseteq># heap_guards w"
proof (induction gs w rule: guard_destroy_all.induct)
  case (2 g gs w)
  have filt: "heap_guards (w\<lparr>impls := filter P (impls w)\<rparr>) \<subseteq># heap_guards w" for P
    unfolding heap_guards_def using mset_concat_filter by simp
  show ?case
  proof (cases "guard_tagged g \<or> guard_ptr g = 0")
    case True
    with 2 show ?thesis
      by (auto split: option.splits if_splits dest!: free_ptr_impls heap_cong)
  next
    case False
    with "2.prems" obtain i where i: "map_of (impls w) (guard_ptr g) = Some i"
      by (auto split: option.splits)
    show ?thesis
    proof (cases "usub (refs i) 1 = 0")
      case True
      with "2.prems" False i obtain w1 where w1:
        "run_payload (payload i) (w\<lparr>impls := filter (\<lambda>(a, _). a \<noteq> guard_ptr g) (impls w)\<rparr>) = Some w1"
        "guard_destroy_all (impl_guards i @ gs) w1 = Some w'" by (auto split: option.splits)
      with "2.IH"(4) False i True have "heap_guards w' \<subseteq># heap_guards w1" by auto
      also have "heap_guards w1 \<subseteq># heap_guards w"
        using heap_cong [OF run_payload_impls [OF w1(1)]] filt by simp
      finally show ?thesis .
    next
      case nz: False
      with 2 False i show ?thesis by auto
    qed
  qed
qed simp

definition guard_room :: "nat \<Rightarrow> guard multiset \<Rightarrow> world \<Rightarrow> bool" where
  "guard_room n M w \<longleftrightarrow> size (M + heap_guards w) + 2 * n < 2 ^ 64"

lemma guard_destroy_room:
  "guard_destroy g w = Some w' \<Longrightarrow> guard_room n M w \<Longrightarrow> guard_room n M w'"
  using guard_destroy_all_heap [of "[g]" w w'] size_mset_mono [of "heap_guards w'" "heap_guards w"]
  by (simp add: guard_destroy_def guard_room_def)

lemma guard_share_live:
  assumes "guard_inv (add_mset g M) w" "guard_room (Suc n) (add_mset g M) w"
    "guard_share g w = (g1, g2, w')"
  shows "guard_inv (add_mset g2 (add_mset g1 M)) w'" "guard_room n (add_mset g2 (add_mset g1 M)) w'"
    "mem w' = mem w" "blocks w' = blocks w"
  using guard_share_cases [OF assms(1,3)] guard_share_heap [OF assms(3)] assms(2)
  by (auto simp: guard_room_def add_mset_commute)

end
