(* ===== verification/Byte_Blob.thy ===== *)
theory Byte_Blob
  imports Guard
begin

text \<open>
  \<^verbatim>\<open>xi/io/byte_blob.h\<close>: an owning slice of memory, kept alive by a guard. Operations that
  share the guard also update the blob they are called on, since \<^verbatim>\<open>guard::share\<close> may replace
  the blob's own tagged pointer.
\<close>

record blob =
  bytes :: addr
  bsize :: usize
  bguard :: guard

definition blob_null :: blob where
  "blob_null = \<lparr>bytes = 0, bsize = 0, bguard = 0\<rparr>"

definition blob_empty :: "blob \<Rightarrow> bool" where
  "blob_empty b \<longleftrightarrow> bsize b = 0"

definition blob_end :: "blob \<Rightarrow> addr" where
  "blob_end b = bytes b + bsize b"

text \<open>The reverse bounds: one before the last byte's end, one before the first byte.\<close>

definition blob_rbegin :: "blob \<Rightarrow> int" where
  "blob_rbegin b = int (blob_end b) - 1"

definition blob_rend :: "blob \<Rightarrow> int" where
  "blob_rend b = int (bytes b) - 1"

text \<open>Each of the following gives the new blob, the blob it was called on, and the world.\<close>

definition blob_clone :: "blob \<Rightarrow> world \<Rightarrow> blob \<times> blob \<times> world" where
  "blob_clone b w = (let (g, s, w') = guard_share (bguard b) w
     in (\<lparr>bytes = bytes b, bsize = bsize b, bguard = s\<rparr>, b\<lparr>bguard := g\<rparr>, w'))"

text \<open>Copy construction \<^verbatim>\<open>byte_blob(ref<byte_blob>)\<close> shares the guard exactly as \<^verbatim>\<open>clone\<close> does.\<close>

definition blob_copy :: "blob \<Rightarrow> world \<Rightarrow> blob \<times> blob \<times> world" where
  "blob_copy other w = (let (g, s, w') = guard_share (bguard other) w
     in (\<lparr>bytes = bytes other, bsize = bsize other, bguard = s\<rparr>, other\<lparr>bguard := g\<rparr>, w'))"

definition blob_split :: "usize \<Rightarrow> blob \<Rightarrow> world \<Rightarrow> (blob \<times> blob \<times> world) option" where
  "blob_split offset b w =
     (if \<not> signed_nonneg offset then None
      else if bsize b \<le> offset then Some (blob_null, b, w)
      else if offset = 0 then Some (b, blob_null, w)
      else let (g, s, w') = guard_share (bguard b) w
           in Some (\<lparr>bytes = bytes b + offset, bsize = usub (bsize b) offset, bguard = s\<rparr>,
                    b\<lparr>bguard := g, bsize := offset\<rparr>, w'))"

definition blob_share :: "usize \<Rightarrow> usize \<Rightarrow> blob \<Rightarrow> world \<Rightarrow> blob \<times> blob \<times> world" where
  "blob_share offset len b w =
     (if bsize b \<le> offset \<or> len = 0 then (blob_null, b, w)
      else let (g, s, w') = guard_share (bguard b) w
           in (\<lparr>bytes = bytes b + offset, bsize = min len (usub (bsize b) offset), bguard = s\<rparr>,
               b\<lparr>bguard := g\<rparr>, w'))"

definition blob_destroy :: "blob \<Rightarrow> world \<Rightarrow> world option" where
  "blob_destroy b w = guard_destroy (bguard b) w"

text \<open>Copy assignment between two different objects: destroy the target, then copy-construct it.\<close>

definition blob_assign_copy :: "blob \<Rightarrow> blob \<Rightarrow> world \<Rightarrow> (blob \<times> blob \<times> world) option" where
  "blob_assign_copy this other w = do { w1 \<leftarrow> blob_destroy this w; Some (blob_copy other w1) }"

text \<open>Move assignment (defaulted): the target's old guard is destroyed, the source keeps a null guard.\<close>

definition blob_assign_move :: "blob \<Rightarrow> blob \<Rightarrow> world \<Rightarrow> (blob \<times> blob \<times> world) option" where
  "blob_assign_move this other w =
     do { w1 \<leftarrow> guard_destroy (bguard this) w; Some (other, other\<lparr>bguard := 0\<rparr>, w1) }"

section \<open>Lemmas\<close>

definition blob_content :: "memory \<Rightarrow> blob \<Rightarrow> u8 list" where
  "blob_content m b = load m (bytes b) (bsize b)"

lemma blob_null_simps [simp]: "bytes blob_null = 0" "bsize blob_null = 0" "bguard blob_null = 0"
  by (simp_all add: blob_null_def)

lemma blob_split_cases:
  assumes "signed_nonneg (bsize b)" "0 < offset" "offset < bsize b"
  obtains g s w' where "guard_share (bguard b) w = (g, s, w')"
    "blob_split offset b w = Some (\<lparr>bytes = bytes b + offset, bsize = bsize b - offset, bguard = s\<rparr>,
       b\<lparr>bguard := g, bsize := offset\<rparr>, w')"
proof -
  obtain g s w' where "guard_share (bguard b) w = (g, s, w')" by (metis prod_cases3)
  with that assms show ?thesis by (simp add: blob_split_def signed_nonneg_def)
qed

end
