(* ===== verification/Byte_Range.thy ===== *)
theory Byte_Range
  imports Xi_Prelude
begin

text \<open>
  \<^verbatim>\<open>xi/io/byte_range.h\<close>: a non-owning view of memory. The constructors clamp the requested
  length to the container; \<^verbatim>\<open>subrange\<close> is the only operation with asserts.
\<close>

record byte_range =
  rdata :: addr
  rsize :: usize

definition br_null :: byte_range where
  "br_null = \<lparr>rdata = 0, rsize = 0\<rparr>"

definition br_empty :: "byte_range \<Rightarrow> bool" where
  "br_empty r \<longleftrightarrow> rsize r = 0"

definition br_end :: "byte_range \<Rightarrow> addr" where
  "br_end r = rdata r + rsize r"

definition br_of_string :: "addr \<Rightarrow> usize \<Rightarrow> usize \<Rightarrow> byte_range" where
  "br_of_string p len sz = \<lparr>rdata = p, rsize = min sz len\<rparr>"

text \<open>A string literal of array length \<open>N\<close>: the terminating zero is left out.\<close>

definition br_of_literal :: "addr \<Rightarrow> usize \<Rightarrow> usize \<Rightarrow> byte_range" where
  "br_of_literal p N sz = \<lparr>rdata = p, rsize = min sz (usub N 1)\<rparr>"

text \<open>A vector or array of \<open>len\<close> elements of \<open>elem\<close> bytes each.\<close>

definition br_of_vector :: "usize \<Rightarrow> addr \<Rightarrow> usize \<Rightarrow> usize \<Rightarrow> byte_range" where
  "br_of_vector elem p len sz = \<lparr>rdata = p, rsize = min sz len * elem mod 2 ^ 64\<rparr>"

definition byte_range_for_object :: "addr \<Rightarrow> usize \<Rightarrow> byte_range" where
  "byte_range_for_object p sizeof_T = \<lparr>rdata = p, rsize = sizeof_T\<rparr>"

definition br_eq :: "byte_range \<Rightarrow> byte_range \<Rightarrow> bool" where
  "br_eq a b \<longleftrightarrow> rdata b = rdata a \<and> rsize b = rsize a"

definition br_subrange :: "byte_range \<Rightarrow> usize \<Rightarrow> usize \<Rightarrow> byte_range option" where
  "br_subrange r offset len =
     (if rsize r \<le> offset then Some br_null
      else let len' = (if len = usize_max \<or> rsize r < uadd len offset
                      then usub (rsize r) offset else len)
           in if uadd offset len' \<le> rsize r \<and> signed_nonneg offset
                 \<and> 0 < len' \<and> signed_nonneg len'
                 \<and> 0 < uadd offset len' \<and> signed_nonneg (uadd offset len')
              then Some \<lparr>rdata = rdata r + offset, rsize = len'\<rparr> else None)"

definition br_to_string_ref :: "memory \<Rightarrow> byte_range \<Rightarrow> u8 list" where
  "br_to_string_ref m r = load m (rdata r) (rsize r)"

lemma br_null_simps [simp]: "rsize br_null = 0" "rdata br_null = 0"
  by (simp_all add: br_null_def)

lemma br_subrange_default:
  assumes "rsize r < 2 ^ 63"
  shows "br_subrange r offset usize_max =
    Some (if rsize r \<le> offset then br_null else \<lparr>rdata = rdata r + offset, rsize = rsize r - offset\<rparr>)"
  using assms by (auto simp: br_subrange_def Let_def signed_nonneg_def)

lemma br_subrange_inside:
  assumes "offset < rsize r" "0 < len" "offset + len \<le> rsize r" "rsize r < 2 ^ 63"
  shows "br_subrange r offset len = Some \<lparr>rdata = rdata r + offset, rsize = len\<rparr>"
  using assms by (auto simp: br_subrange_def Let_def signed_nonneg_def usize_max_def add.commute)

end
