(* ===== verification/Fragment.thy ===== *)
theory Fragment
  imports Byte_Blob Byte_Range
begin

text \<open>
  \<^verbatim>\<open>xi/io/fragment.h\<close> and \<^verbatim>\<open>src/io/fragment.cpp\<close>: a blob with a data window
  \<open>[fhead, fhead + fsize)\<close> inside it. Headroom lies before the window, tailroom after it.
\<close>

record fragment =
  fbytes :: blob
  fhead :: addr
  fsize :: usize

definition fragment_zero :: fragment where
  "fragment_zero = \<lparr>fbytes = blob_null, fhead = 0, fsize = 0\<rparr>"

definition fragment_tail :: "fragment \<Rightarrow> addr" where
  "fragment_tail f = fhead f + fsize f"

definition fragment_headroom :: "fragment \<Rightarrow> usize" where
  "fragment_headroom f = usub (fhead f) (bytes (fbytes f))"

definition fragment_tailroom :: "fragment \<Rightarrow> usize" where
  "fragment_tailroom f = usub (blob_end (fbytes f)) (fragment_tail f)"

definition fragment_empty :: "fragment \<Rightarrow> bool" where
  "fragment_empty f \<longleftrightarrow> 0 = fsize f"

definition fragment_head_range :: "fragment \<Rightarrow> byte_range" where
  "fragment_head_range f = \<lparr>rdata = fhead f, rsize = fragment_headroom f\<rparr>"

definition fragment_data_range :: "fragment \<Rightarrow> byte_range" where
  "fragment_data_range f = \<lparr>rdata = fhead f, rsize = fsize f\<rparr>"

definition fragment_tail_range :: "fragment \<Rightarrow> byte_range" where
  "fragment_tail_range f = \<lparr>rdata = fragment_tail f, rsize = fragment_tailroom f\<rparr>"

definition fragment_record_bytes :: "usize \<Rightarrow> fragment \<Rightarrow> (usize \<times> fragment) option" where
  "fragment_record_bytes sz f =
     (if \<not> signed_nonneg (uadd sz (fsize f)) then None
      else let increment = min sz (fragment_tailroom f)
           in Some (increment, f\<lparr>fsize := uadd (fsize f) increment\<rparr>))"

definition fragment_maybe_release :: "fragment \<Rightarrow> world \<Rightarrow> (fragment \<times> world) option" where
  "fragment_maybe_release f w =
     (if blob_empty (fbytes f)
      then do { w' \<leftarrow> guard_destroy (bguard (fbytes f)) w; Some (fragment_zero, w') }
      else Some (f, w))"

definition fragment_new :: "blob \<Rightarrow> world \<Rightarrow> (fragment \<times> world) option" where
  "fragment_new b w = fragment_maybe_release \<lparr>fbytes = b, fhead = bytes b, fsize = 0\<rparr> w"

definition fragment_advance :: "usize \<Rightarrow> fragment \<Rightarrow> world \<Rightarrow> (fragment \<times> world) option" where
  "fragment_advance sz f w =
     (if \<not> uadd sz (fsize f) \<le> fragment_tailroom f then None
      else let w' = (if 0 < fsize f
                     then w\<lparr>mem := memmove (mem w) (fhead f + sz) (fhead f) (fsize f)\<rparr> else w)
           in Some (f\<lparr>fhead := fhead f + sz\<rparr>, w'))"

definition fragment_retreat :: "usize \<Rightarrow> fragment \<Rightarrow> world \<Rightarrow> (fragment \<times> world) option" where
  "fragment_retreat sz f w =
     (if \<not> sz \<le> fragment_headroom f then None
      else let w' = (if 0 < fsize f
                     then w\<lparr>mem := memmove (mem w) (fhead f) (fhead f + sz) (fsize f)\<rparr> else w)
           in Some (f\<lparr>fhead := fhead f - sz\<rparr>, w'))"

definition fragment_write :: "byte_range \<Rightarrow> fragment \<Rightarrow> world \<Rightarrow> usize \<times> fragment \<times> world" where
  "fragment_write r f w =
     (let cap = min (rsize r) (fragment_tailroom f)
      in (cap, f\<lparr>fsize := uadd (fsize f) cap\<rparr>,
          w\<lparr>mem := store (mem w) (fragment_tail f) (load (mem w) (rdata r) cap)\<rparr>))"

definition fragment_read :: "byte_range \<Rightarrow> usize \<Rightarrow> fragment \<Rightarrow> world \<Rightarrow> usize \<times> world" where
  "fragment_read r offset f w =
     (if fsize f \<le> offset then (0, w)
      else let cap = min (rsize r) (usub (fsize f) offset)
           in (cap, w\<lparr>mem := store (mem w) (rdata r) (load (mem w) (fhead f + offset) cap)\<rparr>))"

definition fragment_skip_bytes :: "usize \<Rightarrow> fragment \<Rightarrow> world \<Rightarrow> (usize \<times> fragment \<times> world) option" where
  "fragment_skip_bytes len f w =
     (let cap = min (fsize f) len
      in do { (f', w') \<leftarrow> fragment_maybe_release (f\<lparr>fhead := fhead f + cap, fsize := usub (fsize f) cap\<rparr>) w;
              Some (cap, f', w') })"

definition fragment_ignore_bytes_at_end :: "usize \<Rightarrow> fragment \<Rightarrow> usize \<times> fragment" where
  "fragment_ignore_bytes_at_end len f =
     (let cap = min len (fsize f) in (cap, f\<lparr>fsize := usub (fsize f) cap\<rparr>))"

text \<open>\<^verbatim>\<open>clone\<close>: the clone, the fragment itself (its guard may be replaced), the world.\<close>

definition fragment_clone :: "fragment \<Rightarrow> world \<Rightarrow> (fragment \<times> fragment \<times> world) option" where
  "fragment_clone f w =
     (let (b, b0, w1) = blob_clone (fbytes f) w
      in do { (c, w2) \<leftarrow> fragment_new b w1;
              Some (c\<lparr>fhead := fhead f, fsize := fsize f\<rparr>, f\<lparr>fbytes := b0\<rparr>, w2) })"

text \<open>\<^verbatim>\<open>split\<close>: the fragment split off (null when nothing is), the fragment itself, the world.\<close>

definition fragment_split ::
    "usize \<Rightarrow> fragment \<Rightarrow> world \<Rightarrow> (fragment option \<times> fragment \<times> world) option" where
  "fragment_split sz f w =
     (if fsize f \<le> sz then Some (None, f, w)
      else if sz = 0 \<and> fragment_headroom f = 0
      then do { (ret, w1) \<leftarrow> fragment_new (fbytes f) w; Some (Some ret, fragment_zero, w1) }
      else let split_point = uadd sz (fragment_headroom f)
           in do { (b2, b1, w1) \<leftarrow> blob_split split_point (fbytes f) w;
                   (ret, w2) \<leftarrow> fragment_new b2 w1;
                   let headroom = usub (fhead f) (bytes b1) in
                   Some (Some (ret\<lparr>fsize := usub (fsize f) sz\<rparr>),
                         \<lparr>fbytes = b1, fhead = bytes b1 + headroom, fsize = usub (bsize b1) headroom\<rparr>,
                         w2) })"

definition fragment_deleter :: "fragment \<Rightarrow> world \<Rightarrow> world option" where
  "fragment_deleter f w = blob_destroy (fbytes f) w"


section \<open>Well-formed fragments and their contents\<close>

text \<open>The window lies inside the blob, the blob inside the address space the signed asserts allow, and an empty blob is the null blob.\<close>

definition fragment_ok :: "fragment \<Rightarrow> bool" where
  "fragment_ok f \<longleftrightarrow> bytes (fbytes f) \<le> fhead f \<and> fhead f + fsize f \<le> blob_end (fbytes f) \<and>
     blob_end (fbytes f) < 2 ^ 63 \<and> (bsize (fbytes f) = 0 \<longrightarrow> bytes (fbytes f) = 0)"

definition fragment_content :: "memory \<Rightarrow> fragment \<Rightarrow> u8 list" where
  "fragment_content m f = load m (fhead f) (fsize f)"

abbreviation fguard :: "fragment \<Rightarrow> guard" where
  "fguard f \<equiv> bguard (fbytes f)"

lemma length_fragment_content [simp]: "length (fragment_content m f) = fsize f"
  by (simp add: fragment_content_def)

lemma fragment_zero_simps [simp]:
  "fragment_ok fragment_zero" "fsize fragment_zero = 0" "fhead fragment_zero = 0"
  "fbytes fragment_zero = blob_null"
  "fragment_content m fragment_zero = []"
  by (simp_all add: fragment_zero_def fragment_ok_def fragment_content_def blob_end_def)

lemma fragment_rooms:
  assumes "fragment_ok f"
  shows "fragment_headroom f = fhead f - bytes (fbytes f)"
    "fragment_tailroom f = blob_end (fbytes f) - (fhead f + fsize f)"
    "fragment_headroom f + fsize f + fragment_tailroom f = bsize (fbytes f)"
  using assms by (simp_all add: fragment_ok_def fragment_headroom_def fragment_tailroom_def
      fragment_tail_def blob_end_def)

lemma fragment_write_effect:
  assumes "fragment_ok f" "fragment_write r f w = (n, f', w')"
  shows "n = min (rsize r) (fragment_tailroom f)" "fragment_ok f'" "fsize f' = fsize f + n"
    "fragment_content (mem w') f' = fragment_content (mem w) f @ load (mem w) (rdata r) n"
    "fbytes f' = fbytes f" "fhead f' = fhead f"
    "w' = w\<lparr>mem := store (mem w) (fhead f + fsize f) (load (mem w) (rdata r) n)\<rparr>"
proof -
  have n: "n = min (rsize r) (fragment_tailroom f)" and f': "f' = f\<lparr>fsize := uadd (fsize f) n\<rparr>"
    and w': "w' = w\<lparr>mem := store (mem w) (fragment_tail f) (load (mem w) (rdata r) n)\<rparr>"
    using assms(2) by (auto simp: fragment_write_def Let_def)
  have "fsize f + n < 2 ^ 64" and fit: "fhead f + fsize f + n \<le> blob_end (fbytes f)"
    using assms(1) fragment_rooms(2) [OF assms(1)] by (auto simp: n fragment_ok_def)
  then have sz: "fsize f' = fsize f + n" by (simp add: f')
  with fit assms(1) show "fragment_ok f'" by (simp add: f' fragment_ok_def)
  show "fsize f' = fsize f + n" by (fact sz)
  show "w' = w\<lparr>mem := store (mem w) (fhead f + fsize f) (load (mem w) (rdata r) n)\<rparr>"
    by (simp add: w' fragment_tail_def)
  then show "fragment_content (mem w') f' = fragment_content (mem w) f @ load (mem w) (rdata r) n"
    unfolding fragment_content_def sz by (simp add: f' load_append load_store_other)
qed (use assms(2) in \<open>auto simp: fragment_write_def Let_def\<close>)

lemma fragment_read_effect:
  assumes "fragment_read r offset f w = (n, w')"
  shows "n = min (rsize r) (fsize f - offset)"
    "w' = w\<lparr>mem := store (mem w) (rdata r) (take n (drop offset (fragment_content (mem w) f)))\<rparr>"
  using assms by (auto simp: fragment_read_def Let_def fragment_content_def min_def split: if_splits)

lemma fragment_release_live:
  assumes "fragment_ok f" "guard_inv (add_mset (fguard f) M) w"
  obtains f' w' where "fragment_maybe_release f w = Some (f', w')" "fragment_ok f'" "fsize f' = fsize f"
    "\<And>m. fragment_content m f' = fragment_content m f"
    "guard_inv (add_mset (fguard f') M) w'" "mem w' = mem w"
    "blob_empty (fbytes f) \<or> f' = f" "fsize f = 0 \<or> f' = f"
proof (cases "blob_empty (fbytes f)")
  case True
  then have "fsize f = 0" using assms(1) by (simp add: fragment_ok_def blob_end_def blob_empty_def)
  moreover obtain w' where "guard_destroy (fguard f) w = Some w'" "guard_inv M w'" "mem w' = mem w"
    using guard_destroy_inv [OF assms(2)] by blast
  moreover from this have "guard_inv (add_mset 0 M) w'" by (simp add: guard_inv_add_null)
  ultimately show ?thesis
    using True by (intro that [of fragment_zero w']) (simp_all add: fragment_maybe_release_def fragment_content_def)
next
  case False
  with assms show ?thesis by (intro that [of f w]) (simp_all add: fragment_maybe_release_def)
qed

lemma fragment_skip_live:
  assumes "fragment_ok f" "guard_inv (add_mset (fguard f) M) w"
  obtains f' w' where "fragment_skip_bytes len f w = Some (min (fsize f) len, f', w')" "fragment_ok f'"
    "fsize f' = fsize f - len" "\<And>m. fragment_content m f' = drop len (fragment_content m f)"
    "guard_inv (add_mset (fguard f') M) w'" "mem w' = mem w"
proof -
  let ?f = "f\<lparr>fhead := fhead f + min (fsize f) len, fsize := usub (fsize f) (min (fsize f) len)\<rparr>"
  have "fragment_ok ?f" using assms(1) by (auto simp: fragment_ok_def)
  moreover have "guard_inv (add_mset (fguard ?f) M) w" using assms(2) by simp
  ultimately obtain f' w' where f': "fragment_maybe_release ?f w = Some (f', w')" "fragment_ok f'"
    "fsize f' = fsize ?f" "\<And>m. fragment_content m f' = fragment_content m ?f"
    "guard_inv (add_mset (fguard f') M) w'" "mem w' = mem w"
    by (rule fragment_release_live) blast
  have c: "fragment_content m ?f = drop len (fragment_content m f)" for m
    by (cases "fsize f \<le> len") (simp_all add: fragment_content_def min_def)
  show ?thesis
  proof (rule that)
    show "fragment_skip_bytes len f w = Some (min (fsize f) len, f', w')"
      using f'(1) by (simp add: fragment_skip_bytes_def Let_def)
    show "fsize f' = fsize f - len" using f'(3) by simp
    show "fragment_content m f' = drop len (fragment_content m f)" for m using f'(4) c by simp
  qed (fact f')+
qed

lemma fragment_ignore_effect:
  assumes "fragment_ignore_bytes_at_end len f = (n, f')"
  shows "n = min len (fsize f)" "fsize f' = fsize f - len" "fbytes f' = fbytes f"
    "fragment_ok f \<Longrightarrow> fragment_ok f'"
    "fragment_content m f' = take (fsize f - len) (fragment_content m f)"
  using assms by (auto simp: fragment_ignore_bytes_at_end_def Let_def fragment_ok_def
      fragment_content_def min_def)

lemma fragment_new_live:
  assumes "guard_inv (add_mset (bguard b) M) w" "blob_end b < 2 ^ 63"
  obtains f w' where "fragment_new b w = Some (f, w')" "fragment_ok f" "fsize f = 0"
    "guard_inv (add_mset (fguard f) M) w'" "mem w' = mem w"
    "0 < bsize b \<Longrightarrow> f = \<lparr>fbytes = b, fhead = bytes b, fsize = 0\<rparr>"
    "0 < bsize b \<Longrightarrow> w' = w"
proof (cases "blob_empty b")
  case True
  then have e: "bsize b = 0" by (simp add: blob_empty_def)
  obtain w' where "guard_destroy (bguard b) w = Some w'" "guard_inv M w'" "mem w' = mem w"
    using guard_destroy_inv [OF assms(1)] by blast
  with True e show ?thesis
    by (intro that [of fragment_zero w'])
       (simp_all add: fragment_new_def fragment_maybe_release_def guard_inv_add_null)
next
  case False
  with assms show ?thesis
    by (intro that [of "\<lparr>fbytes = b, fhead = bytes b, fsize = 0\<rparr>" w])
       (simp_all add: fragment_new_def fragment_maybe_release_def fragment_ok_def blob_end_def blob_empty_def)
qed

lemma fragment_split_live:
  assumes "fragment_ok f" "sz < fsize f" "\<not> (sz = 0 \<and> fragment_headroom f = 0)"
    and "guard_inv (add_mset (fguard f) M) w" "guard_room (Suc n) (add_mset (fguard f) M) w"
  obtains ret f' w' where "fragment_split sz f w = Some (Some ret, f', w')"
    "fragment_ok ret" "fragment_ok f'" "fsize ret = fsize f - sz" "fsize f' = sz"
    "\<And>m. fragment_content m f' = take sz (fragment_content m f)"
    "\<And>m. fragment_content m ret = drop sz (fragment_content m f)"
    "guard_inv (add_mset (fguard ret) (add_mset (fguard f') M)) w'"
    "guard_room n (add_mset (fguard ret) (add_mset (fguard f') M)) w'" "mem w' = mem w"
    "bytes (fbytes f') = bytes (fbytes f)" "fhead f' = fhead f" "fhead ret = fhead f + sz"
    "blob_end (fbytes ret) = blob_end (fbytes f)"
proof -
  let ?b = "fbytes f"
  define p where "p = sz + (fhead f - bytes (fbytes f))"
  have ok: "bytes ?b \<le> fhead f" "fhead f + fsize f \<le> blob_end ?b" "blob_end ?b < 2 ^ 63"
    using assms(1) by (auto simp: fragment_ok_def)
  have p: "0 < p" "p < bsize ?b" "p < 2 ^ 64" "bytes ?b + p = fhead f + sz" "p - (fhead f - bytes ?b) = sz"
    using assms(2,3) ok fragment_rooms(1) [OF assms(1)] by (auto simp: p_def blob_end_def)
  have "signed_nonneg (bsize ?b)" using ok by (simp add: signed_nonneg_def blob_end_def)
  from blob_split_cases [OF this p(1,2)] obtain g s w1 where
    sh: "guard_share (bguard ?b) w = (g, s, w1)" and
    sp: "blob_split p ?b w = Some (\<lparr>bytes = bytes ?b + p, bsize = bsize ?b - p, bguard = s\<rparr>,
       ?b\<lparr>bguard := g, bsize := p\<rparr>, w1)" by metis
  note live = guard_share_live [OF assms(4,5) sh]
  let ?b2 = "\<lparr>bytes = fhead f + sz, bsize = bsize ?b - p, bguard = s\<rparr>"
  let ?r = "\<lparr>fbytes = ?b2, fhead = fhead f + sz, fsize = fsize f - sz\<rparr>"
  let ?f = "\<lparr>fbytes = ?b\<lparr>bguard := g, bsize := p\<rparr>, fhead = fhead f, fsize = sz\<rparr>"
  have new: "fragment_new ?b2 w1 = Some (\<lparr>fbytes = ?b2, fhead = fhead f + sz, fsize = 0\<rparr>, w1)"
    using p(2) by (simp add: fragment_new_def fragment_maybe_release_def blob_empty_def)
  have hr: "uadd sz (fragment_headroom f) = p"
    using p(3) fragment_rooms(1) [OF assms(1)] by (simp add: p_def)
  have le: "fhead f - bytes ?b \<le> p" by (simp add: p_def)
  have "fragment_split sz f w = Some (Some ?r, ?f, w1)"
    using assms(2,3) ok le by (auto simp: fragment_split_def hr Let_def sp p(4,5) new)
  moreover have "fragment_ok ?r" "fragment_ok ?f" "blob_end ?b2 = blob_end ?b"
    using ok assms(2) p by (auto simp: fragment_ok_def blob_end_def)
  ultimately show ?thesis
    using live assms(2) by (intro that [of ?r ?f w1]) (simp_all add: fragment_content_def)
qed

lemma fragment_clone_live:
  assumes "fragment_ok f" "guard_inv (add_mset (fguard f) M) w" "guard_room (Suc n) (add_mset (fguard f) M) w"
  obtains c f' w' where "fragment_clone f w = Some (c, f', w')" "fragment_ok c" "fragment_ok f'"
    "fhead c = fhead f" "fsize c = fsize f" "fhead f' = fhead f" "fsize f' = fsize f"
    "bytes (fbytes f') = bytes (fbytes f)" "bsize (fbytes f') = bsize (fbytes f)"
    "guard_inv (add_mset (fguard c) (add_mset (fguard f') M)) w'"
    "guard_room n (add_mset (fguard c) (add_mset (fguard f') M)) w'" "mem w' = mem w"
proof -
  obtain g s w1 where sh: "guard_share (fguard f) w = (g, s, w1)" by (metis prod_cases3)
  note live = guard_share_live [OF assms(2,3) sh]
  let ?b2 = "\<lparr>bytes = bytes (fbytes f), bsize = bsize (fbytes f), bguard = s\<rparr>"
  let ?c = "if blob_empty (fbytes f) then fragment_zero else \<lparr>fbytes = ?b2, fhead = fhead f, fsize = fsize f\<rparr>"
  let ?f = "f\<lparr>fbytes := (fbytes f)\<lparr>bguard := g\<rparr>\<rparr>"
  have z: "blob_empty (fbytes f) \<Longrightarrow> fhead f = 0 \<and> fsize f = 0"
    using assms(1) by (auto simp: fragment_ok_def blob_empty_def blob_end_def)
  show ?thesis
  proof (cases "blob_empty (fbytes f)")
    case True
    obtain w2 where w2: "guard_destroy s w1 = Some w2" "guard_inv (add_mset g M) w2" "mem w2 = mem w1"
      using guard_destroy_inv [OF live(1)] by blast
    have "fragment_clone f w = Some (fragment_zero, ?f, w2)"
      using True z sh w2(1)
      by (simp add: fragment_clone_def blob_clone_def fragment_new_def fragment_maybe_release_def
          blob_empty_def fragment_zero_def)
    moreover have "guard_room n (add_mset 0 (add_mset g M)) w2"
      using guard_destroy_room [OF w2(1) live(2)] by (simp add: guard_room_def)
    ultimately show ?thesis
      using True z w2 live assms(1)
      by (intro that [of fragment_zero ?f w2]) (auto simp: guard_inv_add_null fragment_ok_def blob_end_def)
  next
    case False
    then have "fragment_clone f w = Some (\<lparr>fbytes = ?b2, fhead = fhead f, fsize = fsize f\<rparr>, ?f, w1)"
      using sh by (simp add: fragment_clone_def blob_clone_def fragment_new_def fragment_maybe_release_def
          blob_empty_def)
    with False live assms(1) show ?thesis
      by (intro that [of "\<lparr>fbytes = ?b2, fhead = fhead f, fsize = fsize f\<rparr>" ?f w1])
         (auto simp: fragment_ok_def blob_end_def blob_empty_def)
  qed
qed

lemma fragment_advance_live:
  assumes "fragment_ok f" "sz + fsize f \<le> fragment_tailroom f"
  obtains f' w' where "fragment_advance sz f w = Some (f', w')" "fragment_ok f'"
    "fragment_headroom f' = fragment_headroom f + sz" "fsize f' = fsize f" "fbytes f' = fbytes f"
    "fragment_content (mem w') f' = fragment_content (mem w) f"
proof -
  have b: "sz + fsize f < 2 ^ 64" "fhead f + fsize f + (sz + fsize f) \<le> blob_end (fbytes f)"
    using assms fragment_rooms [OF assms(1)] by (auto simp: fragment_ok_def)
  let ?f = "f\<lparr>fhead := fhead f + sz\<rparr>"
  let ?w = "if 0 < fsize f then w\<lparr>mem := memmove (mem w) (fhead f + sz) (fhead f) (fsize f)\<rparr> else w"
  have "fragment_advance sz f w = Some (?f, ?w)"
    using assms(2) b(1) by (simp add: fragment_advance_def)
  moreover have ok: "fragment_ok ?f" using assms(1) b(2) by (auto simp: fragment_ok_def)
  moreover have "fragment_headroom ?f = fragment_headroom f + sz"
    using assms(1) by (simp add: fragment_rooms(1) [OF ok] fragment_rooms(1) [OF assms(1)]) (auto simp: fragment_ok_def)
  moreover have "fragment_content (mem ?w) ?f = fragment_content (mem w) f"
    by (simp add: fragment_content_def)
  ultimately show ?thesis by (intro that [of ?f ?w]) simp_all
qed

text \<open>\<^verbatim>\<open>retreat\<close> moves bytes in the wrong direction: the window then starts with headroom bytes.\<close>

lemma fragment_retreat_effect:
  assumes "fragment_ok f" "sz \<le> fragment_headroom f" "sz \<le> fsize f"
    and "fragment_retreat sz f w = Some (f', w')"
  shows "fragment_content (mem w') f' =
    load (mem w) (fhead f - sz) sz @ drop sz (fragment_content (mem w) f)"
proof -
  have hd: "sz \<le> fhead f" using assms(1,2) by (auto simp: fragment_rooms(1) fragment_ok_def)
  have f': "f' = f\<lparr>fhead := fhead f - sz\<rparr>"
    and w': "mem w' = (if 0 < fsize f then memmove (mem w) (fhead f) (fhead f + sz) (fsize f) else mem w)"
    using assms(2,4) by (auto simp: fragment_retreat_def Let_def)
  have "load (mem w') (fhead f - sz) (sz + (fsize f - sz)) =
      load (mem w') (fhead f - sz) sz @ load (mem w') (fhead f) (fsize f - sz)"
    using hd by (simp add: load_append)
  moreover have "load (mem w') (fhead f - sz) sz = load (mem w) (fhead f - sz) sz"
    using hd by (simp add: w' memmove_def load_store_other)
  moreover have "load (mem w') (fhead f) (fsize f - sz) = load (mem w) (fhead f + sz) (fsize f - sz)"
  proof -
    have "load (mem w') (fhead f) (fsize f - sz) = take (fsize f - sz) (load (mem w') (fhead f) (fsize f))"
      by simp
    also have "\<dots> = load (mem w) (fhead f + sz) (fsize f - sz)" by (cases "fsize f = 0") (simp_all add: w')
    finally show ?thesis .
  qed
  ultimately show ?thesis
    using assms(3) by (simp add: f' fragment_content_def)
qed

end
