(* ===== verification/Buffer.thy ===== *)
theory Buffer
  imports Fragment
begin

text \<open>
  \<^verbatim>\<open>xi/io/buffer.h\<close>, \<^verbatim>\<open>src/io/buffer.cpp\<close> and \<^verbatim>\<open>xi/io/detail/buffer_utils.h\<close>: a chain
  of fragments with a cached total size. The intrusive list owns its fragments, so it is a list
  of fragment values; an iterator is a split of that list into what it has passed and the rest.
  Dereferencing an iterator at the end is \<open>None\<close>.
\<close>

record buffer =
  frags :: "fragment list"
  bufsize :: usize

definition buffer_default :: buffer where
  "buffer_default = \<lparr>frags = [], bufsize = 0\<rparr>"

definition buffer_of_list :: "fragment list \<Rightarrow> usize \<Rightarrow> buffer" where
  "buffer_of_list fs sz = \<lparr>frags = fs, bufsize = sz\<rparr>"

definition buffer_length :: "buffer \<Rightarrow> usize" where
  "buffer_length b = length (frags b)"

definition buffer_empty :: "buffer \<Rightarrow> bool" where
  "buffer_empty b \<longleftrightarrow> frags b = []"

text \<open>The constructor from one fragment; a fragment without any room is dropped.\<close>

definition buffer_of_fragment :: "fragment option \<Rightarrow> world \<Rightarrow> (buffer \<times> world) option" where
  "buffer_of_fragment p w =
     (case p of None \<Rightarrow> None
      | Some f \<Rightarrow>
          (if fsize f = 0 \<and> fragment_headroom f = 0 \<and> fragment_tailroom f = 0
           then do { w' \<leftarrow> fragment_deleter f w; Some (buffer_default, w') }
           else Some (\<lparr>frags = [f], bufsize = fsize f\<rparr>, w)))"

fun dispose_all :: "fragment list \<Rightarrow> world \<Rightarrow> world option" where
  "dispose_all [] w = Some w"
| "dispose_all (f # fs) w = do { w' \<leftarrow> fragment_deleter f w; dispose_all fs w' }"

definition buffer_destroy :: "buffer \<Rightarrow> world \<Rightarrow> world option" where
  "buffer_destroy b w = dispose_all (frags b) w"

definition buffer_push_front :: "fragment option \<Rightarrow> buffer \<Rightarrow> buffer" where
  "buffer_push_front p b =
     (case p of None \<Rightarrow> b
      | Some f \<Rightarrow> \<lparr>frags = f # frags b, bufsize = uadd (bufsize b) (fsize f)\<rparr>)"

definition buffer_push_back :: "fragment option \<Rightarrow> buffer \<Rightarrow> buffer" where
  "buffer_push_back p b =
     (case p of None \<Rightarrow> b
      | Some f \<Rightarrow> \<lparr>frags = frags b @ [f], bufsize = uadd (bufsize b) (fsize f)\<rparr>)"

definition buffer_push_front_buffer :: "buffer option \<Rightarrow> buffer \<Rightarrow> buffer" where
  "buffer_push_front_buffer p b =
     (case p of None \<Rightarrow> b
      | Some c \<Rightarrow> \<lparr>frags = frags c @ frags b, bufsize = uadd (bufsize b) (bufsize c)\<rparr>)"

definition buffer_push_back_buffer :: "buffer option \<Rightarrow> buffer \<Rightarrow> buffer" where
  "buffer_push_back_buffer p b =
     (case p of None \<Rightarrow> b
      | Some c \<Rightarrow> \<lparr>frags = frags b @ frags c, bufsize = uadd (bufsize b) (bufsize c)\<rparr>)"

definition buffer_headroom :: "buffer \<Rightarrow> usize" where
  "buffer_headroom b = (case frags b of [] \<Rightarrow> 0 | f # _ \<Rightarrow> fragment_headroom f)"

definition buffer_tailroom :: "buffer \<Rightarrow> usize" where
  "buffer_tailroom b = (if frags b = [] then 0 else fragment_tailroom (last (frags b)))"

text \<open>\<open>skip_offset\<close>: the fragments passed, the rest, and what is left of the offset.\<close>

fun skip_offset :: "fragment list \<Rightarrow> usize \<Rightarrow> fragment list \<times> fragment list \<times> usize" where
  "skip_offset [] offset = ([], [], offset)"
| "skip_offset (f # fs) offset =
     (if fsize f \<le> offset
      then let (pre, rest, offset') = skip_offset fs (usub offset (fsize f)) in (f # pre, rest, offset')
      else ([], f # fs, offset))"

text \<open>\<^verbatim>\<open>split\<close>: the buffer split off (null when nothing is), the buffer itself, the world.\<close>

fun sub_sizes :: "fragment list \<Rightarrow> usize \<Rightarrow> usize" where
  "sub_sizes [] sz = sz"
| "sub_sizes (f # fs) sz = sub_sizes fs (usub sz (fsize f))"

definition buffer_split :: "usize \<Rightarrow> buffer \<Rightarrow> world \<Rightarrow> (buffer option \<times> buffer \<times> world) option" where
  "buffer_split sz b w =
     (if buffer_empty b \<or> sz = 0 then Some (None, b, w)
      else if bufsize b < sz then Some (Some b, buffer_default, w)
      else let (pre, rest, remainder) = skip_offset (frags b) sz
           in do { (pre', rest', w') \<leftarrow>
                     (if 0 < remainder
                      then (case rest of [] \<Rightarrow> None
                            | it # fs \<Rightarrow> do { (new_node, it', w1) \<leftarrow> fragment_split remainder it w;
                                             (case new_node of None \<Rightarrow> None
                                              | Some n \<Rightarrow> Some (pre @ [it'], n # fs, w1)) })
                      else Some (pre, rest, w));
                   Some (Some (buffer_of_list pre' sz),
                         \<lparr>frags = rest', bufsize = sub_sizes pre' (bufsize b)\<rparr>, w') })"

text \<open>
  \<^verbatim>\<open>coalesce\<close>. The allocator is a parameter: requested size, headroom and tailroom to a buffer.
  The copying loop takes the fragment written to, the fragments to copy, and the length left; it
  gives the fragments it consumed and those it did not reach.
\<close>

type_synonym buffer_allocator = "usize \<Rightarrow> usize \<Rightarrow> usize \<Rightarrow> world \<Rightarrow> (buffer \<times> world) option"

fun coalesce_loop :: "fragment \<Rightarrow> fragment list \<Rightarrow> usize \<Rightarrow> world \<Rightarrow>
    fragment \<times> fragment list \<times> fragment list \<times> usize \<times> world" where
  "coalesce_loop wr [] len w = (wr, [], [], len, w)"
| "coalesce_loop wr (it # its) len w =
     (if fsize it \<le> len
      then let (n, wr1, w1) = fragment_write (fragment_data_range it) wr w;
               (wr2, gone, left, len2, w2) = coalesce_loop wr1 its (usub len n) w1
           in (wr2, it # gone, left, len2, w2)
      else (wr, [], it # its, len, w))"

definition coalesce_into ::
    "fragment list \<Rightarrow> fragment \<Rightarrow> fragment list \<Rightarrow> usize \<Rightarrow> usize \<Rightarrow> world \<Rightarrow>
      (usize \<times> buffer \<times> world) option" where
  "coalesce_into pre wr its len tot w =
     (let (wr1, gone, left, len1, w1) = coalesce_loop wr its (usub len (fsize wr)) w
      in do { w2 \<leftarrow> dispose_all gone w1;
              if 0 < len1
              then (case left of [] \<Rightarrow> None
                    | it # rest \<Rightarrow>
                        do { r \<leftarrow> br_subrange (fragment_data_range it) 0 len1;
                             let (_, wr2, w3) = fragment_write r wr1 w2;
                             (_, it', w4) \<leftarrow> fragment_skip_bytes len1 it w3;
                             Some (fsize wr2, \<lparr>frags = pre @ wr2 # it' # rest, bufsize = tot\<rparr>, w4) })
              else Some (fsize wr1, \<lparr>frags = pre @ wr1 # left, bufsize = tot\<rparr>, w2) })"

definition buffer_coalesce ::
    "buffer_allocator \<Rightarrow> usize \<Rightarrow> usize \<Rightarrow> buffer \<Rightarrow> world \<Rightarrow> (usize \<times> buffer \<times> world) option" where
  "buffer_coalesce alloc offset len b w =
     (if buffer_empty b \<or> 0 = len \<or> bufsize b \<le> offset then Some (0, b, w)
      else let len1 = (if usub (bufsize b) offset < len then usub (bufsize b) offset else len);
               (pre, rest, off) = skip_offset (frags b) offset
           in (case rest of [] \<Rightarrow> None
               | it # its \<Rightarrow>
                   let head_size = usub (fsize it) off
                   in if len1 \<le> head_size then Some (bufsize b, b, w)
                      else if uadd head_size (fragment_tailroom it) < len1
                      then do { (nb, w1) \<leftarrow> alloc len1 0 0 w;
                                let before = pre @ frags nb in
                                if before = [] then None
                                else coalesce_into (butlast before) (last before) rest len1 (bufsize b) w1 }
                      else coalesce_into pre it its len1 (bufsize b) w))"

text \<open>\<^verbatim>\<open>clone\<close>: the clone, the buffer itself, the world.\<close>

fun clone_all :: "fragment list \<Rightarrow> world \<Rightarrow> (fragment list \<times> fragment list \<times> world) option" where
  "clone_all [] w = Some ([], [], w)"
| "clone_all (f # fs) w =
     do { (c, f', w1) \<leftarrow> fragment_clone f w;
          (cs, fs', w2) \<leftarrow> clone_all fs w1;
          Some (c # cs, f' # fs', w2) }"

definition buffer_clone :: "buffer \<Rightarrow> world \<Rightarrow> (buffer \<times> buffer \<times> world) option" where
  "buffer_clone b w =
     do { (cs, fs, w') \<leftarrow> clone_all (frags b) w;
          Some (buffer_of_list cs (bufsize b), b\<lparr>frags := fs\<rparr>, w') }"

definition buffer_range ::
    "buffer_allocator \<Rightarrow> usize \<Rightarrow> usize \<Rightarrow> buffer \<Rightarrow> world \<Rightarrow> (byte_range \<times> buffer \<times> world) option" where
  "buffer_range alloc offset len b w =
     (if bufsize b \<le> offset then Some (br_null, b, w)
      else do { (_, b1, w1) \<leftarrow> buffer_coalesce alloc offset len b w;
                let (pre, rest, off) = skip_offset (frags b1) offset;
                (case rest of [] \<Rightarrow> None
                 | it # _ \<Rightarrow> Some (\<lparr>rdata = fhead it + off, rsize = min len (usub (fsize it) off)\<rparr>, b1, w1)) })"

text \<open>\<^verbatim>\<open>read\<close>: the loop gives the part of the range that was not filled.\<close>

fun buffer_read_loop :: "fragment list \<Rightarrow> byte_range \<Rightarrow> usize \<Rightarrow> world \<Rightarrow> (byte_range \<times> world) option" where
  "buffer_read_loop [] r offset w = Some (r, w)"
| "buffer_read_loop (it # its) r offset w =
     (let (ret, w1) = fragment_read r offset it w
      in do { r1 \<leftarrow> br_subrange r ret usize_max;
              if br_empty r1 then Some (r1, w1) else buffer_read_loop its r1 0 w1 })"

definition buffer_read :: "byte_range \<Rightarrow> usize \<Rightarrow> buffer \<Rightarrow> world \<Rightarrow> (usize \<times> world) option" where
  "buffer_read r offset b w =
     (if buffer_empty b \<or> br_empty r \<or> bufsize b \<le> offset then Some (0, w)
      else let (pre, rest, off) = skip_offset (frags b) offset
           in do { (r1, w1) \<leftarrow> buffer_read_loop rest r off w;
                   Some (usub (rsize r) (rsize r1), w1) })"

definition buffer_write :: "byte_range \<Rightarrow> buffer \<Rightarrow> world \<Rightarrow> usize \<times> buffer \<times> world" where
  "buffer_write r b w =
     (if buffer_empty b \<or> br_empty r then (0, b, w)
      else let (ret, f, w') = fragment_write r (last (frags b)) w
           in (ret, \<lparr>frags = butlast (frags b) @ [f], bufsize = uadd (bufsize b) ret\<rparr>, w'))"

text \<open>\<^verbatim>\<open>skip_bytes\<close> and \<^verbatim>\<open>ignore_bytes_at_end\<close>; \<open>free\<close> selects erasing or emptying what is passed.\<close>

fun skip_all :: "fragment list \<Rightarrow> world \<Rightarrow> (fragment list \<times> world) option" where
  "skip_all [] w = Some ([], w)"
| "skip_all (f # fs) w =
     do { (_, f', w1) \<leftarrow> fragment_skip_bytes (fsize f) f w;
          (fs', w2) \<leftarrow> skip_all fs w1;
          Some (f' # fs', w2) }"

definition buffer_skip_bytes :: "usize \<Rightarrow> bool \<Rightarrow> buffer \<Rightarrow> world \<Rightarrow> (buffer \<times> world) option" where
  "buffer_skip_bytes sz free b w =
     (if buffer_empty b then Some (b, w)
      else let (pre, rest, remainder) = skip_offset (frags b) sz
           in do { (pre1, rest1, size1, w1) \<leftarrow>
                     (case rest of [] \<Rightarrow> Some (pre, [], 0, w)
                      | it # its \<Rightarrow>
                          do { (_, it', w1) \<leftarrow> fragment_skip_bytes remainder it w;
                               if fragment_empty it'
                               then Some (pre @ [it'], its, usub (bufsize b) sz, w1)
                               else Some (pre, it' # its, usub (bufsize b) sz, w1) });
                   if free
                   then do { w2 \<leftarrow> dispose_all pre1 w1; Some (\<lparr>frags = rest1, bufsize = size1\<rparr>, w2) }
                   else do { (pre2, w2) \<leftarrow> skip_all pre1 w1;
                             Some (\<lparr>frags = pre2 @ rest1, bufsize = size1\<rparr>, w2) } })"

definition ignore_all :: "fragment list \<Rightarrow> fragment list" where
  "ignore_all fs = map (\<lambda>f. snd (fragment_ignore_bytes_at_end (fsize f) f)) fs"

definition buffer_ignore_bytes_at_end :: "usize \<Rightarrow> bool \<Rightarrow> buffer \<Rightarrow> world \<Rightarrow> (buffer \<times> world) option" where
  "buffer_ignore_bytes_at_end sz free b w =
     (if buffer_empty b then Some (b, w)
      else let (passed, rest, remainder) = skip_offset (rev (frags b)) sz;
               (rest1, size1) =
                 (case rest of [] \<Rightarrow> ([], 0)
                  | it # its \<Rightarrow> (snd (fragment_ignore_bytes_at_end remainder it) # its,
                                usub (bufsize b) sz))
           in if free
              then do { w1 \<leftarrow> dispose_all (rev passed) w; Some (\<lparr>frags = rev rest1, bufsize = size1\<rparr>, w1) }
              else Some (\<lparr>frags = rev rest1 @ rev (ignore_all passed), bufsize = size1\<rparr>, w))"

section \<open>Well-formed buffers and their contents\<close>

definition frags_size :: "fragment list \<Rightarrow> nat" where
  "frags_size fs = sum_list (map fsize fs)"

definition frags_content :: "memory \<Rightarrow> fragment list \<Rightarrow> u8 list" where
  "frags_content m fs = concat (map (fragment_content m) fs)"

definition frags_guards :: "fragment list \<Rightarrow> guard multiset" where
  "frags_guards fs = mset (map fguard fs)"

abbreviation buffer_content :: "memory \<Rightarrow> buffer \<Rightarrow> u8 list" where
  "buffer_content m b \<equiv> frags_content m (frags b)"

abbreviation buffer_guards :: "buffer \<Rightarrow> guard multiset" where
  "buffer_guards b \<equiv> frags_guards (frags b)"

text \<open>Every fragment is well-formed and the cached size is the sum of the fragments' sizes.\<close>

definition buffer_ok :: "buffer \<Rightarrow> bool" where
  "buffer_ok b \<longleftrightarrow> list_all fragment_ok (frags b) \<and> bufsize b = frags_size (frags b) \<and> bufsize b < 2 ^ 63"

lemma frags_simps [simp]:
  "frags_size [] = 0" "frags_size (f # fs) = fsize f + frags_size fs"
  "frags_size (fs @ gs) = frags_size fs + frags_size gs" "frags_size (rev fs) = frags_size fs"
  "frags_content m [] = []" "frags_content m (f # fs) = fragment_content m f @ frags_content m fs"
  "frags_content m (fs @ gs) = frags_content m fs @ frags_content m gs"
  "frags_guards [] = {#}" "frags_guards (f # fs) = add_mset (fguard f) (frags_guards fs)"
  "frags_guards (fs @ gs) = frags_guards fs + frags_guards gs" "frags_guards (rev fs) = frags_guards fs"
  by (simp_all add: frags_size_def frags_content_def frags_guards_def sum_list_rev rev_map [symmetric])

lemma length_frags_content [simp]: "length (frags_content m fs) = frags_size fs"
  by (induction fs) simp_all

lemma skip_offset_spec:
  "skip_offset fs offset = (pre, rest, offset') \<Longrightarrow>
     fs = pre @ rest \<and> offset = frags_size pre + offset' \<and> (rest \<noteq> [] \<longrightarrow> offset' < fsize (hd rest))"
proof (induction fs arbitrary: offset pre rest offset')
  case (Cons f fs)
  show ?case
  proof (cases "fsize f \<le> offset")
    case True
    with Cons.prems obtain pre' where "skip_offset fs (offset - fsize f) = (pre', rest, offset')" "pre = f # pre'"
      by (auto split: prod.splits)
    with Cons.IH [of "offset - fsize f" pre' rest offset'] True show ?thesis by auto
  qed (use Cons.prems in auto)
qed simp

lemma skip_offset_within:
  assumes "skip_offset fs offset = (pre, rest, offset')" "offset < frags_size fs"
  obtains it its where "rest = it # its" "fs = pre @ it # its" "offset = frags_size pre + offset'"
    "offset' < fsize it"
  using skip_offset_spec [OF assms(1)] assms(2) by (cases rest) auto

lemma skip_offset_beyond:
  assumes "skip_offset fs offset = (pre, rest, offset')" "frags_size fs \<le> offset"
  shows "rest = []" "pre = fs"
  using skip_offset_spec [OF assms(1)] assms(2) by (cases rest; auto)+

lemma sub_sizes_exact: "frags_size fs \<le> sz \<Longrightarrow> sub_sizes fs sz = sz - frags_size fs"
  by (induction fs arbitrary: sz) auto

lemma dispose_all_live:
  "guard_inv (frags_guards fs + M) w \<Longrightarrow>
     \<exists>w'. dispose_all fs w = Some w' \<and> guard_inv M w' \<and> mem w' = mem w"
proof (induction fs arbitrary: w)
  case (Cons f fs)
  from Cons.prems have "guard_inv (add_mset (fguard f) (frags_guards fs + M)) w" by simp
  from guard_destroy_inv [OF this] obtain w1 where
    "guard_destroy (fguard f) w = Some w1" "guard_inv (frags_guards fs + M) w1" "mem w1 = mem w" by blast
  with Cons.IH [of w1] show ?case by (auto simp: fragment_deleter_def blob_destroy_def)
qed simp

lemma skip_all_live:
  "list_all fragment_ok fs \<Longrightarrow> guard_inv (frags_guards fs + M) w \<Longrightarrow>
     \<exists>fs' w'. skip_all fs w = Some (fs', w') \<and> list_all fragment_ok fs' \<and> frags_size fs' = 0 \<and>
       guard_inv (frags_guards fs' + M) w' \<and> mem w' = mem w"
proof (induction fs arbitrary: M w)
  case (Cons f fs)
  from Cons.prems have "fragment_ok f" and "guard_inv (add_mset (fguard f) (frags_guards fs + M)) w" by simp_all
  then obtain f' w1 where f': "fragment_skip_bytes (fsize f) f w = Some (min (fsize f) (fsize f), f', w1)"
    "fragment_ok f'" "fsize f' = fsize f - fsize f"
    "guard_inv (add_mset (fguard f') (frags_guards fs + M)) w1" "mem w1 = mem w"
    by (rule fragment_skip_live [where len = "fsize f"]) blast
  then have "guard_inv (frags_guards fs + (add_mset (fguard f') M)) w1" by simp
  with Cons.IH [of "add_mset (fguard f') M" w1] Cons.prems(1) obtain fs' w2 where
    "skip_all fs w1 = Some (fs', w2)" "list_all fragment_ok fs'" "frags_size fs' = 0"
    "guard_inv (frags_guards fs' + add_mset (fguard f') M) w2" "mem w2 = mem w1" by auto
  with f' show ?case by simp
qed simp

lemma frags_size_0_content: "frags_size fs = 0 \<Longrightarrow> frags_content m fs = []"
  by (metis length_0_conv length_frags_content)

lemma buffer_skip_bytes_live:
  assumes "buffer_ok b" "guard_inv (buffer_guards b + M) w"
  shows "\<exists>b' w'. buffer_skip_bytes sz free b w = Some (b', w') \<and> buffer_ok b' \<and>
           buffer_content m b' = drop sz (buffer_content m b) \<and> bufsize b' = bufsize b - sz \<and>
           guard_inv (buffer_guards b' + M) w' \<and> mem w' = mem w"
proof (cases "buffer_empty b")
  case True
  with assms show ?thesis by (simp add: buffer_skip_bytes_def buffer_empty_def buffer_ok_def)
next
  case ne: False
  obtain pre rest off where so: "skip_offset (frags b) sz = (pre, rest, off)" by (metis prod_cases3)
  show ?thesis
  proof (cases "frags_size (frags b) \<le> sz")
    case True
    note beyond = skip_offset_beyond [OF so True]
    from assms dispose_all_live [of pre M w] skip_all_live [of pre M w] beyond so ne True show ?thesis
      by (cases free) (auto simp: buffer_skip_bytes_def buffer_ok_def frags_size_0_content)
  next
    case False
    then obtain it its where r: "rest = it # its" "frags b = pre @ it # its" "sz = frags_size pre + off"
      "off < fsize it" using skip_offset_within [OF so] by auto
    have "fragment_ok it" and "guard_inv (add_mset (fguard it) (frags_guards (pre @ its) + M)) w"
      using assms r by (auto simp: buffer_ok_def ac_simps)
    then obtain it' w1 where it': "fragment_skip_bytes off it w = Some (min (fsize it) off, it', w1)"
      "fragment_ok it'" "fsize it' = fsize it - off"
      "\<And>m. fragment_content m it' = drop off (fragment_content m it)"
      "guard_inv (add_mset (fguard it') (frags_guards (pre @ its) + M)) w1" "mem w1 = mem w"
      by (rule fragment_skip_live [where len = off]) blast
    have nonempty: "\<not> fragment_empty it'" using it'(3) r(4) by (simp add: fragment_empty_def)
    have inv1: "guard_inv (frags_guards pre + (frags_guards (it' # its) + M)) w1"
      using it'(5) by (simp add: ac_simps)
    have ok: "list_all fragment_ok pre" "list_all fragment_ok (it' # its)"
      using assms(1) r(2) it'(2) by (auto simp: buffer_ok_def)
    note facts = so r it' nonempty ok ne assms(1)
    show ?thesis
    proof (cases free)
      case True
      with dispose_all_live [OF inv1] facts show ?thesis
        by (auto simp: buffer_skip_bytes_def buffer_ok_def)
    next
      case False
      from skip_all_live [OF ok(1) inv1] obtain pre2 w2 where p2: "skip_all pre w1 = Some (pre2, w2)"
        "list_all fragment_ok pre2" "frags_size pre2 = 0"
        "guard_inv (frags_guards pre2 + (frags_guards (it' # its) + M)) w2" "mem w2 = mem w1" by blast
      with False facts have "buffer_skip_bytes sz free b w =
          Some (\<lparr>frags = pre2 @ it' # its, bufsize = bufsize b - sz\<rparr>, w2)"
        by (simp add: buffer_skip_bytes_def buffer_ok_def)
      with facts p2 show ?thesis
        by (auto simp: buffer_ok_def frags_size_0_content add.assoc)
    qed
  qed
qed

lemma ignore_all_simps:
  "list_all fragment_ok fs \<Longrightarrow> list_all fragment_ok (ignore_all fs)" "frags_size (ignore_all fs) = 0"
  "frags_guards (ignore_all fs) = frags_guards fs"
  by (induction fs) (auto simp: ignore_all_def fragment_ignore_bytes_at_end_def fragment_ok_def Let_def)

lemma buffer_ignore_live:
  assumes "buffer_ok b" "guard_inv (buffer_guards b + M) w"
  shows "\<exists>b' w'. buffer_ignore_bytes_at_end sz free b w = Some (b', w') \<and> buffer_ok b' \<and>
           buffer_content m b' = take (bufsize b - sz) (buffer_content m b) \<and>
           bufsize b' = bufsize b - sz \<and> guard_inv (buffer_guards b' + M) w' \<and> mem w' = mem w"
proof (cases "buffer_empty b")
  case True
  with assms show ?thesis by (simp add: buffer_ignore_bytes_at_end_def buffer_empty_def buffer_ok_def)
next
  case ne: False
  obtain pre rest off where so: "skip_offset (rev (frags b)) sz = (pre, rest, off)" by (metis prod_cases3)
  show ?thesis
  proof (cases "frags_size (frags b) \<le> sz")
    case True
    then have beyond: "rest = []" "pre = rev (frags b)" using skip_offset_beyond [OF so] by simp_all
    have ok: "list_all fragment_ok (rev (ignore_all (rev (frags b))))"
      using assms(1) ignore_all_simps(1) [of "rev (frags b)"] by (auto simp: buffer_ok_def list_all_iff)
    from assms dispose_all_live [of "frags b" M w] beyond so ne True ok show ?thesis
      by (cases free) (auto simp: buffer_ignore_bytes_at_end_def buffer_ok_def ignore_all_simps frags_size_0_content)
  next
    case False
    then obtain it its where r: "rest = it # its" "rev (frags b) = pre @ it # its" "sz = frags_size pre + off"
      "off < fsize it" using skip_offset_within [OF so] by auto
    have fb: "frags b = rev its @ it # rev pre"
      using r(2) by (metis append_assoc append_Cons append_Nil rev_append rev_rev_ident rev.simps(2))
    obtain n it' where ig: "fragment_ignore_bytes_at_end off it = (n, it')" by force
    note it' = fragment_ignore_effect [OF ig]
    let ?tail = "if free then [] else rev (ignore_all pre)"
    obtain w' where w': "guard_inv (frags_guards (rev its @ it' # ?tail) + M) w'" "mem w' = mem w"
      "buffer_ignore_bytes_at_end sz free b w =
         Some (\<lparr>frags = rev its @ it' # ?tail, bufsize = bufsize b - sz\<rparr>, w')"
    proof (cases free)
      case True
      have "guard_inv (frags_guards (rev pre) + (frags_guards (rev its @ [it']) + M)) w"
        using assms(2) it'(3) by (simp add: fb ac_simps)
      from dispose_all_live [OF this] True that so r ig ne assms(1) fb show ?thesis
        by (auto simp: buffer_ignore_bytes_at_end_def buffer_ok_def ac_simps)
    next
      case False
      with that [of w] so r ig ne assms it'(3) fb show ?thesis
        by (auto simp: buffer_ignore_bytes_at_end_def buffer_ok_def ignore_all_simps ac_simps)
    qed
    have ok: "list_all fragment_ok (rev its @ it' # ?tail)"
      using assms(1) it'(4) ignore_all_simps(1) [of pre] by (auto simp: buffer_ok_def fb list_all_iff)
    have sz: "frags_size ?tail = 0" by (simp add: ignore_all_simps)
    have "frags_content m (rev its @ it' # ?tail) = take (bufsize b - sz) (buffer_content m b)"
      using assms(1) r(3,4) it'(5) [of m]
      by (simp add: fb frags_size_0_content [OF sz] buffer_ok_def)
    with w' ok sz it'(2) r(3,4) assms(1) show ?thesis by (auto simp: buffer_ok_def fb)
  qed
qed

text \<open>Splitting: the first \<open>sz\<close> bytes go to the new buffer, the rest stay.\<close>

lemma buffer_split_live:
  assumes "buffer_ok b" "guard_inv (buffer_guards b + M) w" "guard_room 1 (buffer_guards b + M) w"
    and "frags b \<noteq> []" "0 < sz"
  shows "\<exists>n b' w'. buffer_split sz b w = Some (Some n, b', w') \<and> buffer_ok n \<and> buffer_ok b' \<and>
           buffer_content m n = take sz (buffer_content m b) \<and>
           buffer_content m b' = drop sz (buffer_content m b) \<and>
           guard_inv (buffer_guards n + buffer_guards b' + M) w' \<and> mem w' = mem w"
proof (cases "bufsize b < sz")
  case True
  with assms show ?thesis
    by (auto simp: buffer_split_def buffer_empty_def buffer_default_def buffer_ok_def)
next
  case le: False
  obtain pre rest off where so: "skip_offset (frags b) sz = (pre, rest, off)" by (metis prod_cases3)
  note spec = skip_offset_spec [OF so]
  have sz: "bufsize b = frags_size (frags b)" "bufsize b < 2 ^ 63" using assms(1) by (auto simp: buffer_ok_def)
  show ?thesis
  proof (cases "off = 0")
    case True
    with spec le so sz have "buffer_split sz b w =
        Some (Some (buffer_of_list pre sz), \<lparr>frags = rest, bufsize = bufsize b - sz\<rparr>, w)"
      using assms(4,5) by (simp add: buffer_split_def buffer_empty_def sub_sizes_exact)
    with spec True assms(1,2) sz show ?thesis by (auto simp: buffer_of_list_def buffer_ok_def)
  next
    case False
    then have "rest \<noteq> []" using spec le sz by auto
    then obtain it its where r: "rest = it # its" "frags b = pre @ it # its" "sz = frags_size pre + off"
      "off < fsize it" using spec by (cases rest) auto
    let ?M = "frags_guards (pre @ its) + M"
    have gs: "buffer_guards b + M = add_mset (fguard it) ?M" by (simp add: r)
    have okit: "fragment_ok it" using assms(1) r by (simp add: buffer_ok_def)
    have inv: "guard_inv (add_mset (fguard it) ?M) w" "guard_room (Suc 0) (add_mset (fguard it) ?M) w"
      using assms(2,3) by (simp_all only: gs One_nat_def)
    have nz: "\<not> (off = 0 \<and> fragment_headroom it = 0)" using False by simp
    obtain nd it' w' where s: "fragment_split off it w = Some (Some nd, it', w')"
      "fragment_ok nd" "fragment_ok it'" "fsize nd = fsize it - off" "fsize it' = off"
      "\<And>m. fragment_content m it' = take off (fragment_content m it)"
      "\<And>m. fragment_content m nd = drop off (fragment_content m it)"
      "guard_inv (add_mset (fguard nd) (add_mset (fguard it') ?M)) w'" "mem w' = mem w"
      by (rule fragment_split_live [OF okit r(4) nz inv]) metis
    have "buffer_split sz b w = Some (Some (buffer_of_list (pre @ [it']) sz),
        \<lparr>frags = nd # its, bufsize = bufsize b - sz\<rparr>, w')"
      using so r s(1,5) False le sz by (simp add: buffer_split_def buffer_empty_def sub_sizes_exact)
    moreover have "buffer_ok (buffer_of_list (pre @ [it']) sz)"
      and "buffer_ok \<lparr>frags = nd # its, bufsize = bufsize b - sz\<rparr>"
      using s(2-5) r sz assms(1) by (auto simp: buffer_of_list_def buffer_ok_def)
    moreover have "guard_inv (frags_guards (pre @ [it']) + frags_guards (nd # its) + M) w'"
      using s(8) by (simp add: ac_simps)
    ultimately show ?thesis using s(6) [of m] s(7) [of m] s(9) r(2,3,4)
      by (intro exI [of _ "buffer_of_list (pre @ [it']) sz"]
            exI [of _ "\<lparr>frags = nd # its, bufsize = bufsize b - sz\<rparr>"] exI [of _ w'])
         (simp add: buffer_of_list_def)
  qed
qed

text \<open>Reading into a range that does not overlap the buffer's data.\<close>

definition apart :: "addr \<Rightarrow> usize \<Rightarrow> fragment list \<Rightarrow> bool" where
  "apart p n fs \<longleftrightarrow> (\<forall>f \<in> set fs. fsize f = 0 \<or> p + n \<le> fhead f \<or> fhead f + fsize f \<le> p)"

lemma apart_store: "apart p (length bs) fs \<Longrightarrow> frags_content (store m p bs) fs = frags_content m fs"
  by (induction fs) (auto simp: apart_def fragment_content_def load_store_other)

lemma apart_part: "apart p n fs \<Longrightarrow> k + j \<le> n \<Longrightarrow> apart (p + k) j fs"
  by (fastforce simp: apart_def)

lemma apart_Cons: "apart p n (f # fs) \<Longrightarrow> apart p n fs"
  by (simp add: apart_def)

lemma buffer_read_loop_fills:
  assumes "apart (rdata r) (rsize r) fs" "0 < rsize r" "rsize r < 2 ^ 63"
    and "fs \<noteq> [] \<longrightarrow> off \<le> fsize (hd fs)"
  shows "\<exists>r1. let d = drop off (frags_content (mem w) fs); n = min (rsize r) (length d) in
     buffer_read_loop fs r off w = Some (r1, w\<lparr>mem := store (mem w) (rdata r) (take n d)\<rparr>) \<and>
     rsize r1 = rsize r - n"
  using assms
proof (induction fs arbitrary: r off w)
  case (Cons f fs)
  let ?d = "drop off (fragment_content (mem w) f)" and ?k = "min (rsize r) (fsize f - off)"
  let ?w = "w\<lparr>mem := store (mem w) (rdata r) (take ?k ?d)\<rparr>"
  obtain n w1 where rd: "fragment_read r off f w = (n, w1)" by force
  note eff = fragment_read_effect [OF rd]
  have "length (take ?k ?d) \<le> rsize r" by simp
  with apart_part [OF apart_Cons [OF Cons.prems(1)], of 0 "length (take ?k ?d)"]
  have ap: "apart (rdata r) (length (take ?k ?d)) fs" by (simp only: add_0 add_0_right)
  have same: "frags_content (mem ?w) fs = frags_content (mem w) fs" using apart_store [OF ap] by simp
  have off: "off \<le> fsize f" using Cons.prems(4) by simp
  have sub: "br_subrange r n usize_max = Some (if rsize r \<le> n then br_null
      else \<lparr>rdata = rdata r + n, rsize = rsize r - n\<rparr>)"
    using Cons.prems(3) by (rule br_subrange_default)
  show ?case
  proof (cases "rsize r \<le> n")
    case True
    with rd eff sub off Cons.prems show ?thesis
      by (auto simp: Let_def br_empty_def intro!: exI [of _ br_null])
  next
    case False
    let ?r = "\<lparr>rdata = rdata r + n, rsize = rsize r - n\<rparr>"
    have "apart (rdata ?r) (rsize ?r) fs"
      using apart_part [OF apart_Cons [OF Cons.prems(1)], of n "rsize r - n"] False by simp
    moreover have "0 < rsize ?r" "rsize ?r < 2 ^ 63" using False Cons.prems(3) by simp_all
    ultimately obtain r1 where
      r1: "buffer_read_loop fs ?r 0 w1 = Some (r1, w1\<lparr>mem := store (mem w1) (rdata r + n)
             (take (min (rsize r - n) (frags_size fs)) (frags_content (mem w1) fs))\<rparr>)"
        "rsize r1 = rsize r - n - min (rsize r - n) (frags_size fs)"
      using Cons.IH [of ?r 0 w1] by (auto simp: Let_def)
    have n: "n = fsize f - off" using False eff(1) by auto
    then have d: "take n ?d = ?d" "length ?d = n" by simp_all
    have m: "mem w1 = store (mem w) (rdata r) ?d" "frags_content (mem w1) fs = frags_content (mem w) fs"
      using eff(2) same d(1) eff(1) by (simp_all)
    have w1: "w1\<lparr>mem := x\<rparr> = w\<lparr>mem := x\<rparr>" for x using eff(2) by simp
    let ?T = "take (min (rsize r - n) (frags_size fs)) (frags_content (mem w) fs)"
    have whole: "drop off (frags_content (mem w) (f # fs)) = ?d @ frags_content (mem w) fs" using off by simp
    have len: "min (rsize r) (length (?d @ frags_content (mem w) fs)) = n + min (rsize r - n) (frags_size fs)"
      using False d(2) by (auto simp: min_def)
    have part: "take (n + min (rsize r - n) (frags_size fs)) (?d @ frags_content (mem w) fs) = ?d @ ?T"
      using d(2) by simp
    have "buffer_read_loop (f # fs) r off w = buffer_read_loop fs ?r 0 w1"
      using rd sub False by (simp add: br_empty_def)
    also have "\<dots> = Some (r1, w\<lparr>mem := store (mem w) (rdata r) (?d @ ?T)\<rparr>)"
      using r1(1) unfolding m(2) unfolding m(1) w1 by (simp only: store_store_append [of "mem w" "rdata r" ?d ?T, unfolded d(2)])
    finally show ?thesis
      using r1(2) unfolding Let_def whole len part by (auto intro: exI [of _ r1])
  qed
qed simp

lemma buffer_read_live:
  fixes offset :: usize
  assumes "buffer_ok b" "apart (rdata r) (rsize r) (frags b)" "rsize r < 2 ^ 63"
  defines "n \<equiv> min (rsize r) (bufsize b - offset)"
  shows "buffer_read r offset b w =
    Some (n, w\<lparr>mem := store (mem w) (rdata r) (take n (drop offset (buffer_content (mem w) b)))\<rparr>)"
proof (cases "buffer_empty b \<or> br_empty r \<or> bufsize b \<le> offset")
  case True
  then have "n = 0" using assms(1) by (auto simp: n_def buffer_empty_def br_empty_def buffer_ok_def)
  with True show ?thesis by (auto simp: buffer_read_def)
next
  case False
  obtain pre rest off where so: "skip_offset (frags b) offset = (pre, rest, off)" by (metis prod_cases3)
  have sz: "bufsize b = frags_size (frags b)" using assms(1) by (simp add: buffer_ok_def)
  with False obtain it its where r: "rest = it # its" "frags b = pre @ it # its"
    "offset = frags_size pre + off" "off < fsize it"
    using skip_offset_within [OF so] by (metis linorder_not_le)
  have "apart (rdata r) (rsize r) rest" using assms(2) r by (simp add: apart_def)
  moreover have nonempty: "0 < rsize r" using False by (simp add: br_empty_def)
  moreover have "length (drop off (frags_content (mem w) rest)) = bufsize b - offset" using r sz by simp
  ultimately obtain r1 where "buffer_read_loop rest r off w = Some (r1, w\<lparr>mem := store (mem w) (rdata r)
      (take n (drop off (frags_content (mem w) rest)))\<rparr>)" "rsize r1 = rsize r - n"
    using buffer_read_loop_fills [of r rest off w] nonempty assms(3) r(1,4)
    by (auto simp only: Let_def n_def list.sel dest: less_imp_le)
  moreover have "drop offset (buffer_content (mem w) b) = drop off (frags_content (mem w) rest)"
    using r by simp
  ultimately show ?thesis using False so by (simp add: buffer_read_def n_def)
qed


section \<open>Appending, cloning and coalescing\<close>

text \<open>Writing goes behind the last fragment's data, as far as its tailroom reaches.\<close>

lemma buffer_write_live:
  assumes "buffer_ok b" "frags b \<noteq> []" "bufsize b + rsize r < 2 ^ 63"
    and "apart (fragment_tail (last (frags b))) (rsize r) (butlast (frags b))"
    and "buffer_write r b w = (n, b', w')"
  shows "n = min (rsize r) (buffer_tailroom b) \<and> buffer_ok b' \<and> bufsize b' = bufsize b + n \<and>
    buffer_content (mem w') b' = buffer_content (mem w) b @ load (mem w) (rdata r) n \<and>
    buffer_guards b' = buffer_guards b \<and>
    w' = w\<lparr>mem := store (mem w) (fragment_tail (last (frags b))) (load (mem w) (rdata r) n)\<rparr>"
proof -
  obtain fs f where fb: "frags b = fs @ [f]" using assms(2) by (metis append_butlast_last_id)
  have ok: "fragment_ok f" using assms(1) fb by (simp add: buffer_ok_def)
  show ?thesis
  proof (cases "br_empty r")
    case True
    then show ?thesis using assms by (auto simp: buffer_write_def br_empty_def)
  next
    case False
    obtain k f' w1 where fw: "fragment_write r f w = (k, f', w1)" by (metis prod_cases3)
    note eff = fragment_write_effect [OF ok fw]
    have k: "k \<le> rsize r" using eff(1) by simp
    have res: "n = k" "b' = \<lparr>frags = fs @ [f'], bufsize = bufsize b + k\<rparr>" "w' = w1"
      using assms(2,3,5) False fw fb k by (auto simp: buffer_write_def buffer_empty_def)
    have "apart (fhead f + fsize f) (length (load (mem w) (rdata r) k)) fs"
      using apart_part [OF assms(4), of 0 k] k fb by (simp add: fragment_tail_def)
    then have "frags_content (mem w1) fs = frags_content (mem w) fs"
      using apart_store by (simp add: eff(7))
    moreover have "buffer_ok b'" using res eff assms(1,3) k fb by (simp add: buffer_ok_def)
    ultimately show ?thesis
      using res eff fb by (simp add: buffer_tailroom_def fragment_tail_def)
  qed
qed

lemma clone_all_live:
  "list_all fragment_ok fs \<Longrightarrow> guard_inv (frags_guards fs + M) w \<Longrightarrow>
   guard_room (length fs + k) (frags_guards fs + M) w \<Longrightarrow>
     \<exists>cs fs' w'. clone_all fs w = Some (cs, fs', w') \<and> list_all fragment_ok cs \<and> list_all fragment_ok fs' \<and>
       map fsize cs = map fsize fs \<and> map fsize fs' = map fsize fs \<and>
       map fhead cs = map fhead fs \<and> map fhead fs' = map fhead fs \<and>
       guard_inv (frags_guards cs + frags_guards fs' + M) w' \<and> mem w' = mem w"
proof (induction fs arbitrary: M w)
  case (Cons f fs)
  let ?M = "frags_guards fs + M"
  have "fragment_ok f" "guard_inv (add_mset (fguard f) ?M) w"
    "guard_room (Suc (length fs + k)) (add_mset (fguard f) ?M) w" using Cons.prems by simp_all
  then obtain c f' w1 where c: "fragment_clone f w = Some (c, f', w1)" "fragment_ok c" "fragment_ok f'"
    "fhead c = fhead f" "fsize c = fsize f" "fhead f' = fhead f" "fsize f' = fsize f"
    "guard_inv (add_mset (fguard c) (add_mset (fguard f') ?M)) w1"
    "guard_room (length fs + k) (add_mset (fguard c) (add_mset (fguard f') ?M)) w1" "mem w1 = mem w"
    by (rule fragment_clone_live) metis
  let ?M1 = "add_mset (fguard c) (add_mset (fguard f') M)"
  have "guard_inv (frags_guards fs + ?M1) w1" "guard_room (length fs + k) (frags_guards fs + ?M1) w1"
    using c(8,9) by simp_all
  with Cons.IH [of ?M1 w1] Cons.prems(1) obtain cs fs' w2 where
    "clone_all fs w1 = Some (cs, fs', w2)" "list_all fragment_ok cs" "list_all fragment_ok fs'"
    "map fsize cs = map fsize fs" "map fsize fs' = map fsize fs"
    "map fhead cs = map fhead fs" "map fhead fs' = map fhead fs"
    "guard_inv (frags_guards cs + frags_guards fs' + ?M1) w2" "mem w2 = mem w1" by auto
  with c show ?case by (simp add: add_mset_commute)
qed simp

lemma frags_content_windows: "frags_content m fs = concat (map2 (load m) (map fhead fs) (map fsize fs))"
  by (induction fs) (simp_all add: fragment_content_def)

lemma frags_content_cong:
  "map fsize cs = map fsize fs \<Longrightarrow> map fhead cs = map fhead fs \<Longrightarrow> frags_content m cs = frags_content m fs"
  by (simp only: frags_content_windows)

lemma frags_size_cong: "map fsize cs = map fsize fs \<Longrightarrow> frags_size cs = frags_size fs"
  by (simp add: frags_size_def)

lemma buffer_clone_live:
  assumes "buffer_ok b" "guard_inv (buffer_guards b + M) w"
    and "guard_room (length (frags b)) (buffer_guards b + M) w"
  shows "\<exists>c b' w'. buffer_clone b w = Some (c, b', w') \<and> buffer_ok c \<and> buffer_ok b' \<and>
    (\<forall>m. buffer_content m c = buffer_content m b \<and> buffer_content m b' = buffer_content m b) \<and>
    guard_inv (buffer_guards c + buffer_guards b' + M) w' \<and> mem w' = mem w"
proof -
  have "list_all fragment_ok (frags b)" "guard_room (length (frags b) + 0) (buffer_guards b + M) w"
    using assms by (simp_all add: buffer_ok_def)
  from clone_all_live [OF this(1) assms(2) this(2)] obtain cs fs w' where
    c: "clone_all (frags b) w = Some (cs, fs, w')" "list_all fragment_ok cs" "list_all fragment_ok fs"
    "map fsize cs = map fsize (frags b)" "map fsize fs = map fsize (frags b)"
    "map fhead cs = map fhead (frags b)" "map fhead fs = map fhead (frags b)"
    "guard_inv (frags_guards cs + frags_guards fs + M) w'" "mem w' = mem w" by blast
  have sizes: "frags_size cs = frags_size (frags b)" "frags_size fs = frags_size (frags b)"
    using c(4,5) by (auto intro: frags_size_cong)
  have content: "frags_content m cs = frags_content m (frags b)" "frags_content m fs = frags_content m (frags b)" for m
    using c(4-7) by (auto intro: frags_content_cong)
  show ?thesis
    using assms(1) c(1,2,3,8,9) sizes content by (simp add: buffer_clone_def buffer_of_list_def buffer_ok_def)
qed

text \<open>The copying loop of \<^verbatim>\<open>coalesce\<close> stores the fragments it passes behind the one written to.\<close>

lemma coalesce_loop_effect:
  assumes "fragment_ok wr" "n \<le> fragment_tailroom wr" "apart (fragment_tail wr) n its"
    and "coalesce_loop wr its n w = (wr', gone, left, n', w')"
  shows "its = gone @ left \<and> n = frags_size gone + n' \<and> (left \<noteq> [] \<longrightarrow> n' < fsize (hd left)) \<and>
    wr' = wr\<lparr>fsize := fsize wr + frags_size gone\<rparr> \<and> fragment_ok wr' \<and> n' \<le> fragment_tailroom wr' \<and>
    w' = w\<lparr>mem := store (mem w) (fragment_tail wr) (frags_content (mem w) gone)\<rparr>"
  using assms
proof (induction its arbitrary: wr n gone w)
  case Nil
  then show ?case by auto
next
  case (Cons it its)
  show ?case
  proof (cases "fsize it \<le> n")
    case False
    with Cons.prems show ?thesis by auto
  next
    case True
    obtain k wr1 w1 where fw: "fragment_write (fragment_data_range it) wr w = (k, wr1, w1)" by (metis prod_cases3)
    note eff = fragment_write_effect [OF Cons.prems(1) fw]
    have k: "k = fsize it" using eff(1) True Cons.prems(2) by (simp add: fragment_data_range_def)
    obtain g where rec: "coalesce_loop wr1 its (n - fsize it) w1 = (wr', g, left, n', w')" "gone = it # g"
      using Cons.prems(4) True fw k by (auto split: prod.splits)
    have wr1: "wr1 = wr\<lparr>fsize := fsize wr + fsize it\<rparr>"
      using fw eff(3) k by (auto simp: fragment_write_def Let_def)
    have w1: "w1 = w\<lparr>mem := store (mem w) (fragment_tail wr) (fragment_content (mem w) it)\<rparr>"
      using eff(7) k by (simp add: fragment_tail_def fragment_content_def fragment_data_range_def)
    have tl: "fragment_tail wr1 = fragment_tail wr + fsize it" by (simp add: wr1 fragment_tail_def)
    have room: "n - fsize it \<le> fragment_tailroom wr1"
      using Cons.prems(2) fragment_rooms(3) [OF eff(2)] fragment_rooms(3) [OF Cons.prems(1)]
        fragment_rooms(1) [OF eff(2)] fragment_rooms(1) [OF Cons.prems(1)] by (simp add: wr1)
    have ap: "apart (fragment_tail wr1) (n - fsize it) its"
      using apart_part [OF apart_Cons [OF Cons.prems(3)], of "fsize it" "n - fsize it"] True by (simp add: tl)
    from Cons.IH [OF eff(2) room ap rec(1)] have IH: "its = g @ left" "n - fsize it = frags_size g + n'"
      "left \<noteq> [] \<longrightarrow> n' < fsize (hd left)" "wr' = wr1\<lparr>fsize := fsize wr1 + frags_size g\<rparr>" "fragment_ok wr'"
      "n' \<le> fragment_tailroom wr'"
      "w' = w1\<lparr>mem := store (mem w1) (fragment_tail wr1) (frags_content (mem w1) g)\<rparr>" by auto
    have "apart (fragment_tail wr) (length (fragment_content (mem w) it)) its"
      using apart_part [OF apart_Cons [OF Cons.prems(3)], of 0 "fsize it"] True by simp
    then have "frags_content (mem w1) g = frags_content (mem w) g"
      using apart_store [of "fragment_tail wr" "fragment_content (mem w) it" g "mem w"] IH(1)
      by (auto simp: w1 apart_def)
    then have "w' = w\<lparr>mem := store (mem w) (fragment_tail wr) (frags_content (mem w) gone)\<rparr>"
      using IH(7) store_store_append [of "mem w" "fragment_tail wr" "fragment_content (mem w) it"]
      by (simp add: w1 tl rec(2))
    then show ?thesis using IH rec(2) True by (auto simp: wr1)
  qed
qed

text \<open>Moving the first bytes of a fragment behind the data of the one before it keeps the content.\<close>

lemma move_head_live:
  assumes ok: "fragment_ok wr" "fragment_ok it" and n: "0 < n" "n < fsize it" "n \<le> fragment_tailroom wr"
    and ap: "apart (fragment_tail wr) n (pre @ it # rest)"
    and inv: "guard_inv (frags_guards (pre @ wr # it # rest) + M) w"
  shows "\<exists>r wr2 w3 it' w4. br_subrange (fragment_data_range it) 0 n = Some r \<and> fragment_write r wr w = (n, wr2, w3) \<and>
    fragment_skip_bytes n it w3 = Some (n, it', w4) \<and> fsize wr2 = fsize wr + n \<and> fsize it' = fsize it - n \<and>
    fragment_ok wr2 \<and> fragment_ok it' \<and>
    frags_content (mem w4) (pre @ wr2 # it' # rest) = frags_content (mem w) (pre @ wr # it # rest) \<and>
    guard_inv (frags_guards (pre @ wr2 # it' # rest) + M) w4"
proof -
  have sub: "br_subrange (fragment_data_range it) 0 n = Some \<lparr>rdata = fhead it, rsize = n\<rparr>" (is "_ = Some ?r")
    using n ok(2) br_subrange_inside [of 0 "fragment_data_range it" n] by (simp add: fragment_data_range_def fragment_ok_def)
  obtain k wr2 w3 where fw: "fragment_write ?r wr w = (k, wr2, w3)" by (metis prod_cases3)
  note weff = fragment_write_effect [OF ok(1) fw]
  have k: "k = n" using weff(1) n(3) by simp
  have same: "frags_content (mem w3) fs = frags_content (mem w) fs" if "apart (fragment_tail wr) n fs" for fs
    using apart_store [of "fragment_tail wr" "load (mem w) (fhead it) n" fs] that by (simp add: weff(7) k fragment_tail_def)
  have "guard_inv (add_mset (fguard it) (frags_guards (pre @ wr2 # rest) + M)) w3"
    using inv weff(5) by (simp add: weff(7) guard_inv_mem ac_simps add_mset_commute)
  then obtain it' w4 where it': "fragment_skip_bytes n it w3 = Some (min (fsize it) n, it', w4)"
    "fragment_ok it'" "fsize it' = fsize it - n" "\<And>m. fragment_content m it' = drop n (fragment_content m it)"
    "guard_inv (add_mset (fguard it') (frags_guards (pre @ wr2 # rest) + M)) w4" "mem w4 = mem w3"
    by (rule fragment_skip_live [OF ok(2), where len = n]) metis
  have "fragment_content (mem w3) it = fragment_content (mem w) it" using same [of "[it]"] ap by (simp add: apart_def)
  moreover have "fragment_content (mem w3) wr2 = fragment_content (mem w) wr @ take n (fragment_content (mem w) it)"
    using weff(4) k n(2) by (simp add: fragment_content_def min_def split: if_splits)
  moreover have "frags_content (mem w3) pre = frags_content (mem w) pre" "frags_content (mem w3) rest = frags_content (mem w) rest"
    using same [of pre] same [of rest] ap by (simp_all add: apart_def)
  ultimately have "frags_content (mem w4) (pre @ wr2 # it' # rest) = frags_content (mem w) (pre @ wr # it # rest)"
    using it'(4,6) by simp
  moreover have "guard_inv (frags_guards (pre @ wr2 # it' # rest) + M) w4" using it'(5) by (simp add: ac_simps add_mset_commute)
  ultimately show ?thesis using sub fw k weff(2,3) it'(1-3) n(2) by (auto simp: min_def)
qed

lemma coalesce_into_live:
  assumes ok: "fragment_ok wr" "list_all fragment_ok pre" "list_all fragment_ok its"
    and len: "fsize wr \<le> len" "len - fsize wr \<le> frags_size its" "len - fsize wr \<le> fragment_tailroom wr"
    and ap: "apart (fragment_tail wr) (len - fsize wr) (pre @ its)"
    and tot: "tot = frags_size (pre @ wr # its)" "tot < 2 ^ 63"
    and inv: "guard_inv (frags_guards (pre @ wr # its) + M) w"
  shows "\<exists>b' w' wr' left. coalesce_into pre wr its len tot w = Some (len, b', w') \<and>
    frags b' = pre @ wr' # left \<and> fsize wr' = len \<and> buffer_ok b' \<and> bufsize b' = tot \<and>
    buffer_content (mem w') b' = frags_content (mem w) (pre @ wr # its) \<and>
    guard_inv (buffer_guards b' + M) w'"
proof -
  define n where "n = len - fsize wr"
  obtain wr1 gone left n' w1 where lp: "coalesce_loop wr its n w = (wr1, gone, left, n', w1)" by (metis prod_cases5)
  have aps: "apart (fragment_tail wr) n its" "n \<le> fragment_tailroom wr" using ap len(3) by (simp_all add: apart_def n_def)
  have eff: "its = gone @ left" "n = frags_size gone + n'" "left \<noteq> [] \<longrightarrow> n' < fsize (hd left)"
    "wr1 = wr\<lparr>fsize := fsize wr + frags_size gone\<rparr>" "fragment_ok wr1" "n' \<le> fragment_tailroom wr1"
    "w1 = w\<lparr>mem := store (mem w) (fragment_tail wr) (frags_content (mem w) gone)\<rparr>"
    using coalesce_loop_effect [OF ok(1) aps(2,1) lp] by auto
  have apl: "apart (fragment_tail wr) n (pre @ left)" using ap unfolding n_def eff(1) by (simp add: apart_def ball_Un)
  have "apart (fragment_tail wr) (length (frags_content (mem w) gone)) (pre @ left)"
    using apart_part [OF apl, of 0 "frags_size gone"] eff(2) by simp
  from apart_store [OF this, of "mem w"] have same: "frags_content (mem w1) (pre @ left) = frags_content (mem w) (pre @ left)"
    by (simp add: eff(7))
  have "fragment_content (mem w1) wr1 = fragment_content (mem w) wr @ frags_content (mem w) gone"
    by (simp add: fragment_content_def eff(4,7) load_append load_store_other fragment_tail_def)
  with same have content: "frags_content (mem w1) (pre @ wr1 # left) = frags_content (mem w) (pre @ wr # its)"
    by (simp add: eff(1))
  have "guard_inv (frags_guards gone + (frags_guards (pre @ wr1 # left) + M)) w1"
    using inv by (simp add: eff(1,4,7) guard_inv_mem ac_simps)
  then obtain w2 where w2: "dispose_all gone w1 = Some w2"
    "guard_inv (frags_guards (pre @ wr1 # left) + M) w2" "mem w2 = mem w1" using dispose_all_live by blast
  have len': "len = fsize wr1 + n'" using eff(2,4) len(1) by (simp add: n_def)
  show ?thesis
  proof (cases "n' = 0")
    case True
    then have "coalesce_into pre wr its len tot w = Some (len, \<lparr>frags = pre @ wr1 # left, bufsize = tot\<rparr>, w2)"
      using lp w2(1) len(1) len' by (simp add: coalesce_into_def n_def)
    moreover have "buffer_ok \<lparr>frags = pre @ wr1 # left, bufsize = tot\<rparr>" using ok eff(1,4,5) tot by (simp add: buffer_ok_def)
    ultimately show ?thesis using True w2 content len' by auto
  next
    case False
    have "left \<noteq> []" using False eff(1,2) len(2) by (auto simp: n_def)
    then obtain it rest where l: "left = it # rest" "n' < fsize it" using eff(3) by (cases left) auto
    have "fragment_ok it" using ok(3) eff(1) l by simp
    moreover have "apart (fragment_tail wr1) n' (pre @ it # rest)"
      using apart_part [OF apl, of "frags_size gone" n'] eff(2,4) l(1) by (simp add: fragment_tail_def ac_simps)
    ultimately obtain r wr2 w3 it' w4 where m: "br_subrange (fragment_data_range it) 0 n' = Some r" "fragment_write r wr1 w2 = (n', wr2, w3)"
      "fragment_skip_bytes n' it w3 = Some (n', it', w4)" "fsize wr2 = fsize wr1 + n'" "fsize it' = fsize it - n'"
      "fragment_ok wr2" "fragment_ok it'" "frags_content (mem w4) (pre @ wr2 # it' # rest) = frags_content (mem w2) (pre @ wr1 # it # rest)"
      "guard_inv (frags_guards (pre @ wr2 # it' # rest) + M) w4"
      using move_head_live [OF eff(5) _ _ l(2) eff(6) _ w2(2) [unfolded l(1)]] False by blast
    let ?b = "\<lparr>frags = pre @ wr2 # it' # rest, bufsize = tot\<rparr>"
    have "coalesce_into pre wr its len tot w = Some (len, ?b, w4)"
      using lp w2(1) len(1) len' False l(1) m(1-4) by (simp add: coalesce_into_def n_def)
    moreover have "buffer_ok ?b" using ok m(4-7) l tot eff(1,4) by (simp add: buffer_ok_def)
    ultimately show ?thesis using m(4,8,9) content w2(3) l(1) len' by (intro exI [of _ ?b] exI [of _ w4] exI [of _ wr2] exI) auto
  qed
qed

end
