(* ===== verification/Fragment_String.thy ===== *)
theory Fragment_String
  imports Buffer
begin

text \<open>
  \<^verbatim>\<open>xi/io/fragment_string.h\<close> and \<^verbatim>\<open>src/io/fragment_string.cpp\<close>: an immutable string spread over
  fragments. \<^verbatim>\<open>memcmp\<close> only promises the sign of its result, so it is modelled by its sign. The
  size differences are computed in \<^verbatim>\<open>usize\<close> and truncated to \<^verbatim>\<open>i32\<close>.
\<close>

record fragment_string =
  sfrags :: "fragment list"
  ssize :: usize

definition fstr_of_list :: "fragment list \<Rightarrow> usize \<Rightarrow> fragment_string" where
  "fstr_of_list fs sz = \<lparr>sfrags = fs, ssize = sz\<rparr>"

definition fstr_of_fragment :: "fragment \<Rightarrow> world \<Rightarrow> (fragment_string \<times> world) option" where
  "fstr_of_fragment f w =
     (if fsize f = 0 \<and> fragment_headroom f = 0 \<and> fragment_tailroom f = 0
      then do { w' \<leftarrow> fragment_deleter f w; Some (\<lparr>sfrags = [], ssize = 0\<rparr>, w') }
      else Some (\<lparr>sfrags = [f], ssize = fsize f\<rparr>, w))"

definition fstr_destroy :: "fragment_string \<Rightarrow> world \<Rightarrow> world option" where
  "fstr_destroy s w = dispose_all (sfrags s) w"

definition fstr_empty :: "fragment_string \<Rightarrow> bool" where
  "fstr_empty s \<longleftrightarrow> sfrags s = []"

definition fstr_length :: "fragment_string \<Rightarrow> usize" where
  "fstr_length s = length (sfrags s)"

definition i32_of_usize :: "usize \<Rightarrow> int" where
  "i32_of_usize n = signed_take_bit 31 (int n)"

fun memcmp :: "u8 list \<Rightarrow> u8 list \<Rightarrow> int" where
  "memcmp (x # xs) (y # ys) = (if x = y then memcmp xs ys else if x < y then - 1 else 1)"
| "memcmp _ _ = 0"

fun compare_loop :: "memory \<Rightarrow> fragment list \<Rightarrow> u8 list \<Rightarrow> usize \<Rightarrow> usize \<Rightarrow> int" where
  "compare_loop m [] s offset tot = i32_of_usize (usub tot (length s))"
| "compare_loop m (f # fs) s offset tot =
     (if fsize f = 0 then compare_loop m fs s offset tot
      else let cap = min (fsize f) (usub (length s) offset);
               ret = memcmp (load m (fhead f) cap) (take cap (drop offset s))
           in if ret \<noteq> 0 then ret
              else if uadd offset cap = length s then i32_of_usize (usub tot (uadd offset cap))
              else compare_loop m fs s (uadd offset cap) tot)"

definition fstr_compare :: "u8 list \<Rightarrow> fragment_string \<Rightarrow> memory \<Rightarrow> int" where
  "fstr_compare s t m = (if length s = 0 then i32_of_usize (ssize t)
                         else compare_loop m (sfrags t) s 0 (ssize t))"

fun compare_pairs :: "memory \<Rightarrow> fragment list \<Rightarrow> fragment list \<Rightarrow> int option" where
  "compare_pairs m (f # fs) (g # gs) =
     (let cap = min (fsize f) (fsize g);
          ret = memcmp (load m (fhead f) cap) (load m (fhead g) cap)
      in if ret \<noteq> 0 then Some ret else if fsize f \<noteq> fsize g then None else compare_pairs m fs gs)"
| "compare_pairs m _ _ = None"

definition fstr_compare_fstr :: "fragment_string \<Rightarrow> fragment_string \<Rightarrow> memory \<Rightarrow> int" where
  "fstr_compare_fstr s t m =
     (if ssize s = 0 then i32_of_usize (ssize t)
      else case compare_pairs m (sfrags t) (sfrags s) of
             Some ret \<Rightarrow> ret
           | None \<Rightarrow> i32_of_usize (usub (ssize t) (ssize s)))"

fun fstr_copy_loop :: "memory \<Rightarrow> fragment list \<Rightarrow> usize \<Rightarrow> u8 list" where
  "fstr_copy_loop m [] sz = []"
| "fstr_copy_loop m (f # fs) sz =
     (if sz = 0 then []
      else let cap = min (fsize f) sz in load m (fhead f) cap @ fstr_copy_loop m fs (usub sz cap))"

definition fstr_copy_to_string :: "usize \<Rightarrow> fragment_string \<Rightarrow> memory \<Rightarrow> u8 list" where
  "fstr_copy_to_string sz t m = fstr_copy_loop m (sfrags t) sz"

definition fstr_for_each_byte :: "(u8 \<Rightarrow> 's \<Rightarrow> 's) \<Rightarrow> fragment_string \<Rightarrow> memory \<Rightarrow> 's \<Rightarrow> 's" where
  "fstr_for_each_byte f t m = fold (\<lambda>frag. fold f (load m (fhead frag) (fsize frag))) (sfrags t)"

text \<open>The comparison operators; \<^verbatim>\<open>operator>\<close> has the body of \<^verbatim>\<open>operator<\<close>.\<close>

definition fstr_less :: "fragment_string \<Rightarrow> fragment_string \<Rightarrow> memory \<Rightarrow> bool" where
  "fstr_less l r m \<longleftrightarrow> fstr_compare_fstr r l m < 0"

definition fstr_greater :: "fragment_string \<Rightarrow> fragment_string \<Rightarrow> memory \<Rightarrow> bool" where
  "fstr_greater l r m \<longleftrightarrow> fstr_compare_fstr r l m < 0"

definition fstr_eq :: "fragment_string \<Rightarrow> fragment_string \<Rightarrow> memory \<Rightarrow> bool" where
  "fstr_eq l r m \<longleftrightarrow> fstr_compare_fstr r l m = 0"

definition fstr_eq_ref :: "fragment_string \<Rightarrow> u8 list \<Rightarrow> memory \<Rightarrow> bool" where
  "fstr_eq_ref l r m \<longleftrightarrow> fstr_compare r l m = 0"

section \<open>Correctness of the comparison with a contiguous string\<close>

definition fstr_content :: "memory \<Rightarrow> fragment_string \<Rightarrow> u8 list" where
  "fstr_content m t = frags_content m (sfrags t)"

definition fstr_ok :: "fragment_string \<Rightarrow> bool" where
  "fstr_ok t \<longleftrightarrow> ssize t = frags_size (sfrags t) \<and> ssize t < 2 ^ 31"

lemma memcmp_eq_0: "length xs = length ys \<Longrightarrow> memcmp xs ys = 0 \<longleftrightarrow> xs = ys"
  by (induction xs ys rule: memcmp.induct) auto

lemma memcmp_append:
  "length xs = length ys \<Longrightarrow> memcmp (xs @ us) (ys @ vs) = (if xs = ys then memcmp us vs else memcmp xs ys)"
  by (induction xs ys rule: memcmp.induct) auto

lemma i32_of_usize_small: "n < 2 ^ 31 \<Longrightarrow> i32_of_usize n = int n"
  by (simp add: i32_of_usize_def signed_take_bit_int_eq_self)

lemma i32_of_usize_neg:
  assumes "0 < d" "d \<le> 2 ^ 31"
  shows "i32_of_usize (2 ^ 64 - d) = - int d"
proof -
  have "int (2 ^ 64 - d) = - int d + 2 ^ 32 * 2 ^ 32" using assms by simp
  moreover have "signed_take_bit 31 (- int d + 2 ^ 32 * 2 ^ 32) = signed_take_bit 31 (- int d)"
    unfolding signed_take_bit_eq_iff_take_bit_eq take_bit_eq_mod
    using mod_mult_self1 [of "- int d" "2 ^ 32" "2 ^ 32"] by simp
  moreover have "signed_take_bit 31 (- int d) = - int d"
    using assms by (intro signed_take_bit_int_eq_self) simp_all
  ultimately show ?thesis by (simp add: i32_of_usize_def)
qed

lemma i32_of_difference:
  assumes "a < 2 ^ 31" "b < 2 ^ 31"
  shows "i32_of_usize (usub a b) = int a - int b"
proof (cases "b \<le> a")
  case True
  with assms show ?thesis by (simp add: i32_of_usize_small)
next
  case False
  have "usub a b = 2 ^ 64 - (b - a)" using False assms by (simp add: usub_def)
  with False assms i32_of_usize_neg [of "b - a"] show ?thesis by simp
qed

text \<open>Byte-wise lexicographic order, a proper prefix first.\<close>

definition lex_compare :: "u8 list \<Rightarrow> u8 list \<Rightarrow> int" where
  "lex_compare xs ys = (let c = memcmp xs ys in if c \<noteq> 0 then c else int (length xs) - int (length ys))"

lemma lex_compare_eq_0: "lex_compare xs ys = 0 \<longleftrightarrow> xs = ys"
  by (auto simp: lex_compare_def Let_def memcmp_eq_0)

lemma memcmp_take: "memcmp xs ys = memcmp (take (length ys) xs) ys"
  by (induction xs ys rule: memcmp.induct) auto

lemma compare_loop_correct:
  assumes "offset \<le> length s" "length s < 2 ^ 31" "frags_size fs + offset = tot" "tot < 2 ^ 31"
    and "offset < length s"
  shows "compare_loop m fs s offset tot = lex_compare (frags_content m fs) (drop offset s)"
  using assms
proof (induction fs arbitrary: offset)
  case Nil
  then have "int (length (drop offset s)) = int (length s) - int tot" by (simp add: of_nat_diff)
  with Nil show ?case by (simp add: lex_compare_def i32_of_difference)
next
  case (Cons f fs)
  show ?case
  proof (cases "fsize f = 0")
    case True
    with Cons show ?thesis by (simp add: fragment_content_def)
  next
    case False
    define c where "c = fragment_content m f"
    have lc: "length c = fsize f" by (simp add: c_def)
    let ?d = "drop offset s"
    show ?thesis
    proof (cases "fsize f < length ?d")
      case True
      have t: "?d = take (fsize f) ?d @ drop (offset + fsize f) s" by (metis append_take_drop_id drop_drop add.commute)
      have "lex_compare (c @ frags_content m fs) ?d =
        (if c = take (fsize f) ?d then lex_compare (frags_content m fs) (drop (offset + fsize f) s)
         else memcmp c (take (fsize f) ?d))"
        using memcmp_append [of c "take (fsize f) ?d" "frags_content m fs" "drop (offset + fsize f) s"]
          memcmp_eq_0 [of c "take (fsize f) ?d"] True lc t
        by (auto simp: lex_compare_def Let_def)
      moreover have "compare_loop m (f # fs) s offset tot =
        (if c = take (fsize f) ?d then compare_loop m fs s (offset + fsize f) tot
         else memcmp c (take (fsize f) ?d))"
        using False True Cons.prems memcmp_eq_0 [of c "take (fsize f) ?d"] lc
        by (auto simp: c_def fragment_content_def Let_def min_def)
      ultimately show ?thesis using Cons.IH [of "offset + fsize f"] True Cons.prems by (simp add: c_def)
    next
      case le: False
      let ?cap = "length ?d"
      have cap: "min (fsize f) (usub (length s) offset) = ?cap" using le Cons.prems by (simp add: min_def)
      have tc: "load m (fhead f) ?cap = take ?cap c"
        using le by (simp add: c_def fragment_content_def min_def)
      have eq: "memcmp (c @ frags_content m fs) ?d = memcmp (take ?cap c) ?d"
        using memcmp_take [of "c @ frags_content m fs" ?d] le lc by simp
      have sum: "uadd offset ?cap = length s" using Cons.prems by simp
      have "compare_loop m (f # fs) s offset tot =
          (let r = memcmp (take ?cap c) ?d in if r \<noteq> 0 then r else i32_of_usize (usub tot (length s)))"
        using False by (simp add: cap tc sum Let_def del: length_drop)
      also have "\<dots> = lex_compare (c @ frags_content m fs) ?d"
        using Cons.prems eq lc by (auto simp: lex_compare_def Let_def i32_of_difference)
      finally show ?thesis by (simp add: c_def)
    qed
  qed
qed

lemma fstr_compare_correct:
  assumes "fstr_ok t" "length s < 2 ^ 31"
  shows "fstr_compare s t m = lex_compare (fstr_content m t) s"
  using assms compare_loop_correct [of 0 s "sfrags t" "ssize t" m]
  by (auto simp: fstr_compare_def fstr_ok_def fstr_content_def lex_compare_def i32_of_usize_small)

lemma fstr_copy_loop_take: "sz < 2 ^ 64 \<Longrightarrow> fstr_copy_loop m fs sz = take sz (frags_content m fs)"
  by (induction fs arbitrary: sz) (auto simp: fragment_content_def min_def Let_def)

lemma fstr_for_each_byte_fold: "fstr_for_each_byte f t m = fold f (fstr_content m t)"
proof -
  have "fold (\<lambda>g. fold f (load m (fhead g) (fsize g))) fs x = fold f (frags_content m fs) x" for fs x
    by (induction fs arbitrary: x) (simp_all add: fragment_content_def)
  then show ?thesis by (auto simp: fstr_for_each_byte_def fstr_content_def)
qed

end
