(* ===== verification/Buffer_Reader.thy ===== *)
theory Buffer_Reader
  imports Fragment_String "HOL-Library.Sublist"
begin

text \<open>
  \<^verbatim>\<open>xi/io/buffer_reader.h\<close> and \<^verbatim>\<open>xi/io/buffer_iovec_adapter.h\<close>. A reader holds a mutable buffer
  and a mark: the number of bytes at its front that are already looked at. A value of type \<^verbatim>\<open>T\<close>
  is read through its object representation: \<open>p\<close> is the object's address, \<open>n\<close> is \<^verbatim>\<open>sizeof(T)\<close>.
\<close>

record reader =
  rbuf :: buffer
  rmark :: usize

definition make_reader :: "buffer \<Rightarrow> reader" where
  "make_reader b = \<lparr>rbuf = b, rmark = 0\<rparr>"

definition reader_total_size :: "reader \<Rightarrow> usize" where
  "reader_total_size rd = bufsize (rbuf rd)"

definition reader_unmarked_size :: "reader \<Rightarrow> usize" where
  "reader_unmarked_size rd = usub (bufsize (rbuf rd)) (rmark rd)"

definition reader_marked_size :: "reader \<Rightarrow> usize" where
  "reader_marked_size rd = rmark rd"

definition reader_read_value :: "addr \<Rightarrow> usize \<Rightarrow> reader \<Rightarrow> world \<Rightarrow> (bool \<times> world) option" where
  "reader_read_value p n rd w =
     (if rmark rd < bufsize (rbuf rd) \<and> n \<le> usub (bufsize (rbuf rd)) (rmark rd)
      then do { (_, w') \<leftarrow> buffer_read \<lparr>rdata = p, rsize = n\<rparr> (rmark rd) (rbuf rd) w; Some (True, w') }
      else Some (False, w))"

definition reader_read_opt :: "addr \<Rightarrow> usize \<Rightarrow> reader \<Rightarrow> world \<Rightarrow> (u8 list option \<times> world) option" where
  "reader_read_opt p n rd w =
     do { (ret, w') \<leftarrow> reader_read_value p n rd w;
          Some (if ret then Some (load (mem w') p n) else None, w') }"

definition reader_read_opt_and_mark ::
    "addr \<Rightarrow> usize \<Rightarrow> reader \<Rightarrow> world \<Rightarrow> (u8 list option \<times> reader \<times> world) option" where
  "reader_read_opt_and_mark p n rd w =
     do { (v, w') \<leftarrow> reader_read_opt p n rd w;
          Some (case v of None \<Rightarrow> (None, rd, w')
                | Some bs \<Rightarrow> (Some bs, rd\<lparr>rmark := uadd (rmark rd) n\<rparr>, w')) }"

definition reader_read_value_and_mark ::
    "addr \<Rightarrow> usize \<Rightarrow> reader \<Rightarrow> world \<Rightarrow> (bool \<times> reader \<times> world) option" where
  "reader_read_value_and_mark p n rd w =
     do { (ret, w') \<leftarrow> reader_read_value p n rd w;
          Some (ret, if ret then rd\<lparr>rmark := uadd (rmark rd) n\<rparr> else rd, w') }"

definition reader_skip :: "usize \<Rightarrow> reader \<Rightarrow> world \<Rightarrow> (reader \<times> world) option" where
  "reader_skip n rd w =
     do { (b, w') \<leftarrow> buffer_skip_bytes n True (rbuf rd) w; Some (\<lparr>rbuf = b, rmark = 0\<rparr>, w') }"

definition reader_read_opt_and_skip ::
    "addr \<Rightarrow> usize \<Rightarrow> reader \<Rightarrow> world \<Rightarrow> (u8 list option \<times> reader \<times> world) option" where
  "reader_read_opt_and_skip p n rd w =
     do { (v, w1) \<leftarrow> reader_read_opt p n rd w;
          (case v of None \<Rightarrow> Some (None, rd, w1)
           | Some bs \<Rightarrow> do { (rd', w2) \<leftarrow> reader_skip (uadd (rmark rd) n) rd w1; Some (Some bs, rd', w2) }) }"

definition reader_read_value_and_skip ::
    "addr \<Rightarrow> usize \<Rightarrow> reader \<Rightarrow> world \<Rightarrow> (bool \<times> reader \<times> world) option" where
  "reader_read_value_and_skip p n rd w =
     do { (ret, w1) \<leftarrow> reader_read_value p n rd w;
          if ret then do { (rd', w2) \<leftarrow> reader_skip (uadd (rmark rd) n) rd w1; Some (True, rd', w2) }
          else Some (False, rd, w1) }"

text \<open>
  The scanning loops. \<open>predicate\<close> gets whether \<^verbatim>\<open>memchr\<close> finds the byte in the pattern and says
  whether to stop there; the result of the inner loop says whether it stopped.
\<close>

fun scan_bytes :: "(bool \<Rightarrow> bool) \<Rightarrow> u8 list \<Rightarrow> u8 list \<Rightarrow> usize \<times> bool" where
  "scan_bytes predicate pattern [] = (0, False)"
| "scan_bytes predicate pattern (ch # chs) =
     (if predicate (ch \<in> set pattern) then (0, True)
      else let (n, hit) = scan_bytes predicate pattern chs in (n + 1, hit))"

fun scan_frags :: "memory \<Rightarrow> (bool \<Rightarrow> bool) \<Rightarrow> u8 list \<Rightarrow> fragment list \<Rightarrow> usize \<Rightarrow> usize" where
  "scan_frags m predicate pattern [] offset = 0"
| "scan_frags m predicate pattern (it # its) offset =
     (let (n, hit) = scan_bytes predicate pattern (load m (fhead it + offset) (fsize it - offset))
      in if hit then n else n + scan_frags m predicate pattern its 0)"

definition reader_skip_any ::
    "u8 list \<Rightarrow> (bool \<Rightarrow> bool) \<Rightarrow> reader \<Rightarrow> memory \<Rightarrow> usize \<times> reader" where
  "reader_skip_any pattern predicate rd m =
     (let (_, rest, offset) = skip_offset (frags (rbuf rd)) (rmark rd);
          ret = scan_frags m predicate pattern rest offset
      in (ret, rd\<lparr>rmark := uadd (rmark rd) ret\<rparr>))"

definition reader_skip_any_not_of_and_mark :: "u8 list \<Rightarrow> reader \<Rightarrow> memory \<Rightarrow> usize \<times> reader" where
  "reader_skip_any_not_of_and_mark pattern rd m =
     (if pattern = [] then (bufsize (rbuf rd), rd\<lparr>rmark := bufsize (rbuf rd)\<rparr>)
      else reader_skip_any pattern (\<lambda>b. b) rd m)"

definition reader_skip_any_of_and_mark :: "u8 list \<Rightarrow> reader \<Rightarrow> memory \<Rightarrow> usize \<times> reader" where
  "reader_skip_any_of_and_mark pattern rd m =
     (if pattern = [] then (0, rd) else reader_skip_any pattern Not rd m)"

definition reader_next_data_range :: "reader \<Rightarrow> byte_range option" where
  "reader_next_data_range rd =
     (if reader_unmarked_size rd = 0 then Some br_null
      else let (_, rest, offset) = skip_offset (frags (rbuf rd)) (rmark rd)
           in (case dropWhile (\<lambda>it. fsize it = 0) rest of
                 [] \<Rightarrow> Some br_null
               | it # _ \<Rightarrow> br_subrange (fragment_data_range it) offset usize_max))"

definition reader_mark_offset :: "usize \<Rightarrow> reader \<Rightarrow> (usize \<times> reader) option" where
  "reader_mark_offset offset rd =
     (if \<not> signed_nonneg (uadd (rmark rd) offset) then None
      else let cap = min offset (reader_unmarked_size rd)
           in Some (cap, rd\<lparr>rmark := uadd (rmark rd) cap\<rparr>))"

definition reader_discard_to_mark :: "reader \<Rightarrow> world \<Rightarrow> (reader \<times> world) option" where
  "reader_discard_to_mark rd w = reader_skip (rmark rd) rd w"

definition reader_consume_mark_into_buffer ::
    "reader \<Rightarrow> world \<Rightarrow> (buffer option \<times> reader \<times> world) option" where
  "reader_consume_mark_into_buffer rd w =
     do { (ret, b, w') \<leftarrow> buffer_split (rmark rd) (rbuf rd) w; Some (ret, \<lparr>rbuf = b, rmark = 0\<rparr>, w') }"

definition reader_consume_mark_into_string ::
    "reader \<Rightarrow> world \<Rightarrow> (fragment_string \<times> reader \<times> world) option" where
  "reader_consume_mark_into_string rd w =
     do { (ret, b, w') \<leftarrow> buffer_split (rmark rd) (rbuf rd) w;
          buf \<leftarrow> ret;
          Some (fstr_of_list (frags buf) (bufsize buf), \<lparr>rbuf = b, rmark = 0\<rparr>, w') }"

text \<open>\<^verbatim>\<open>find_byte\<close> takes its offset from the front of the buffer, whatever the mark.\<close>

fun memchr :: "u8 \<Rightarrow> u8 list \<Rightarrow> usize option" where
  "memchr t [] = None"
| "memchr t (c # cs) = (if c = t then Some 0 else map_option Suc (memchr t cs))"

fun find_byte_loop :: "memory \<Rightarrow> u8 \<Rightarrow> fragment list \<Rightarrow> usize \<Rightarrow> usize option" where
  "find_byte_loop m target [] offset = None"
| "find_byte_loop m target (it # its) offset =
     (case memchr target (load m (fhead it + offset) (fsize it - offset)) of
        Some i \<Rightarrow> Some i
      | None \<Rightarrow> map_option (\<lambda>i. (fsize it - offset) + i) (find_byte_loop m target its 0))"

definition reader_find_byte :: "u8 \<Rightarrow> usize \<Rightarrow> reader \<Rightarrow> memory \<Rightarrow> usize option" where
  "reader_find_byte target offset rd m =
     (if bufsize (rbuf rd) \<le> offset then None
      else let (_, rest, off) = skip_offset (frags (rbuf rd)) offset in find_byte_loop m target rest off)"

text \<open>The scatter/gather adapter: the vectors to write from, the vector to read into, and its report.\<close>

definition IOV_MAX :: nat where
  "IOV_MAX = 1024"

fun readable_loop :: "fragment list \<Rightarrow> nat \<Rightarrow> byte_range list" where
  "readable_loop [] mx = []"
| "readable_loop (f # fs) mx =
     (if br_empty (fragment_data_range f) then readable_loop fs mx
      else fragment_data_range f # (if mx = 1 then [] else readable_loop fs (mx - 1)))"

definition fill_readable_iovec :: "buffer \<Rightarrow> nat \<Rightarrow> byte_range list option" where
  "fill_readable_iovec b mx =
     (if \<not> mx \<le> IOV_MAX then None
      else if buffer_empty b \<or> 0 = bufsize b \<or> 0 = mx then Some []
      else Some (readable_loop (frags b) mx))"

definition fill_writable_iovec :: "buffer \<Rightarrow> byte_range list" where
  "fill_writable_iovec b =
     (if buffer_empty b then []
      else let range = fragment_tail_range (last (frags b)) in if br_empty range then [] else [range])"

definition report_written :: "usize \<Rightarrow> buffer \<Rightarrow> buffer option" where
  "report_written sz b =
     (if buffer_empty b then Some b
      else do { (n, f) \<leftarrow> fragment_record_bytes sz (last (frags b));
                Some \<lparr>frags = butlast (frags b) @ [f], bufsize = uadd (bufsize b) n\<rparr> })"

section \<open>Reading is reading the buffer's content\<close>

definition reader_ok :: "reader \<Rightarrow> bool" where
  "reader_ok rd \<longleftrightarrow> buffer_ok (rbuf rd) \<and> rmark rd \<le> bufsize (rbuf rd)"

text \<open>What the reader has not looked at yet.\<close>

definition reader_rest :: "memory \<Rightarrow> reader \<Rightarrow> u8 list" where
  "reader_rest m rd = drop (rmark rd) (buffer_content m (rbuf rd))"

abbreviation reader_guards :: "reader \<Rightarrow> guard multiset" where
  "reader_guards rd \<equiv> buffer_guards (rbuf rd)"

lemma reader_sizes:
  assumes "reader_ok rd"
  shows "length (reader_rest m rd) = bufsize (rbuf rd) - rmark rd"
    "reader_unmarked_size rd = length (reader_rest m rd)" "bufsize (rbuf rd) < 2 ^ 63"
  using assms by (auto simp: reader_ok_def reader_rest_def reader_unmarked_size_def buffer_ok_def)

lemma reader_read_value_effect:
  assumes "reader_ok rd" "0 < n" "apart p n (frags (rbuf rd))"
  shows "reader_read_value p n rd w =
    (if n \<le> length (reader_rest (mem w) rd)
     then Some (True, w\<lparr>mem := store (mem w) p (take n (reader_rest (mem w) rd))\<rparr>)
     else Some (False, w))"
proof -
  have ok: "buffer_ok (rbuf rd)" and sz: "bufsize (rbuf rd) < 2 ^ 63" and m: "rmark rd \<le> bufsize (rbuf rd)"
    and len: "length (reader_rest (mem w) rd) = bufsize (rbuf rd) - rmark rd"
    using assms(1) reader_sizes [OF assms(1)] by (auto simp: reader_ok_def)
  show ?thesis
  proof (cases "n \<le> bufsize (rbuf rd) - rmark rd")
    case True
    with assms(2) have "rmark rd < bufsize (rbuf rd)" "n < 2 ^ 63" using sz by auto
    with True buffer_read_live [OF ok, of "\<lparr>rdata = p, rsize = n\<rparr>" "rmark rd" w] assms(3) show ?thesis
      by (simp add: reader_read_value_def len min_def flip: reader_rest_def)
  next
    case False
    with m show ?thesis by (simp add: reader_read_value_def len)
  qed
qed

lemma scan_bytes_takeWhile:
  "scan_bytes pr pat cs = (length (takeWhile (\<lambda>c. \<not> pr (c \<in> set pat)) cs),
     \<not> list_all (\<lambda>c. \<not> pr (c \<in> set pat)) cs)"
  by (induction cs) auto

lemma scan_frags_takeWhile:
  "fs \<noteq> [] \<longrightarrow> off \<le> fsize (hd fs) \<Longrightarrow>
     scan_frags m pr pat fs off = length (takeWhile (\<lambda>c. \<not> pr (c \<in> set pat)) (drop off (frags_content m fs)))"
proof (induction fs arbitrary: off)
  case (Cons f fs)
  have d: "drop off (frags_content m (f # fs)) = load m (fhead f + off) (fsize f - off) @ frags_content m fs"
    using Cons.prems by (simp add: fragment_content_def)
  show ?case
    unfolding d using Cons.IH [of 0]
    by (auto simp: scan_bytes_takeWhile Let_def list_all_iff takeWhile_append takeWhile_eq_all_conv [THEN iffD2])
qed simp

lemma skip_offset_rest:
  assumes "skip_offset fs offset = (pre, rest, off)"
  shows "drop offset (frags_content m fs) = drop off (frags_content m rest)" "rest \<noteq> [] \<longrightarrow> off < fsize (hd rest)"
  using skip_offset_spec [OF assms] by auto

lemma reader_skip_any_effect:
  assumes "reader_ok rd"
  shows "reader_skip_any pat pr rd m =
    (let n = length (takeWhile (\<lambda>c. \<not> pr (c \<in> set pat)) (reader_rest m rd)) in (n, rd\<lparr>rmark := rmark rd + n\<rparr>))"
proof -
  obtain pre rest off where so: "skip_offset (frags (rbuf rd)) (rmark rd) = (pre, rest, off)" by (metis prod_cases3)
  have "rest \<noteq> [] \<longrightarrow> off \<le> fsize (hd rest)" using skip_offset_rest(2) [OF so] by auto
  then have s: "scan_frags m pr pat rest off = length (takeWhile (\<lambda>c. \<not> pr (c \<in> set pat)) (reader_rest m rd))"
    (is "_ = ?n") by (simp add: scan_frags_takeWhile reader_rest_def skip_offset_rest(1) [OF so])
  have "?n \<le> length (reader_rest m rd)" by (rule length_takeWhile_le)
  then have "rmark rd + ?n < 2 ^ 64" using reader_sizes(1) [OF assms, of m] reader_sizes(3) [OF assms] assms by (auto simp: reader_ok_def)
  with so s show ?thesis by (simp add: reader_skip_any_def Let_def)
qed

lemma memchr_append:
  "memchr t (xs @ ys) = (case memchr t xs of Some i \<Rightarrow> Some i | None \<Rightarrow> map_option ((+) (length xs)) (memchr t ys))"
  by (induction xs; cases "memchr t ys") (auto split: option.splits)

lemma memchr_first:
  "memchr t cs = Some i \<longleftrightarrow> i < length cs \<and> cs ! i = t \<and> t \<notin> set (take i cs)"
  "memchr t cs = None \<longleftrightarrow> t \<notin> set cs"
proof -
  show "memchr t cs = Some i \<longleftrightarrow> i < length cs \<and> cs ! i = t \<and> t \<notin> set (take i cs)"
  proof (induction cs arbitrary: i)
    case (Cons c cs) then show ?case by (cases i) auto
  qed simp
  show "memchr t cs = None \<longleftrightarrow> t \<notin> set cs" by (induction cs) auto
qed

lemma find_byte_loop_memchr:
  "fs \<noteq> [] \<longrightarrow> off \<le> fsize (hd fs) \<Longrightarrow> find_byte_loop m t fs off = memchr t (drop off (frags_content m fs))"
proof (induction fs arbitrary: off)
  case (Cons f fs)
  have d: "drop off (frags_content m (f # fs)) = load m (fhead f + off) (fsize f - off) @ frags_content m fs"
    using Cons.prems by (simp add: fragment_content_def)
  show ?case unfolding d memchr_append using Cons.IH [of 0] by (auto split: option.splits)
qed simp

lemma reader_find_byte_effect:
  assumes "reader_ok rd"
  shows "reader_find_byte t offset rd m = memchr t (drop offset (buffer_content m (rbuf rd)))"
proof -
  obtain pre rest off where so: "skip_offset (frags (rbuf rd)) offset = (pre, rest, off)" by (metis prod_cases3)
  have "rest \<noteq> [] \<longrightarrow> off \<le> fsize (hd rest)" using skip_offset_rest(2) [OF so] by auto
  with so skip_offset_rest(1) [OF so, of m] assms show ?thesis
    by (auto simp: reader_find_byte_def find_byte_loop_memchr reader_ok_def buffer_ok_def)
qed

lemma reader_next_data_range_effect:
  assumes "reader_ok rd"
  shows "\<exists>r. reader_next_data_range rd = Some r \<and> (reader_rest m rd \<noteq> [] \<longrightarrow> 0 < rsize r) \<and>
    rsize r \<le> length (reader_rest m rd) \<and> load m (rdata r) (rsize r) = take (rsize r) (reader_rest m rd)"
proof (cases "reader_rest m rd = []")
  case True
  then show ?thesis using reader_sizes(2) [OF assms, of m]
    by (simp add: reader_next_data_range_def br_null_def)
next
  case False
  obtain pre rest off where so: "skip_offset (frags (rbuf rd)) (rmark rd) = (pre, rest, off)" by (metis prod_cases3)
  note r = skip_offset_rest [OF so]
  from False r(1) have "rest \<noteq> []" by (auto simp: reader_rest_def)
  then obtain it its where rest: "rest = it # its" "off < fsize it" using r(2) by (cases rest) auto
  have "fragment_ok it" using assms skip_offset_spec [OF so] rest by (auto simp: reader_ok_def buffer_ok_def)
  then have sz: "fsize it < 2 ^ 63" by (auto simp: fragment_ok_def)
  have "reader_next_data_range rd = Some \<lparr>rdata = fhead it + off, rsize = fsize it - off\<rparr>"
    using so rest False reader_sizes(2) [OF assms, of m] sz
    by (simp add: reader_next_data_range_def br_subrange_default fragment_data_range_def)
  moreover have "reader_rest m rd = load m (fhead it + off) (fsize it - off) @ frags_content m its"
    using r(1) [of m] rest by (simp add: reader_rest_def fragment_content_def)
  ultimately show ?thesis using rest(2) by simp
qed

lemma reader_skip_live:
  assumes "buffer_ok (rbuf rd)" "guard_inv (reader_guards rd + M) w"
  shows "\<exists>rd' w'. reader_skip n rd w = Some (rd', w') \<and> reader_ok rd' \<and>
    (\<forall>m. reader_rest m rd' = drop n (buffer_content m (rbuf rd))) \<and> rmark rd' = 0 \<and>
    bufsize (rbuf rd') = bufsize (rbuf rd) - n \<and>
    guard_inv (reader_guards rd' + M) w' \<and> mem w' = mem w"
proof -
  note live = buffer_skip_bytes_live [OF assms, of n True]
  from live [of "mem w"] obtain b' w' where b': "buffer_skip_bytes n True (rbuf rd) w = Some (b', w')"
    "buffer_ok b'" "bufsize b' = bufsize (rbuf rd) - n" "guard_inv (buffer_guards b' + M) w'" "mem w' = mem w"
    by blast
  have "buffer_content m b' = drop n (buffer_content m (rbuf rd))" for m
    using live [of m] b'(1) by auto
  with b' show ?thesis by (simp add: reader_skip_def reader_ok_def reader_rest_def)
qed

lemma reader_read_and_mark_effect:
  assumes "reader_ok rd" "0 < n" "apart p n (frags (rbuf rd))" "n \<le> length (reader_rest (mem w) rd)"
  shows "\<exists>rd' w'. reader_read_opt_and_mark p n rd w = Some (Some (take n (reader_rest (mem w) rd)), rd', w') \<and>
    reader_ok rd' \<and> rbuf rd' = rbuf rd \<and> reader_rest (mem w') rd' = drop n (reader_rest (mem w) rd) \<and>
    w' = w\<lparr>mem := store (mem w) p (take n (reader_rest (mem w) rd))\<rparr>"
proof -
  let ?bs = "take n (reader_rest (mem w) rd)"
  let ?w = "w\<lparr>mem := store (mem w) p ?bs\<rparr>"
  have len: "length ?bs = n" using assms(4) by simp
  have m: "rmark rd + n \<le> bufsize (rbuf rd)" "rmark rd + n < 2 ^ 64"
    using assms(4) reader_sizes(1) [OF assms(1), of "mem w"] reader_sizes(3) [OF assms(1)] assms(1)
    by (auto simp: reader_ok_def)
  have same: "buffer_content (store (mem w) p ?bs) (rbuf rd) = buffer_content (mem w) (rbuf rd)"
    by (rule apart_store) (use assms(3) len in simp)
  have "reader_read_opt_and_mark p n rd w = Some (Some ?bs, rd\<lparr>rmark := rmark rd + n\<rparr>, ?w)"
    using reader_read_value_effect [OF assms(1-3), of w] assms(4) len m(2)
    by (simp add: reader_read_opt_and_mark_def reader_read_opt_def)
  with m assms(1) same show ?thesis by (simp add: reader_ok_def reader_rest_def add.commute)
qed

lemma reader_read_short:
  assumes "reader_ok rd" "0 < n" "apart p n (frags (rbuf rd))" "length (reader_rest (mem w) rd) < n"
  shows "reader_read_opt_and_mark p n rd w = Some (None, rd, w)"
    "reader_read_opt_and_skip p n rd w = Some (None, rd, w)"
  using reader_read_value_effect [OF assms(1-3), of w] assms(4)
  by (simp_all add: reader_read_opt_and_mark_def reader_read_opt_and_skip_def reader_read_opt_def)

lemma reader_read_and_skip_effect:
  assumes "reader_ok rd" "0 < n" "apart p n (frags (rbuf rd))" "n \<le> length (reader_rest (mem w) rd)"
    and "guard_inv (reader_guards rd + M) w"
  shows "\<exists>rd' w'. reader_read_opt_and_skip p n rd w = Some (Some (take n (reader_rest (mem w) rd)), rd', w') \<and>
    reader_ok rd' \<and> rmark rd' = 0 \<and> reader_rest (mem w) rd' = drop n (reader_rest (mem w) rd) \<and>
    mem w' = store (mem w) p (take n (reader_rest (mem w) rd)) \<and> guard_inv (reader_guards rd' + M) w'"
proof -
  let ?bs = "take n (reader_rest (mem w) rd)"
  let ?w = "w\<lparr>mem := store (mem w) p ?bs\<rparr>"
  have len: "length ?bs = n" using assms(4) by simp
  have m: "rmark rd + n < 2 ^ 64"
    using assms(4) reader_sizes(1) [OF assms(1), of "mem w"] reader_sizes(3) [OF assms(1)] assms(1)
    by (auto simp: reader_ok_def)
  have "guard_inv (reader_guards rd + M) ?w" using assms(5) by simp
  from reader_skip_live [OF _ this, of "rmark rd + n"] assms(1) obtain rd' w' where
    rd': "reader_skip (rmark rd + n) rd ?w = Some (rd', w')" "reader_ok rd'" "rmark rd' = 0"
    "\<And>m. reader_rest m rd' = drop (rmark rd + n) (buffer_content m (rbuf rd))"
    "guard_inv (reader_guards rd' + M) w'" "mem w' = mem ?w" unfolding reader_ok_def by blast
  have "reader_read_opt_and_skip p n rd w = Some (Some ?bs, rd', w')"
    using reader_read_value_effect [OF assms(1-3), of w] assms(4) len m rd'(1)
    by (simp add: reader_read_opt_and_skip_def reader_read_opt_def)
  with rd' show ?thesis by (simp add: reader_rest_def add.commute)
qed

lemma reader_consume_live:
  assumes "reader_ok rd" "0 < rmark rd" "guard_inv (reader_guards rd + M) w"
    and "guard_room 1 (reader_guards rd + M) w"
  shows "\<exists>n rd' w'. reader_consume_mark_into_buffer rd w = Some (Some n, rd', w') \<and>
    buffer_ok n \<and> reader_ok rd' \<and> rmark rd' = 0 \<and>
    buffer_content m n = take (rmark rd) (buffer_content m (rbuf rd)) \<and>
    reader_rest m rd' = reader_rest m rd \<and>
    guard_inv (buffer_guards n + reader_guards rd' + M) w' \<and> mem w' = mem w"
proof -
  have "frags (rbuf rd) \<noteq> []" using assms(1,2) by (auto simp: reader_ok_def buffer_ok_def)
  from buffer_split_live [OF _ assms(3,4) this assms(2), of m] assms(1) show ?thesis
    by (auto simp: reader_consume_mark_into_buffer_def reader_ok_def reader_rest_def)
qed

section \<open>The gather list shows the buffer's content\<close>

lemma readable_loop_ranges:
  "0 < mx \<Longrightarrow> readable_loop fs mx = map fragment_data_range (take mx (filter (\<lambda>f. fsize f \<noteq> 0) fs))"
proof (induction fs arbitrary: mx)
  case (Cons f fs)
  then show ?case
    by (cases "mx = 1") (auto simp: br_empty_def fragment_data_range_def take_Cons' numeral_eq_Suc)
qed simp

lemma frags_content_nonempty: "frags_content m (filter (\<lambda>f. fsize f \<noteq> 0) fs) = frags_content m fs"
  by (induction fs) (auto simp: fragment_content_def)

lemma fill_readable_content:
  assumes "buffer_ok b" "0 < mx" "mx \<le> IOV_MAX"
  obtains rs where "fill_readable_iovec b mx = Some rs" "length rs \<le> mx" "\<forall>r \<in> set rs. 0 < rsize r"
    "prefix (concat (map (\<lambda>r. load m (rdata r) (rsize r)) rs)) (buffer_content m b)"
    "length (filter (\<lambda>f. fsize f \<noteq> 0) (frags b)) \<le> mx \<Longrightarrow>
       concat (map (\<lambda>r. load m (rdata r) (rsize r)) rs) = buffer_content m b"
proof -
  let ?fs = "filter (\<lambda>f. fsize f \<noteq> 0) (frags b)"
  let ?rs = "map fragment_data_range (take mx ?fs)"
  have c: "concat (map (\<lambda>r. load m (rdata r) (rsize r)) (map fragment_data_range fs)) = frags_content m fs" for fs
    by (induction fs) (simp_all add: fragment_data_range_def fragment_content_def)
  have pre: "prefix (frags_content m (take mx ?fs)) (buffer_content m b)"
    using frags_simps(7) [of m "take mx ?fs" "drop mx ?fs"] frags_content_nonempty [of m "frags b"]
    by (metis append_take_drop_id prefixI)
  have run: "fill_readable_iovec b mx = Some ?rs"
  proof (cases "bufsize b = 0")
    case True
    then have "?fs = []" using assms(1) by (auto simp: buffer_ok_def filter_empty_conv frags_size_def)
    with True assms show ?thesis by (simp add: fill_readable_iovec_def)
  next
    case False
    with assms show ?thesis
      by (auto simp: fill_readable_iovec_def readable_loop_ranges buffer_empty_def buffer_ok_def)
  qed
  have pos: "\<forall>r \<in> set ?rs. 0 < rsize r"
    by (auto simp: fragment_data_range_def dest!: in_set_takeD)
  have all: "length ?fs \<le> mx \<Longrightarrow> frags_content m (take mx ?fs) = buffer_content m b"
    using frags_content_nonempty [of m "frags b"] by simp
  show ?thesis by (rule that [OF run _ pos]) (simp_all only: c pre all length_map length_take min.cobounded2)
qed

lemma report_written_effect:
  assumes "buffer_ok b" "frags b \<noteq> []" "n \<le> buffer_tailroom b" "bufsize b + n < 2 ^ 63"
  obtains b' where "report_written n b = Some b'" "buffer_ok b'" "bufsize b' = bufsize b + n"
    "buffer_content m b' = buffer_content m b @ load m (fragment_tail (last (frags b))) n"
proof -
  obtain fs f where fb: "frags b = fs @ [f]" using assms(2) by (metis append_butlast_last_id)
  have ok: "fragment_ok f" using assms(1) fb by (simp add: buffer_ok_def)
  have sz: "fsize f + n < 2 ^ 63" "n \<le> fragment_tailroom f"
    using assms fb by (auto simp: buffer_ok_def buffer_tailroom_def)
  let ?f = "f\<lparr>fsize := fsize f + n\<rparr>" and ?b = "\<lparr>frags = fs @ [f\<lparr>fsize := fsize f + n\<rparr>], bufsize = bufsize b + n\<rparr>"
  have "fragment_record_bytes n f = Some (n, ?f)"
    using sz by (simp add: fragment_record_bytes_def signed_nonneg_def add.commute min_def)
  then have run: "report_written n b = Some ?b"
    using assms(4) fb by (simp add: report_written_def buffer_empty_def)
  have "fragment_ok ?f" using ok sz fragment_rooms(2) [OF ok] by (auto simp: fragment_ok_def)
  then have "buffer_ok ?b" using assms(1,4) fb by (simp add: buffer_ok_def)
  with run fb show ?thesis
    by (intro that [of ?b]) (simp_all add: fragment_content_def load_append fragment_tail_def)
qed

end
