(* ===== verification/Buffer_Allocator.thy ===== *)
theory Buffer_Allocator
  imports Buffer
begin

text \<open>
  \<^verbatim>\<open>xi/io/buffer_allocator.h\<close> and \<^verbatim>\<open>xi/io/basic_buffer_allocator.h\<close>. The C heap is a parameter
  \<open>h\<close>: the pointer \<^verbatim>\<open>malloc\<close> gives for a size in a world, and what \<^verbatim>\<open>malloc_usable_size\<close> says of it.
\<close>

type_synonym heap = "usize \<Rightarrow> world \<Rightarrow> addr \<times> usize"

type_synonym fragment_allocator = "usize \<Rightarrow> world \<Rightarrow> (fragment \<times> world) option"

definition malloc_block :: "heap \<Rightarrow> usize \<Rightarrow> world \<Rightarrow> addr \<times> usize \<times> world" where
  "malloc_block h sz w =
     (let (p, actual) = h sz w
      in (p, actual, if p = 0 then w else w\<lparr>blocks := (p, actual) # blocks w\<rparr>))"

definition exact_make_heap_byte_blob :: "heap \<Rightarrow> usize \<Rightarrow> world \<Rightarrow> blob \<times> world" where
  "exact_make_heap_byte_blob h sz w =
     (let (p, _, w') = malloc_block h sz w
      in (\<lparr>bytes = p, bsize = (if p = 0 then 0 else sz), bguard = make_simple_guard p\<rparr>, w'))"

definition exact_fragment_allocate :: "heap \<Rightarrow> fragment_allocator" where
  "exact_fragment_allocate h sz w =
     (let (b, w') = exact_make_heap_byte_blob h sz w in fragment_new b w')"

definition simple_make_heap_byte_blob :: "heap \<Rightarrow> usize \<Rightarrow> world \<Rightarrow> blob \<times> world" where
  "simple_make_heap_byte_blob h sz w =
     (let (p, actual_sz, w') = malloc_block h sz w
      in (\<lparr>bytes = p, bsize = (if p = 0 then 0 else actual_sz), bguard = make_simple_guard p\<rparr>, w'))"

definition simple_fragment_allocate :: "heap \<Rightarrow> fragment_allocator" where
  "simple_fragment_allocate h sz w =
     (let (b, w') = simple_make_heap_byte_blob h sz w in fragment_new b w')"

text \<open>The arena allocator keeps a blob and cuts fragments off its front.\<close>

record arena =
  arena_blob :: blob
  arena_size :: usize
  low_watermark :: usize

definition arena_new :: "usize \<Rightarrow> usize \<Rightarrow> arena" where
  "arena_new sz low =
     \<lparr>arena_blob = blob_null, arena_size = sz, low_watermark = (if low = 0 then sz div 100 else low)\<rparr>"

definition make_arena :: "heap \<Rightarrow> arena \<Rightarrow> world \<Rightarrow> blob \<times> world" where
  "make_arena h a w = simple_make_heap_byte_blob h (arena_size a) w"

text \<open>
  Three ways through \<^verbatim>\<open>allocate\<close>: an empty arena is filled first; an arena near its watermark is
  given away whole and replaced on scope exit; otherwise the blob is copied and then the arena is
  replaced by the part behind \<open>sz\<close>. The copy keeps the whole size.
\<close>

definition arena_cut :: "usize \<Rightarrow> arena \<Rightarrow> world \<Rightarrow> (fragment \<times> arena \<times> world) option" where
  "arena_cut sz a w =
     (let (blob, a0, w1) = blob_copy (arena_blob a) w
      in do { (rest, a1, w2) \<leftarrow> blob_split sz a0 w1;
              (a2, _, w3) \<leftarrow> blob_assign_move a1 rest w2;
              (f, w4) \<leftarrow> fragment_new blob w3;
              Some (f, a\<lparr>arena_blob := a2\<rparr>, w4) })"

definition arena_allocate :: "heap \<Rightarrow> usize \<Rightarrow> arena \<Rightarrow> world \<Rightarrow> (fragment \<times> arena \<times> world) option" where
  "arena_allocate h sz a w =
     (if blob_empty (arena_blob a)
      then let (b, w1) = make_arena h a w
           in do { (a1, _, w2) \<leftarrow> blob_assign_move (arena_blob a) b w1;
                   arena_cut sz (a\<lparr>arena_blob := a1\<rparr>) w2 }
      else if bsize (arena_blob a) \<le> uadd sz (low_watermark a)
      then do { (f, w1) \<leftarrow> fragment_new (arena_blob a) w;
                let (b, w2) = make_arena h a w1 in
                Some (f, a\<lparr>arena_blob := b\<rparr>, w2) }
      else arena_cut sz a w)"

text \<open>\<^verbatim>\<open>basic_buffer_allocator::allocate\<close>, over any fragment allocator.\<close>

definition basic_allocate :: "fragment_allocator \<Rightarrow> buffer_allocator" where
  "basic_allocate fa sz headroom tailroom w =
     do { (frag, w1) \<leftarrow> fa (uadd (uadd sz headroom) tailroom) w;
          (frag', w2) \<leftarrow> (if headroom \<noteq> 0 then fragment_advance headroom frag w1 else Some (frag, w1));
          buffer_of_fragment (Some frag') w2 }"

section \<open>The contract of a buffer allocator\<close>

text \<open>A region is fresh when it overlaps no live block.\<close>

definition fresh :: "addr \<Rightarrow> usize \<Rightarrow> world \<Rightarrow> bool" where
  "fresh p n w \<longleftrightarrow> list_all (\<lambda>(q, k). p + n \<le> q \<or> q + k \<le> p) (blocks w)"

text \<open>What the C standard promises of a successful \<^verbatim>\<open>malloc\<close> of \<open>sz\<close> bytes, on a 63-bit address space.\<close>

definition malloc_succeeds :: "heap \<Rightarrow> usize \<Rightarrow> world \<Rightarrow> bool" where
  "malloc_succeeds h sz w \<longleftrightarrow>
     (let (p, n) = h sz w in 0 < p \<and> even p \<and> sz \<le> n \<and> p + n < 2 ^ 63 \<and>
        p \<notin> fst ` set (blocks w) \<and> fresh p n w)"

text \<open>Every byte a fragment shows lies in a live block.\<close>

definition covered :: "fragment list \<Rightarrow> world \<Rightarrow> bool" where
  "covered fs w \<longleftrightarrow> list_all (\<lambda>f. fsize f = 0 \<or>
     list_ex (\<lambda>(q, k). q \<le> fhead f \<and> fhead f + fsize f \<le> q + k) (blocks w)) fs"

text \<open>Where coalescing starts: at the first fragment that is not empty, in one of three ways.\<close>

lemma coalesce_start:
  assumes ok: "buffer_ok b" and len: "0 < len" "0 < bufsize b"
  obtains pre it its where "frags b = pre @ it # its" "frags_size pre = 0" "fragment_ok it"
    "list_all fragment_ok pre" "list_all fragment_ok its"
    "buffer_coalesce alloc 0 len b w =
     (if min len (bufsize b) \<le> fsize it then Some (bufsize b, b, w)
      else if fsize it + fragment_tailroom it < min len (bufsize b)
      then do { (nb, w1) \<leftarrow> alloc (min len (bufsize b)) 0 0 w;
                let before = pre @ frags nb in
                if before = [] then None
                else coalesce_into (butlast before) (last before) (it # its) (min len (bufsize b)) (bufsize b) w1 }
      else coalesce_into pre it its (min len (bufsize b)) (bufsize b) w)"
proof -
  have sz: "bufsize b = frags_size (frags b)" "bufsize b < 2 ^ 63" using ok by (auto simp: buffer_ok_def)
  obtain pre rest off where so: "skip_offset (frags b) 0 = (pre, rest, off)" by (metis prod_cases3)
  obtain it its where r: "rest = it # its" "frags b = pre @ it # its" "frags_size pre = 0" "off = 0" "0 < fsize it"
    using skip_offset_within [OF so] len(2) sz(1) by (metis add_is_0 less_nat_zero_code neq0_conv)
  have fok: "fragment_ok it" "list_all fragment_ok pre" "list_all fragment_ok its" using ok r(2) by (auto simp: buffer_ok_def)
  have ne: "\<not> buffer_empty b" using r(2) by (simp add: buffer_empty_def)
  have k: "(if usub (bufsize b) 0 < len then usub (bufsize b) 0 else len) = min len (bufsize b)" by (auto simp: min_def)
  have rooms: "uadd (fsize it) (fragment_tailroom it) = fsize it + fragment_tailroom it"
    using fragment_rooms(3) [OF fok(1)] fok(1) by (intro uadd_exact) (auto simp: fragment_ok_def blob_end_def)
  show ?thesis
    by (rule that [OF r(2,3) fok]) (use ne len so k rooms in \<open>simp add: buffer_coalesce_def r(1,4) Let_def del: min_less_iff_conj\<close>)
qed

text \<open>A freshly allocated fragment lies apart from all fragments on live blocks.\<close>

lemma fresh_apart:
  assumes "fragment_ok f" "fsize f = 0" "k \<le> fragment_tailroom f"
    and "fresh (bytes (fbytes f)) (bsize (fbytes f)) w" "covered fs w"
  shows "apart (fhead f) k fs"
proof -
  have win: "bytes (fbytes f) \<le> fhead f" "fhead f + k \<le> bytes (fbytes f) + bsize (fbytes f)"
    using fragment_rooms(2) [OF assms(1)] assms(1-3) by (auto simp: fragment_ok_def blob_end_def)
  show ?thesis unfolding apart_def
  proof
    fix x assume "x \<in> set fs"
    then show "fsize x = 0 \<or> fhead f + k \<le> fhead x \<or> fhead x + fsize x \<le> fhead f"
      using assms(4,5) win by (fastforce simp: covered_def fresh_def list_all_iff list_ex_iff)
  qed
qed

text \<open>No fragment's tailroom reaches into the data of another one.\<close>

definition tails_free :: "fragment list \<Rightarrow> bool" where
  "tails_free fs \<longleftrightarrow> (\<forall>i < length fs.
     apart (fragment_tail (fs ! i)) (fragment_tailroom (fs ! i)) (take i fs @ drop (Suc i) fs))"

lemma guard_inv_block:
  assumes "guard_inv M w" "0 < p" "even p" "p \<notin> fst ` set (blocks w)"
  shows "guard_inv (add_mset (make_simple_guard p) M) (w\<lparr>blocks := (p, n) # blocks w\<rparr>)"
proof (rule guard_invI)
  let ?w = "w\<lparr>blocks := (p, n) # blocks w\<rparr>" and ?g = "make_simple_guard p"
  have g: "?g = guard_simple p" using assms(2) by (simp add: make_simple_guard_def)
  have heap: "heap_guards ?w = heap_guards w" "heap_owned ?w = heap_owned w"
    by (simp_all add: heap_guards_def heap_owned_def)
  note D = guard_invD [OF assms(1)]
  show "distinct (map fst (impls ?w))" "even (lim ?w)" "0 < lim ?w" using D by simp_all
  show "\<And>a i. (a, i) \<in> set (impls ?w) \<Longrightarrow> even a \<and> 0 < a \<and> a < lim ?w" using D(4) by auto
  show "\<And>a i. (a, i) \<in> set (impls ?w) \<Longrightarrow> 0 < refs i \<and> refs i = count (add_mset ?g M + heap_guards ?w) a"
  proof -
    fix a i assume "(a, i) \<in> set (impls ?w)"
    then have ai: "(a, i) \<in> set (impls w)" by simp
    then have "a \<noteq> ?g" using D(4) guard_simple_ptr(2) [OF assms(3)] guard_even_untagged [of a] by (auto simp: g)
    then show "0 < refs i \<and> refs i = count (add_mset ?g M + heap_guards ?w) a"
      using D(5) [OF ai] by (auto simp: heap simp del: count_greater_zero_iff)
  qed
  show "\<And>h. h \<in># add_mset ?g M + heap_guards ?w \<Longrightarrow> guard_tagged h \<or> h = 0 \<or> h \<in> fst ` set (impls ?w)"
    using D(6) guard_simple_ptr(2) [OF assms(3)] by (auto simp: heap g)
  show "distinct (map fst (blocks ?w))" using D(7) assms(4) by simp
  show "owned (add_mset ?g M) ?w \<subseteq># mset (map fst (blocks ?w))"
    using D(8) guard_simple_ptr [OF assms(3)] by (simp add: owned_def heap g add.assoc)
qed

lemma malloc_block_live:
  assumes "malloc_succeeds h sz w" "guard_inv M w"
  obtains p n where "malloc_block h sz w = (p, n, w\<lparr>blocks := (p, n) # blocks w\<rparr>)" "0 < p" "sz \<le> n"
    "p + n < 2 ^ 63" "fresh p n w"
    "guard_inv (add_mset (make_simple_guard p) M) (w\<lparr>blocks := (p, n) # blocks w\<rparr>)"
proof -
  obtain p n where hp: "h sz w = (p, n)" by force
  with assms(1) have m: "0 < p" "even p" "sz \<le> n" "p + n < 2 ^ 63" "p \<notin> fst ` set (blocks w)" "fresh p n w"
    by (simp_all add: malloc_succeeds_def)
  from hp m guard_inv_block [OF assms(2) m(1,2,5), of n] show ?thesis
    by (intro that [of p n]) (simp_all add: malloc_block_def)
qed

lemma fresh_part: "fresh p n w \<Longrightarrow> k \<le> n \<Longrightarrow> fresh p k w"
  by (fastforce simp: fresh_def list_all_iff)

locale buffer_source =
  fixes alloc :: buffer_allocator
    and ready :: "usize \<Rightarrow> world \<Rightarrow> bool"
  assumes allocate_law:
    "\<lbrakk>ready (sz + headroom + tailroom) w; 0 < sz; guard_inv M w\<rbrakk> \<Longrightarrow>
       \<exists>f w'. alloc sz headroom tailroom w = Some (\<lparr>frags = [f], bufsize = 0\<rparr>, w') \<and>
         fsize f = 0 \<and> fragment_ok f \<and> fragment_headroom f = headroom \<and>
         sz + tailroom \<le> fragment_tailroom f \<and> fresh (bytes (fbytes f)) (bsize (fbytes f)) w \<and>
         guard_inv (add_mset (fguard f) M) w' \<and> mem w' = mem w"
begin

lemma coalesce_prefix:
  assumes ok: "buffer_ok b" and inv: "guard_inv (buffer_guards b + M) w"
    and cov: "covered (frags b) w" "tails_free (frags b)"
    and len: "0 < len" "0 < bufsize b" "ready (min len (bufsize b)) w"
  shows "\<exists>n b' w' pre it its. buffer_coalesce alloc 0 len b w = Some (n, b', w') \<and>
    frags b' = pre @ it # its \<and> frags_size pre = 0 \<and> min len (bufsize b) \<le> fsize it \<and>
    buffer_ok b' \<and> bufsize b' = bufsize b \<and> buffer_content (mem w') b' = buffer_content (mem w) b \<and>
    guard_inv (buffer_guards b' + M) w'"
proof -
  define k where "k = min len (bufsize b)"
  have sz: "bufsize b = frags_size (frags b)" "bufsize b < 2 ^ 63" using ok by (auto simp: buffer_ok_def)
  have k: "0 < k" "k \<le> bufsize b" using len(1,2) by (auto simp: k_def)
  obtain pre it its where r: "frags b = pre @ it # its" "frags_size pre = 0" "fragment_ok it"
      "list_all fragment_ok pre" "list_all fragment_ok its" and
    run: "buffer_coalesce alloc 0 len b w =
     (if k \<le> fsize it then Some (bufsize b, b, w)
      else if fsize it + fragment_tailroom it < k
      then do { (nb, w1) \<leftarrow> alloc k 0 0 w;
                let before = pre @ frags nb in
                if before = [] then None
                else coalesce_into (butlast before) (last before) (it # its) k (bufsize b) w1 }
      else coalesce_into pre it its k (bufsize b) w)"
    by (rule coalesce_start [OF ok len(1,2), of alloc w, folded k_def])
  consider "k \<le> fsize it" | "fsize it < k" "fsize it + fragment_tailroom it < k"
    | "fsize it < k" "k \<le> fsize it + fragment_tailroom it" by linarith
  then show ?thesis
  proof cases
    case 1
    with run ok inv r(1,2) show ?thesis by (auto simp: k_def)
  next
    case 2
    from len(3) have "ready (k + 0 + 0) w" by (simp add: k_def)
    from allocate_law [OF this k(1) inv] obtain f w1 where
      f: "alloc k 0 0 w = Some (\<lparr>frags = [f], bufsize = 0\<rparr>, w1)" "fsize f = 0" "fragment_ok f"
      "k \<le> fragment_tailroom f" "fresh (bytes (fbytes f)) (bsize (fbytes f)) w"
      "guard_inv (add_mset (fguard f) (buffer_guards b + M)) w1" "mem w1 = mem w" by auto
    have ap: "apart (fragment_tail f) (k - fsize f) (pre @ it # its)"
      using fresh_apart [OF f(3,2,4,5) cov(1)] f(2) r(1) by (simp add: fragment_tail_def)
    have *: "list_all fragment_ok (it # its)" "fsize f \<le> k" "k - fsize f \<le> frags_size (it # its)"
      "k - fsize f \<le> fragment_tailroom f" "bufsize b = frags_size (pre @ f # it # its)"
      "guard_inv (frags_guards (pre @ f # it # its) + M) w1"
      using r f(2,4,6) k(2) sz(1) by (simp_all add: add_mset_commute ac_simps)
    have same: "frags_content (mem w1) (pre @ f # it # its) = buffer_content (mem w) b"
      using f(2,7) r(1) by (simp add: fragment_content_def)
    show ?thesis using coalesce_into_live [OF f(3) r(4) *(1-4) ap *(5) sz(2) *(6)] run 2 f(1) r(2) same
      unfolding k_def [symmetric] by fastforce
  next
    case 3
    have "apart (fragment_tail it) (fragment_tailroom it) (pre @ its)"
      using cov(2) r(1) unfolding tails_free_def by (auto dest: spec [of _ "length pre"])
    with 3 have ap: "apart (fragment_tail it) (k - fsize it) (pre @ its)"
      using apart_part [of "fragment_tail it" "fragment_tailroom it" "pre @ its" 0 "k - fsize it"] by simp
    have *: "fsize it \<le> k" "k - fsize it \<le> frags_size its" "k - fsize it \<le> fragment_tailroom it"
      "bufsize b = frags_size (pre @ it # its)" "guard_inv (frags_guards (pre @ it # its) + M) w"
      using 3 k(2) sz(1) r(1,2) inv by auto
    show ?thesis using coalesce_into_live [OF r(3,4,5) *(1-3) ap *(4) sz(2) *(5)] run 3 r(1,2)
      unfolding k_def [symmetric] by fastforce
  qed
qed

text \<open>So \<^verbatim>\<open>range(0, len)\<close> is a contiguous view of the first bytes of the buffer.\<close>

lemma range_prefix:
  assumes "buffer_ok b" "guard_inv (buffer_guards b + M) w" "covered (frags b) w" "tails_free (frags b)"
    and "0 < len" "0 < bufsize b" "ready (min len (bufsize b)) w"
  shows "\<exists>r b' w'. buffer_range alloc 0 len b w = Some (r, b', w') \<and>
    load (mem w') (rdata r) (rsize r) = take len (buffer_content (mem w) b) \<and>
    buffer_content (mem w') b' = buffer_content (mem w) b \<and> buffer_ok b' \<and>
    guard_inv (buffer_guards b' + M) w'"
proof -
  from coalesce_prefix [OF assms] obtain n b' w' pre it its where
    c: "buffer_coalesce alloc 0 len b w = Some (n, b', w')" "frags b' = pre @ it # its"
      "frags_size pre = 0" "min len (bufsize b) \<le> fsize it" "buffer_ok b'" "bufsize b' = bufsize b"
      "buffer_content (mem w') b' = buffer_content (mem w) b" "guard_inv (buffer_guards b' + M) w'" by blast
  have pos: "0 < fsize it" using c(4) assms(5,6) by auto
  have pre: "skip_offset (pre @ it # its) 0 = (pre, it # its, 0)" using c(3) pos by (induction pre) auto
  have fok: "fragment_ok it" using c(2,5) by (simp add: buffer_ok_def)
  then have sz: "fsize it < 2 ^ 63" by (auto simp: fragment_ok_def)
  let ?r = "\<lparr>rdata = fhead it, rsize = min len (fsize it)\<rparr>"
  have "buffer_range alloc 0 len b w = Some (?r, b', w')"
    using c(1,2) pre sz assms(6) by (simp add: buffer_range_def)
  moreover have "load (mem w') (rdata ?r) (rsize ?r) = take len (buffer_content (mem w) b)"
  proof -
    have "buffer_content (mem w) b = fragment_content (mem w') it @ frags_content (mem w') its"
      using c(2,3,7) by (simp add: frags_size_0_content)
    moreover have "bufsize b = fsize it + frags_size its" using c(2,3,5,6) by (simp add: buffer_ok_def)
    moreover from this have "frags_size its = 0 \<or> len \<le> fsize it" using c(4) by linarith
    ultimately show ?thesis using frags_size_0_content [of its] by (cases "len \<le> fsize it") (auto simp: fragment_content_def min_def)
  qed
  ultimately show ?thesis using c by blast
qed

end

text \<open>
  Any fragment allocator that hands out a new fragment over a fresh block of at least the size
  asked for makes the basic buffer allocator keep the contract.
\<close>

definition fragment_source :: "fragment_allocator \<Rightarrow> (usize \<Rightarrow> world \<Rightarrow> bool) \<Rightarrow> bool" where
  "fragment_source fa ready \<longleftrightarrow> (\<forall>sz w M. ready sz w \<and> 0 < sz \<and> guard_inv M w \<longrightarrow>
     sz < 2 ^ 63 \<and>
     (\<exists>f w'. fa sz w = Some (f, w') \<and> fsize f = 0 \<and> fragment_ok f \<and> fhead f = bytes (fbytes f) \<and>
        sz \<le> bsize (fbytes f) \<and> fresh (bytes (fbytes f)) (bsize (fbytes f)) w \<and>
        guard_inv (add_mset (fguard f) M) w' \<and> mem w' = mem w))"

lemma basic_allocate_law:
  assumes "fragment_source fa ready"
  shows "buffer_source (basic_allocate fa) ready"
proof
  fix sz headroom tailroom w M
  assume r: "ready (sz + headroom + tailroom) w" "0 < sz" "guard_inv M w"
  let ?n = "sz + headroom + tailroom"
  from assms r obtain f w1 where n: "?n < 2 ^ 63" and f: "fa ?n w = Some (f, w1)" "fsize f = 0" "fragment_ok f"
    "fhead f = bytes (fbytes f)" "?n \<le> bsize (fbytes f)" "fresh (bytes (fbytes f)) (bsize (fbytes f)) w"
    "guard_inv (add_mset (fguard f) M) w1" "mem w1 = mem w"
    unfolding fragment_source_def by (metis add_pos_pos add_strict_increasing trans_less_add1)
  note rooms = fragment_rooms [OF f(3)]
  have hr: "fragment_headroom f = 0" "fragment_tailroom f = bsize (fbytes f)"
    using rooms f(2,4) by simp_all
  let ?f = "f\<lparr>fhead := fhead f + headroom\<rparr>"
  have ok: "fragment_ok ?f" using f(2-5) by (auto simp: fragment_ok_def blob_end_def)
  have rooms': "fragment_headroom ?f = headroom" "fragment_tailroom ?f = bsize (fbytes f) - headroom"
    using fragment_rooms [OF ok] f(2,4,5) by (simp_all add: blob_end_def)
  have "(if headroom \<noteq> 0 then fragment_advance headroom f w1 else Some (f, w1)) = Some (?f, w1)"
    using f(2,5) hr n by (simp add: fragment_advance_def)
  moreover have "uadd (uadd sz headroom) tailroom = ?n" using n by simp
  moreover have "buffer_of_fragment (Some ?f) w1 = Some (\<lparr>frags = [?f], bufsize = 0\<rparr>, w1)"
    using rooms' f(2,5) r(2) by (simp add: buffer_of_fragment_def)
  ultimately have "basic_allocate fa sz headroom tailroom w = Some (\<lparr>frags = [?f], bufsize = 0\<rparr>, w1)"
    using f(1) by (simp add: basic_allocate_def)
  with f ok rooms' show "\<exists>f w'. basic_allocate fa sz headroom tailroom w = Some (\<lparr>frags = [f], bufsize = 0\<rparr>, w') \<and>
         fsize f = 0 \<and> fragment_ok f \<and> fragment_headroom f = headroom \<and>
         sz + tailroom \<le> fragment_tailroom f \<and> fresh (bytes (fbytes f)) (bsize (fbytes f)) w \<and>
         guard_inv (add_mset (fguard f) M) w' \<and> mem w' = mem w"
    by (intro exI [of _ ?f] exI [of _ w1]) auto
qed

lemma exact_source: "fragment_source (exact_fragment_allocate h) (malloc_succeeds h)"
  unfolding fragment_source_def
proof (intro allI impI, elim conjE)
  fix sz w M assume a: "malloc_succeeds h sz w" "0 < sz" "guard_inv M w"
  then obtain p n where mb: "malloc_block h sz w = (p, n, w\<lparr>blocks := (p, n) # blocks w\<rparr>)" "0 < p" "sz \<le> n"
    "p + n < 2 ^ 63" "fresh p n w"
    "guard_inv (add_mset (make_simple_guard p) M) (w\<lparr>blocks := (p, n) # blocks w\<rparr>)"
    by (metis malloc_block_live)
  let ?b = "\<lparr>bytes = p, bsize = sz, bguard = make_simple_guard p\<rparr>"
  from a(2) mb show "sz < 2 ^ 63 \<and> (\<exists>f w'. exact_fragment_allocate h sz w = Some (f, w') \<and>
      fsize f = 0 \<and> fragment_ok f \<and> fhead f = bytes (fbytes f) \<and> sz \<le> bsize (fbytes f) \<and>
      fresh (bytes (fbytes f)) (bsize (fbytes f)) w \<and> guard_inv (add_mset (fguard f) M) w' \<and> mem w' = mem w)"
    by (auto simp: exact_fragment_allocate_def exact_make_heap_byte_blob_def fragment_new_def
        fragment_maybe_release_def blob_empty_def fragment_ok_def blob_end_def fresh_part)
qed

lemma simple_source: "fragment_source (simple_fragment_allocate h) (malloc_succeeds h)"
  unfolding fragment_source_def
proof (intro allI impI, elim conjE)
  fix sz w M assume a: "malloc_succeeds h sz w" "0 < sz" "guard_inv M w"
  then obtain p n where mb: "malloc_block h sz w = (p, n, w\<lparr>blocks := (p, n) # blocks w\<rparr>)" "0 < p" "sz \<le> n"
    "p + n < 2 ^ 63" "fresh p n w"
    "guard_inv (add_mset (make_simple_guard p) M) (w\<lparr>blocks := (p, n) # blocks w\<rparr>)"
    by (metis malloc_block_live)
  from a(2) mb show "sz < 2 ^ 63 \<and> (\<exists>f w'. simple_fragment_allocate h sz w = Some (f, w') \<and>
      fsize f = 0 \<and> fragment_ok f \<and> fhead f = bytes (fbytes f) \<and> sz \<le> bsize (fbytes f) \<and>
      fresh (bytes (fbytes f)) (bsize (fbytes f)) w \<and> guard_inv (add_mset (fguard f) M) w' \<and> mem w' = mem w)"
    by (auto simp: simple_fragment_allocate_def simple_make_heap_byte_blob_def fragment_new_def
        fragment_maybe_release_def blob_empty_def fragment_ok_def blob_end_def)
qed

interpretation exact_alloc: buffer_source "basic_allocate (exact_fragment_allocate h)" "malloc_succeeds h" for h
  by (rule basic_allocate_law [OF exact_source])

interpretation simple_alloc: buffer_source "basic_allocate (simple_fragment_allocate h)" "malloc_succeeds h" for h
  by (rule basic_allocate_law [OF simple_source])

end
