(* ===== verification/Io_Properties.thy ===== *)
theory Io_Properties
  imports Fragment_String Buffer_Reader Buffer_Allocator
begin

text \<open>
  The properties of the io components (\<^verbatim>\<open>xi/io\<close>): tagged pointers and guards, buffers over
  fragments, the allocators, readers, the scatter/gather adapter and fragment strings, with
  concrete instances on a buffer of two fragments.
\<close>

section \<open>A concrete buffer\<close>

definition ex_world :: world where
  "ex_world = \<lparr>mem = (\<lambda>a. word_of_nat a), impls = [], lim = 16, blocks = [(100, 8), (200, 8)], ran = []\<rparr>"

definition ex_frag1 :: fragment where
  "ex_frag1 = \<lparr>fbytes = \<lparr>bytes = 100, bsize = 8, bguard = 101\<rparr>, fhead = 101, fsize = 4\<rparr>"

definition ex_frag2 :: fragment where
  "ex_frag2 = \<lparr>fbytes = \<lparr>bytes = 200, bsize = 8, bguard = 201\<rparr>, fhead = 200, fsize = 5\<rparr>"

definition ex_buffer :: buffer where
  "ex_buffer = \<lparr>frags = [ex_frag1, ex_frag2], bufsize = 9\<rparr>"

definition ex_heap :: heap where
  "ex_heap sz w = (400, sz)"

lemma ex_guards: "buffer_guards ex_buffer = {#101, 201#}"
  by (simp add: ex_buffer_def ex_frag1_def ex_frag2_def frags_guards_def)

lemma ex_heap_guards: "heap_guards ex_world = {#}" "heap_owned ex_world = {#}"
  by (simp_all add: ex_world_def heap_guards_def heap_owned_def)

lemma ex_frag_ok [simp]: "fragment_ok ex_frag1" "fragment_ok ex_frag2"
  by (simp_all add: ex_frag1_def ex_frag2_def fragment_ok_def blob_end_def)

lemma ex_buffer_ok [simp]: "buffer_ok ex_buffer"
  by (simp add: buffer_ok_def ex_buffer_def) (simp add: ex_frag1_def ex_frag2_def)

lemma ex_inv [simp]: "guard_inv (buffer_guards ex_buffer + {#}) ex_world" "guard_inv (buffer_guards ex_buffer) ex_world"
proof -
  have "guard_tagged 101" "guard_tagged 201" "guard_ptr 101 = 100" "guard_ptr 201 = 200"
    by (simp_all add: guard_tagged_odd guard_ptr_mod)
  then show "guard_inv (buffer_guards ex_buffer) ex_world"
    by (simp add: guard_inv_def ex_guards ex_heap_guards owned_def) (simp add: ex_world_def)
  then show "guard_inv (buffer_guards ex_buffer + {#}) ex_world" by simp
qed

lemma ex_room [simp]: "guard_room 2 (buffer_guards ex_buffer + {#}) ex_world" "guard_room (Suc 0) (buffer_guards ex_buffer + {#}) ex_world"
  "guard_room 2 (buffer_guards ex_buffer) ex_world" "guard_room (Suc 0) (buffer_guards ex_buffer) ex_world"
  by (simp_all add: guard_room_def ex_guards ex_heap_guards)

lemma ex_frags: "frags ex_buffer = [ex_frag1, ex_frag2]" "bufsize ex_buffer = 9" "fsize ex_frag1 = 4" "fsize ex_frag2 = 5"
  "fhead ex_frag1 = 101" "fhead ex_frag2 = 200"
  by (simp_all add: ex_buffer_def ex_frag1_def ex_frag2_def)

lemma ex_basic [simp]: "frags ex_buffer \<noteq> []" "length (frags ex_buffer) = 2" "bufsize ex_buffer = 9"
  by (simp_all add: ex_frags)

lemma ex_apart [simp]: "apart 300 n (frags ex_buffer)"
  by (simp add: apart_def ex_frags)

section \<open>Tagged pointers and guards\<close>

text \<open>
  A tag set on an aligned pointer can be read back and removed, and does not disturb the pointer.
\<close>

theorem tagged_ptr_roundtrip:
  assumes "2 ^ n dvd p" "tag < 2 ^ n"
  shows "tp_get n (tp_set_tag tag p) = p \<and> tp_get_tag tag (tp_set_tag tag p) = tag \<and>
    tp_reset_tag tag (tp_set_tag tag p) = p"
  using tp_get_set_tag [OF assms] by blast

theorem tagged_ptr_roundtrip_witness:
  "tp_get 3 (tp_set_tag 5 64) = 64 \<and> tp_get_tag 5 (tp_set_tag 5 64) = 5 \<and> tp_reset_tag 5 (tp_set_tag 5 64) = 64"
  by (rule tagged_ptr_roundtrip) simp_all

text \<open>
  C6. Destroying guards never touches a guard object that is gone and never frees a block twice, in
  whatever order the guards are destroyed; it leaves the memory as it was and keeps the reference
  counts of all other guards right.
\<close>

theorem guards_released:
  assumes "guard_inv (mset gs + M) w"
  shows "\<exists>w'. guard_destroy_all gs w = Some w' \<and> guard_inv M w' \<and> mem w' = mem w"
  using assms by (rule guard_destroy_all_inv)

theorem guards_released_witness:
  "\<exists>w'. guard_destroy_all [201, 101] ex_world = Some w' \<and> guard_inv {#} w' \<and> mem w' = mem ex_world"
  by (rule guards_released) (use ex_inv(2) in \<open>simp add: ex_guards add_mset_commute\<close>)

text \<open>
  A block shared between two guards stays allocated while one of them lives and is freed with the
  last one.
\<close>

theorem shared_block_lifetime:
  assumes "guard_inv (add_mset (guard_simple p) M) w" "even p" "0 < p"
  shows "\<exists>g1 g2 w1 w2 w3. guard_share (guard_simple p) w = (g1, g2, w1) \<and>
    guard_destroy g2 w1 = Some w2 \<and> p \<in> fst ` set (blocks w2) \<and>
    guard_destroy g1 w2 = Some w3 \<and> p \<notin> fst ` set (blocks w3)"
proof -
  note D = guard_invD [OF assms(1)]
  let ?i = "free_guard_impl p"
  let ?w1 = "upd_impl (lim w) (\<lambda>i. i\<lparr>refs := uadd (refs i) 1\<rparr>) (w\<lparr>impls := (lim w, ?i) # impls w, lim := lim w + 16\<rparr>)"
  have new: "lim w \<notin> fst ` set (impls w)" using D(4) by fastforce
  have ev: "even (lim w)" "0 < lim w" using D(2,3) by auto
  have nt: "\<not> guard_tagged (lim w)" using ev(1) by (rule guard_even_untagged)
  have sh: "guard_share (guard_simple p) w = (lim w, lim w, ?w1)"
    using assms(2,3) nt by (simp add: guard_share_def guard_empty_def new_impl_def)
  have other: "map (\<lambda>(a, i). if a = lim w then (a, f i) else (a, i)) (impls w) = impls w" for f
    using new by (intro map_idI) (auto simp: rev_image_eqI)
  have im: "impls ?w1 = (lim w, ?i\<lparr>refs := 2\<rparr>) # impls w"
    by (simp add: upd_impl_def other free_guard_impl_def)
  let ?w2 = "upd_impl (lim w) (\<lambda>i. i\<lparr>refs := usub (refs i) 1\<rparr>) ?w1"
  have d2: "guard_destroy (lim w) ?w1 = Some ?w2"
    using nt ev(2) im by (simp add: guard_destroy_def)
  have im2: "impls ?w2 = (lim w, ?i\<lparr>refs := 1\<rparr>) # impls w"
    using im by (simp add: upd_impl_def other)
  have "p \<in># owned (add_mset (guard_simple p) M) w" using assms(2) by (simp add: owned_def)
  then have pb: "p \<in> fst ` set (blocks w)" using D(8) by (metis mset_subset_eqD set_map set_mset_mset)
  have bl: "blocks ?w2 = blocks w" by simp
  have "map_of (impls ?w2) (lim w) = Some (?i\<lparr>refs := 1\<rparr>)" using im2 by simp
  then have "\<exists>w3. guard_destroy (lim w) ?w2 = Some w3 \<and> p \<notin> fst ` set (blocks w3)"
    using nt ev(2) pb by (auto simp: guard_destroy_def free_guard_impl_def free_ptr_def impl_guards_def)
  then show ?thesis using sh d2 pb bl by auto
qed

theorem shared_block_lifetime_witness:
  "\<exists>g1 g2 w1 w2 w3. guard_share (guard_simple 100) ex_world = (g1, g2, w1) \<and>
    guard_destroy g2 w1 = Some w2 \<and> 100 \<in> fst ` set (blocks w2) \<and>
    guard_destroy g1 w2 = Some w3 \<and> 100 \<notin> fst ` set (blocks w3)"
proof (rule shared_block_lifetime)
  have "guard_simple 100 = 101" by (simp add: guard_simple_def tp_set_tag_def USE_FREE_def or_Suc_0_eq)
  then show "guard_inv (add_mset (guard_simple 100) {#201#}) ex_world" using ex_inv(2) by (simp add: ex_guards)
qed simp_all

section \<open>Buffers\<close>

text \<open>
  \<^verbatim>\<open>buffer::skip_bytes\<close> drops bytes off the front of the content (all of them when it is asked
  for more than there are), whether or not it frees the fragments it passed, and releases no guard
  of anyone else.
\<close>

theorem buffer_skip_spec:
  assumes "buffer_ok b" "guard_inv (buffer_guards b + M) w"
  shows "\<exists>b' w'. buffer_skip_bytes sz fr b w = Some (b', w') \<and> buffer_ok b' \<and>
    buffer_content m b' = drop sz (buffer_content m b) \<and> bufsize b' = bufsize b - sz \<and>
    guard_inv (buffer_guards b' + M) w' \<and> mem w' = mem w"
  using assms by (rule buffer_skip_bytes_live)

theorem buffer_skip_spec_witness:
  "\<exists>b' w'. buffer_skip_bytes 6 True ex_buffer ex_world = Some (b', w') \<and> buffer_ok b' \<and>
    buffer_content (mem ex_world) b' = drop 6 (buffer_content (mem ex_world) ex_buffer) \<and> bufsize b' = bufsize ex_buffer - 6 \<and>
    guard_inv (buffer_guards b' + {#}) w' \<and> mem w' = mem ex_world"
  by (rule buffer_skip_spec) simp_all

text \<open>
  \<^verbatim>\<open>buffer::ignore_bytes_at_end\<close> drops bytes off the back of the content.
\<close>

theorem buffer_ignore_spec:
  assumes "buffer_ok b" "guard_inv (buffer_guards b + M) w"
  shows "\<exists>b' w'. buffer_ignore_bytes_at_end sz fr b w = Some (b', w') \<and> buffer_ok b' \<and>
    buffer_content m b' = take (bufsize b - sz) (buffer_content m b) \<and>
    bufsize b' = bufsize b - sz \<and> guard_inv (buffer_guards b' + M) w' \<and> mem w' = mem w"
  using assms by (rule buffer_ignore_live)

theorem buffer_ignore_spec_witness:
  "\<exists>b' w'. buffer_ignore_bytes_at_end 7 False ex_buffer ex_world = Some (b', w') \<and> buffer_ok b' \<and>
    buffer_content (mem ex_world) b' = take (bufsize ex_buffer - 7) (buffer_content (mem ex_world) ex_buffer) \<and>
    bufsize b' = bufsize ex_buffer - 7 \<and> guard_inv (buffer_guards b' + {#}) w' \<and> mem w' = mem ex_world"
  by (rule buffer_ignore_spec) simp_all

text \<open>
  C24. \<^verbatim>\<open>buffer::split\<close> cuts the content in two at the requested offset, both halves are sound
  buffers, and putting the first half back in front restores the content.
\<close>

theorem buffer_split_join:
  assumes "buffer_ok b" "guard_inv (buffer_guards b + M) w" "guard_room 1 (buffer_guards b + M) w" "frags b \<noteq> []" "0 < sz"
  shows "\<exists>n b' w'. buffer_split sz b w = Some (Some n, b', w') \<and>
    buffer_content m n = take sz (buffer_content m b) \<and> buffer_content m b' = drop sz (buffer_content m b) \<and>
    buffer_ok n \<and> buffer_ok b' \<and> guard_inv (buffer_guards n + buffer_guards b' + M) w' \<and>
    buffer_ok (buffer_push_front_buffer (Some n) b') \<and>
    buffer_content m (buffer_push_front_buffer (Some n) b') = buffer_content m b"
proof -
  obtain n b' w' where s: "buffer_split sz b w = Some (Some n, b', w')" "buffer_ok n" "buffer_ok b'"
    "buffer_content m n = take sz (buffer_content m b)" "buffer_content m b' = drop sz (buffer_content m b)"
    "guard_inv (buffer_guards n + buffer_guards b' + M) w'"
    using buffer_split_live [OF assms, of m] by blast
  have len: "length (buffer_content m c) = bufsize c" if "buffer_ok c" for c
    using that by (simp add: buffer_ok_def frags_content_def frags_size_def length_concat comp_def)
  have "bufsize n + bufsize b' = bufsize b" using s(4,5) len [OF s(2)] len [OF s(3)] len [OF assms(1)] by simp
  moreover have "bufsize b < 2 ^ 63" using assms(1) by (simp add: buffer_ok_def)
  ultimately have "buffer_ok (buffer_push_front_buffer (Some n) b')"
    using s(2,3) by (simp add: buffer_ok_def buffer_push_front_buffer_def)
  moreover have "buffer_content m (buffer_push_front_buffer (Some n) b') = buffer_content m b"
    using s(4,5) by (simp add: buffer_push_front_buffer_def)
  ultimately show ?thesis using s by blast
qed

theorem buffer_split_join_witness:
  "\<exists>n b' w'. buffer_split 2 ex_buffer ex_world = Some (Some n, b', w') \<and>
    buffer_content (mem ex_world) n = take 2 (buffer_content (mem ex_world) ex_buffer) \<and>
    buffer_content (mem ex_world) b' = drop 2 (buffer_content (mem ex_world) ex_buffer) \<and>
    buffer_ok n \<and> buffer_ok b' \<and> guard_inv (buffer_guards n + buffer_guards b' + {#}) w' \<and>
    buffer_ok (buffer_push_front_buffer (Some n) b') \<and>
    buffer_content (mem ex_world) (buffer_push_front_buffer (Some n) b') = buffer_content (mem ex_world) ex_buffer"
  by (rule buffer_split_join) simp_all

text \<open>
  \<^verbatim>\<open>buffer::read\<close> copies the slice of the content at the offset, across fragments, as far as the
  target range and the content reach, and says how much that was.
\<close>

theorem buffer_read_spec:
  fixes offset :: usize
  assumes "buffer_ok b" "apart (rdata r) (rsize r) (frags b)" "rsize r < 2 ^ 63"
  shows "buffer_read r offset b w =
    Some (min (rsize r) (bufsize b - offset),
      w\<lparr>mem := store (mem w) (rdata r) (take (min (rsize r) (bufsize b - offset)) (drop offset (buffer_content (mem w) b)))\<rparr>)"
  using assms by (rule buffer_read_live)

theorem buffer_read_spec_witness:
  "buffer_read \<lparr>rdata = 300, rsize = 4\<rparr> 2 ex_buffer ex_world =
    Some (4, ex_world\<lparr>mem := store (mem ex_world) 300 [103, 104, 200, 201]\<rparr>)"
proof -
  have c: "buffer_content (mem ex_world) ex_buffer = [101, 102, 103, 104, 200, 201, 202, 203, 204]"
    by (simp add: ex_frags fragment_content_def) (simp add: ex_world_def load_def upt_rec)
  show ?thesis using buffer_read_spec [of ex_buffer "\<lparr>rdata = 300, rsize = 4\<rparr>" 2 ex_world] by (simp add: c)
qed

text \<open>
  What \<^verbatim>\<open>buffer::write\<close> appended can be read back at the old end of the buffer, into any range
  apart from the buffer's data.
\<close>

theorem buffer_write_read_roundtrip:
  assumes "buffer_ok b" "frags b \<noteq> []" "bufsize b + rsize r < 2 ^ 63"
    "apart (fragment_tail (last (frags b))) (rsize r) (butlast (frags b))"
    "buffer_write r b w = (n, b', w')" "apart p n (frags b')"
  shows "n = min (rsize r) (buffer_tailroom b) \<and> buffer_ok b' \<and> bufsize b' = bufsize b + n \<and>
    buffer_content (mem w') b' = buffer_content (mem w) b @ load (mem w) (rdata r) n \<and>
    buffer_read \<lparr>rdata = p, rsize = n\<rparr> (bufsize b) b' w' =
      Some (n, w'\<lparr>mem := store (mem w') p (load (mem w) (rdata r) n)\<rparr>)"
proof -
  note W = buffer_write_live [OF assms(1-5)]
  have len: "length (buffer_content (mem w) b) = bufsize b"
    using assms(1) by (simp add: buffer_ok_def frags_content_def frags_size_def length_concat comp_def)
  have "n < 2 ^ 63" using W assms(3) by auto
  with buffer_read_live [of b' "\<lparr>rdata = p, rsize = n\<rparr>" "bufsize b" w'] W assms(6) len show ?thesis by auto
qed

theorem buffer_write_read_roundtrip_witness:
  "\<exists>n b' w'. buffer_write \<lparr>rdata = 301, rsize = 7\<rparr> ex_buffer ex_world = (n, b', w') \<and>
    buffer_read \<lparr>rdata = 300, rsize = n\<rparr> 9 b' w' = Some (n, w'\<lparr>mem := store (mem w') 300 (load (mem ex_world) 301 n)\<rparr>)"
proof -
  obtain n b' w' where e: "buffer_write \<lparr>rdata = 301, rsize = 7\<rparr> ex_buffer ex_world = (n, b', w')" by (metis prod_cases3)
  have "apart 300 n (frags b')"
    using e by (auto simp: buffer_write_def ex_frags buffer_empty_def br_empty_def fragment_write_def Let_def apart_def
        fragment_tailroom_def ex_frag2_def blob_end_def fragment_tail_def split: if_splits)
  then show ?thesis
    using buffer_write_read_roundtrip [of ex_buffer "\<lparr>rdata = 301, rsize = 7\<rparr>" ex_world n b' w' 300] e
    by (auto simp: ex_frags apart_def fragment_tail_def)
qed

text \<open>
  A clone shows the same bytes over shared memory, and what is later skipped in the clone is not
  lost in the original.
\<close>

theorem buffer_clone_independent:
  assumes "buffer_ok b" "guard_inv (buffer_guards b + M) w" "guard_room (length (frags b)) (buffer_guards b + M) w"
  shows "\<exists>c b' w' c' w''. buffer_clone b w = Some (c, b', w') \<and> buffer_content m c = buffer_content m b \<and>
    buffer_skip_bytes sz True c w' = Some (c', w'') \<and> buffer_content m c' = drop sz (buffer_content m b) \<and>
    buffer_content m b' = buffer_content m b \<and> buffer_ok b' \<and> guard_inv (buffer_guards c' + buffer_guards b' + M) w'' \<and>
    mem w'' = mem w"
proof -
  obtain c b' w' where c: "buffer_clone b w = Some (c, b', w')" "buffer_ok c" "buffer_ok b'"
    "\<forall>m. buffer_content m c = buffer_content m b \<and> buffer_content m b' = buffer_content m b"
    "guard_inv (buffer_guards c + buffer_guards b' + M) w'" "mem w' = mem w"
    using buffer_clone_live [OF assms] by blast
  have "guard_inv (buffer_guards c + (buffer_guards b' + M)) w'" using c(5) by (simp add: add.assoc)
  from buffer_skip_bytes_live [OF c(2) this, of sz True m] obtain c' w'' where
    "buffer_skip_bytes sz True c w' = Some (c', w'')" "buffer_content m c' = drop sz (buffer_content m c)"
    "guard_inv (buffer_guards c' + (buffer_guards b' + M)) w''" "mem w'' = mem w'" by blast
  with c show ?thesis by (auto simp: add.assoc)
qed

theorem buffer_clone_independent_witness:
  "\<exists>c b' w' c' w''. buffer_clone ex_buffer ex_world = Some (c, b', w') \<and>
    buffer_content (mem ex_world) c = buffer_content (mem ex_world) ex_buffer \<and>
    buffer_skip_bytes 9 True c w' = Some (c', w'') \<and>
    buffer_content (mem ex_world) c' = drop 9 (buffer_content (mem ex_world) ex_buffer) \<and>
    buffer_content (mem ex_world) b' = buffer_content (mem ex_world) ex_buffer \<and> buffer_ok b' \<and>
    guard_inv (buffer_guards c' + buffer_guards b' + {#}) w'' \<and> mem w'' = mem ex_world"
  by (rule buffer_clone_independent) simp_all

text \<open>
  C26. \<^verbatim>\<open>buffer::range(0, len)\<close> with the exact allocator returns a contiguous view of the first bytes,
  coalescing fragments into new memory or into their tailroom where needed, and the content of the
  buffer stays what it was. The heap \<open>h\<close> is the C library's, assumed to serve the request.
\<close>

theorem buffer_range_spec:
  assumes "buffer_ok b" "guard_inv (buffer_guards b + M) w" "covered (frags b) w" "tails_free (frags b)"
    and "0 < len" "0 < bufsize b" "malloc_succeeds h (min len (bufsize b)) w"
  shows "\<exists>r b' w'. buffer_range (basic_allocate (exact_fragment_allocate h)) 0 len b w = Some (r, b', w') \<and>
    load (mem w') (rdata r) (rsize r) = take len (buffer_content (mem w) b) \<and>
    buffer_content (mem w') b' = buffer_content (mem w) b \<and> buffer_ok b' \<and> guard_inv (buffer_guards b' + M) w'"
  using assms by (rule exact_alloc.range_prefix)

theorem buffer_range_spec_witness:
  "\<exists>r b' w'. buffer_range (basic_allocate (exact_fragment_allocate ex_heap)) 0 7 ex_buffer ex_world = Some (r, b', w') \<and>
    load (mem w') (rdata r) (rsize r) = take 7 (buffer_content (mem ex_world) ex_buffer) \<and>
    buffer_content (mem w') b' = buffer_content (mem ex_world) ex_buffer \<and> buffer_ok b' \<and> guard_inv (buffer_guards b' + {#}) w'"
proof (rule buffer_range_spec)
  show "tails_free (frags ex_buffer)"
    by (simp add: tails_free_def ex_frags less_Suc_eq_0_disj apart_def fragment_tail_def)
       (simp add: fragment_tailroom_def fragment_tail_def ex_frag1_def ex_frag2_def blob_end_def)
  show "covered (frags ex_buffer) ex_world" by (simp add: covered_def ex_frags) (simp add: ex_world_def)
  show "malloc_succeeds ex_heap (min 7 (bufsize ex_buffer)) ex_world"
    by (simp add: malloc_succeeds_def ex_heap_def ex_frags fresh_def) (simp add: ex_world_def)
qed simp_all

section \<open>Readers, vectors and strings\<close>

text \<open>
  \<^verbatim>\<open>reader::read_value\<close> succeeds exactly when enough bytes follow the mark, and then stores these
  bytes; otherwise it changes nothing.
\<close>

theorem reader_read_value_spec:
  assumes "reader_ok rd" "0 < n" "apart p n (frags (rbuf rd))"
  shows "reader_read_value p n rd w =
    (if n \<le> length (reader_rest (mem w) rd)
     then Some (True, w\<lparr>mem := store (mem w) p (take n (reader_rest (mem w) rd))\<rparr>)
     else Some (False, w))"
  using assms by (rule reader_read_value_effect)

theorem reader_read_value_spec_witness:
  "reader_read_value 300 6 \<lparr>rbuf = ex_buffer, rmark = 4\<rparr> ex_world = Some (False, ex_world)"
proof -
  have "length (reader_rest (mem ex_world) \<lparr>rbuf = ex_buffer, rmark = 4\<rparr>) = 5"
    by (simp add: reader_rest_def) (simp add: ex_frags)
  then show ?thesis
    using reader_read_value_spec [of "\<lparr>rbuf = ex_buffer, rmark = 4\<rparr>" 6 300 ex_world] by (simp add: reader_ok_def)
qed

text \<open>
  \<^verbatim>\<open>reader::find_byte\<close> finds the first occurrence of a byte at or after an offset, across
  fragments, as if the content were contiguous.
\<close>

theorem reader_find_byte_spec:
  assumes "reader_ok rd"
  shows "reader_find_byte t offset rd m = memchr t (drop offset (buffer_content m (rbuf rd))) \<and>
    (\<forall>i. reader_find_byte t offset rd m = Some i \<longleftrightarrow>
       i < length (drop offset (buffer_content m (rbuf rd))) \<and> drop offset (buffer_content m (rbuf rd)) ! i = t \<and>
       t \<notin> set (take i (drop offset (buffer_content m (rbuf rd)))))"
  using reader_find_byte_effect [OF assms, of t offset m] memchr_first(1) by simp

theorem reader_find_byte_spec_witness:
  "reader_find_byte 201 3 (make_reader ex_buffer) (mem ex_world) = Some 2"
proof -
  have c: "buffer_content (mem ex_world) ex_buffer = [101, 102, 103, 104, 200, 201, 202, 203, 204]"
    by (simp add: ex_frags fragment_content_def) (simp add: ex_world_def load_def upt_rec)
  show ?thesis using reader_find_byte_spec [of "make_reader ex_buffer" 201 3 "mem ex_world"]
    by (simp add: reader_ok_def make_reader_def c)
qed

text \<open>
  Consuming up to the mark gives a buffer with the marked bytes and leaves the reader with the
  others; nothing is copied and no guard is lost.
\<close>

theorem reader_consume_spec:
  assumes "reader_ok rd" "0 < rmark rd" "guard_inv (reader_guards rd + M) w" "guard_room 1 (reader_guards rd + M) w"
  shows "\<exists>n rd' w'. reader_consume_mark_into_buffer rd w = Some (Some n, rd', w') \<and>
    buffer_ok n \<and> reader_ok rd' \<and> rmark rd' = 0 \<and>
    buffer_content m n = take (rmark rd) (buffer_content m (rbuf rd)) \<and>
    reader_rest m rd' = reader_rest m rd \<and>
    guard_inv (buffer_guards n + reader_guards rd' + M) w' \<and> mem w' = mem w"
  using assms by (rule reader_consume_live)

theorem reader_consume_spec_witness:
  "\<exists>n rd' w'. reader_consume_mark_into_buffer \<lparr>rbuf = ex_buffer, rmark = 3\<rparr> ex_world = Some (Some n, rd', w') \<and>
    buffer_ok n \<and> reader_ok rd' \<and> rmark rd' = 0 \<and>
    buffer_content (mem ex_world) n = take 3 (buffer_content (mem ex_world) ex_buffer)"
proof -
  have "\<exists>n rd' w'. reader_consume_mark_into_buffer \<lparr>rbuf = ex_buffer, rmark = 3\<rparr> ex_world = Some (Some n, rd', w') \<and>
    buffer_ok n \<and> reader_ok rd' \<and> rmark rd' = 0 \<and>
    buffer_content (mem ex_world) n =
      take (rmark \<lparr>rbuf = ex_buffer, rmark = 3\<rparr>) (buffer_content (mem ex_world) (rbuf \<lparr>rbuf = ex_buffer, rmark = 3\<rparr>)) \<and>
    reader_rest (mem ex_world) rd' = reader_rest (mem ex_world) \<lparr>rbuf = ex_buffer, rmark = 3\<rparr> \<and>
    guard_inv (buffer_guards n + reader_guards rd' + {#}) w' \<and> mem w' = mem ex_world"
    by (rule reader_consume_spec) (simp_all add: reader_ok_def)
  then show ?thesis by (simp only: reader.select_convs) metis
qed

text \<open>
  The vectors handed to a gathering write show a prefix of the buffer's content, all of it when
  the vectors suffice, and none of them is empty.
\<close>

theorem readable_iovec_spec:
  assumes "buffer_ok b" "0 < mx" "mx \<le> IOV_MAX"
  shows "\<exists>rs. fill_readable_iovec b mx = Some rs \<and> length rs \<le> mx \<and> list_all (\<lambda>r. 0 < rsize r) rs \<and>
    prefix (concat (map (\<lambda>r. load m (rdata r) (rsize r)) rs)) (buffer_content m b) \<and>
    (length (filter (\<lambda>f. fsize f \<noteq> 0) (frags b)) \<le> mx \<longrightarrow>
       concat (map (\<lambda>r. load m (rdata r) (rsize r)) rs) = buffer_content m b)"
proof (rule fill_readable_content [OF assms, of m])
  fix rs :: "byte_range list"
  let ?c = "concat (map (\<lambda>r. load m (rdata r) (rsize r)) rs)"
  assume "fill_readable_iovec b mx = Some rs" "length rs \<le> mx" "\<forall>r \<in> set rs. 0 < rsize r"
    "prefix ?c (buffer_content m b)" "length (filter (\<lambda>f. fsize f \<noteq> 0) (frags b)) \<le> mx \<Longrightarrow> ?c = buffer_content m b"
  then show ?thesis unfolding list_all_iff by blast
qed

theorem readable_iovec_spec_witness:
  "\<exists>rs. fill_readable_iovec ex_buffer 2 = Some rs \<and>
    concat (map (\<lambda>r. load (mem ex_world) (rdata r) (rsize r)) rs) = buffer_content (mem ex_world) ex_buffer"
proof -
  have "length (filter (\<lambda>f. fsize f \<noteq> 0) (frags ex_buffer)) \<le> 2" by (simp add: ex_frags)
  with readable_iovec_spec [of ex_buffer 2 "mem ex_world"] show ?thesis by (simp only: IOV_MAX_def) auto
qed

text \<open>
  What a scattering read put behind the last fragment's data and then reported becomes the tail of
  the buffer's content.
\<close>

theorem report_written_spec:
  assumes "buffer_ok b" "frags b \<noteq> []" "n \<le> buffer_tailroom b" "bufsize b + n < 2 ^ 63"
  shows "\<exists>b'. report_written n b = Some b' \<and> buffer_ok b' \<and> bufsize b' = bufsize b + n \<and>
    buffer_content m b' = buffer_content m b @ load m (fragment_tail (last (frags b))) n"
  by (rule report_written_effect [OF assms, of m]) blast

theorem report_written_spec_witness:
  "\<exists>b'. report_written 2 ex_buffer = Some b' \<and> buffer_ok b' \<and> bufsize b' = 11 \<and>
    buffer_content (mem ex_world) b' = buffer_content (mem ex_world) ex_buffer @ load (mem ex_world) 205 2"
  using report_written_spec [of ex_buffer 2 "mem ex_world"]
  by (simp add: buffer_tailroom_def ex_frags fragment_tailroom_def fragment_tail_def)
     (simp add: ex_frag2_def blob_end_def)

text \<open>
  Comparing a fragment string with a contiguous string is the byte-wise lexicographic comparison
  of the contents, whatever the fragmentation; it is zero exactly for equal contents.
\<close>

theorem fstr_compare_spec:
  assumes "fstr_ok t" "length s < 2 ^ 31"
  shows "fstr_compare s t m = lex_compare (fstr_content m t) s \<and> (fstr_compare s t m = 0 \<longleftrightarrow> fstr_content m t = s)"
  using fstr_compare_correct [OF assms, of m] by (simp add: lex_compare_eq_0)

theorem fstr_compare_spec_witness:
  "fstr_compare [101, 102] \<lparr>sfrags = [ex_frag1, ex_frag2], ssize = 9\<rparr> (mem ex_world) \<noteq> 0"
proof -
  have "fstr_content (mem ex_world) \<lparr>sfrags = [ex_frag1, ex_frag2], ssize = 9\<rparr> \<noteq> [101, 102]"
    by (simp add: fstr_content_def fragment_content_def ex_frags load_def ex_world_def upt_rec)
  then show ?thesis
    using fstr_compare_spec [of "\<lparr>sfrags = [ex_frag1, ex_frag2], ssize = 9\<rparr>" "[101, 102]" "mem ex_world"]
    by (simp add: fstr_ok_def ex_frags)
qed

end
