(* ===== verification/Wire.thy ===== *)
theory Wire
  imports Buffer_Reader
begin

text \<open>
  What the protocol decoders use of a buffer: its size, reading a small value off its front, and
  skipping bytes. \<open>wire_in stk k M b w bs\<close> says that \<open>b\<close> is a sound buffer in \<open>w\<close> that shows the
  bytes \<open>bs\<close> and does not overlap the \<open>k\<close> bytes at \<open>stk\<close> of the decoder's stack frame, where the
  values are read to; \<open>M\<close> are the guards of everything else. The laws below turn each buffer
  operation into the list operation it implements.
\<close>

definition wire_in :: "addr \<Rightarrow> usize \<Rightarrow> guard multiset \<Rightarrow> buffer \<Rightarrow> world \<Rightarrow> u8 list \<Rightarrow> bool" where
  "wire_in stk k M b w bs \<longleftrightarrow> buffer_ok b \<and> guard_inv (buffer_guards b + M) w \<and>
     apart stk k (frags b) \<and> buffer_content (mem w) b = bs"

text \<open>\<^verbatim>\<open>read_value_and_skip<T>().unwrap()\<close>; \<open>None\<close> is \<^verbatim>\<open>unwrap\<close> of an absent value.\<close>

definition read_and_unwrap :: "addr \<Rightarrow> usize \<Rightarrow> buffer \<Rightarrow> world \<Rightarrow> (u8 list \<times> buffer \<times> world) option" where
  "read_and_unwrap stk n b w =
     do { (v, rd, w') \<leftarrow> reader_read_opt_and_skip stk n (make_reader b) w;
          bs \<leftarrow> v;
          Some (bs, rbuf rd, w') }"

lemma fragment_skip_window:
  assumes "fragment_skip_bytes len f w = Some (n, f', w')" "fsize f < 2 ^ 64"
  shows "fsize f' = 0 \<or> fhead f \<le> fhead f' \<and> fhead f' + fsize f' \<le> fhead f + fsize f"
  using assms by (auto simp: fragment_skip_bytes_def fragment_maybe_release_def Let_def bind_eq_Some_conv
      split: if_splits)

lemma buffer_skip_apart:
  assumes "buffer_skip_bytes sz True b w = Some (b', w')" "buffer_ok b" "apart p n (frags b)"
  shows "apart p n (frags b')"
proof (cases "buffer_empty b")
  case True
  with assms show ?thesis by (auto simp: buffer_skip_bytes_def)
next
  case False
  obtain pre rest off where so: "skip_offset (frags b) sz = (pre, rest, off)" by (metis prod_cases3)
  have fb: "frags b = pre @ rest" using skip_offset_spec [OF so] by simp
  show ?thesis
  proof (cases rest)
    case Nil
    with assms False so show ?thesis by (auto simp: buffer_skip_bytes_def apart_def bind_eq_Some_conv)
  next
    case (Cons it its)
    with assms(1) False so obtain k it' w1 where
      sk: "fragment_skip_bytes off it w = Some (k, it', w1)" and fr: "frags b' = its \<or> frags b' = it' # its"
      by (auto simp: buffer_skip_bytes_def bind_eq_Some_conv split: if_splits)
    have "fsize it < 2 ^ 64" using assms(2) fb Cons by (auto simp: buffer_ok_def fragment_ok_def)
    from fragment_skip_window [OF sk this] fr assms(3) fb Cons show ?thesis
      by (fastforce simp: apart_def)
  qed
qed

lemma wire_size: "wire_in stk k M b w bs \<Longrightarrow> bufsize b = length bs"
  by (auto simp: wire_in_def buffer_ok_def)

lemma wire_small: "wire_in stk k M b w bs \<Longrightarrow> length bs < 2 ^ 63"
  by (auto simp: wire_in_def buffer_ok_def)

lemma wire_skip:
  assumes "wire_in stk k M b w bs"
  obtains b' w' where "buffer_skip_bytes n True b w = Some (b', w')" "wire_in stk k M b' w' (drop n bs)"
proof -
  from assms have "buffer_ok b" "guard_inv (buffer_guards b + M) w" by (auto simp: wire_in_def)
  from buffer_skip_bytes_live [OF this, of n True "mem w"] obtain b' w' where
    b': "buffer_skip_bytes n True b w = Some (b', w')" "buffer_ok b'"
    "buffer_content (mem w) b' = drop n (buffer_content (mem w) b)"
    "guard_inv (buffer_guards b' + M) w'" "mem w' = mem w" by blast
  moreover have "apart stk k (frags b')" using buffer_skip_apart [OF b'(1)] assms by (auto simp: wire_in_def)
  ultimately show ?thesis using assms by (intro that) (auto simp: wire_in_def)
qed

lemma wire_read:
  assumes "wire_in stk k M b w bs" "0 < n" "n \<le> k" "n \<le> length bs"
  obtains rd w' where "reader_read_opt_and_skip stk n (make_reader b) w = Some (Some (take n bs), rd, w')"
    "wire_in stk k M (rbuf rd) w' (drop n bs)"
proof -
  let ?rd = "make_reader b"
  have ok: "buffer_ok b" "guard_inv (buffer_guards b + M) w" "apart stk k (frags b)" "reader_ok ?rd"
    and rest: "reader_rest (mem w) ?rd = bs"
    using assms(1) by (auto simp: wire_in_def reader_ok_def make_reader_def reader_rest_def)
  have ap: "apart stk n (frags (rbuf ?rd))" using apart_part [OF ok(3), of 0 n] assms(3) by (simp add: make_reader_def)
  let ?w = "w\<lparr>mem := store (mem w) stk (take n bs)\<rparr>"
  have len: "length (take n bs) = n" using assms(4) by simp
  have same: "buffer_content (mem ?w) b = bs"
    using apart_store [of stk "take n bs" "frags b" "mem w"] ap len assms(1) by (simp add: wire_in_def make_reader_def)
  have win: "wire_in stk k M b ?w bs" using assms(1) same by (simp add: wire_in_def)
  then obtain b' w' where b': "buffer_skip_bytes n True b ?w = Some (b', w')" "wire_in stk k M b' w' (drop n bs)"
    by (rule wire_skip)
  have "length bs < 2 ^ 64" using wire_small [OF assms(1)] by simp
  then have "n < 2 ^ 64" using assms(4) by simp
  then have "reader_read_opt_and_skip stk n ?rd w = Some (Some (take n bs), \<lparr>rbuf = b', rmark = 0\<rparr>, w')"
    using reader_read_value_effect [OF ok(4) assms(2) ap, of w] assms(4) rest len b'(1)
    by (simp add: reader_read_opt_and_skip_def reader_read_opt_def reader_skip_def) (simp add: make_reader_def)
  moreover have "wire_in stk k M (rbuf \<lparr>rbuf = b', rmark = 0\<rparr>) w' (drop n bs)" using b'(2) by simp
  ultimately show ?thesis by (rule that)
qed

lemma wire_read_short:
  assumes "wire_in stk k M b w bs" "0 < n" "n \<le> k" "length bs < n"
  shows "reader_read_opt_and_skip stk n (make_reader b) w = Some (None, make_reader b, w)"
proof -
  let ?rd = "make_reader b"
  have "apart stk k (frags b)" "reader_ok ?rd" "reader_rest (mem w) ?rd = bs"
    using assms(1) by (auto simp: wire_in_def reader_ok_def make_reader_def reader_rest_def)
  moreover from this(1) have "apart stk n (frags (rbuf ?rd))"
    using apart_part [of stk k "frags b" 0 n] assms(3) by (simp add: make_reader_def)
  ultimately show ?thesis using reader_read_short(2) [of ?rd n stk w] assms(2,4) by simp
qed

lemma read_and_unwrap_sim:
  assumes "wire_in stk k M b w bs" "0 < n" "n \<le> k" "n \<le> length bs"
  obtains b' w' where "read_and_unwrap stk n b w = Some (take n bs, b', w')" "wire_in stk k M b' w' (drop n bs)"
  using wire_read [OF assms] by (metis (no_types, lifting) read_and_unwrap_def Option.bind.bind_lunit case_prod_conv)

end
