(* ===== verification/Http2.thy ===== *)
theory Http2
  imports Wire
begin

text \<open>
  \<^verbatim>\<open>xi/io/proto/http2/constants.h\<close> and \<^verbatim>\<open>xi/io/proto/http2/decoder.h\<close>: the HTTP/2 frame decoder, a
  state machine fed with buffers. Calls of the \<^verbatim>\<open>delegate\<close> interface are logged in the order they
  are made; no delegate touches the decoder or its input. \<open>stk\<close> is the address of the local the
  decoder reads values into.
\<close>

section \<open>Constants\<close>

definition INITIATION_STRING :: "u8 list" where
  "INITIATION_STRING =
     [0x50, 0x52, 0x49, 0x20, 0x2A, 0x20, 0x48, 0x54, 0x54, 0x50, 0x2F, 0x32, 0x2E, 0x30,
      0x0D, 0x0A, 0x0D, 0x0A, 0x53, 0x4D, 0x0D, 0x0A, 0x0D, 0x0A, 0x00]"

datatype h2_state =
    READ_CONNECTION_PREFACE | READ_FRAME_HEADER | READ_FRAME_PADDING
  | READ_DATA_FRAME | READ_HEADERS_FRAME | READ_PRIORITY_FRAME | READ_RST_STREAM_FRAME
  | READ_SETTINGS_FRAME | READ_PUSH_PROMISE_FRAME | READ_PING_FRAME | READ_GOAWAY_FRAME
  | READ_WINDOW_UPDATE_FRAME | READ_CONTINUATION_FRAME | CONNECTION_ERROR | Unnamed_state u8

definition h2_state_of_u8 :: "u8 \<Rightarrow> h2_state" where
  "h2_state_of_u8 x =
     (if x = 0x00 then READ_CONNECTION_PREFACE else if x = 0x01 then READ_FRAME_HEADER
      else if x = 0x02 then READ_FRAME_PADDING else if x = 0xF0 then READ_DATA_FRAME
      else if x = 0xF1 then READ_HEADERS_FRAME else if x = 0xF2 then READ_PRIORITY_FRAME
      else if x = 0xF3 then READ_RST_STREAM_FRAME else if x = 0xF4 then READ_SETTINGS_FRAME
      else if x = 0xF5 then READ_PUSH_PROMISE_FRAME else if x = 0xF6 then READ_PING_FRAME
      else if x = 0xF7 then READ_GOAWAY_FRAME else if x = 0xF8 then READ_WINDOW_UPDATE_FRAME
      else if x = 0xF9 then READ_CONTINUATION_FRAME else if x = 0xFF then CONNECTION_ERROR
      else Unnamed_state x)"

abbreviation DATA_FRAME :: u8 where "DATA_FRAME \<equiv> 0x00"
abbreviation HEADERS_FRAME :: u8 where "HEADERS_FRAME \<equiv> 0x01"
abbreviation PRIORITY_FRAME :: u8 where "PRIORITY_FRAME \<equiv> 0x02"
abbreviation RST_STREAM_FRAME :: u8 where "RST_STREAM_FRAME \<equiv> 0x03"
abbreviation SETTINGS_FRAME :: u8 where "SETTINGS_FRAME \<equiv> 0x04"
abbreviation PUSH_PROMISE_FRAME :: u8 where "PUSH_PROMISE_FRAME \<equiv> 0x05"
abbreviation PING_FRAME :: u8 where "PING_FRAME \<equiv> 0x06"
abbreviation GOAWAY_FRAME :: u8 where "GOAWAY_FRAME \<equiv> 0x07"
abbreviation WINDOW_UPDATE_FRAME :: u8 where "WINDOW_UPDATE_FRAME \<equiv> 0x08"
abbreviation CONTINUATION_FRAME :: u8 where "CONTINUATION_FRAME \<equiv> 0x09"
abbreviation MAX_KNOWN_FRAME :: u8 where "MAX_KNOWN_FRAME \<equiv> CONTINUATION_FRAME"
abbreviation INVALID_FRAME_TYPE :: u8 where "INVALID_FRAME_TYPE \<equiv> 0xFF"

abbreviation FLAG_ACK :: u8 where "FLAG_ACK \<equiv> 0x01"
abbreviation FLAG_PADDED :: u8 where "FLAG_PADDED \<equiv> 0x08"
abbreviation FLAG_PRIORITY :: u8 where "FLAG_PRIORITY \<equiv> 0x20"

abbreviation SETTINGS_HEADER_TABLE_SIZE :: u16 where "SETTINGS_HEADER_TABLE_SIZE \<equiv> 1"
abbreviation SETTINGS_ENABLE_PUSH :: u16 where "SETTINGS_ENABLE_PUSH \<equiv> 2"
abbreviation SETTINGS_MAX_CONCURRENT_STREAMS :: u16 where "SETTINGS_MAX_CONCURRENT_STREAMS \<equiv> 3"
abbreviation SETTINGS_INITIAL_WINDOW_SIZE :: u16 where "SETTINGS_INITIAL_WINDOW_SIZE \<equiv> 4"
abbreviation SETTINGS_MAX_FRAME_SIZE :: u16 where "SETTINGS_MAX_FRAME_SIZE \<equiv> 5"
abbreviation SETTINGS_MAX_HEADER_LIST_SIZE :: u16 where "SETTINGS_MAX_HEADER_LIST_SIZE \<equiv> 6"
abbreviation SETTINGS_MAX :: u16 where "SETTINGS_MAX \<equiv> 7"

datatype h2_error =
    NO_ERROR | PROTOCOL_ERROR | INTERNAL_ERROR | FLOW_CONTROL_ERROR | SETTINGS_TIMEOUT
  | STREAM_CLOSED | FRAME_SIZE_ERROR | REFUSED_STREAM | CANCEL | COMPRESSION_ERROR
  | CONNECT_ERROR | ENHANCE_YOUR_CALM | INADEQUATE_SECURITY | HTTP_1_1_REQUIRED

fun h2_error_code :: "h2_error \<Rightarrow> u8" where
  "h2_error_code NO_ERROR = 0x0"
| "h2_error_code PROTOCOL_ERROR = 0x1"
| "h2_error_code INTERNAL_ERROR = 0x2"
| "h2_error_code FLOW_CONTROL_ERROR = 0x3"
| "h2_error_code SETTINGS_TIMEOUT = 0x4"
| "h2_error_code STREAM_CLOSED = 0x5"
| "h2_error_code FRAME_SIZE_ERROR = 0x6"
| "h2_error_code REFUSED_STREAM = 0x7"
| "h2_error_code CANCEL = 0x8"
| "h2_error_code COMPRESSION_ERROR = 0x9"
| "h2_error_code CONNECT_ERROR = 0xa"
| "h2_error_code ENHANCE_YOUR_CALM = 0xb"
| "h2_error_code INADEQUATE_SECURITY = 0xc"
| "h2_error_code HTTP_1_1_REQUIRED = 0xd"

definition FRAME_HEADER_SIZE :: nat where
  "FRAME_HEADER_SIZE = 9"

definition CONNECTION_PREFACE_LENGTH :: u32 where
  "CONNECTION_PREFACE_LENGTH = 24"

definition MAX_ALLOWED_FRAME_SIZE :: u32 where
  "MAX_ALLOWED_FRAME_SIZE = push_bit 24 1 - 1"

definition MAX_ALLOWED_WINDOW_SIZE :: u32 where
  "MAX_ALLOWED_WINDOW_SIZE = push_bit 31 1 - 1"

section \<open>The decoder\<close>

datatype h2_call =
    Setting_received u16 u32 | Settings_end | Settings_ack | Send_connection_error h2_error

record h2_decoder =
  h2_length :: u32
  h2_type :: u8
  h2_st :: h2_state
  h2_flags :: u8
  h2_padding :: u8
  h2_stream_id :: u32
  h2_calls :: "h2_call list"

definition h2_decoder_new :: h2_decoder where
  "h2_decoder_new = \<lparr>h2_length = 0, h2_type = INVALID_FRAME_TYPE, h2_st = READ_CONNECTION_PREFACE,
     h2_flags = 0, h2_padding = 0, h2_stream_id = 0, h2_calls = []\<rparr>"

definition delegate_call :: "h2_call \<Rightarrow> h2_decoder \<Rightarrow> h2_decoder" where
  "delegate_call c d = d\<lparr>h2_calls := h2_calls d @ [c]\<rparr>"

definition has_flag :: "u8 \<Rightarrow> h2_decoder \<Rightarrow> bool" where
  "has_flag f d \<longleftrightarrow> h2_flags d AND f \<noteq> 0"

definition get_state_from_type :: "h2_decoder \<Rightarrow> h2_state" where
  "get_state_from_type d = h2_state_of_u8 (h2_type d OR 0xF0)"

definition transition_to_error :: "h2_error \<Rightarrow> h2_decoder \<Rightarrow> h2_decoder" where
  "transition_to_error e d = delegate_call (Send_connection_error e) (d\<lparr>h2_st := CONNECTION_ERROR\<rparr>)"

definition is_stream_id_valid :: "h2_decoder \<Rightarrow> bool" where
  "is_stream_id_valid d =
     (if h2_type d = DATA_FRAME then h2_stream_id d \<noteq> 0
      else if h2_type d = HEADERS_FRAME then h2_stream_id d \<noteq> 0
      else if h2_type d = PRIORITY_FRAME then h2_stream_id d \<noteq> 0
      else if h2_type d = RST_STREAM_FRAME then h2_stream_id d \<noteq> 0
      else if h2_type d = SETTINGS_FRAME then h2_stream_id d = 0
      else if h2_type d = PUSH_PROMISE_FRAME then h2_stream_id d \<noteq> 0
      else if h2_type d = PING_FRAME then h2_stream_id d = 0
      else if h2_type d = GOAWAY_FRAME then h2_stream_id d = 0
      else True)"

text \<open>
  In the DATA and PUSH\_PROMISE cases the comparison binds tighter than the conditional: what is
  returned is the conditional's constant, converted to \<^verbatim>\<open>bool\<close>.
\<close>

definition is_length_valid :: "h2_decoder \<Rightarrow> bool" where
  "is_length_valid d =
     (if h2_type d = DATA_FRAME
      then (if h2_length d \<ge> of_bool (has_flag FLAG_PADDED d) then (1::nat) else 0) \<noteq> 0
      else if h2_type d = HEADERS_FRAME
      then h2_length d \<ge> (if has_flag FLAG_PADDED d then 1 else 0) + (if has_flag FLAG_PRIORITY d then 5 else 0)
      else if h2_type d = PRIORITY_FRAME then h2_length d = 5
      else if h2_type d = RST_STREAM_FRAME then h2_length d = 4
      else if h2_type d = SETTINGS_FRAME
      then (if has_flag FLAG_ACK d then h2_length d = 0 else h2_length d mod 6 = 0)
      else if h2_type d = PUSH_PROMISE_FRAME
      then (if h2_length d \<ge> of_bool (has_flag FLAG_PADDED d) then (5::nat) else 4) \<noteq> 0
      else if h2_type d = PING_FRAME then h2_length d = 8
      else if h2_type d = GOAWAY_FRAME then h2_length d \<ge> 8
      else if h2_type d = WINDOW_UPDATE_FRAME then h2_length d = 4
      else True)"

definition validate_frame_header :: "h2_decoder \<Rightarrow> h2_error" where
  "validate_frame_header d =
     (if h2_length d \<ge> MAX_ALLOWED_FRAME_SIZE then FRAME_SIZE_ERROR
      else if h2_type d > MAX_KNOWN_FRAME then PROTOCOL_ERROR
      else if \<not> is_stream_id_valid d then PROTOCOL_ERROR
      else if \<not> is_length_valid d then FRAME_SIZE_ERROR
      else NO_ERROR)"

text \<open>Big-endian integers.\<close>

definition be_u16 :: "u8 list \<Rightarrow> u16" where
  "be_u16 bs = push_bit 8 (ucast (bs ! 0)) OR ucast (bs ! 1)"

definition be_u24 :: "u8 list \<Rightarrow> u32" where
  "be_u24 bs = push_bit 16 (ucast (bs ! 0)) OR push_bit 8 (ucast (bs ! 1)) OR ucast (bs ! 2)"

definition be_u32 :: "u8 list \<Rightarrow> u32" where
  "be_u32 bs = push_bit 24 (ucast (bs ! 0)) OR push_bit 16 (ucast (bs ! 1)) OR
     push_bit 8 (ucast (bs ! 2)) OR ucast (bs ! 3)"

definition read_u16 :: "addr \<Rightarrow> buffer \<Rightarrow> world \<Rightarrow> (u16 \<times> buffer \<times> world) option" where
  "read_u16 stk b w = do { (bs, b', w') \<leftarrow> read_and_unwrap stk 2 b w; Some (be_u16 bs, b', w') }"

definition read_u24 :: "addr \<Rightarrow> buffer \<Rightarrow> world \<Rightarrow> (u32 \<times> buffer \<times> world) option" where
  "read_u24 stk b w = do { (bs, b', w') \<leftarrow> read_and_unwrap stk 3 b w; Some (be_u24 bs, b', w') }"

definition read_u32 :: "addr \<Rightarrow> buffer \<Rightarrow> world \<Rightarrow> (u32 \<times> buffer \<times> world) option" where
  "read_u32 stk b w = do { (bs, b', w') \<leftarrow> read_and_unwrap stk 4 b w; Some (be_u32 bs, b', w') }"

text \<open>
  The loops run on fuel: each round takes at least one byte (six for the settings) off the input,
  so one more than the input's size is enough. \<open>None\<close> is also the index past the literal's end.
\<close>

type_synonym h2_result = "(bool \<times> h2_decoder \<times> buffer \<times> world) option"

definition preface_byte :: "u8 \<Rightarrow> h2_decoder \<Rightarrow> bool option \<times> h2_decoder" where
  "preface_byte c d =
     (let d1 = d\<lparr>h2_length := h2_length d + 1\<rparr>
      in if c \<noteq> INITIATION_STRING ! unat (h2_length d)
         then (Some False, transition_to_error PROTOCOL_ERROR d1)
         else if h2_length d1 = CONNECTION_PREFACE_LENGTH
         then (Some False, d1\<lparr>h2_st := READ_FRAME_HEADER\<rparr>)
         else (None, d1))"

fun preface_loop :: "nat \<Rightarrow> addr \<Rightarrow> h2_decoder \<Rightarrow> buffer \<Rightarrow> world \<Rightarrow> h2_result" where
  "preface_loop 0 stk d b w = None"
| "preface_loop (Suc n) stk d b w =
     do { (v, rd, w') \<leftarrow> reader_read_opt_and_skip stk 1 (make_reader b) w;
          (case v of
             None \<Rightarrow> Some (True, d, rbuf rd, w')
           | Some bs \<Rightarrow>
               if unat (h2_length d) < length INITIATION_STRING
               then (case preface_byte (bs ! 0) d of
                       (Some r, d') \<Rightarrow> Some (r, d', rbuf rd, w')
                     | (None, d') \<Rightarrow> preface_loop n stk d' (rbuf rd) w')
               else None) }"

definition read_connection_preface :: "addr \<Rightarrow> h2_decoder \<Rightarrow> buffer \<Rightarrow> world \<Rightarrow> h2_result" where
  "read_connection_preface stk d b w = preface_loop (bufsize b + 1) stk d b w"

definition padding_byte :: "u8 \<Rightarrow> h2_decoder \<Rightarrow> h2_decoder" where
  "padding_byte p d = d\<lparr>h2_padding := p, h2_st := get_state_from_type d, h2_length := h2_length d - 1\<rparr>"

definition read_frame_padding :: "addr \<Rightarrow> h2_decoder \<Rightarrow> buffer \<Rightarrow> world \<Rightarrow> h2_result" where
  "read_frame_padding stk d b w =
     do { (v, rd, w') \<leftarrow> reader_read_opt_and_skip stk 1 (make_reader b) w;
          (case v of None \<Rightarrow> Some (True, d, rbuf rd, w')
           | Some bs \<Rightarrow> Some (True, padding_byte (bs ! 0) d, rbuf rd, w')) }"

text \<open>One setting: whether the loop goes on, and the decoder. An unknown one is not counted.\<close>

definition setting_entry :: "u16 \<Rightarrow> u32 \<Rightarrow> h2_decoder \<Rightarrow> bool \<times> h2_decoder" where
  "setting_entry sid value d =
     (if sid \<ge> SETTINGS_MAX then (True, d)
      else if sid = SETTINGS_ENABLE_PUSH \<and> value > 1 then (False, transition_to_error PROTOCOL_ERROR d)
      else if sid = SETTINGS_INITIAL_WINDOW_SIZE \<and> value > MAX_ALLOWED_WINDOW_SIZE
      then (False, transition_to_error FLOW_CONTROL_ERROR d)
      else if sid = SETTINGS_MAX_FRAME_SIZE \<and> value > MAX_ALLOWED_FRAME_SIZE
      then (False, transition_to_error PROTOCOL_ERROR d)
      else (True, (delegate_call (Setting_received sid value) d)\<lparr>h2_length := h2_length d - 6\<rparr>))"

fun settings_loop :: "nat \<Rightarrow> addr \<Rightarrow> h2_decoder \<Rightarrow> buffer \<Rightarrow> world \<Rightarrow> h2_result" where
  "settings_loop 0 stk d b w = None"
| "settings_loop (Suc n) stk d b w =
     (if h2_length d \<noteq> 0 \<and> 6 \<le> bufsize b
      then do { (sid, b1, w1) \<leftarrow> read_u16 stk b w;
                (value, b2, w2) \<leftarrow> read_u32 stk b1 w1;
                (case setting_entry sid value d of
                   (False, d') \<Rightarrow> Some (False, d', b2, w2)
                 | (True, d') \<Rightarrow> settings_loop n stk d' b2 w2) }
      else Some (True, d, b, w))"

text \<open>The checks before the loop: \<open>Some d\<close> when the function returns false with \<open>d\<close>.\<close>

definition settings_early :: "h2_decoder \<Rightarrow> h2_decoder option" where
  "settings_early d =
     (if h2_length d = 0
      then Some ((if has_flag FLAG_ACK d then delegate_call Settings_ack d else d)\<lparr>h2_st := READ_FRAME_HEADER\<rparr>)
      else if has_flag FLAG_ACK d then Some (transition_to_error FRAME_SIZE_ERROR d)
      else if h2_length d mod 6 \<noteq> 0 then Some (transition_to_error PROTOCOL_ERROR d)
      else if h2_stream_id d \<noteq> 0 then Some (transition_to_error PROTOCOL_ERROR d)
      else None)"

definition settings_done :: "h2_decoder \<Rightarrow> h2_decoder" where
  "settings_done d = (if h2_length d = 0 then delegate_call Settings_end d else d)"

definition read_settings_frame :: "addr \<Rightarrow> h2_decoder \<Rightarrow> buffer \<Rightarrow> world \<Rightarrow> h2_result" where
  "read_settings_frame stk d b w =
     (case settings_early d of
        Some d' \<Rightarrow> Some (False, d', b, w)
      | None \<Rightarrow> do { (go, d', b', w') \<leftarrow> settings_loop (bufsize b + 1) stk d b w;
                    Some (go \<and> bufsize b' > unat (h2_length d'),
                          if go then settings_done d' else d', b', w') })"

definition read_data_frame :: "h2_decoder \<Rightarrow> buffer \<Rightarrow> world \<Rightarrow> h2_result" where
  "read_data_frame d b w =
     do { (b', w') \<leftarrow> buffer_skip_bytes (unat (h2_length d)) True b w;
          Some (bufsize b' > 0, d\<lparr>h2_st := READ_FRAME_HEADER\<rparr>, b', w') }"

text \<open>The arms of the switch for frames whose content is not looked at.\<close>

definition skip_frame :: "h2_decoder \<Rightarrow> buffer \<Rightarrow> world \<Rightarrow> h2_result" where
  "skip_frame d b w =
     do { (b', w') \<leftarrow> buffer_skip_bytes (unat (h2_length d)) True b w;
          Some (bufsize b' > unat (h2_length d), d\<lparr>h2_st := READ_FRAME_HEADER\<rparr>, b', w') }"

definition header_fields :: "u32 \<Rightarrow> u8 \<Rightarrow> u8 \<Rightarrow> u32 \<Rightarrow> h2_decoder \<Rightarrow> bool \<times> h2_decoder" where
  "header_fields len ty fl stream d =
     (let d1 = d\<lparr>h2_length := len, h2_type := ty, h2_flags := fl, h2_stream_id := stream\<rparr>;
          err = validate_frame_header d1
      in if err \<noteq> NO_ERROR then (False, transition_to_error err d1)
         else (True, d1\<lparr>h2_st := (if has_flag FLAG_PADDED d1 then READ_FRAME_PADDING
                                 else get_state_from_type d1)\<rparr>))"

definition read_frame_header :: "addr \<Rightarrow> h2_decoder \<Rightarrow> buffer \<Rightarrow> world \<Rightarrow> h2_result" where
  "read_frame_header stk d b w =
     (if bufsize b < FRAME_HEADER_SIZE then Some (False, d, b, w)
      else do { (len, b1, w1) \<leftarrow> read_u24 stk b w;
                (ty, b2, w2) \<leftarrow> read_and_unwrap stk 1 b1 w1;
                (fl, b3, w3) \<leftarrow> read_and_unwrap stk 1 b2 w2;
                (stream, b4, w4) \<leftarrow> read_u32 stk b3 w3;
                let (go, d') = header_fields len (ty ! 0) (fl ! 0) stream d in
                Some (go, d', b4, w4) })"

text \<open>One round of the loop in \<^verbatim>\<open>decode\<close>; an unnamed state matches no arm.\<close>

definition h2_step :: "addr \<Rightarrow> h2_decoder \<Rightarrow> buffer \<Rightarrow> world \<Rightarrow> h2_result" where
  "h2_step stk d b w =
     (case h2_st d of
        READ_CONNECTION_PREFACE \<Rightarrow> read_connection_preface stk d b w
      | READ_FRAME_HEADER \<Rightarrow> read_frame_header stk d b w
      | READ_FRAME_PADDING \<Rightarrow> read_frame_padding stk d b w
      | READ_DATA_FRAME \<Rightarrow> read_data_frame d b w
      | READ_SETTINGS_FRAME \<Rightarrow>
          do { (go, d', b', w') \<leftarrow> read_settings_frame stk d b w;
               Some (go, d'\<lparr>h2_st := READ_FRAME_HEADER\<rparr>, b', w') }
      | CONNECTION_ERROR \<Rightarrow> Some (False, d, b, w)
      | Unnamed_state _ \<Rightarrow> Some (True, d, b, w)
      | _ \<Rightarrow> skip_frame d b w)"

text \<open>\<^verbatim>\<open>decode\<close> may run forever: the outer \<open>None\<close> is running out of fuel, the inner one a failure.\<close>

fun h2_decode :: "nat \<Rightarrow> addr \<Rightarrow> h2_decoder \<Rightarrow> buffer \<Rightarrow> world \<Rightarrow> (h2_decoder \<times> buffer \<times> world) option option" where
  "h2_decode 0 stk d b w = None"
| "h2_decode (Suc n) stk d b w =
     (case h2_step stk d b w of
        None \<Rightarrow> Some None
      | Some (go, d', b', w') \<Rightarrow> if go then h2_decode n stk d' b' w' else Some (Some (d', b', w')))"

end
