(* ===== verification/Http2_Spec.thy ===== *)
theory Http2_Spec
  imports Http2
begin

text \<open>
  The HTTP/2 decoder as a machine on byte lists, and the simulation: on every sound buffer the
  decoder does exactly what this machine does on the bytes the buffer shows, whatever the way the
  bytes are spread over fragments.
\<close>

fun preface_bytes :: "h2_decoder \<Rightarrow> u8 list \<Rightarrow> bool \<times> h2_decoder \<times> u8 list" where
  "preface_bytes d [] = (True, d, [])"
| "preface_bytes d (c # cs) =
     (case preface_byte c d of (Some r, d') \<Rightarrow> (r, d', cs) | (None, d') \<Rightarrow> preface_bytes d' cs)"

function settings_bytes :: "h2_decoder \<Rightarrow> u8 list \<Rightarrow> bool \<times> h2_decoder \<times> u8 list" where
  "settings_bytes d bs =
     (if h2_length d \<noteq> 0 \<and> 6 \<le> length bs
      then (case setting_entry (be_u16 (take 2 bs)) (be_u32 (take 4 (drop 2 bs))) d of
              (False, d') \<Rightarrow> (False, d', drop 6 bs)
            | (True, d') \<Rightarrow> settings_bytes d' (drop 6 bs))
      else (True, d, bs))"
  by pat_completeness auto
termination by (relation "measure (\<lambda>(d, bs). length bs)") auto

declare settings_bytes.simps [simp del]

definition skip_bytes_frame :: "h2_decoder \<Rightarrow> u8 list \<Rightarrow> bool \<times> h2_decoder \<times> u8 list" where
  "skip_bytes_frame d bs =
     (let bs' = drop (unat (h2_length d)) bs
      in (length bs' > unat (h2_length d), d\<lparr>h2_st := READ_FRAME_HEADER\<rparr>, bs'))"

definition header_bytes :: "h2_decoder \<Rightarrow> u8 list \<Rightarrow> bool \<times> h2_decoder \<times> u8 list" where
  "header_bytes d bs =
     (if length bs < FRAME_HEADER_SIZE then (False, d, bs)
      else let (go, d') = header_fields (be_u24 (take 3 bs)) (bs ! 3) (bs ! 4) (be_u32 (take 4 (drop 5 bs))) d
           in (go, d', drop 9 bs))"

definition padding_bytes :: "h2_decoder \<Rightarrow> u8 list \<Rightarrow> bool \<times> h2_decoder \<times> u8 list" where
  "padding_bytes d bs = (case bs of [] \<Rightarrow> (True, d, []) | p # cs \<Rightarrow> (True, padding_byte p d, cs))"

definition settings_frame_bytes :: "h2_decoder \<Rightarrow> u8 list \<Rightarrow> bool \<times> h2_decoder \<times> u8 list" where
  "settings_frame_bytes d bs =
     (case settings_early d of
        Some d' \<Rightarrow> (False, d', bs)
      | None \<Rightarrow> let (go, d', bs') = settings_bytes d bs
               in (go \<and> length bs' > unat (h2_length d'), if go then settings_done d' else d', bs'))"

definition step_bytes :: "h2_decoder \<Rightarrow> u8 list \<Rightarrow> bool \<times> h2_decoder \<times> u8 list" where
  "step_bytes d bs =
     (case h2_st d of
        READ_CONNECTION_PREFACE \<Rightarrow> preface_bytes d bs
      | READ_FRAME_HEADER \<Rightarrow> header_bytes d bs
      | READ_FRAME_PADDING \<Rightarrow> padding_bytes d bs
      | READ_DATA_FRAME \<Rightarrow>
          let bs' = drop (unat (h2_length d)) bs in (bs' \<noteq> [], d\<lparr>h2_st := READ_FRAME_HEADER\<rparr>, bs')
      | READ_SETTINGS_FRAME \<Rightarrow>
          let (go, d', bs') = settings_frame_bytes d bs in (go, d'\<lparr>h2_st := READ_FRAME_HEADER\<rparr>, bs')
      | CONNECTION_ERROR \<Rightarrow> (False, d, bs)
      | Unnamed_state _ \<Rightarrow> (True, d, bs)
      | _ \<Rightarrow> skip_bytes_frame d bs)"

fun decode_bytes :: "nat \<Rightarrow> h2_decoder \<Rightarrow> u8 list \<Rightarrow> (h2_decoder \<times> u8 list) option" where
  "decode_bytes 0 d bs = None"
| "decode_bytes (Suc n) d bs =
     (let (go, d', bs') = step_bytes d bs in if go then decode_bytes n d' bs' else Some (d', bs'))"

section \<open>The simulation\<close>

text \<open>While the preface is read, the length field counts its bytes.\<close>

definition h2_inv :: "h2_decoder \<Rightarrow> bool" where
  "h2_inv d \<longleftrightarrow> (h2_st d = READ_CONNECTION_PREFACE \<longrightarrow> h2_length d < CONNECTION_PREFACE_LENGTH)"

lemma preface_byte_inv:
  assumes "h2_st d = READ_CONNECTION_PREFACE" "h2_length d < CONNECTION_PREFACE_LENGTH"
    and "preface_byte c d = (r, d')"
  shows "h2_inv d'" "r = None \<Longrightarrow> h2_st d' = READ_CONNECTION_PREFACE"
    "r = None \<Longrightarrow> h2_length d' < CONNECTION_PREFACE_LENGTH"
proof -
  have "h2_length d + 1 \<le> CONNECTION_PREFACE_LENGTH" using assms(2) by (simp add: inc_le)
  then show "r = None \<Longrightarrow> h2_length d' < CONNECTION_PREFACE_LENGTH"
    using assms(3) by (auto simp: preface_byte_def Let_def split: if_splits)
  then show "h2_inv d'" using assms(3)
    by (auto simp: preface_byte_def Let_def h2_inv_def transition_to_error_def delegate_call_def split: if_splits)
  show "r = None \<Longrightarrow> h2_st d' = READ_CONNECTION_PREFACE"
    using assms(1,3) by (auto simp: preface_byte_def Let_def split: if_splits)
qed

lemma preface_loop_sim:
  assumes "wire_in stk 4 M b w bs" "h2_st d = READ_CONNECTION_PREFACE" "h2_length d < CONNECTION_PREFACE_LENGTH"
    and "length bs < n" "preface_bytes d bs = (go, d', bs')"
  shows "h2_inv d' \<and> (\<exists>b' w'. preface_loop n stk d b w = Some (go, d', b', w') \<and> wire_in stk 4 M b' w' bs')"
  using assms
proof (induction bs arbitrary: n d b w)
  case Nil
  then obtain m where n: "n = Suc m" by (cases n) auto
  from wire_read_short [OF Nil.prems(1), of 1] Nil.prems n show ?case
    by (auto simp: h2_inv_def make_reader_def)
next
  case (Cons c cs)
  then obtain m where n: "n = Suc m" by (cases n) auto
  from wire_read [OF Cons.prems(1), of 1] obtain rd w' where
    r: "reader_read_opt_and_skip stk 1 (make_reader b) w = Some (Some [c], rd, w')"
    "wire_in stk 4 M (rbuf rd) w' cs" by auto
  have ix: "unat (h2_length d) < length INITIATION_STRING"
    using Cons.prems(3) by (simp add: INITIATION_STRING_def CONNECTION_PREFACE_LENGTH_def word_less_nat_alt)
  obtain q d1 where pb: "preface_byte c d = (q, d1)" by force
  note inv = preface_byte_inv [OF Cons.prems(2,3) pb]
  show ?case
  proof (cases q)
    case None
    with Cons.prems(5) pb have "preface_bytes d1 cs = (go, d', bs')" by simp
    with Cons.IH [OF r(2) inv(2,3), of m] Cons.prems(4) None n r(1) ix pb show ?thesis by auto
  next
    case (Some x)
    with Cons.prems(5) pb n r ix inv(1) show ?thesis by auto
  qed
qed

lemma settings_loop_sim:
  assumes "wire_in stk 4 M b w bs" "length bs < n" "settings_bytes d bs = (go, d', bs')"
  shows "\<exists>b' w'. settings_loop n stk d b w = Some (go, d', b', w') \<and> wire_in stk 4 M b' w' bs'"
  using assms
proof (induction d bs arbitrary: n b w rule: settings_bytes.induct)
  case (1 d bs)
  then obtain m where n: "n = Suc m" by (cases n) auto
  show ?case
  proof (cases "h2_length d \<noteq> 0 \<and> 6 \<le> length bs")
    case False
    with "1.prems" n wire_size [OF "1.prems"(1)] show ?thesis by (auto simp: settings_bytes.simps)
  next
    case True
    then have l2: "2 \<le> length bs" by simp
    from read_and_unwrap_sim [OF "1.prems"(1) _ _ l2] obtain b1 w1 where
      r1: "read_and_unwrap stk 2 b w = Some (take 2 bs, b1, w1)" "wire_in stk 4 M b1 w1 (drop 2 bs)" by auto
    have l4: "4 \<le> length (drop 2 bs)" using True by auto
    from read_and_unwrap_sim [OF r1(2) _ _ l4] obtain b2 w2 where
      r2: "read_and_unwrap stk 4 b1 w1 = Some (take 4 (drop 2 bs), b2, w2)" "wire_in stk 4 M b2 w2 (drop 6 bs)" by auto
    obtain g d1 where se: "setting_entry (be_u16 (take 2 bs)) (be_u32 (take 4 (drop 2 bs))) d = (g, d1)" by force
    have len: "length (drop 6 bs) < m" using "1.prems"(2) True n by auto
    show ?thesis
    proof (cases g)
      case True': True
      with "1.prems"(3) se True have "settings_bytes d1 (drop 6 bs) = (go, d', bs')"
        by (subst (asm) settings_bytes.simps) simp
      then have sb: "settings_bytes d1 (drop 6 bs) = (go, d', bs')" .
      have "g = True" using True' by simp
      from "1.IH" [OF True se [symmetric] this r2(2) len sb] show ?thesis
        using n True True' se r1(1) r2(1) wire_size [OF "1.prems"(1)]
        by (simp add: read_u16_def read_u32_def)
    next
      case False
      with "1.prems"(3) se True n r1 r2 wire_size [OF "1.prems"(1)] show ?thesis
        by (subst (asm) settings_bytes.simps) (simp add: read_u16_def read_u32_def)
    qed
  qed
qed

lemma read_frame_header_sim:
  assumes "wire_in stk 4 M b w bs" "header_bytes d bs = (go, d', bs')"
  shows "\<exists>b' w'. read_frame_header stk d b w = Some (go, d', b', w') \<and> wire_in stk 4 M b' w' bs'"
proof (cases "length bs < FRAME_HEADER_SIZE")
  case True
  with assms wire_size [OF assms(1)] show ?thesis by (auto simp: header_bytes_def read_frame_header_def)
next
  case False
  then have len: "9 \<le> length bs" by (simp add: FRAME_HEADER_SIZE_def)
  have l3: "3 \<le> length bs" using len by simp
  from read_and_unwrap_sim [OF assms(1) _ _ l3] obtain b1 w1 where
    r1: "read_and_unwrap stk 3 b w = Some (take 3 bs, b1, w1)" "wire_in stk 4 M b1 w1 (drop 3 bs)" by auto
  have l1: "1 \<le> length (drop 3 bs)" using len by simp
  from read_and_unwrap_sim [OF r1(2) _ _ l1] obtain b2 w2 where
    r2: "read_and_unwrap stk 1 b1 w1 = Some (take 1 (drop 3 bs), b2, w2)" "wire_in stk 4 M b2 w2 (drop 4 bs)" by auto
  have l1': "1 \<le> length (drop 4 bs)" using len by simp
  from read_and_unwrap_sim [OF r2(2) _ _ l1'] obtain b3 w3 where
    r3: "read_and_unwrap stk 1 b2 w2 = Some (take 1 (drop 4 bs), b3, w3)" "wire_in stk 4 M b3 w3 (drop 5 bs)" by auto
  have l4: "4 \<le> length (drop 5 bs)" using len by simp
  from read_and_unwrap_sim [OF r3(2) _ _ l4] obtain b4 w4 where
    r4: "read_and_unwrap stk 4 b3 w3 = Some (take 4 (drop 5 bs), b4, w4)" "wire_in stk 4 M b4 w4 (drop 9 bs)" by auto
  have nth: "take 1 (drop 3 bs) ! 0 = bs ! 3" "take 1 (drop 4 bs) ! 0 = bs ! 4" using len by simp_all
  from assms(2) False r1 r2 r3 r4 wire_size [OF assms(1)] nth show ?thesis
    by (auto simp: header_bytes_def read_frame_header_def read_u24_def read_u32_def split: prod.splits)
qed

lemma read_frame_padding_sim:
  assumes "wire_in stk 4 M b w bs" "padding_bytes d bs = (go, d', bs')"
  shows "\<exists>b' w'. read_frame_padding stk d b w = Some (go, d', b', w') \<and> wire_in stk 4 M b' w' bs'"
proof (cases bs)
  case Nil
  with wire_read_short [OF assms(1), of 1] assms show ?thesis
    by (auto simp: padding_bytes_def read_frame_padding_def make_reader_def)
next
  case (Cons c cs)
  from wire_read [OF assms(1), of 1] Cons obtain rd w' where
    "reader_read_opt_and_skip stk 1 (make_reader b) w = Some (Some [c], rd, w')" "wire_in stk 4 M (rbuf rd) w' cs"
    by auto
  with assms(2) Cons show ?thesis by (auto simp: padding_bytes_def read_frame_padding_def)
qed

lemma skip_frame_sim:
  assumes "wire_in stk 4 M b w bs" "skip_bytes_frame d bs = (go, d', bs')"
  shows "\<exists>b' w'. skip_frame d b w = Some (go, d', b', w') \<and> wire_in stk 4 M b' w' bs'"
proof -
  obtain b' w' where "buffer_skip_bytes (unat (h2_length d)) True b w = Some (b', w')"
    "wire_in stk 4 M b' w' (drop (unat (h2_length d)) bs)" by (rule wire_skip [OF assms(1)])
  with assms(2) wire_size show ?thesis by (auto simp: skip_bytes_frame_def skip_frame_def Let_def)
qed

lemma read_data_frame_sim:
  assumes "wire_in stk 4 M b w bs"
  shows "\<exists>b' w'. read_data_frame d b w =
      Some (drop (unat (h2_length d)) bs \<noteq> [], d\<lparr>h2_st := READ_FRAME_HEADER\<rparr>, b', w') \<and>
    wire_in stk 4 M b' w' (drop (unat (h2_length d)) bs)"
proof -
  obtain b' w' where "buffer_skip_bytes (unat (h2_length d)) True b w = Some (b', w')"
    and win: "wire_in stk 4 M b' w' (drop (unat (h2_length d)) bs)" by (rule wire_skip [OF assms(1)])
  with wire_size [OF win] show ?thesis by (auto simp: read_data_frame_def)
qed

lemma read_settings_frame_sim:
  assumes "wire_in stk 4 M b w bs" "settings_frame_bytes d bs = (go, d', bs')"
  shows "\<exists>b' w'. read_settings_frame stk d b w = Some (go, d', b', w') \<and> wire_in stk 4 M b' w' bs'"
proof (cases "settings_early d")
  case None
  obtain g d1 bs1 where sb: "settings_bytes d bs = (g, d1, bs1)" by (metis prod_cases3)
  have "length bs < bufsize b + 1" using wire_size [OF assms(1)] by simp
  from settings_loop_sim [OF assms(1) this sb] obtain b' w' where
    "settings_loop (bufsize b + 1) stk d b w = Some (g, d1, b', w')" "wire_in stk 4 M b' w' bs1" by blast
  with None sb assms(2) wire_size show ?thesis
    by (auto simp: settings_frame_bytes_def read_settings_frame_def)
qed (use assms in \<open>auto simp: settings_frame_bytes_def read_settings_frame_def\<close>)



lemma get_state_from_type_nonpreface: "get_state_from_type d \<noteq> READ_CONNECTION_PREFACE"
proof
  assume "get_state_from_type d = READ_CONNECTION_PREFACE"
  then have "h2_type d OR 0xF0 = 0" by (auto simp: get_state_from_type_def h2_state_of_u8_def split: if_splits)
  then have "bit (h2_type d OR 0xF0) 7 = bit (0 :: u8) 7" by simp
  then show False by (simp add: bit_simps)
qed

lemma h2_inv_simps [simp]:
  "h2_inv (transition_to_error e d)" "h2_inv (d\<lparr>h2_st := READ_FRAME_HEADER\<rparr>)" "h2_inv (padding_byte p d)"
  by (simp_all add: h2_inv_def transition_to_error_def delegate_call_def padding_byte_def get_state_from_type_nonpreface)

lemma header_fields_inv: "header_fields len ty fl st d = (go, d') \<Longrightarrow> h2_inv d'"
  by (auto simp: header_fields_def Let_def h2_inv_def transition_to_error_def delegate_call_def
      get_state_from_type_nonpreface split: if_splits)

lemma h2_step_sim:
  assumes win: "wire_in stk 4 M b w bs" and inv: "h2_inv d" and st: "step_bytes d bs = (go, d', bs')"
  shows "h2_inv d' \<and> (\<exists>b' w'. h2_step stk d b w = Some (go, d', b', w') \<and> wire_in stk 4 M b' w' bs')"
proof (cases "h2_st d")
  case READ_CONNECTION_PREFACE
  have "length bs < bufsize b + 1" using wire_size [OF win] by simp
  with READ_CONNECTION_PREFACE inv st preface_loop_sim [OF win, of d "bufsize b + 1" go d' bs'] show ?thesis
    by (auto simp: h2_inv_def step_bytes_def h2_step_def read_connection_preface_def)
next
  case READ_FRAME_HEADER
  then have "h2_inv d'" using st inv
    by (auto simp: step_bytes_def header_bytes_def split: if_splits prod.splits dest!: header_fields_inv)
  with READ_FRAME_HEADER read_frame_header_sim [OF win, of d go d' bs'] st show ?thesis
    by (simp add: step_bytes_def h2_step_def)
next
  case READ_FRAME_PADDING
  then have "h2_inv d'" using st inv by (auto simp: step_bytes_def padding_bytes_def split: list.splits)
  with READ_FRAME_PADDING read_frame_padding_sim [OF win, of d go d' bs'] st show ?thesis
    by (simp add: step_bytes_def h2_step_def)
next
  case READ_DATA_FRAME
  with read_data_frame_sim [OF win, of d] st show ?thesis by (auto simp: step_bytes_def h2_step_def Let_def)
next
  case READ_SETTINGS_FRAME
  obtain g d1 where sb: "settings_frame_bytes d bs = (g, d1, bs')"
    and eq: "go = g" "d' = d1\<lparr>h2_st := READ_FRAME_HEADER\<rparr>"
    using st READ_SETTINGS_FRAME by (auto simp: step_bytes_def split: prod.splits)
  with read_settings_frame_sim [OF win sb] READ_SETTINGS_FRAME show ?thesis by (auto simp: h2_step_def)
qed (use win inv st skip_frame_sim [OF win, of d go d' bs'] in
      \<open>auto simp: step_bytes_def h2_step_def skip_bytes_frame_def Let_def\<close>)

lemma h2_decode_sim:
  assumes "wire_in stk 4 M b w bs" "h2_inv d"
  shows "case decode_bytes n d bs of
      None \<Rightarrow> h2_decode n stk d b w = None
    | Some (d', bs') \<Rightarrow> h2_inv d' \<and>
        (\<exists>b' w'. h2_decode n stk d b w = Some (Some (d', b', w')) \<and> wire_in stk 4 M b' w' bs')"
  using assms
proof (induction n arbitrary: d b w bs)
  case (Suc n)
  obtain go d1 bs1 where st: "step_bytes d bs = (go, d1, bs1)" by (metis prod_cases3)
  from h2_step_sim [OF Suc.prems st] obtain b1 w1 where
    s: "h2_inv d1" "h2_step stk d b w = Some (go, d1, b1, w1)" "wire_in stk 4 M b1 w1 bs1" by blast
  show ?case using Suc.IH [OF s(3,1)] st s by (auto split: option.splits)
qed simp

end
