(* ===== verification/Http2_Frames.thy ===== *)
theory Http2_Frames
  imports Http2_Spec
begin

text \<open>
  The wire format seen from the other side: an encoder of HTTP/2 integers, frame headers and
  SETTINGS frames, and what the decoder makes of its output.
\<close>

definition enc_u16 :: "u16 \<Rightarrow> u8 list" where
  "enc_u16 v = [ucast (drop_bit 8 v), ucast v]"

definition enc_u24 :: "u32 \<Rightarrow> u8 list" where
  "enc_u24 v = [ucast (drop_bit 16 v), ucast (drop_bit 8 v), ucast v]"

definition enc_u32 :: "u32 \<Rightarrow> u8 list" where
  "enc_u32 v = [ucast (drop_bit 24 v), ucast (drop_bit 16 v), ucast (drop_bit 8 v), ucast v]"

lemma length_enc [simp]: "length (enc_u16 a) = 2" "length (enc_u24 v) = 3" "length (enc_u32 v) = 4"
  by (simp_all add: enc_u16_def enc_u24_def enc_u32_def)

lemma be_u16_enc [simp]: "be_u16 (enc_u16 v) = v"
  by (rule bit_word_eqI) (auto simp: be_u16_def enc_u16_def bit_simps)

lemma byte_position:
  fixes n :: nat
  obtains "n < 8" | k where "n = 8 + k" "k < 8" | k where "n = 16 + k" "k < 8" | k where "n = 24 + k"
proof -
  consider "n < 8" | "8 \<le> n" "n < 16" | "16 \<le> n" "n < 24" | "24 \<le> n" by linarith
  then show ?thesis
  proof cases
    case 2 then show ?thesis using that(2) [of "n - 8"] by simp
  next
    case 3 then show ?thesis using that(3) [of "n - 16"] by simp
  next
    case 4 then show ?thesis using that(4) [of "n - 24"] by simp
  qed (use that(1) in simp)
qed

lemma be_u32_enc [simp]: "be_u32 (enc_u32 v) = v"
proof (rule bit_word_eqI)
  fix n assume "n < LENGTH(32)"
  then show "bit (be_u32 (enc_u32 v)) n = bit v n"
    by (cases n rule: byte_position) (auto simp: be_u32_def enc_u32_def bit_simps)
qed

lemma be_u24_enc [simp]: "v < 2 ^ 24 \<Longrightarrow> be_u24 (enc_u24 v) = v"
proof (rule bit_word_eqI)
  fix n assume v: "v < 2 ^ 24" and n: "n < LENGTH(32)"
  have "take_bit 24 v = v" using v by (simp add: take_bit_eq_mod mod_word_less)
  then have "bit v n \<Longrightarrow> n < 24" by (metis bit_take_bit_iff)
  with n show "bit (be_u24 (enc_u24 v)) n = bit v n"
    by (cases n rule: byte_position) (auto simp: be_u24_def enc_u24_def bit_simps)
qed
section \<open>Frame headers\<close>

definition enc_header :: "u32 \<Rightarrow> u8 \<Rightarrow> u8 \<Rightarrow> u32 \<Rightarrow> u8 list" where
  "enc_header len ty fl stream = enc_u24 len @ [ty, fl] @ enc_u32 stream"

lemma header_bytes_enc:
  assumes "len < 2 ^ 24"
  shows "header_bytes d (enc_header len ty fl stream @ rest) =
    (let (go, d') = header_fields len ty fl stream d in (go, d', rest))"
proof -
  have "take 3 (enc_header len ty fl stream @ rest) = enc_u24 len"
    "(enc_header len ty fl stream @ rest) ! 3 = ty" "(enc_header len ty fl stream @ rest) ! 4 = fl"
    "take 4 (drop 5 (enc_header len ty fl stream @ rest)) = enc_u32 stream"
    "drop 9 (enc_header len ty fl stream @ rest) = rest"
    by (simp_all add: enc_header_def nth_append)
  then show ?thesis using assms
    by (simp add: header_bytes_def FRAME_HEADER_SIZE_def) (simp add: enc_header_def)
qed

text \<open>Known frame types select the state with their own number.\<close>

lemma get_state_from_type_known:
  assumes "h2_type d \<le> MAX_KNOWN_FRAME"
  shows "get_state_from_type d \<in> {READ_DATA_FRAME, READ_HEADERS_FRAME, READ_PRIORITY_FRAME,
    READ_RST_STREAM_FRAME, READ_SETTINGS_FRAME, READ_PUSH_PROMISE_FRAME, READ_PING_FRAME,
    READ_GOAWAY_FRAME, READ_WINDOW_UPDATE_FRAME, READ_CONTINUATION_FRAME}"
proof -
  have "unat (h2_type d) \<le> 9" using assms by (simp add: word_le_nat_alt)
  then have "unat (h2_type d) \<in> {0, 1, 2, 3, 4, 5, 6, 7, 8, 9}" by auto
  then have "h2_type d \<in> {0, 1, 2, 3, 4, 5, 6, 7, 8, 9}" by (auto simp: word_unat_eq_iff)
  then show ?thesis by (auto simp: get_state_from_type_def h2_state_of_u8_def)
qed

section \<open>SETTINGS frames\<close>

definition enc_settings :: "(u16 \<times> u32) list \<Rightarrow> u8 list" where
  "enc_settings ss = concat (map (\<lambda>(i, v). enc_u16 i @ enc_u32 v) ss)"

definition setting_valid :: "u16 \<times> u32 \<Rightarrow> bool" where
  "setting_valid s = (case s of (i, v) \<Rightarrow> i < SETTINGS_MAX \<and> (i = SETTINGS_ENABLE_PUSH \<longrightarrow> v \<le> 1) \<and>
     (i = SETTINGS_INITIAL_WINDOW_SIZE \<longrightarrow> v \<le> MAX_ALLOWED_WINDOW_SIZE) \<and>
     (i = SETTINGS_MAX_FRAME_SIZE \<longrightarrow> v \<le> MAX_ALLOWED_FRAME_SIZE))"

definition enc_settings_frame :: "(u16 \<times> u32) list \<Rightarrow> u8 list" where
  "enc_settings_frame ss = enc_header (of_nat (6 * length ss)) SETTINGS_FRAME 0 0 @ enc_settings ss"

lemma length_enc_settings [simp]: "length (enc_settings ss) = 6 * length ss"
  by (induction ss) (auto simp: enc_settings_def)

lemma setting_entry_valid:
  "setting_valid (i, v) \<Longrightarrow>
     setting_entry i v d = (True, (delegate_call (Setting_received i v) d)\<lparr>h2_length := h2_length d - 6\<rparr>)"
  by (auto simp: setting_entry_def setting_valid_def not_le not_less)

lemma settings_bytes_enc:
  assumes "list_all setting_valid ss" "6 * length ss < 2 ^ 32" "h2_length d = of_nat (6 * length ss)"
  shows "settings_bytes d (enc_settings ss @ rest) =
    (True, d\<lparr>h2_length := 0, h2_calls := h2_calls d @ map (\<lambda>(i, v). Setting_received i v) ss\<rparr>, rest)"
  using assms
proof (induction ss arbitrary: d)
  case Nil
  then have "h2_length d = 0" by simp
  then show ?case by (subst settings_bytes.simps) (simp add: enc_settings_def)
next
  case (Cons s ss)
  obtain i v where s: "s = (i, v)" by force
  let ?bs = "enc_settings (s # ss) @ rest"
  have bs: "?bs = enc_u16 i @ enc_u32 v @ enc_settings ss @ rest" by (simp add: enc_settings_def s)
  have parts: "take 2 ?bs = enc_u16 i" "take 4 (drop 2 ?bs) = enc_u32 v" "drop 6 ?bs = enc_settings ss @ rest"
    "6 \<le> length ?bs" unfolding bs by simp_all
  have len: "h2_length d = of_nat (6 + 6 * length ss)" using Cons.prems(3) by simp
  have "unat (h2_length d) = 6 + 6 * length ss"
    using Cons.prems(2) unfolding len by (intro unat_of_nat_small) simp
  then have nz: "h2_length d \<noteq> 0" by (metis add_is_0 unat_0 zero_neq_numeral)
  let ?d = "(delegate_call (Setting_received i v) d)\<lparr>h2_length := h2_length d - 6\<rparr>"
  have "h2_length ?d = of_nat (6 * length ss)" using len by simp
  then have IH: "settings_bytes ?d (enc_settings ss @ rest) =
      (True, ?d\<lparr>h2_length := 0, h2_calls := h2_calls ?d @ map (\<lambda>(i, v). Setting_received i v) ss\<rparr>, rest)"
    using Cons.prems by (intro Cons.IH) auto
  have "settings_bytes d ?bs = settings_bytes ?d (enc_settings ss @ rest)"
    using nz parts Cons.prems(1) s
    by (subst settings_bytes.simps) (simp add: setting_entry_valid)
  with IH show ?case by (simp add: delegate_call_def s)
qed

lemma word_multiple_mod:
  assumes "6 * k < 2 ^ 32"
  shows "(of_nat (6 * k) :: u32) mod 6 = 0"
proof -
  have "unat ((of_nat (6 * k) :: u32) mod 6) = 6 * k mod 6"
    using assms by (simp add: unat_mod unat_of_nat_small del: of_nat_mult)
  then show ?thesis by (simp add: unat_eq_0 del: of_nat_mult)
qed

lemma settings_frame_steps:
  assumes "list_all setting_valid ss" "ss \<noteq> []" "6 * length ss < 2 ^ 24 - 1" "h2_st d = READ_FRAME_HEADER"
  defines "len \<equiv> (of_nat (6 * length ss) :: u32)"
  defines "d1 \<equiv> d\<lparr>h2_length := len, h2_type := SETTINGS_FRAME, h2_flags := 0, h2_stream_id := 0,
    h2_st := READ_SETTINGS_FRAME\<rparr>"
  shows "step_bytes d (enc_settings_frame ss @ rest) = (True, d1, enc_settings ss @ rest)"
    "step_bytes d1 (enc_settings ss @ rest) =
      (rest \<noteq> [], d1\<lparr>h2_length := 0, h2_st := READ_FRAME_HEADER,
         h2_calls := h2_calls d @ map (\<lambda>(i, v). Setting_received i v) ss @ [Settings_end]\<rparr>, rest)"
proof -
  have ul: "unat len = 6 * length ss" using assms(3) unfolding len_def by (intro unat_of_nat_small) simp
  have l24: "len < 2 ^ 24" and lmax: "len < MAX_ALLOWED_FRAME_SIZE"
    using assms(3) by (simp_all add: word_less_nat_alt ul MAX_ALLOWED_FRAME_SIZE_def)
  have lmod: "len mod 6 = 0" using assms(3) unfolding len_def by (intro word_multiple_mod) simp
  have lnz: "len \<noteq> 0" using ul assms(2) by auto
  have hf: "header_fields len SETTINGS_FRAME 0 0 d = (True, d1)"
    using lmax lmod by (simp add: header_fields_def Let_def validate_frame_header_def is_stream_id_valid_def
        is_length_valid_def has_flag_def get_state_from_type_def h2_state_of_u8_def d1_def not_le)
  show "step_bytes d (enc_settings_frame ss @ rest) = (True, d1, enc_settings ss @ rest)"
    using assms(4) hf l24
    by (simp add: step_bytes_def enc_settings_frame_def header_bytes_enc len_def [symmetric] del: of_nat_mult)
  have "settings_bytes d1 (enc_settings ss @ rest) =
      (True, d1\<lparr>h2_length := 0, h2_calls := h2_calls d1 @ map (\<lambda>(i, v). Setting_received i v) ss\<rparr>, rest)"
    using assms(1,3) by (intro settings_bytes_enc) (simp_all add: d1_def len_def)
  then show "step_bytes d1 (enc_settings ss @ rest) =
      (rest \<noteq> [], d1\<lparr>h2_length := 0, h2_st := READ_FRAME_HEADER,
         h2_calls := h2_calls d @ map (\<lambda>(i, v). Setting_received i v) ss @ [Settings_end]\<rparr>, rest)"
    using lnz lmod by (simp add: step_bytes_def settings_frame_bytes_def settings_early_def has_flag_def
        settings_done_def delegate_call_def d1_def)
qed

lemma settings_frame_decoded:
  assumes "list_all setting_valid ss" "ss \<noteq> []" "6 * length ss < 2 ^ 24 - 1" "h2_st d = READ_FRAME_HEADER"
  shows "\<exists>d'. decode_bytes 2 d (enc_settings_frame ss) = Some (d', []) \<and> h2_st d' = READ_FRAME_HEADER \<and>
    h2_calls d' = h2_calls d @ map (\<lambda>(i, v). Setting_received i v) ss @ [Settings_end]"
  using settings_frame_steps [OF assms, of "[]"] by (simp add: numeral_2_eq_2)

section \<open>The connection preface\<close>

definition preface :: "u8 list" where
  "preface = butlast INITIATION_STRING"

lemma length_preface: "length preface = 24"
  by (simp add: preface_def INITIATION_STRING_def)

lemma preface_nth: "i < 24 \<Longrightarrow> preface ! i = INITIATION_STRING ! i"
  using length_preface unfolding preface_def by (metis nth_butlast)

text \<open>\<open>at_preface k\<close>: a decoder that has seen the first \<open>k\<close> bytes.\<close>

definition at_preface :: "nat \<Rightarrow> h2_decoder \<Rightarrow> bool" where
  "at_preface k d \<longleftrightarrow> h2_st d = READ_CONNECTION_PREFACE \<and> k < 24 \<and> h2_length d = of_nat k"

lemma preface_byte_at:
  assumes "at_preface k d"
  shows "preface_byte c d =
    (let d1 = d\<lparr>h2_length := of_nat (Suc k)\<rparr>
     in if c \<noteq> preface ! k then (Some False, transition_to_error PROTOCOL_ERROR d1)
        else if Suc k = 24 then (Some False, d1\<lparr>h2_st := READ_FRAME_HEADER\<rparr>) else (None, d1))"
proof -
  have k: "k < 24" "h2_length d = of_nat k" using assms by (auto simp: at_preface_def)
  have u: "unat (of_nat k :: u32) = k" using k(1) by (intro unat_of_nat_small) simp
  have "(of_nat (Suc k) :: u32) = 24 \<longleftrightarrow> Suc k = 24"
    using k(1) unat_of_nat_small [of "Suc k", where 'a = 32] by (auto simp: word_unat_eq_iff)
  then show ?thesis
    using k u preface_nth [OF k(1)] by (simp add: preface_byte_def Let_def CONNECTION_PREFACE_LENGTH_def add.commute)
qed

lemma at_preface_next: "at_preface k d \<Longrightarrow> Suc k < 24 \<Longrightarrow> at_preface (Suc k) (d\<lparr>h2_length := of_nat (Suc k)\<rparr>)"
  by (simp add: at_preface_def)

text \<open>A matching part of the preface is swallowed, and the round asks for another one.\<close>

lemma preface_bytes_part:
  assumes "at_preface k d" "k + length cs < 24" "cs = take (length cs) (drop k preface)"
  shows "preface_bytes d cs = (True, d\<lparr>h2_length := of_nat (k + length cs)\<rparr>, [])"
  using assms
proof (induction cs arbitrary: k d)
  case Nil
  then show ?case by (simp add: at_preface_def)
next
  case (Cons c cs)
  have k: "k < length preface" using Cons.prems(2) by (simp add: length_preface)
  then have dr: "drop k preface = preface ! k # drop (Suc k) preface" by (rule Cons_nth_drop_Suc [symmetric])
  have c: "c = preface ! k" "cs = take (length cs) (drop (Suc k) preface)"
    using Cons.prems(3) unfolding dr by simp_all
  have "preface_byte c d = (None, d\<lparr>h2_length := of_nat (Suc k)\<rparr>)"
    using preface_byte_at [OF Cons.prems(1), of c] c(1) Cons.prems(2) by simp
  moreover have "at_preface (Suc k) (d\<lparr>h2_length := of_nat (Suc k)\<rparr>)"
    using Cons.prems(1,2) by (intro at_preface_next) auto
  ultimately show ?case using Cons.IH [of "Suc k" "d\<lparr>h2_length := of_nat (Suc k)\<rparr>"] c(2) Cons.prems(2) by simp
qed

lemma preface_bytes_append:
  "preface_bytes d cs = (True, d', []) \<Longrightarrow> preface_bytes d (cs @ rest) = preface_bytes d' rest"
proof (induction cs arbitrary: d)
  case (Cons c cs)
  obtain q d1 where pb: "preface_byte c d = (q, d1)" by force
  have "q \<noteq> Some True" using pb by (auto simp: preface_byte_def Let_def split: if_splits)
  with Cons pb show ?case by (auto split: option.splits)
qed simp

lemma preface_bytes_all:
  assumes "at_preface 0 d"
  shows "preface_bytes d (preface @ rest) =
    (False, d\<lparr>h2_length := 24, h2_st := READ_FRAME_HEADER\<rparr>, rest)"
proof -
  let ?d = "d\<lparr>h2_length := of_nat 23\<rparr>"
  have split: "preface = take 23 preface @ [preface ! 23]"
    using take_Suc_conv_app_nth [of 23 preface] length_preface by simp
  have part: "preface_bytes d (take 23 preface) = (True, ?d, [])"
    using preface_bytes_part [OF assms, of "take 23 preface"] by (simp add: length_preface)
  have "at_preface 23 ?d" using assms by (simp add: at_preface_def)
  from preface_byte_at [OF this, of "preface ! 23"]
  have "preface_byte (preface ! 23) ?d = (Some False, d\<lparr>h2_length := 24, h2_st := READ_FRAME_HEADER\<rparr>)" by simp
  then have "preface_bytes ?d (preface ! 23 # rest) = (False, d\<lparr>h2_length := 24, h2_st := READ_FRAME_HEADER\<rparr>, rest)"
    by simp
  with preface_bytes_append [OF part, of "preface ! 23 # rest"] split show ?thesis
    by (metis append_Cons append_Nil append_assoc)
qed

text \<open>A proper part of the preface: the loop in \<^verbatim>\<open>decode\<close> never ends.\<close>

lemma preface_part_spins:
  assumes "at_preface k d" "k + length cs < 24" "cs = take (length cs) (drop k preface)"
  shows "decode_bytes n d cs = None"
  using assms
proof (induction n arbitrary: k d cs)
  case (Suc n)
  let ?d = "d\<lparr>h2_length := of_nat (k + length cs)\<rparr>"
  have "step_bytes d cs = (True, ?d, [])"
    using preface_bytes_part [OF Suc.prems] Suc.prems(1) by (simp add: step_bytes_def at_preface_def)
  moreover have "at_preface (k + length cs) ?d" using Suc.prems(1,2) by (simp add: at_preface_def)
  ultimately show ?case using Suc.IH [of "k + length cs" ?d "[]"] Suc.prems(2) by simp
qed simp

section \<open>Termination of the decoding loop\<close>

text \<open>\<open>h2_reach d bs d' bs'\<close>: some rounds, each of which asked for another one, lead from one to the other.\<close>

inductive h2_reach :: "h2_decoder \<Rightarrow> u8 list \<Rightarrow> h2_decoder \<Rightarrow> u8 list \<Rightarrow> bool" where
  reach_here: "h2_reach d bs d bs"
| reach_step: "step_bytes d bs = (True, d1, bs1) \<Longrightarrow> h2_reach d1 bs1 d' bs' \<Longrightarrow> h2_reach d bs d' bs'"

text \<open>Past the preface, in a named state, and waiting for padding only for a known frame type.\<close>

definition h2_running :: "h2_decoder \<Rightarrow> bool" where
  "h2_running d \<longleftrightarrow> (case h2_st d of READ_CONNECTION_PREFACE \<Rightarrow> False | Unnamed_state _ \<Rightarrow> False
     | READ_FRAME_PADDING \<Rightarrow> h2_type d \<le> MAX_KNOWN_FRAME | _ \<Rightarrow> True)"

definition h2_work :: "h2_decoder \<Rightarrow> u8 list \<Rightarrow> nat" where
  "h2_work d bs = 2 * length bs + (if h2_st d = READ_FRAME_HEADER then 0 else 1)"

lemma h2_running_known: "h2_type d \<le> MAX_KNOWN_FRAME \<Longrightarrow> h2_running (d\<lparr>h2_st := get_state_from_type d\<rparr>)"
  using get_state_from_type_known [of d] by (auto simp: h2_running_def)

lemma h2_running_header [simp]: "h2_running (d\<lparr>h2_st := READ_FRAME_HEADER\<rparr>)"
  by (simp add: h2_running_def)

lemma header_fields_running:
  assumes "header_fields len ty fl st d = (True, d')"
  shows "h2_running d'"
proof -
  let ?d = "d\<lparr>h2_length := len, h2_type := ty, h2_flags := fl, h2_stream_id := st\<rparr>"
  have d': "d' = ?d\<lparr>h2_st := (if has_flag FLAG_PADDED ?d then READ_FRAME_PADDING else get_state_from_type ?d)\<rparr>"
    and v: "validate_frame_header ?d = NO_ERROR"
    using assms by (auto simp: header_fields_def Let_def split: if_splits)
  have "h2_type ?d \<le> MAX_KNOWN_FRAME" using v by (auto simp: validate_frame_header_def split: if_splits)
  with h2_running_known [of ?d] show ?thesis by (auto simp: d' h2_running_def)
qed

lemma settings_bytes_length: "settings_bytes d bs = (go, d', bs') \<Longrightarrow> length bs' \<le> length bs"
proof (induction d bs arbitrary: go d' bs' rule: settings_bytes.induct)
  case (1 d bs)
  show ?case
  proof (cases "h2_length d \<noteq> 0 \<and> 6 \<le> length bs")
    case True
    obtain g d1 where se: "setting_entry (be_u16 (take 2 bs)) (be_u32 (take 4 (drop 2 bs))) d = (g, d1)" by force
    show ?thesis
    proof (cases g)
      case g: True
      with "1.prems" se True have "settings_bytes d1 (drop 6 bs) = (go, d', bs')"
        by (subst (asm) settings_bytes.simps) simp
      from "1.IH" [OF True se [symmetric] _ this] g show ?thesis by simp
    next
      case False
      with "1.prems" se True show ?thesis by (subst (asm) settings_bytes.simps) auto
    qed
  next
    case False
    with "1.prems" show ?thesis by (subst (asm) settings_bytes.simps) auto
  qed
qed

lemma h2_round_progress:
  assumes "h2_running d" "step_bytes d bs = (True, d', bs')" "\<not> (h2_st d = READ_FRAME_PADDING \<and> bs = [])"
  shows "h2_running d' \<and> h2_work d' bs' < h2_work d bs"
proof (cases "h2_st d")
  case READ_FRAME_HEADER
  with assms(2) header_fields_running show ?thesis
    by (auto simp: step_bytes_def header_bytes_def h2_work_def FRAME_HEADER_SIZE_def split: if_splits prod.splits)
next
  case READ_FRAME_PADDING
  with assms obtain p cs where bs: "bs = p # cs" by (cases bs) auto
  have k: "h2_type d \<le> MAX_KNOWN_FRAME" using assms(1) READ_FRAME_PADDING by (simp add: h2_running_def)
  have d': "d' = padding_byte p d" "bs' = cs"
    using assms(2) READ_FRAME_PADDING bs by (auto simp: step_bytes_def padding_bytes_def)
  have "h2_running d'" using get_state_from_type_known [OF k] by (auto simp: d' padding_byte_def h2_running_def)
  with READ_FRAME_PADDING d' bs show ?thesis by (simp add: h2_work_def)
next
  case READ_SETTINGS_FRAME
  with assms(2) show ?thesis
    by (auto simp: step_bytes_def settings_frame_bytes_def h2_work_def split: option.splits prod.splits
        dest: settings_bytes_length)
qed (use assms in \<open>auto simp: h2_running_def step_bytes_def skip_bytes_frame_def Let_def h2_work_def\<close>)

lemma h2_decode_returns:
  "h2_running d \<Longrightarrow> h2_work d bs < n \<Longrightarrow>
     (\<exists>r. decode_bytes n d bs = Some r) \<or> (\<exists>d'. h2_reach d bs d' [] \<and> h2_st d' = READ_FRAME_PADDING)"
proof (induction n arbitrary: d bs)
  case (Suc n)
  obtain go d1 bs1 where st: "step_bytes d bs = (go, d1, bs1)" by (metis prod_cases3)
  consider "h2_st d = READ_FRAME_PADDING" "bs = []" | "\<not> go"
    | "go" "\<not> (h2_st d = READ_FRAME_PADDING \<and> bs = [])" by blast
  then show ?case
  proof cases
    case 1 then show ?thesis using reach_here by blast
  next
    case 2 with st show ?thesis by simp
  next
    case 3
    from h2_round_progress [OF Suc.prems(1) _ 3(2)] st 3(1) have "h2_running d1" "h2_work d1 bs1 < n"
      using Suc.prems(2) by auto
    with Suc.IH [of d1 bs1] st 3(1) reach_step [of d bs d1 bs1] show ?thesis by auto
  qed
qed simp

lemma h2_padding_stalls: "h2_st d = READ_FRAME_PADDING \<Longrightarrow> decode_bytes n d [] = None"
  by (induction n) (simp_all add: step_bytes_def padding_bytes_def)

text \<open>An empty padded frame makes the length wrap around, and everything behind it is thrown away.\<close>

lemma empty_padded_frame_discards:
  assumes "h2_st d = READ_FRAME_HEADER" "length rest < 2 ^ 32"
  shows "\<exists>d'. decode_bytes 3 d (enc_header 0 CONTINUATION_FRAME FLAG_PADDED s @ p # rest) = Some (d', []) \<and>
    h2_length d' = - 1 \<and> h2_calls d' = h2_calls d"
proof -
  let ?d1 = "d\<lparr>h2_length := 0, h2_type := CONTINUATION_FRAME, h2_flags := FLAG_PADDED, h2_stream_id := s,
    h2_st := READ_FRAME_PADDING\<rparr>"
  have "header_fields 0 CONTINUATION_FRAME FLAG_PADDED s d = (True, ?d1)"
    by (simp add: header_fields_def Let_def validate_frame_header_def is_stream_id_valid_def is_length_valid_def
        has_flag_def MAX_ALLOWED_FRAME_SIZE_def)
  then have s1: "step_bytes d (enc_header 0 CONTINUATION_FRAME FLAG_PADDED s @ p # rest) = (True, ?d1, p # rest)"
    using assms(1) by (simp add: step_bytes_def header_bytes_enc)
  have s2: "step_bytes ?d1 (p # rest) = (True, padding_byte p ?d1, rest)"
    by (simp add: step_bytes_def padding_bytes_def)
  have st: "h2_st (padding_byte p ?d1) = READ_CONTINUATION_FRAME" "h2_length (padding_byte p ?d1) = - 1"
    by (simp_all add: padding_byte_def get_state_from_type_def h2_state_of_u8_def)
  have "unat (- 1 :: u32) = 2 ^ 32 - 1" by (simp add: unsigned_minus_1_eq_mask mask_eq_exp_minus_1)
  then have "step_bytes (padding_byte p ?d1) rest = (False, (padding_byte p ?d1)\<lparr>h2_st := READ_FRAME_HEADER\<rparr>, [])"
    using assms(2) st by (simp add: step_bytes_def skip_bytes_frame_def)
  with s1 s2 st(2) show ?thesis by (simp add: numeral_3_eq_3 padding_byte_def)
qed

end
