(* ===== verification/Http2_Codec.thy ===== *)
theory Http2_Codec
  imports Http2_Frames Buffer_Allocator
begin

text \<open>
  \<^verbatim>\<open>xi/io/proto/http2/codec.h\<close>: the pipe filter that owns the decoder and is its delegate. What it
  forwards to the pipe (\<^verbatim>\<open>forward_write\<close>) is collected in \<open>cx_out\<close>, closing the channel in
  \<open>cx_closed\<close>. String literals live in static storage; \<open>lit\<close> gives their addresses.
\<close>

record remote_settings =
  header_table_size :: u32
  enable_push :: bool
  max_concurrent_streams :: u32
  initial_window_size :: u32
  max_frame_size :: u32
  max_header_list_size :: u32

definition remote_settings_new :: remote_settings where
  "remote_settings_new = \<lparr>header_table_size = 4096, enable_push = True, max_concurrent_streams = 100,
     initial_window_size = push_bit 16 1 - 1, max_frame_size = push_bit 14 1, max_header_list_size = - 1\<rparr>"

record h2_codec =
  cx_decoder :: h2_decoder
  cx_settings :: remote_settings
  cx_out :: "buffer list"
  cx_closed :: bool

definition h2_codec_new :: h2_codec where
  "h2_codec_new = \<lparr>cx_decoder = h2_decoder_new, cx_settings = remote_settings_new, cx_out = [], cx_closed = False\<rparr>"

definition setting_received :: "u16 \<Rightarrow> u32 \<Rightarrow> remote_settings \<Rightarrow> remote_settings" where
  "setting_received sid value s =
     (if sid = SETTINGS_HEADER_TABLE_SIZE then s\<lparr>header_table_size := value\<rparr>
      else if sid = SETTINGS_ENABLE_PUSH then s\<lparr>enable_push := (value \<noteq> 0)\<rparr>
      else if sid = SETTINGS_MAX_CONCURRENT_STREAMS then s\<lparr>max_concurrent_streams := value\<rparr>
      else if sid = SETTINGS_INITIAL_WINDOW_SIZE then s\<lparr>initial_window_size := value\<rparr>
      else if sid = SETTINGS_MAX_FRAME_SIZE then s\<lparr>max_frame_size := value\<rparr>
      else if sid = SETTINGS_MAX_HEADER_LIST_SIZE then s\<lparr>max_header_list_size := value\<rparr>
      else s)"

definition ack_literal :: "u8 list" where
  "ack_literal = [0, 0, 0, 4, 1, 0, 0, 0, 0]"

definition goaway_literal :: "u8 list" where
  "goaway_literal = [0, 0, 8, 7, 0, 0, 0, 0, 0, 0, 0, 0, 0, 0, 0, 0]"

type_synonym literals = "u8 list \<Rightarrow> addr"

definition settings_end :: "buffer_allocator \<Rightarrow> literals \<Rightarrow> h2_codec \<Rightarrow> world \<Rightarrow> (h2_codec \<times> world) option" where
  "settings_end alloc lit c w =
     do { (b, w1) \<leftarrow> alloc 1024 0 0 w;
          let (_, b', w2) = buffer_write (br_of_literal (lit ack_literal) 10 usize_max) b w1;
          Some (c\<lparr>cx_out := cx_out c @ [b']\<rparr>, w2) }"

definition send_connection_error ::
    "buffer_allocator \<Rightarrow> literals \<Rightarrow> addr \<Rightarrow> h2_error \<Rightarrow> h2_codec \<Rightarrow> world \<Rightarrow> (h2_codec \<times> world) option" where
  "send_connection_error alloc lit stk e c w =
     do { (b, w1) \<leftarrow> alloc 1024 0 0 (w\<lparr>mem := store (mem w) stk [h2_error_code e]\<rparr>);
          let (_, b1, w2) = buffer_write (br_of_literal (lit goaway_literal) 17 usize_max) b w1;
          let (_, b2, w3) = buffer_write (byte_range_for_object stk 1) b1 w2;
          Some (c\<lparr>cx_out := cx_out c @ [b2], cx_closed := True\<rparr>, w3) }"

fun codec_call ::
    "buffer_allocator \<Rightarrow> literals \<Rightarrow> addr \<Rightarrow> h2_call \<Rightarrow> h2_codec \<Rightarrow> world \<Rightarrow> (h2_codec \<times> world) option" where
  "codec_call alloc lit stk (Setting_received sid v) c w =
     Some (c\<lparr>cx_settings := setting_received sid v (cx_settings c)\<rparr>, w)"
| "codec_call alloc lit stk Settings_end c w = settings_end alloc lit c w"
| "codec_call alloc lit stk Settings_ack c w = Some (c, w)"
| "codec_call alloc lit stk (Send_connection_error e) c w = send_connection_error alloc lit stk e c w"

fun codec_calls ::
    "buffer_allocator \<Rightarrow> literals \<Rightarrow> addr \<Rightarrow> h2_call list \<Rightarrow> h2_codec \<Rightarrow> world \<Rightarrow> (h2_codec \<times> world) option" where
  "codec_calls alloc lit stk [] c w = Some (c, w)"
| "codec_calls alloc lit stk (k # ks) c w =
     do { (c', w') \<leftarrow> codec_call alloc lit stk k c w; codec_calls alloc lit stk ks c' w' }"

text \<open>
  \<^verbatim>\<open>read\<close>: the decoder runs on the buffer, its calls go to the delegate, and the buffer, which the
  filter owns, is destroyed with whatever the decoder left in it.
\<close>

definition codec_read ::
    "nat \<Rightarrow> buffer_allocator \<Rightarrow> literals \<Rightarrow> addr \<Rightarrow> buffer \<Rightarrow> h2_codec \<Rightarrow> world \<Rightarrow> (h2_codec \<times> world) option option" where
  "codec_read fuel alloc lit stk b c w =
     map_option (\<lambda>r. do { (d, b', w1) \<leftarrow> r;
                          (c', w2) \<leftarrow> codec_calls alloc lit stk (h2_calls d)
                                        (c\<lparr>cx_decoder := d\<lparr>h2_calls := []\<rparr>\<rparr>) w1;
                          w3 \<leftarrow> buffer_destroy b' w2;
                          Some (c', w3) })
       (h2_decode fuel stk ((cx_decoder c)\<lparr>h2_calls := []\<rparr>) b w)"

section \<open>The frames the codec answers with\<close>

lemma literal_frames:
  "ack_literal = enc_header 0 SETTINGS_FRAME FLAG_ACK 0"
  "goaway_literal @ [h2_error_code e] = enc_header 8 GOAWAY_FRAME 0 0 @ enc_u32 0 @ enc_u32 (ucast (h2_error_code e))"
proof -
  show "ack_literal = enc_header 0 SETTINGS_FRAME FLAG_ACK 0"
    by (simp add: ack_literal_def enc_header_def enc_u24_def enc_u32_def)
  have "drop_bit k (ucast c :: u32) = 0" if "8 \<le> k" for c :: u8 and k
    using that by (intro bit_word_eqI) (auto simp: bit_simps dest: bit_imp_le_length)
  moreover have "ucast (ucast c :: u32) = c" for c :: u8
    by (rule bit_word_eqI) (auto simp: bit_simps)
  ultimately show "goaway_literal @ [h2_error_code e] =
      enc_header 8 GOAWAY_FRAME 0 0 @ enc_u32 0 @ enc_u32 (ucast (h2_error_code e))"
    by (simp add: goaway_literal_def enc_header_def enc_u24_def enc_u32_def)
qed

context buffer_source
begin

lemma settings_end_answers:
  assumes "guard_inv M w" "ready 1024 w" "load (mem w) (lit ack_literal) 9 = ack_literal"
  shows "\<exists>b w'. settings_end alloc lit c w = Some (c\<lparr>cx_out := cx_out c @ [b]\<rparr>, w') \<and> buffer_ok b \<and>
    buffer_content (mem w') b = enc_header 0 SETTINGS_FRAME FLAG_ACK 0 \<and> guard_inv (buffer_guards b + M) w'"
proof -
  from assms(2) have "ready (1024 + 0 + 0) w" by simp
  from allocate_law [OF this _ assms(1)] obtain f w1 where
    f: "alloc 1024 0 0 w = Some (\<lparr>frags = [f], bufsize = 0\<rparr>, w1)" "fsize f = 0" "fragment_ok f"
    "1024 \<le> fragment_tailroom f" "guard_inv (add_mset (fguard f) M) w1" "mem w1 = mem w" by auto
  let ?b = "\<lparr>frags = [f], bufsize = 0\<rparr>" and ?r = "br_of_literal (lit ack_literal) 10 usize_max"
  have r: "?r = \<lparr>rdata = lit ack_literal, rsize = 9\<rparr>" by (simp add: br_of_literal_def usize_max_def)
  obtain n b' w2 where bw: "buffer_write ?r ?b w1 = (n, b', w2)" by (metis prod_cases3)
  have "buffer_ok ?b" using f by (simp add: buffer_ok_def)
  from buffer_write_live [OF this _ _ _ bw] f r have
    "n = 9" "buffer_ok b'" "buffer_content (mem w2) b' = load (mem w) (lit ack_literal) 9"
    "buffer_guards b' = {#fguard f#}" "guard_inv (add_mset (fguard f) M) w2"
    by (auto simp: apart_def buffer_tailroom_def fragment_content_def)
  with f(1) bw assms(3) literal_frames(1) show ?thesis by (auto simp: settings_end_def)
qed

lemma send_connection_error_answers:
  assumes "guard_inv M w" "ready 1024 (w\<lparr>mem := store (mem w) stk [h2_error_code e]\<rparr>)"
    and "load (mem w) (lit goaway_literal) 16 = goaway_literal"
    and "stk < lit goaway_literal \<or> lit goaway_literal + 16 \<le> stk"
    and "list_ex (\<lambda>(q, k). q \<le> stk \<and> stk < q + k) (blocks w)"
  shows "\<exists>b w'. send_connection_error alloc lit stk e c w =
      Some (c\<lparr>cx_out := cx_out c @ [b], cx_closed := True\<rparr>, w') \<and> buffer_ok b \<and>
    buffer_content (mem w') b =
      enc_header 8 GOAWAY_FRAME 0 0 @ enc_u32 0 @ enc_u32 (ucast (h2_error_code e)) \<and>
    guard_inv (buffer_guards b + M) w'"
proof -
  let ?w = "w\<lparr>mem := store (mem w) stk [h2_error_code e]\<rparr>"
  from assms(2) have "ready (1024 + 0 + 0) ?w" by simp
  moreover have "guard_inv M ?w" using assms(1) by simp
  ultimately obtain f w1 where
    f: "alloc 1024 0 0 ?w = Some (\<lparr>frags = [f], bufsize = 0\<rparr>, w1)" "fsize f = 0" "fragment_ok f"
    "1024 \<le> fragment_tailroom f" "fresh (bytes (fbytes f)) (bsize (fbytes f)) ?w"
    "guard_inv (add_mset (fguard f) M) w1" "mem w1 = mem ?w" using allocate_law [of 1024 0 0 ?w M] by auto
  have win: "bytes (fbytes f) \<le> fhead f" "fhead f + 1024 \<le> bytes (fbytes f) + bsize (fbytes f)"
    using fragment_rooms(2) [OF f(3)] f(2,3,4) by (auto simp: fragment_ok_def blob_end_def)
  then have out: "stk < fhead f \<or> fhead f + 1024 \<le> stk"
    using assms(5) f(5) by (fastforce simp: fresh_def list_all_iff list_ex_iff)
  let ?b = "\<lparr>frags = [f], bufsize = 0\<rparr>" and ?r = "br_of_literal (lit goaway_literal) 17 usize_max"
  have r: "?r = \<lparr>rdata = lit goaway_literal, rsize = 16\<rparr>" by (simp add: br_of_literal_def usize_max_def)
  obtain n b1 w2 where bw: "buffer_write ?r ?b w1 = (n, b1, w2)" by (metis prod_cases3)
  have okb: "buffer_ok ?b" using f by (simp add: buffer_ok_def)
  have lit: "load (mem w1) (lit goaway_literal) 16 = goaway_literal"
    using assms(3,4) load_store_other [of "lit goaway_literal" 16 stk "[h2_error_code e]" "mem w"]
    by (auto simp: f(7))
  from buffer_write_live [OF okb _ _ _ bw] f r lit have w1:
    "n = 16" "buffer_ok b1" "bufsize b1 = 16" "buffer_content (mem w2) b1 = goaway_literal"
    "buffer_guards b1 = {#fguard f#}" "w2 = w1\<lparr>mem := store (mem w1) (fhead f) goaway_literal\<rparr>"
    by (auto simp: apart_def buffer_tailroom_def fragment_content_def fragment_tail_def)
  have b1: "frags b1 = [f\<lparr>fsize := 16\<rparr>]"
    using bw f(2,4) r by (auto simp: buffer_write_def buffer_empty_def br_empty_def fragment_write_def Let_def min_def)
  have room: "1 \<le> buffer_tailroom b1"
    using f(2,3,4) w1(2) b1 fragment_rooms(2) [OF f(3)] fragment_rooms(2) [of "f\<lparr>fsize := 16\<rparr>"]
    by (simp add: buffer_tailroom_def buffer_ok_def)
  let ?o = "byte_range_for_object stk 1"
  obtain n2 b2 w3 where bw2: "buffer_write ?o b1 w2 = (n2, b2, w3)" by (metis prod_cases3)
  have e: "load (mem w2) stk 1 = [h2_error_code e]"
    using out load_store_other [of stk 1 "fhead f" goaway_literal "mem w1"]
    by (auto simp: w1(6) f(7) goaway_literal_def)
  from buffer_write_live [OF w1(2) _ _ _ bw2] b1 w1(3) room have w2:
    "n2 = 1" "buffer_ok b2" "buffer_content (mem w3) b2 = buffer_content (mem w2) b1 @ load (mem w2) stk 1"
    "buffer_guards b2 = {#fguard f#}" "guard_inv (add_mset (fguard f) M) w3 = guard_inv (add_mset (fguard f) M) w2"
    by (auto simp: apart_def byte_range_for_object_def)
  have "buffer_content (mem w3) b2 =
      enc_header 8 GOAWAY_FRAME 0 0 @ enc_u32 0 @ enc_u32 (ucast (h2_error_code e))"
    using w2(3) w1(4) e literal_frames(2) by simp
  moreover have "guard_inv (buffer_guards b2 + M) w3" using w2(4,5) f(6) by (simp add: w1(6))
  ultimately show ?thesis using f(1) bw bw2 w2(2)
    by (intro exI [of _ b2] exI [of _ w3]) (simp add: send_connection_error_def)
qed

text \<open>The calls of one SETTINGS frame: the settings in order, then the acknowledgement.\<close>

lemma codec_calls_settings:
  assumes "guard_inv M w" "ready 1024 w" "load (mem w) (lit ack_literal) 9 = ack_literal"
  shows "\<exists>b w'. codec_calls alloc lit stk (map (\<lambda>(i, v). Setting_received i v) ss @ [Settings_end]) c w =
      Some (c\<lparr>cx_settings := fold (\<lambda>(i, v). setting_received i v) ss (cx_settings c),
              cx_out := cx_out c @ [b]\<rparr>, w') \<and>
    buffer_content (mem w') b = enc_header 0 SETTINGS_FRAME FLAG_ACK 0 \<and> guard_inv (buffer_guards b + M) w'"
proof (induction ss arbitrary: c)
  case Nil
  from settings_end_answers [of M w lit c, OF assms] show ?case by auto
next
  case (Cons s ss)
  obtain i v where "s = (i, v)" by force
  with Cons.IH [of "c\<lparr>cx_settings := setting_received i v (cx_settings c)\<rparr>"] show ?case by simp
qed

end

end
