(* ===== verification/Http.thy ===== *)
theory Http
  imports Wire
begin

text \<open>
  \<^verbatim>\<open>xi/io/proto/http/decoder.h\<close> and \<^verbatim>\<open>xi/io/proto/http/codec.h\<close>: the HTTP/1 request line decoder.
  Large parts of the source are commented out; the model is what is left and compiled.
\<close>

datatype http_verb = GET | HEAD | PUT | POST | DELETE | INVALID

datatype http_state = VERB | URI | VERSION | CRLF | HEADERS | BODY

record http_decoder =
  http_st :: http_state
  http_verb :: http_verb
  http_uri :: "u8 list"

definition http_decoder_new :: http_decoder where
  "http_decoder_new = \<lparr>http_st = VERB, http_verb = INVALID, http_uri = []\<rparr>"

text \<open>\<^verbatim>\<open>compare_bytes\<close>: the comparison is commented out.\<close>

definition compare_bytes :: "u8 list \<Rightarrow> buffer \<Rightarrow> bool" where
  "compare_bytes pattern b = True"

definition verb_of_byte :: "u8 \<Rightarrow> buffer \<Rightarrow> http_decoder \<Rightarrow> http_decoder" where
  "verb_of_byte c b d =
     (if c = 0x44 then (if compare_bytes [0x45, 0x4C, 0x45, 0x54, 0x45] b then d\<lparr>http_verb := DELETE\<rparr> else d)
      else if c = 0x48 then (if compare_bytes [0x45, 0x41, 0x44] b then d\<lparr>http_verb := HEAD\<rparr> else d)
      else if c = 0x47 then (if compare_bytes [0x45, 0x54] b then d\<lparr>http_verb := GET\<rparr> else d)
      else if c = 0x50
      then (if compare_bytes [0x55, 0x54] b then d\<lparr>http_verb := PUT\<rparr>
            else if compare_bytes [0x4F, 0x53, 0x54] b then d\<lparr>http_verb := POST\<rparr> else d)
      else d)"

type_synonym http_result = "(bool \<times> http_decoder \<times> buffer \<times> world) option"

definition read_verb :: "addr \<Rightarrow> http_decoder \<Rightarrow> buffer \<Rightarrow> world \<Rightarrow> http_result" where
  "read_verb stk d b w =
     (if bufsize b < 6 then Some (False, d, b, w)
      else do { (bs, b1, w1) \<leftarrow> read_and_unwrap stk 1 b w;
                let d1 = verb_of_byte (bs ! 0) b1 d;
                (d2, b2, w2) \<leftarrow>
                  (if http_verb d1 \<noteq> INVALID
                   then do { (b2, w2) \<leftarrow> buffer_skip_bytes 1 True b1 w1; Some (d1\<lparr>http_st := URI\<rparr>, b2, w2) }
                   else Some (d1, b1, w1));
                Some (bufsize b2 > 0, d2, b2, w2) })"

definition read_uri :: "http_decoder \<Rightarrow> buffer \<Rightarrow> world \<Rightarrow> http_result" where
  "read_uri d b w = Some (bufsize b > 0, d, b, w)"

definition read_version :: "http_decoder \<Rightarrow> buffer \<Rightarrow> world \<Rightarrow> http_result" where
  "read_version d b w = (if bufsize b < 8 then Some (False, d, b, w) else Some (bufsize b > 0, d, b, w))"

definition read_crlf :: "http_decoder \<Rightarrow> buffer \<Rightarrow> world \<Rightarrow> http_result" where
  "read_crlf d b w =
     (if bufsize b < 2 then Some (False, d, b, w)
      else Some (bufsize b > 0, if compare_bytes [0x0D, 0x0A] b then d\<lparr>http_st := HEADERS\<rparr> else d, b, w))"

definition http_step :: "addr \<Rightarrow> http_decoder \<Rightarrow> buffer \<Rightarrow> world \<Rightarrow> http_result" where
  "http_step stk d b w =
     (case http_st d of
        VERB \<Rightarrow> read_verb stk d b w
      | URI \<Rightarrow> read_uri d b w
      | VERSION \<Rightarrow> read_version d b w
      | CRLF \<Rightarrow> read_crlf d b w
      | HEADERS \<Rightarrow> Some (False, d, b, w)
      | BODY \<Rightarrow> Some (False, d, b, w))"

text \<open>The outer \<open>None\<close> is running out of fuel, the inner one a failure.\<close>

fun http_decode ::
    "nat \<Rightarrow> addr \<Rightarrow> http_decoder \<Rightarrow> buffer \<Rightarrow> world \<Rightarrow> (http_decoder \<times> buffer \<times> world) option option" where
  "http_decode 0 stk d b w = None"
| "http_decode (Suc n) stk d b w =
     (case http_step stk d b w of
        None \<Rightarrow> Some None
      | Some (go, d', b', w') \<Rightarrow> if go then http_decode n stk d' b' w' else Some (Some (d', b', w')))"

record http_codec =
  hc_decoder :: http_decoder
  hc_read_buf :: buffer

definition http_codec_read ::
    "nat \<Rightarrow> addr \<Rightarrow> buffer \<Rightarrow> http_codec \<Rightarrow> world \<Rightarrow> (http_codec \<times> world) option option" where
  "http_codec_read fuel stk b c w =
     map_option (map_option (\<lambda>(d, b', w'). (\<lparr>hc_decoder = d, hc_read_buf = b'\<rparr>, w')))
       (http_decode fuel stk (hc_decoder c) (buffer_push_back_buffer (Some b) (hc_read_buf c)) w)"

section \<open>What the decoder decides\<close>

lemma verb_of_byte_simps:
  "verb_of_byte 0x44 b d = d\<lparr>http_verb := DELETE\<rparr>" "verb_of_byte 0x48 b d = d\<lparr>http_verb := HEAD\<rparr>"
  "verb_of_byte 0x47 b d = d\<lparr>http_verb := GET\<rparr>" "verb_of_byte 0x50 b d = d\<lparr>http_verb := PUT\<rparr>"
  "c \<notin> {0x44, 0x47, 0x48, 0x50} \<Longrightarrow> verb_of_byte c b d = d"
  by (simp_all add: verb_of_byte_def compare_bytes_def)

lemma read_verb_effect:
  assumes "wire_in stk k M b w (c # cs)" "0 < k" "5 \<le> length cs" "http_verb d = INVALID"
  shows "\<exists>b' w'. read_verb stk d b w =
      (if c \<in> {0x44, 0x47, 0x48, 0x50}
       then Some (drop 1 cs \<noteq> [], (verb_of_byte c b d)\<lparr>http_st := URI\<rparr>, b', w')
       else Some (True, d, b', w')) \<and>
    wire_in stk k M b' w' (if c \<in> {0x44, 0x47, 0x48, 0x50} then drop 1 cs else cs)"
proof -
  have sz: "\<not> bufsize b < 6" using wire_size [OF assms(1)] assms(3) by simp
  from read_and_unwrap_sim [OF assms(1), of 1] assms(2) obtain b1 w1 where
    r: "read_and_unwrap stk 1 b w = Some ([c], b1, w1)" "wire_in stk k M b1 w1 cs" by auto
  have same: "verb_of_byte c b1 d = verb_of_byte c b d" by (simp add: verb_of_byte_def compare_bytes_def)
  show ?thesis
  proof (cases "c \<in> {0x44, 0x47, 0x48, 0x50}")
    case True
    obtain b2 w2 where s: "buffer_skip_bytes 1 True b1 w1 = Some (b2, w2)" "wire_in stk k M b2 w2 (drop 1 cs)"
      by (rule wire_skip [OF r(2)])
    have "http_verb (verb_of_byte c b d) \<noteq> INVALID" using True by (auto simp: verb_of_byte_simps)
    with True sz r(1) s wire_size [OF s(2)] same show ?thesis by (auto simp: read_verb_def)
  next
    case False
    then have "verb_of_byte c b d = d" by (rule verb_of_byte_simps(5))
    with False sz r wire_size [OF r(2)] assms(3,4) same show ?thesis by (auto simp: read_verb_def)
  qed
qed

lemma uri_spins:
  assumes "http_st d = URI" "0 < bufsize b"
  shows "http_decode n stk d b w = None"
  using assms by (induction n) (auto simp: http_step_def read_uri_def)

end
