(* ===== verification/Http_Properties.thy ===== *)
theory Http_Properties
  imports Http2_Codec Http
begin

text \<open>
  The properties of the protocol decoders (\<^verbatim>\<open>xi/io/proto\<close>), with concrete instances. They speak of
  decoders that run on buffers; \<open>wire_in\<close> relates a buffer to the bytes it shows.
\<close>

section \<open>Buffers that show given bytes\<close>

definition wire_world :: "u8 list \<Rightarrow> world" where
  "wire_world bs = \<lparr>mem = store (\<lambda>_. 0) 1000 bs, impls = [], lim = 16, blocks = [(1000, length bs)], ran = []\<rparr>"

definition wire_buffer :: "u8 list \<Rightarrow> buffer" where
  "wire_buffer bs = \<lparr>frags = [\<lparr>fbytes = \<lparr>bytes = 1000, bsize = length bs, bguard = 1001\<rparr>, fhead = 1000, fsize = length bs\<rparr>],
     bufsize = length bs\<rparr>"

lemma ex_wire:
  assumes "bs \<noteq> []" "length bs < 2 ^ 32"
  shows "wire_in 300 4 {#} (wire_buffer bs) (wire_world bs) bs"
proof -
  have g: "guard_tagged 1001" "guard_ptr 1001 = 1000" by (simp_all add: guard_tagged_odd guard_ptr_mod)
  have "guard_inv (buffer_guards (wire_buffer bs)) (wire_world bs)"
    by (simp add: guard_inv_def owned_def heap_guards_def heap_owned_def wire_buffer_def wire_world_def frags_guards_def g)
  moreover have "buffer_ok (wire_buffer bs)"
    using assms by (simp add: buffer_ok_def wire_buffer_def fragment_ok_def blob_end_def)
  moreover have "buffer_content (mem (wire_world bs)) (wire_buffer bs) = bs"
    by (simp add: wire_buffer_def wire_world_def fragment_content_def)
  ultimately show ?thesis by (simp add: wire_in_def apart_def) (simp add: wire_buffer_def)
qed

section \<open>HTTP/2\<close>

text \<open>
  C2. The HTTP/2 decoder on a fragmented buffer does what the byte-level state machine does on the
  bytes: it never touches memory it should not, leaves exactly the bytes the machine leaves, makes
  the same calls in the same order, and runs forever exactly when the machine does.
\<close>

theorem h2_decode_refines:
  assumes "wire_in stk 4 M b w bs" "h2_inv d"
  shows "case decode_bytes n d bs of
      None \<Rightarrow> h2_decode n stk d b w = None
    | Some (d', bs') \<Rightarrow> h2_inv d' \<and>
        (\<exists>b' w'. h2_decode n stk d b w = Some (Some (d', b', w')) \<and> wire_in stk 4 M b' w' bs')"
  using assms by (rule h2_decode_sim)

theorem h2_decode_refines_witness:
  "\<exists>d' b' w'. h2_decode 1 300 h2_decoder_new (wire_buffer [0x50, 0x51]) (wire_world [0x50, 0x51]) = Some (Some (d', b', w')) \<and>
    h2_st d' = CONNECTION_ERROR"
proof -
  have "\<exists>d'. decode_bytes 1 h2_decoder_new [0x50, 0x51] = Some (d', []) \<and> h2_st d' = CONNECTION_ERROR"
    by (simp add: step_bytes_def h2_decoder_new_def preface_byte_def INITIATION_STRING_def Let_def
        transition_to_error_def delegate_call_def CONNECTION_PREFACE_LENGTH_def)
  moreover have "h2_inv h2_decoder_new" by (simp add: h2_inv_def h2_decoder_new_def CONNECTION_PREFACE_LENGTH_def)
  ultimately show ?thesis using h2_decode_refines [OF ex_wire [of "[0x50, 0x51]"], of h2_decoder_new 1] by auto
qed

text \<open>
  C12. Past the preface the decoding loop ends within twice as many rounds as there are bytes, except
  when it reaches a padded frame with no byte left to read, where it never ends.
\<close>

theorem h2_decode_terminates:
  assumes "wire_in stk 4 M b w bs" "h2_running d" "h2_work d bs < n"
  shows "(\<exists>d' b' w'. h2_decode n stk d b w = Some (Some (d', b', w'))) \<or>
    (\<exists>d'. h2_reach d bs d' [] \<and> h2_st d' = READ_FRAME_PADDING \<and> (\<forall>k. decode_bytes k d' [] = None))"
proof -
  have "h2_inv d" using assms(2) by (auto simp: h2_inv_def h2_running_def)
  from h2_decode_sim [OF assms(1) this, of n] h2_decode_returns [OF assms(2,3)] h2_padding_stalls
  show ?thesis by (auto split: option.splits)
qed

theorem h2_decode_terminates_witness:
  "(\<exists>d' b' w'. h2_decode 9 300 (h2_decoder_new\<lparr>h2_st := READ_FRAME_HEADER\<rparr>) (wire_buffer [1, 2, 3]) (wire_world [1, 2, 3]) =
      Some (Some (d', b', w'))) \<or>
    (\<exists>d'. h2_reach (h2_decoder_new\<lparr>h2_st := READ_FRAME_HEADER\<rparr>) [1, 2, 3] d' [] \<and> h2_st d' = READ_FRAME_PADDING \<and>
      (\<forall>k. decode_bytes k d' [] = None))"
  by (rule h2_decode_terminates [OF ex_wire]) (simp_all add: h2_work_def)



text \<open>
  A frame header that does not pass validation stops the decoder in the error state after one
  notification with the error found, whatever follows it.
\<close>

theorem bad_header_rejected:
  assumes "wire_in stk 4 M b w (enc_header len ty fl s @ rest)" "h2_st d = READ_FRAME_HEADER" "len < 2 ^ 24"
    "validate_frame_header (d\<lparr>h2_length := len, h2_type := ty, h2_flags := fl, h2_stream_id := s\<rparr>) = e" "e \<noteq> NO_ERROR"
  shows "\<exists>d' b' w'. h2_decode (Suc n) stk d b w = Some (Some (d', b', w')) \<and> h2_st d' = CONNECTION_ERROR \<and>
    h2_calls d' = h2_calls d @ [Send_connection_error e] \<and> wire_in stk 4 M b' w' rest"
proof -
  have "h2_inv d" using assms(2) by (simp add: h2_inv_def)
  moreover have "\<exists>d'. decode_bytes (Suc n) d (enc_header len ty fl s @ rest) = Some (d', rest) \<and>
      h2_st d' = CONNECTION_ERROR \<and> h2_calls d' = h2_calls d @ [Send_connection_error e]"
    using assms(2-5) header_bytes_enc [OF assms(3), of d ty fl s rest]
    by (simp add: step_bytes_def header_fields_def Let_def transition_to_error_def delegate_call_def)
  ultimately show ?thesis using h2_decode_sim [OF assms(1), of d "Suc n"] by auto
qed

theorem bad_header_rejected_witness:
  "\<exists>d' b' w'. h2_decode (Suc 5) 300 (h2_decoder_new\<lparr>h2_st := READ_FRAME_HEADER\<rparr>)
      (wire_buffer (enc_header 7 PING_FRAME 0 0 @ [1])) (wire_world (enc_header 7 PING_FRAME 0 0 @ [1])) = Some (Some (d', b', w')) \<and>
    h2_st d' = CONNECTION_ERROR \<and>
    h2_calls d' = h2_calls (h2_decoder_new\<lparr>h2_st := READ_FRAME_HEADER\<rparr>) @ [Send_connection_error FRAME_SIZE_ERROR] \<and>
    wire_in 300 4 {#} b' w' [1]"
proof (rule bad_header_rejected [OF ex_wire])
  show "validate_frame_header ((h2_decoder_new\<lparr>h2_st := READ_FRAME_HEADER\<rparr>)\<lparr>h2_length := 7, h2_type := PING_FRAME, h2_flags := 0, h2_stream_id := 0\<rparr>)
      = FRAME_SIZE_ERROR"
    by (simp add: validate_frame_header_def is_stream_id_valid_def is_length_valid_def MAX_ALLOWED_FRAME_SIZE_def)
qed (simp_all add: enc_header_def enc_u24_def enc_u32_def)

text \<open>
  The codec answers the calls of a SETTINGS frame by recording every setting in order and queueing
  one well-formed SETTINGS acknowledgement, allocated from the buffer allocator.
\<close>

theorem codec_settings_answer:
  assumes "guard_inv M w" "malloc_succeeds h 1024 w" "load (mem w) (lit ack_literal) 9 = ack_literal"
  shows "\<exists>b w'. codec_calls (basic_allocate (simple_fragment_allocate h)) lit stk
      (map (\<lambda>(i, v). Setting_received i v) ss @ [Settings_end]) c w =
      Some (c\<lparr>cx_settings := fold (\<lambda>(i, v). setting_received i v) ss (cx_settings c), cx_out := cx_out c @ [b]\<rparr>, w') \<and>
    buffer_content (mem w') b = enc_header 0 SETTINGS_FRAME FLAG_ACK 0 \<and> guard_inv (buffer_guards b + M) w'"
  using assms by (rule simple_alloc.codec_calls_settings)

theorem codec_settings_answer_witness:
  "\<exists>b w'. codec_calls (basic_allocate (simple_fragment_allocate (\<lambda>sz w. (4096, sz)))) (\<lambda>_. 1000) 300
      (map (\<lambda>(i, v). Setting_received i v) [(4, 10)] @ [Settings_end]) h2_codec_new (wire_world ack_literal) =
      Some (h2_codec_new\<lparr>cx_settings := fold (\<lambda>(i, v). setting_received i v) [(4, 10)] (cx_settings h2_codec_new),
        cx_out := cx_out h2_codec_new @ [b]\<rparr>, w') \<and>
    buffer_content (mem w') b = enc_header 0 SETTINGS_FRAME FLAG_ACK 0 \<and>
    guard_inv (buffer_guards b + buffer_guards (wire_buffer ack_literal)) w'"
proof (rule codec_settings_answer)
  have l: "length ack_literal = 9" "ack_literal \<noteq> []" by (simp_all add: ack_literal_def)
  show "guard_inv (buffer_guards (wire_buffer ack_literal)) (wire_world ack_literal)"
    using ex_wire [of ack_literal] l by (simp add: wire_in_def)
  show "malloc_succeeds (\<lambda>sz w. (4096, sz)) 1024 (wire_world ack_literal)"
    by (simp add: malloc_succeeds_def wire_world_def fresh_def l)
  show "load (mem (wire_world ack_literal)) 1000 9 = ack_literal"
    by (simp add: wire_world_def l)
qed

text \<open>
  On a connection error the codec queues a well-formed GOAWAY frame with the error code and closes
  the channel.
\<close>

theorem codec_error_answer:
  assumes "guard_inv M w" "malloc_succeeds h 1024 (w\<lparr>mem := store (mem w) stk [h2_error_code e]\<rparr>)"
    "load (mem w) (lit goaway_literal) 16 = goaway_literal" "stk < lit goaway_literal \<or> lit goaway_literal + 16 \<le> stk"
    "list_ex (\<lambda>(q, k). q \<le> stk \<and> stk < q + k) (blocks w)"
  shows "\<exists>b w'. send_connection_error (basic_allocate (exact_fragment_allocate h)) lit stk e c w =
      Some (c\<lparr>cx_out := cx_out c @ [b], cx_closed := True\<rparr>, w') \<and>
    buffer_content (mem w') b = enc_header 8 GOAWAY_FRAME 0 0 @ enc_u32 0 @ enc_u32 (ucast (h2_error_code e)) \<and>
    guard_inv (buffer_guards b + M) w'"
  using exact_alloc.send_connection_error_answers
    [where M = M and w = w and h = h and stk = stk and e = e and lit = lit and c = c, OF assms] by blast

theorem codec_error_answer_witness:
  "\<exists>b w'. send_connection_error (basic_allocate (exact_fragment_allocate (\<lambda>sz w. (4096, sz)))) (\<lambda>_. 1000) 1016 PROTOCOL_ERROR
      h2_codec_new (wire_world (goaway_literal @ [0])) = Some (h2_codec_new\<lparr>cx_out := cx_out h2_codec_new @ [b], cx_closed := True\<rparr>, w') \<and>
    buffer_content (mem w') b = enc_header 8 GOAWAY_FRAME 0 0 @ enc_u32 0 @ enc_u32 (ucast (h2_error_code PROTOCOL_ERROR)) \<and>
    guard_inv (buffer_guards b + buffer_guards (wire_buffer (goaway_literal @ [0]))) w'"
proof (rule codec_error_answer)
  have l: "length goaway_literal = 16" by (simp add: goaway_literal_def)
  show "guard_inv (buffer_guards (wire_buffer (goaway_literal @ [0]))) (wire_world (goaway_literal @ [0]))"
    using ex_wire [of "goaway_literal @ [0]"] l by (simp add: wire_in_def)
  show "malloc_succeeds (\<lambda>sz w. (4096, sz)) 1024
      ((wire_world (goaway_literal @ [0]))\<lparr>mem := store (mem (wire_world (goaway_literal @ [0]))) 1016 [h2_error_code PROTOCOL_ERROR]\<rparr>)"
    by (simp add: malloc_succeeds_def wire_world_def fresh_def l)
  show "load (mem (wire_world (goaway_literal @ [0]))) 1000 16 = goaway_literal"
    by (rule nth_equalityI) (simp_all add: wire_world_def l store_def nth_append)
  show "list_ex (\<lambda>(q, k). q \<le> 1016 \<and> 1016 < q + k) (blocks (wire_world (goaway_literal @ [0])))"
    by (simp add: wire_world_def l)
qed simp

text \<open>
  C37. A connection preface that arrives in two pieces makes the decoder run forever: the loop is told
  to go on when the buffer ends before the preface does.
\<close>

theorem preface_split_spins:
  assumes "wire_in stk 4 M b w bs" "at_preface k d" "k + length bs < 24" "bs = take (length bs) (drop k preface)"
  shows "h2_decode n stk d b w = None"
proof -
  have "h2_length d < 24"
    using assms(2) unat_of_nat_small [of k, where 'a = 32] by (auto simp: at_preface_def word_less_nat_alt)
  then have "h2_inv d" by (simp add: h2_inv_def CONNECTION_PREFACE_LENGTH_def)
  from h2_decode_sim [OF assms(1) this, of n] preface_part_spins [OF assms(2-4)] show ?thesis by simp
qed

theorem preface_split_spins_witness:
  "h2_decode 1000 300 h2_decoder_new (wire_buffer [0x50, 0x52, 0x49]) (wire_world [0x50, 0x52, 0x49]) = None"
  by (rule preface_split_spins [OF ex_wire, where k = 0])
     (simp_all add: at_preface_def h2_decoder_new_def preface_def INITIATION_STRING_def)

section \<open>HTTP/1\<close>

text \<open>
  C38. The HTTP/1 decoder takes the verb from the first byte alone, and then never returns: with any
  byte left after the verb it stays in the state that should read the URI.
\<close>

theorem http_request_spins:
  assumes "wire_in stk k M b w (c # cs)" "0 < k" "5 \<le> length cs" "http_verb d = INVALID" "http_st d = VERB"
    "c \<in> {0x44, 0x47, 0x48, 0x50}"
  shows "http_decode n stk d b w = None"
proof (cases n)
  case (Suc m)
  from read_verb_effect [OF assms(1-4)] assms(3,6) obtain b' w' where
    r: "read_verb stk d b w = Some (True, (verb_of_byte c b d)\<lparr>http_st := URI\<rparr>, b', w')" "wire_in stk k M b' w' (drop 1 cs)"
    by auto
  have "0 < bufsize b'" using wire_size [OF r(2)] assms(3) by simp
  from uri_spins [OF _ this, of "(verb_of_byte c b d)\<lparr>http_st := URI\<rparr>" m stk w'] show ?thesis
    using Suc r(1) assms(5) by (simp add: http_step_def)
qed simp

theorem http_request_spins_witness:
  "http_decode 1000 300 http_decoder_new (wire_buffer [0x47, 0x45, 0x54, 0x20, 0x2F, 0x20]) (wire_world [0x47, 0x45, 0x54, 0x20, 0x2F, 0x20]) = None"
  by (rule http_request_spins [OF ex_wire]) (simp_all add: http_decoder_new_def)

end
