(* ===== verification/Ring_Buffer.thy ===== *)
theory Ring_Buffer
  imports Xi_Prelude
begin

text \<open>
  \<^verbatim>\<open>xi/util/polymorphic_sp_sc_ring_buffer.h\<close>: a ring of bytes that holds blocks, each a size word and
  an object. The bytes are a map from positions to what was written there: a block of some size, the
  wrap-around mark, or bytes that mean nothing. Writing destroys whatever it overlaps, wholly or in
  part, so reading something that was overwritten is visible as \<open>None\<close>.

  One thread pushes and one thread reads. Each operation publishes its effect with a single store to
  its own index, and the other side's index is read once, so the operations are atomic here.
\<close>

section \<open>The interface of a bounded queue\<close>

text \<open>A client's trace: what it offers, and when it takes one out.\<close>

datatype 'a queue_op = Offer 'a | Take

fun queue_run ::
    "('a \<Rightarrow> 's \<Rightarrow> bool \<times> 's) \<Rightarrow> ('s \<Rightarrow> ('b option \<times> 's) option) \<Rightarrow> 'a queue_op list \<Rightarrow> 's \<Rightarrow>
       ('a list \<times> 'b list \<times> 's) option" where
  "queue_run enq deq [] s = Some ([], [], s)"
| "queue_run enq deq (Offer x # ops) s =
     (let (ok, s') = enq x s
      in map_option (\<lambda>(acc, got, t). (if ok then x # acc else acc, got, t)) (queue_run enq deq ops s'))"
| "queue_run enq deq (Take # ops) s =
     (case deq s of
        None \<Rightarrow> None
      | Some (v, s') \<Rightarrow>
          map_option (\<lambda>(acc, got, t). (acc, case v of None \<Rightarrow> got | Some x \<Rightarrow> x # got, t)) (queue_run enq deq ops s'))"

locale bounded_queue =
  fixes enq :: "'a \<Rightarrow> 's \<Rightarrow> bool \<times> 's"
    and deq :: "'s \<Rightarrow> ('b option \<times> 's) option"
    and out :: "'a \<Rightarrow> 'b"
    and holds :: "'a list \<Rightarrow> 's \<Rightarrow> bool"
    and storable :: "'a \<Rightarrow> bool"
  assumes enq_law: "holds q s \<Longrightarrow> storable x \<Longrightarrow> enq x s = (ok, s') \<Longrightarrow> holds (if ok then q @ [x] else q) s'"
    and deq_law: "holds q s \<Longrightarrow>
      \<exists>s'. deq s = Some (case q of [] \<Rightarrow> None | x # _ \<Rightarrow> Some (out x), s') \<and> holds (tl q) s'"
begin

text \<open>What was taken out, followed by what is left, is what was there, followed by what was accepted.\<close>

lemma run_fifo:
  "holds q s \<Longrightarrow> list_all (\<lambda>p. case p of Offer x \<Rightarrow> storable x | Take \<Rightarrow> True) ops \<Longrightarrow>
     \<exists>acc got s' q'. queue_run enq deq ops s = Some (acc, got, s') \<and> holds q' s' \<and> got @ map out q' = map out (q @ acc)"
proof (induction ops arbitrary: q s)
  case Nil
  then show ?case by auto
next
  case (Cons p ops)
  show ?case
  proof (cases p)
    case (Offer x)
    obtain ok s1 where e: "enq x s = (ok, s1)" by force
    have "holds (if ok then q @ [x] else q) s1" using Cons.prems Offer by (intro enq_law [OF _ _ e]) auto
    from Cons.IH [OF this] Cons.prems(2) obtain acc got s' q' where
      r: "queue_run enq deq ops s1 = Some (acc, got, s')" "holds q' s'" "got @ map out q' = map out ((if ok then q @ [x] else q) @ acc)"
      by auto
    show ?thesis using r e Offer
      by (intro exI [of _ "if ok then x # acc else acc"] exI [of _ got] exI [of _ s'] exI [of _ q']) auto
  next
    case Take
    from deq_law [OF Cons.prems(1)] obtain s1 where
      d: "deq s = Some (case q of [] \<Rightarrow> None | x # _ \<Rightarrow> Some (out x), s1)" "holds (tl q) s1" by blast
    from Cons.IH [OF d(2)] Cons.prems(2) obtain acc got s' q' where
      r: "queue_run enq deq ops s1 = Some (acc, got, s')" "holds q' s'" "got @ map out q' = map out (tl q @ acc)" by auto
    show ?thesis using r d(1) Take
      by (intro exI [of _ acc] exI [of _ "case q of [] \<Rightarrow> got | x # _ \<Rightarrow> out x # got"] exI [of _ s'] exI [of _ q'])
         (auto split: list.splits)
  qed
qed

end

section \<open>The ring\<close>

datatype 'a cell = Block nat 'a | Mark | Raw

fun cell_len :: "'a cell \<Rightarrow> nat" where
  "cell_len (Block n x) = n"
| "cell_len Mark = 8"
| "cell_len Raw = 0"

definition overwrite :: "nat \<Rightarrow> nat \<Rightarrow> (nat \<Rightarrow> 'a cell) \<Rightarrow> nat \<Rightarrow> 'a cell" where
  "overwrite i n d = (\<lambda>j. if j < i + n \<and> i < j + cell_len (d j) then Raw else d j)"

definition put_cell :: "nat \<Rightarrow> 'a cell \<Rightarrow> (nat \<Rightarrow> 'a cell) \<Rightarrow> nat \<Rightarrow> 'a cell" where
  "put_cell i c d = (overwrite i (cell_len c) d)(i := c)"

record 'a ring =
  rb_write :: nat
  rb_read :: nat
  rb_size :: nat
  rb_reserved :: nat
  rb_data :: "nat \<Rightarrow> 'a cell"

definition ring_new :: "nat \<Rightarrow> nat \<Rightarrow> 'a ring" where
  "ring_new sz reserved = \<lparr>rb_write = 0, rb_read = 0, rb_size = sz, rb_reserved = reserved, rb_data = (\<lambda>_. Raw)\<rparr>"

definition write_available :: "nat \<Rightarrow> nat \<Rightarrow> nat \<Rightarrow> nat" where
  "write_available writer_idx reader_idx sz =
     (let ret = usub (usub reader_idx writer_idx) 1
      in if reader_idx \<le> writer_idx then uadd ret sz else ret)"

text \<open>
  \<^verbatim>\<open>next_readable_block\<close>: the position of the block, if any. After a wrap-around the \<^verbatim>\<open>continue\<close> leaves the
  \<^verbatim>\<open>do ... while (false)\<close>, so the indices are not compared again. The outer \<open>None\<close> is the read of a
  size word that was not written as one.
\<close>

definition next_readable_block :: "'a ring \<Rightarrow> (nat option \<times> 'a ring) option" where
  "next_readable_block rb =
     (let r = rb_read rb
      in if r = rb_write rb then Some (None, rb)
         else if usub (rb_size rb) r \<le> 8 then Some (Some 0, rb\<lparr>rb_read := 0\<rparr>)
         else case rb_data rb r of
                Mark \<Rightarrow> Some (Some 0, rb\<lparr>rb_read := 0\<rparr>)
              | Block n x \<Rightarrow> Some (Some r, rb)
              | Raw \<Rightarrow> None)"

text \<open>\<open>sz\<close> is \<^verbatim>\<open>align_up(sizeof(pod), alignof(void*))\<close> for the type of the object.\<close>

definition do_push :: "nat \<Rightarrow> 'a \<Rightarrow> bool \<Rightarrow> 'a ring \<Rightarrow> bool \<times> 'a ring" where
  "do_push sz obj force rb =
     (let current_writer_idx = rb_write rb;
          reader_idx = rb_read rb;
          available = write_available current_writer_idx reader_idx (rb_size rb)
      in if available < sz then (False, rb)
         else let wrap = rb_size rb \<le> uadd current_writer_idx sz;
                  adjusted = (if wrap then 0 else current_writer_idx);
                  available1 = (if wrap then write_available adjusted reader_idx (rb_size rb) else available)
              in if wrap \<and> available1 < sz then (False, rb)
                 else if \<not> force \<and> usub available1 sz < rb_reserved rb then (False, rb)
                 else let d = (if adjusted < current_writer_idx \<and> usub (rb_size rb) current_writer_idx > 8
                               then put_cell current_writer_idx Mark (rb_data rb) else rb_data rb)
                      in (True, rb\<lparr>rb_data := put_cell adjusted (Block sz obj) d, rb_write := uadd adjusted sz\<rparr>))"

definition ring_push :: "nat \<Rightarrow> 'a \<Rightarrow> 'a ring \<Rightarrow> bool \<times> 'a ring" where
  "ring_push sz obj rb = do_push sz obj False rb"

definition ring_push_forced :: "nat \<Rightarrow> 'a \<Rightarrow> 'a ring \<Rightarrow> bool \<times> 'a ring" where
  "ring_push_forced sz obj rb = do_push sz obj True rb"

definition ring_next :: "'a ring \<Rightarrow> ('a option \<times> 'a ring) option" where
  "ring_next rb =
     do { (p, rb') \<leftarrow> next_readable_block rb;
          case p of None \<Rightarrow> Some (None, rb')
          | Some i \<Rightarrow> (case rb_data rb' i of Block n x \<Rightarrow> Some (Some x, rb') | _ \<Rightarrow> None) }"

definition ring_pop :: "'a ring \<Rightarrow> 'a ring option" where
  "ring_pop rb =
     (let r = rb_read rb
      in if r = rb_write rb then Some rb
         else case rb_data rb r of
                Mark \<Rightarrow> Some (rb\<lparr>rb_read := 0\<rparr>)
              | Block n x \<Rightarrow> Some (rb\<lparr>rb_read := uadd r n\<rparr>)
              | Raw \<Rightarrow> None)"

text \<open>The reading thread's use: look at the next object, then pop it.\<close>

definition ring_take :: "'a ring \<Rightarrow> ('a option \<times> 'a ring) option" where
  "ring_take rb =
     do { (v, rb1) \<leftarrow> ring_next rb;
          case v of None \<Rightarrow> Some (None, rb1)
          | Some x \<Rightarrow> do { rb2 \<leftarrow> ring_pop rb1; Some (Some x, rb2) } }"

section \<open>The ring is a queue\<close>

text \<open>\<open>tiles d i j bs\<close>: the blocks \<open>bs\<close> lie one behind the other from \<open>i\<close> up to \<open>j\<close>.\<close>

fun tiles :: "(nat \<Rightarrow> 'a cell) \<Rightarrow> nat \<Rightarrow> nat \<Rightarrow> (nat \<times> 'a) list \<Rightarrow> bool" where
  "tiles d i j [] = (i = j)"
| "tiles d i j (b # bs) = (d i = Block (fst b) (snd b) \<and> 8 \<le> fst b \<and> tiles d (i + fst b) j bs)"

text \<open>The two shapes of a ring: the readable blocks are contiguous, or they go on at the start.\<close>

definition ring_flat :: "(nat \<times> 'a) list \<Rightarrow> 'a ring \<Rightarrow> bool" where
  "ring_flat q rb \<longleftrightarrow> rb_read rb \<le> rb_write rb \<and> tiles (rb_data rb) (rb_read rb) (rb_write rb) q"

definition ring_wrapped :: "(nat \<times> 'a) list \<Rightarrow> 'a ring \<Rightarrow> bool" where
  "ring_wrapped q rb \<longleftrightarrow> rb_write rb < rb_read rb \<and> (\<exists>e bs1 bs2. rb_read rb \<le> e \<and> e < rb_size rb \<and> q = bs1 @ bs2 \<and>
     tiles (rb_data rb) (rb_read rb) e bs1 \<and> (8 < rb_size rb - e \<longrightarrow> rb_data rb e = Mark) \<and>
     bs2 \<noteq> [] \<and> tiles (rb_data rb) 0 (rb_write rb) bs2)"

definition ring_holds :: "(nat \<times> 'a) list \<Rightarrow> 'a ring \<Rightarrow> bool" where
  "ring_holds q rb \<longleftrightarrow> rb_size rb < 2 ^ 63 \<and> rb_write rb < rb_size rb \<and> rb_read rb < rb_size rb \<and>
     (ring_flat q rb \<or> ring_wrapped q rb)"

lemma tiles_le: "tiles d i j q \<Longrightarrow> i \<le> j"
proof (induction q arbitrary: i)
  case (Cons b q)
  then have "i + fst b \<le> j" by auto
  then show ?case by simp
qed simp

lemma tiles_snoc: "tiles d i j (q @ [b]) \<longleftrightarrow>
    (\<exists>k. tiles d i k q \<and> d k = Block (fst b) (snd b) \<and> 8 \<le> fst b \<and> j = k + fst b)"
  by (induction q arbitrary: i) auto

lemma tiles_first: "tiles d i j q \<Longrightarrow> q \<noteq> [] \<Longrightarrow> i + 8 \<le> j"
  by (cases q) (auto dest: tiles_le)

lemma put_cell_same [simp]: "put_cell p c d p = c"
  by (simp add: put_cell_def)

lemma put_cell_below: "k + cell_len (d k) \<le> p \<Longrightarrow> k \<noteq> p \<Longrightarrow> put_cell p c d k = d k"
  by (simp add: put_cell_def overwrite_def)

lemma put_cell_above: "p + cell_len c \<le> k \<Longrightarrow> k \<noteq> p \<Longrightarrow> put_cell p c d k = d k"
  by (simp add: put_cell_def overwrite_def)

lemma tiles_put_above: "tiles d i j q \<Longrightarrow> j \<le> p \<Longrightarrow> tiles (put_cell p c d) i j q"
proof (induction q arbitrary: i)
  case (Cons b q)
  then have "i + fst b \<le> j" by (auto dest: tiles_le)
  with Cons show ?case by (auto simp: put_cell_below)
qed simp

lemma tiles_put_below: "tiles d i j q \<Longrightarrow> p + cell_len c \<le> i \<Longrightarrow> p < i \<Longrightarrow> tiles (put_cell p c d) i j q"
  by (induction q arbitrary: i) (auto simp: put_cell_above)

lemma write_available_exact:
  assumes "w < sz" "r < sz" "sz < 2 ^ 63"
  shows "write_available w r sz = (if r \<le> w then sz - 1 - (w - r) else r - w - 1)"
  using assms by (auto simp: write_available_def Let_def usub_def uadd_def mod_if)

lemma ring_new_holds: "0 < sz \<Longrightarrow> sz < 2 ^ 63 \<Longrightarrow> ring_holds [] (ring_new sz reserved)"
  by (simp add: ring_holds_def ring_new_def ring_flat_def)

text \<open>Writing without a wrap-around, in either shape.\<close>

lemma ring_flat_append:
  assumes "ring_flat q rb" "8 \<le> n"
  shows "ring_flat (q @ [(n, x)])
    (rb\<lparr>rb_data := put_cell (rb_write rb) (Block n x) (rb_data rb), rb_write := rb_write rb + n\<rparr>)"
  using assms by (auto simp: ring_flat_def tiles_snoc intro!: exI [of _ "rb_write rb"] tiles_put_above)

lemma ring_wrapped_append:
  assumes "ring_wrapped q rb" "8 \<le> n" "rb_write rb + n < rb_read rb"
  shows "ring_wrapped (q @ [(n, x)])
    (rb\<lparr>rb_data := put_cell (rb_write rb) (Block n x) (rb_data rb), rb_write := rb_write rb + n\<rparr>)"
proof -
  let ?d = "put_cell (rb_write rb) (Block n x) (rb_data rb)"
  from assms(1) obtain e bs1 bs2 where e: "rb_read rb \<le> e" "e < rb_size rb" "q = bs1 @ bs2"
      "tiles (rb_data rb) (rb_read rb) e bs1" "8 < rb_size rb - e \<longrightarrow> rb_data rb e = Mark"
      "bs2 \<noteq> []" "tiles (rb_data rb) 0 (rb_write rb) bs2"
    unfolding ring_wrapped_def by blast
  have "tiles ?d (rb_read rb) e bs1" using e(4) assms(3) by (intro tiles_put_below) auto
  moreover have "?d e = rb_data rb e" using e(1) assms(2,3) by (intro put_cell_above) auto
  moreover have "tiles ?d 0 (rb_write rb + n) (bs2 @ [(n, x)])"
    using e(7) assms(2) by (auto simp: tiles_snoc intro!: exI [of _ "rb_write rb"] tiles_put_above)
  ultimately show ?thesis unfolding ring_wrapped_def using e assms(3)
    by (intro conjI exI [of _ e] exI [of _ bs1] exI [of _ "bs2 @ [(n, x)]"]) auto
qed

text \<open>The wrap-around: from the flat shape, with room before the read index.\<close>

lemma ring_wrap_around:
  fixes rb :: "'a ring"
  assumes "ring_flat q rb" "8 \<le> n" "n < rb_read rb" "rb_write rb < rb_size rb"
    and d: "d = (if rb_size rb - rb_write rb > 8 then put_cell (rb_write rb) Mark (rb_data rb) else rb_data rb)"
  shows "ring_wrapped (q @ [(n, x)]) (rb\<lparr>rb_data := put_cell 0 (Block n x) d, rb_write := n\<rparr>)"
proof -
  let ?d = "put_cell 0 (Block n x) d"
  have le: "rb_read rb \<le> rb_write rb" and t: "tiles (rb_data rb) (rb_read rb) (rb_write rb) q"
    using assms(1) by (auto simp: ring_flat_def)
  have "tiles d (rb_read rb) (rb_write rb) q" unfolding d using t by (simp add: tiles_put_above)
  then have "tiles ?d (rb_read rb) (rb_write rb) q" using assms(3) by (intro tiles_put_below) auto
  moreover have "8 < rb_size rb - rb_write rb \<longrightarrow> ?d (rb_write rb) = Mark"
    using le assms(3) by (simp add: put_cell_above d)
  ultimately show ?thesis unfolding ring_wrapped_def using assms le
    by (intro conjI exI [of _ "rb_write rb"] exI [of _ q] exI [of _ "[(n, x)]"]) auto
qed

lemma do_push_law:
  assumes h: "ring_holds q rb" and n: "8 \<le> n" "n < 2 ^ 63" and e: "do_push n x force rb = (ok, rb')"
  shows "ring_holds (if ok then q @ [(n, x)] else q) rb'"
proof (cases ok)
  case False
  then show ?thesis using h e by (auto simp: do_push_def Let_def split: if_splits)
next
  case True
  let ?w = "rb_write rb" and ?r = "rb_read rb" and ?s = "rb_size rb"
  have b: "?s < 2 ^ 63" "?w < ?s" "?r < ?s" using h by (auto simp: ring_holds_def)
  have u: "uadd ?w n = ?w + n" "uadd 0 n = n" using b n by (auto simp: uadd_def)
  have room: "n \<le> (if ?r \<le> ?w then ?s - 1 - (?w - ?r) else ?r - ?w - 1)"
    using True e write_available_exact [OF b(2,3,1)] by (auto simp: do_push_def Let_def split: if_splits)
  show ?thesis
  proof (cases "?s \<le> ?w + n")
    case False
    then have rb': "rb' = rb\<lparr>rb_data := put_cell ?w (Block n x) (rb_data rb), rb_write := ?w + n\<rparr>"
      using True e u by (auto simp: do_push_def Let_def split: if_splits)
    from h consider "ring_flat q rb" | "ring_wrapped q rb" by (auto simp: ring_holds_def)
    then show ?thesis
    proof cases
      case 1
      then show ?thesis using True b False ring_flat_append [OF 1 n(1), of x] by (simp add: ring_holds_def rb')
    next
      case 2
      then have "?w < ?r" by (simp add: ring_wrapped_def)
      with room n have "?w + n < ?r" by auto
      then show ?thesis using True b False ring_wrapped_append [OF 2 n(1), of x] by (simp add: ring_holds_def rb')
    qed
  next
    case wrap: True
    have "\<not> ring_wrapped q rb" using room wrap b n by (auto simp: ring_wrapped_def)
    then have flat: "ring_flat q rb" using h by (simp add: ring_holds_def)
    then have rw: "?r \<le> ?w" by (simp add: ring_flat_def)
    have pos: "0 < ?r" using room wrap rw b by (cases "?r = 0") auto
    have "n \<le> write_available 0 ?r ?s" using True e u wrap by (auto simp: do_push_def Let_def split: if_splits)
    then have nr: "n < ?r" using pos write_available_exact [of 0 ?s ?r] b n by auto
    define d where "d = (if ?s - ?w > 8 then put_cell ?w Mark (rb_data rb) else rb_data rb)"
    have "rb' = rb\<lparr>rb_data := put_cell 0 (Block n x) d, rb_write := n\<rparr>"
      using True e u wrap pos rw b by (auto simp: do_push_def Let_def d_def split: if_splits)
    then show ?thesis using True b nr ring_wrap_around [OF flat n(1) nr b(2) d_def, of x] by (simp add: ring_holds_def)
  qed
qed

lemma ring_take_flat:
  assumes "ring_flat ((n, x) # q) rb" "ring_holds p rb"
  shows "ring_take rb = Some (Some x, rb\<lparr>rb_read := rb_read rb + n\<rparr>) \<and> ring_holds q (rb\<lparr>rb_read := rb_read rb + n\<rparr>)"
proof -
  have "rb_read rb + n \<le> rb_write rb" "8 \<le> n" using assms(1) by (auto simp: ring_flat_def dest: tiles_le)
  then show ?thesis using assms
    by (auto simp: ring_take_def ring_next_def next_readable_block_def ring_pop_def ring_holds_def ring_flat_def Let_def)
qed

text \<open>In the wrapped shape the reader finds a block in front, or goes back to the start first.\<close>

lemma ring_take_wrapped:
  assumes "ring_wrapped (b # q) rb" "ring_holds p rb"
  shows "\<exists>rb'. ring_take rb = Some (Some (snd b), rb') \<and> ring_holds q rb'"
proof -
  from assms(1) obtain e bs1 bs2 where e: "rb_read rb \<le> e" "e < rb_size rb" "b # q = bs1 @ bs2"
      "tiles (rb_data rb) (rb_read rb) e bs1" "8 < rb_size rb - e \<longrightarrow> rb_data rb e = Mark"
      "bs2 \<noteq> []" "tiles (rb_data rb) 0 (rb_write rb) bs2" "rb_write rb < rb_read rb"
    unfolding ring_wrapped_def by blast
  have sz: "rb_size rb < 2 ^ 63" "rb_write rb < rb_size rb" using assms(2) by (auto simp: ring_holds_def)
  show ?thesis
  proof (cases bs1)
    case Nil
    let ?rb0 = "rb\<lparr>rb_read := 0\<rparr>"
    have q: "bs2 = b # q" "e = rb_read rb" using e(3,4) Nil by auto
    have "ring_flat ((fst b, snd b) # q) ?rb0" using e(7) q by (simp add: ring_flat_def)
    moreover have "ring_holds (b # q) ?rb0" using calculation sz by (auto simp: ring_holds_def)
    ultimately have t: "ring_take ?rb0 = Some (Some (snd b), ?rb0\<lparr>rb_read := fst b\<rparr>)" "ring_holds q (?rb0\<lparr>rb_read := fst b\<rparr>)"
      using ring_take_flat [of "fst b" "snd b" q ?rb0] by auto
    have "rb_data rb 0 = Block (fst b) (snd b)" "8 \<le> fst b" "fst b \<le> rb_write rb" using e(7) q by (auto dest: tiles_le)
    then have "ring_take rb = Some (Some (snd b), ?rb0\<lparr>rb_read := fst b\<rparr>)"
      using e(2,5,8) q sz by (auto simp: ring_take_def ring_next_def next_readable_block_def ring_pop_def Let_def)
    with t show ?thesis by blast
  next
    case (Cons c bs)
    then have q: "c = b" "q = bs @ bs2" using e(3) by auto
    have blk: "rb_data rb (rb_read rb) = Block (fst b) (snd b)" "8 \<le> fst b" "rb_read rb + fst b \<le> e"
      using e(4) Cons q by (auto dest: tiles_le)
    let ?rb' = "rb\<lparr>rb_read := rb_read rb + fst b\<rparr>"
    have "ring_take rb = Some (Some (snd b), ?rb')"
      using e(1,2,8) blk sz by (auto simp: ring_take_def ring_next_def next_readable_block_def ring_pop_def Let_def)
    moreover have "ring_wrapped q ?rb'" unfolding ring_wrapped_def using e Cons q blk
      by (intro conjI exI [of _ e] exI [of _ bs] exI [of _ bs2]) auto
    ultimately show ?thesis using sz e(2) blk by (auto simp: ring_holds_def)
  qed
qed

lemma ring_take_law:
  assumes "ring_holds q rb"
  shows "\<exists>rb'. ring_take rb = Some (case q of [] \<Rightarrow> None | b # _ \<Rightarrow> Some (snd b), rb') \<and> ring_holds (tl q) rb'"
proof (cases q)
  case Nil
  have "\<not> ring_wrapped [] rb" by (auto simp: ring_wrapped_def)
  then have "rb_read rb = rb_write rb" using assms Nil by (auto simp: ring_holds_def ring_flat_def)
  then show ?thesis using assms Nil by (simp add: ring_take_def ring_next_def next_readable_block_def Let_def)
next
  case (Cons b q')
  from assms consider "ring_flat q rb" | "ring_wrapped q rb" by (auto simp: ring_holds_def)
  then show ?thesis
  proof cases
    case 1
    then show ?thesis using ring_take_flat [of "fst b" "snd b" q' rb] assms Cons by auto
  next
    case 2
    then show ?thesis using ring_take_wrapped [of b q' rb] assms Cons by auto
  qed
qed

text \<open>The size of a stored pair is at least a size word and a pointer-aligned object.\<close>

definition storable_pod :: "nat \<times> 'a \<Rightarrow> bool" where
  "storable_pod p \<longleftrightarrow> 16 \<le> fst p \<and> fst p < 2 ^ 63"

interpretation ring: bounded_queue "\<lambda>(n, x). ring_push n x" ring_take snd ring_holds storable_pod
proof unfold_locales
  fix q :: "(nat \<times> 'a) list" and s p ok s'
  assume "ring_holds q s" "storable_pod p" "(case p of (n, x) \<Rightarrow> ring_push n x) s = (ok, s')"
  then show "ring_holds (if ok then q @ [p] else q) s'"
    using do_push_law [of q s "fst p" "snd p" False ok s'] by (auto simp: storable_pod_def ring_push_def split: prod.splits)
next
  fix q :: "(nat \<times> 'a) list" and s
  assume "ring_holds q s"
  then show "\<exists>s'. ring_take s = Some (case q of [] \<Rightarrow> None | x # _ \<Rightarrow> Some (snd x), s') \<and> ring_holds (tl q) s'"
    by (rule ring_take_law)
qed

text \<open>
  Only an unforced push keeps the reserve: it is refused exactly when the forced one is, or when the
  bytes left over would be fewer than \<^verbatim>\<open>_RESERVED_SIZE\<close>.
\<close>

lemma push_reserve:
  assumes "fst (ring_push n x rb)"
  shows "ring_push n x rb = ring_push_forced n x rb"
  using assms by (auto simp: ring_push_def ring_push_forced_def do_push_def Let_def split: if_splits)

text \<open>A block of at most half the ring finds room in an empty ring, wherever the indices stand.\<close>

lemma empty_accepts:
  assumes "ring_holds [] rb" "0 < n" "2 * n < rb_size rb"
  shows "fst (ring_push_forced n x rb)"
proof -
  let ?w = "rb_write rb" and ?s = "rb_size rb"
  have b: "?s < 2 ^ 63" "?w < ?s" "rb_read rb = ?w"
    using assms(1) by (auto simp: ring_holds_def ring_flat_def ring_wrapped_def)
  have a: "write_available ?w ?w ?s = ?s - 1" "write_available 0 ?w ?s = (if ?w = 0 then ?s - 1 else ?w - 1)"
    using b write_available_exact [of ?w ?s ?w] write_available_exact [of 0 ?s ?w] by auto
  have "uadd ?w n = ?w + n" using b assms(3) by (simp add: uadd_def)
  then show ?thesis using a b assms(2,3) by (auto simp: ring_push_forced_def do_push_def Let_def)
qed

end
