(* ===== verification/Steps.thy ===== *)
theory Steps
  imports Xi_Prelude
begin

text \<open>
  State machines: an invariant that every step keeps holds in every state that can be reached. The
  components with interleaved steps (channels, the spin lock) are instances.
\<close>

locale step_system =
  fixes step :: "'s \<Rightarrow> 's \<Rightarrow> bool"
    and inv :: "'s \<Rightarrow> bool"
  assumes step_keeps: "step s t \<Longrightarrow> inv s \<Longrightarrow> inv t"
begin

lemma reach_keeps: "step\<^sup>*\<^sup>* s t \<Longrightarrow> inv s \<Longrightarrow> inv t"
  by (induction rule: rtranclp_induct) (auto intro: step_keeps)

end

text \<open>A machine with a start state.\<close>

locale started_system = step_system +
  fixes start :: 's
  assumes start_inv: "inv start"
begin

lemma reachable_inv: "step\<^sup>*\<^sup>* start t \<Longrightarrow> inv t"
  using reach_keeps start_inv by blast

end

end
