(* ===== verification/Channel.thy ===== *)
theory Channel
  imports Steps
begin

text \<open>
  \<^verbatim>\<open>xi/core/channel.h\<close>: the ring of values, the message bus with its queues of blocked senders and
  receivers, and the processes that use it.

  Every access to the ring is made under the lock of the bus, so its compare-and-swap loops succeed
  at the first attempt and the operations of the bus are atomic up to the point where the calling
  process blocks. The storage a receiver hands over is named by the process that waits on it: a
  process waits for one value at a time.
\<close>

section \<open>The ring of values\<close>

record 'a chan_buffer =
  cb_queue :: "'a list"
  cb_head :: nat
  cb_tail :: nat

abbreviation cb_size :: "'a chan_buffer \<Rightarrow> nat" where
  "cb_size b \<equiv> length (cb_queue b)"

definition next_idx :: "'a chan_buffer \<Rightarrow> nat \<Rightarrow> nat" where
  "next_idx b cur = uadd cur 1 mod cb_size b"

definition push_at :: "nat \<Rightarrow> 'a \<Rightarrow> 'a chan_buffer \<Rightarrow> 'a chan_buffer" where
  "push_at i v b = b\<lparr>cb_queue := (cb_queue b)[i := v]\<rparr>"

definition pop_at :: "nat \<Rightarrow> 'a chan_buffer \<Rightarrow> 'a" where
  "pop_at i b = cb_queue b ! i"

text \<open>The specialisation for size 0 accepts nothing and holds nothing.\<close>

definition cb_push :: "'a \<Rightarrow> 'a chan_buffer \<Rightarrow> bool \<times> 'a chan_buffer" where
  "cb_push v b =
     (if cb_size b = 0 then (False, b)
      else let next_tail = next_idx b (cb_tail b)
           in if next_tail = cb_head b then (False, b)
              else (True, push_at next_tail v (b\<lparr>cb_tail := next_tail\<rparr>)))"

definition cb_pop :: "'a chan_buffer \<Rightarrow> 'a option \<times> 'a chan_buffer" where
  "cb_pop b =
     (if cb_size b = 0 then (None, b)
      else if cb_tail b = cb_head b then (None, b)
      else let h = cb_head b; b' = b\<lparr>cb_head := next_idx b h\<rparr> in (Some (pop_at h b'), b'))"

section \<open>The message bus\<close>

record 'a bus =
  blocked_senders :: "nat list"
  blocked_receivers :: "nat list"
  bus_buffer :: "'a chan_buffer"

text \<open>What an operation does to the processes: values stored for them, processes made ready.\<close>

record 'a bus_effect =
  stored :: "(nat \<times> 'a) list"
  unblocked :: "nat list"

definition nothing :: "'a bus_effect" where
  "nothing = \<lparr>stored = [], unblocked = []\<rparr>"

definition maybe_deliver :: "'a \<Rightarrow> 'a bus \<Rightarrow> bool \<times> 'a bus_effect \<times> 'a bus" where
  "maybe_deliver value b =
     (case blocked_receivers b of
        [] \<Rightarrow> (False, nothing, b)
      | recv # rest \<Rightarrow>
          (case cb_pop (bus_buffer b) of
             (Some v, buf) \<Rightarrow> (False, nothing\<lparr>stored := [(recv, v)]\<rparr>, b\<lparr>bus_buffer := buf, blocked_receivers := rest\<rparr>)
           | (None, buf) \<Rightarrow> (True, \<lparr>stored = [(recv, value)], unblocked = [recv]\<rparr>, b\<lparr>bus_buffer := buf, blocked_receivers := rest\<rparr>)))"

definition maybe_fill :: "'a bus \<Rightarrow> 'a bus_effect \<times> 'a bus" where
  "maybe_fill b =
     (case blocked_senders b of
        [] \<Rightarrow> (nothing, b)
      | p # rest \<Rightarrow> (nothing\<lparr>unblocked := [p]\<rparr>, b\<lparr>blocked_senders := rest\<rparr>))"

text \<open>One turn of the loop of \<^verbatim>\<open>put\<close>: whether the value was taken, or else \<open>self\<close> is blocked.\<close>

definition put_once :: "nat \<Rightarrow> 'a \<Rightarrow> 'a bus \<Rightarrow> bool \<times> 'a bus_effect \<times> 'a bus" where
  "put_once self value b =
     (let (done, eff, b1) = maybe_deliver value b
      in if done then (True, eff, b1)
         else let (pushed, buf) = cb_push value (bus_buffer b1)
              in if pushed then (True, eff, b1\<lparr>bus_buffer := buf\<rparr>)
                 else (False, eff, b1\<lparr>blocked_senders := blocked_senders b1 @ [self]\<rparr>))"

definition bus_get :: "nat \<Rightarrow> 'a bus \<Rightarrow> bool \<times> 'a bus_effect \<times> 'a bus" where
  "bus_get self b =
     (case cb_pop (bus_buffer b) of
        (Some v, buf) \<Rightarrow>
          (let (eff, b1) = maybe_fill (b\<lparr>bus_buffer := buf\<rparr>) in (True, eff\<lparr>stored := [(self, v)]\<rparr>, b1))
      | (None, buf) \<Rightarrow>
          (let (eff, b1) = maybe_fill (b\<lparr>bus_buffer := buf, blocked_receivers := blocked_receivers b @ [self]\<rparr>)
           in (False, eff, b1)))"

section \<open>The processes\<close>

text \<open>
  The value of a sender that has not been taken yet stays with it (\<open>offer\<close>). \<open>woken\<close> are the senders that
  were unblocked and have not run since: they go round the loop of \<^verbatim>\<open>put\<close> again. \<open>accepted\<close> and \<open>received\<close>
  list the values taken from senders and stored for receivers, in this order.
\<close>

record 'a chan_sys =
  cbus :: "'a bus"
  offer :: "nat \<Rightarrow> 'a option"
  woken :: "nat list"
  accepted :: "'a list"
  received :: "'a list"

datatype 'a chan_event = Send nat 'a | Retry nat | Recv nat

definition settle :: "'a bus_effect \<Rightarrow> 'a bus \<Rightarrow> 'a chan_sys \<Rightarrow> 'a chan_sys" where
  "settle eff b s = s\<lparr>cbus := b, woken := woken s @ filter (\<lambda>p. offer s p \<noteq> None) (unblocked eff),
     received := received s @ map snd (stored eff)\<rparr>"

definition chan_put :: "nat \<Rightarrow> 'a \<Rightarrow> 'a chan_sys \<Rightarrow> 'a chan_sys" where
  "chan_put p v s =
     (let (taken, eff, b) = put_once p v (cbus s)
      in settle eff b (if taken then s\<lparr>offer := (offer s)(p := None), accepted := accepted s @ [v]\<rparr>
                       else s\<lparr>offer := (offer s)(p \<mapsto> v)\<rparr>))"

definition chan_get :: "nat \<Rightarrow> 'a chan_sys \<Rightarrow> 'a chan_sys" where
  "chan_get p s = (let (taken, eff, b) = bus_get p (cbus s) in settle eff b s)"

text \<open>A process that is blocked, or that waits for its turn, makes no new call.\<close>

definition busy :: "nat \<Rightarrow> 'a chan_sys \<Rightarrow> bool" where
  "busy p s \<longleftrightarrow> offer s p \<noteq> None \<or> p \<in> set (blocked_receivers (cbus s))"

inductive chan_step :: "'a chan_sys \<Rightarrow> 'a chan_event \<Rightarrow> 'a chan_sys \<Rightarrow> bool" where
  send: "\<not> busy p s \<Longrightarrow> chan_step s (Send p v) (chan_put p v s)"
| retry: "woken s = xs @ p # ys \<Longrightarrow> offer s p = Some v \<Longrightarrow>
     chan_step s (Retry p) (chan_put p v (s\<lparr>woken := xs @ ys\<rparr>))"
| recv: "\<not> busy p s \<Longrightarrow> chan_step s (Recv p) (chan_get p s)"

definition chan_next :: "'a chan_sys \<Rightarrow> 'a chan_sys \<Rightarrow> bool" where
  "chan_next s t \<longleftrightarrow> (\<exists>e. chan_step s e t)"

abbreviation chan_reaches :: "'a chan_sys \<Rightarrow> 'a chan_sys \<Rightarrow> bool" where
  "chan_reaches \<equiv> chan_next\<^sup>*\<^sup>*"

definition make_channel :: "'a list \<Rightarrow> 'a chan_sys" where
  "make_channel slots =
     \<lparr>cbus = \<lparr>blocked_senders = [], blocked_receivers = [], bus_buffer = \<lparr>cb_queue = slots, cb_head = 0, cb_tail = 0\<rparr>\<rparr>,
      offer = (\<lambda>_. None), woken = [], accepted = [], received = []\<rparr>"

section \<open>The ring lags by one\<close>

text \<open>
  \<open>cb_window b\<close>: the slots from the head to the tail, both included. A push writes the slot behind the
  tail, a pop reads the slot at the head.
\<close>

definition cb_used :: "'a chan_buffer \<Rightarrow> nat" where
  "cb_used b = (cb_tail b + cb_size b - cb_head b) mod cb_size b"

definition cb_window :: "'a chan_buffer \<Rightarrow> 'a list" where
  "cb_window b = map (\<lambda>i. cb_queue b ! ((cb_head b + i) mod cb_size b)) [0..<Suc (cb_used b)]"

definition cb_wf :: "'a chan_buffer \<Rightarrow> bool" where
  "cb_wf b \<longleftrightarrow> cb_size b < 2 ^ 63 \<and> (if cb_size b = 0 then cb_tail b = cb_head b else cb_head b < cb_size b \<and> cb_tail b < cb_size b)"

definition cb_free :: "'a chan_buffer \<Rightarrow> nat" where
  "cb_free b = cb_size b - 1 - cb_used b"

lemma next_idx_exact: "cb_wf b \<Longrightarrow> i < cb_size b \<Longrightarrow> next_idx b i = Suc i mod cb_size b"
  by (auto simp: next_idx_def cb_wf_def uadd_def)

lemma cb_used_lt: "0 < cb_size b \<Longrightarrow> cb_used b < cb_size b"
  by (simp add: cb_used_def)

lemma cb_tail_used:
  assumes "cb_wf b" "0 < cb_size b"
  shows "cb_tail b = (cb_head b + cb_used b) mod cb_size b"
proof -
  have "cb_head b \<le> cb_tail b + cb_size b" "cb_tail b < cb_size b" using assms by (auto simp: cb_wf_def)
  then have "(cb_head b + (cb_tail b + cb_size b - cb_head b)) mod cb_size b = cb_tail b" by simp
  then show ?thesis by (simp add: cb_used_def mod_add_right_eq)
qed

lemma ring_index:
  fixes h i n :: nat
  assumes "h < n" "i < n"
  shows "(h + i) mod n = (if h + i < n then h + i else h + i - n)"
proof (cases "h + i < n")
  case False
  then have "(h + i) mod n = (h + i - n) mod n" by (intro le_mod_geq) simp
  then show ?thesis using False assms by simp
qed simp

lemma ring_offset_unique:
  fixes h i j n :: nat
  assumes "h < n" "i < n" "j < n" "(h + i) mod n = (h + j) mod n"
  shows "i = j"
  using assms by (simp add: ring_index split: if_splits)

lemma cb_used_unique:
  assumes "cb_head b < cb_size b" "u < cb_size b" "cb_tail b = (cb_head b + u) mod cb_size b"
  shows "cb_used b = u"
proof (cases "cb_head b + u < cb_size b")
  case True
  then show ?thesis using assms by (simp add: cb_used_def)
next
  case False
  then have "cb_tail b = cb_head b + u - cb_size b" using assms ring_index [of "cb_head b" "cb_size b" u] by simp
  then show ?thesis using False assms(2) by (simp add: cb_used_def)
qed

lemma cb_next_tail:
  assumes "cb_wf b" "0 < cb_size b"
  shows "next_idx b (cb_tail b) = (cb_head b + Suc (cb_used b)) mod cb_size b"
proof -
  have "next_idx b (cb_tail b) = Suc (cb_tail b) mod cb_size b"
    using assms by (intro next_idx_exact) (auto simp: cb_wf_def)
  also have "\<dots> = (cb_head b + Suc (cb_used b)) mod cb_size b"
    by (subst cb_tail_used [OF assms]) (simp add: mod_Suc_eq)
  finally show ?thesis .
qed

lemma cb_full_iff:
  assumes "cb_wf b" "0 < cb_size b"
  shows "next_idx b (cb_tail b) = cb_head b \<longleftrightarrow> Suc (cb_used b) = cb_size b"
proof
  assume e: "next_idx b (cb_tail b) = cb_head b"
  show "Suc (cb_used b) = cb_size b"
  proof (rule ccontr)
    assume "Suc (cb_used b) \<noteq> cb_size b"
    then have "Suc (cb_used b) < cb_size b" using cb_used_lt [OF assms(2)] by simp
    moreover have "(cb_head b + Suc (cb_used b)) mod cb_size b = (cb_head b + 0) mod cb_size b"
      using e cb_next_tail [OF assms] assms by (simp add: cb_wf_def)
    ultimately show False using ring_offset_unique [of "cb_head b" "cb_size b" "Suc (cb_used b)" 0] assms
      by (auto simp: cb_wf_def)
  qed
next
  assume "Suc (cb_used b) = cb_size b"
  then show "next_idx b (cb_tail b) = cb_head b" using assms by (simp add: cb_next_tail cb_wf_def)
qed

lemma cb_empty_iff: "cb_wf b \<Longrightarrow> 0 < cb_size b \<Longrightarrow> cb_tail b = cb_head b \<longleftrightarrow> cb_used b = 0"
  using cb_used_unique [of b 0] cb_tail_used [of b] by (cases "cb_used b = 0") (auto simp: cb_wf_def)

text \<open>A push is refused with \<open>Size - 1\<close> values inside; otherwise the value joins the window at its end.\<close>

lemma cb_push_refused: "cb_wf b \<Longrightarrow> cb_free b = 0 \<Longrightarrow> cb_push v b = (False, b)"
  using cb_used_lt [of b] by (cases "cb_size b = 0") (auto simp: cb_push_def Let_def cb_full_iff cb_free_def)

lemma cb_push_taken:
  assumes "cb_wf b" "0 < cb_free b"
  obtains b' where "cb_push v b = (True, b')" "cb_wf b'" "cb_size b' = cb_size b" "cb_used b' = Suc (cb_used b)"
    "cb_window b' = cb_window b @ [v]"
proof -
  let ?n = "cb_size b" and ?t = "next_idx b (cb_tail b)"
  let ?b = "push_at ?t v (b\<lparr>cb_tail := ?t\<rparr>)"
  have n: "0 < ?n" "Suc (cb_used b) < ?n" using assms(2) by (auto simp: cb_free_def)
  have h: "cb_head b < ?n" "?n < 2 ^ 63" using assms(1) n by (auto simp: cb_wf_def)
  have t: "?t = (cb_head b + Suc (cb_used b)) mod ?n" using assms(1) n by (intro cb_next_tail)
  have sz: "cb_size ?b = ?n" by (simp add: push_at_def)
  have u: "cb_used ?b = Suc (cb_used b)"
    by (rule cb_used_unique) (use h n t in \<open>simp_all add: push_at_def\<close>)
  have old: "(cb_head b + i) mod ?n \<noteq> ?t" if "i \<le> cb_used b" for i
    using ring_offset_unique [OF h(1), of i "Suc (cb_used b)"] that n t by auto
  have "cb_window ?b = map (\<lambda>i. cb_queue ?b ! ((cb_head b + i) mod ?n)) [0..<Suc (cb_used b)] @ [cb_queue ?b ! ?t]"
    unfolding cb_window_def u sz using t by (simp add: push_at_def)
  also have "\<dots> = cb_window b @ [v]"
  proof -
    have "?t < ?n" using t n by simp
    then have "cb_queue ?b ! ?t = v" by (simp add: push_at_def)
    moreover have "cb_queue ?b ! ((cb_head b + i) mod ?n) = cb_queue b ! ((cb_head b + i) mod ?n)" if "i < Suc (cb_used b)" for i
      using old [of i] that by (simp add: push_at_def)
    ultimately show ?thesis unfolding cb_window_def by (simp del: upt_Suc)
  qed
  finally have w: "cb_window ?b = cb_window b @ [v]" .
  have p: "cb_push v b = (True, ?b)" using n cb_full_iff [OF assms(1)] by (simp add: cb_push_def Let_def)
  have "cb_wf ?b" using assms(1) n t h by (simp add: cb_wf_def push_at_def)
  then show ?thesis using that p sz u w by blast
qed

lemma cb_pop_empty: "cb_wf b \<Longrightarrow> cb_used b = 0 \<Longrightarrow> cb_pop b = (None, b)"
  by (cases "cb_size b = 0") (auto simp: cb_pop_def cb_empty_iff)

lemma cb_pop_taken:
  assumes "cb_wf b" "0 < cb_used b" "0 < cb_size b"
  obtains b' where "cb_pop b = (Some (hd (cb_window b)), b')" "cb_wf b'" "cb_size b' = cb_size b"
    "Suc (cb_used b') = cb_used b" "cb_window b' = tl (cb_window b)"
proof -
  let ?n = "cb_size b" and ?b = "b\<lparr>cb_head := next_idx b (cb_head b)\<rparr>"
  have h: "cb_head b < ?n" "cb_tail b < ?n" "cb_used b < ?n"
    using assms cb_used_lt by (auto simp: cb_wf_def)
  have nx: "next_idx b (cb_head b) = Suc (cb_head b) mod ?n" using assms(1) h by (intro next_idx_exact)
  have "(Suc (cb_head b) mod ?n + (cb_used b - 1)) mod ?n = (Suc (cb_head b) + (cb_used b - 1)) mod ?n"
    by (rule mod_add_left_eq)
  then have "cb_tail b = (Suc (cb_head b) mod ?n + (cb_used b - 1)) mod ?n"
    using cb_tail_used [OF assms(1,3)] assms(2) by simp
  then have u: "cb_used ?b = cb_used b - 1"
    using h nx assms(2) mod_less_divisor [OF assms(3), of "Suc (cb_head b)"] by (intro cb_used_unique) auto
  have shift: "(Suc (cb_head b) mod ?n + i) mod ?n = (cb_head b + Suc i) mod ?n" for i
    by (simp add: mod_add_left_eq)
  have "cb_window ?b = map (\<lambda>i. cb_queue b ! ((cb_head b + Suc i) mod ?n)) [0..<cb_used b]"
    unfolding cb_window_def u using assms(2) by (simp add: nx shift del: upt_Suc)
  also have "\<dots> = tl (cb_window b)" by (simp add: cb_window_def upt_conv_Cons map_Suc_upt [symmetric] comp_def del: upt_Suc)
  finally have w: "cb_window ?b = tl (cb_window b)" .
  have "hd (cb_window b) = cb_queue b ! cb_head b" using h by (simp add: cb_window_def upt_conv_Cons del: upt_Suc)
  then have p: "cb_pop b = (Some (hd (cb_window b)), ?b)"
    using assms cb_empty_iff [OF assms(1,3)] by (simp add: cb_pop_def Let_def pop_at_def)
  have "cb_wf ?b" using assms(1) h nx assms(3) by (simp add: cb_wf_def)
  then show ?thesis using that p u w assms(2) by auto
qed

text \<open>A trace of the ring on its own: the values accepted and the values handed out.\<close>

datatype 'a ring_op = Push 'a | Pop

fun cb_run :: "'a ring_op list \<Rightarrow> 'a chan_buffer \<Rightarrow> 'a list \<times> 'a list \<times> 'a chan_buffer" where
  "cb_run [] b = ([], [], b)"
| "cb_run (Push v # ops) b =
     (let (ok, b') = cb_push v b; (acc, got, t) = cb_run ops b' in (if ok then v # acc else acc, got, t))"
| "cb_run (Pop # ops) b =
     (let (r, b') = cb_pop b; (acc, got, t) = cb_run ops b' in (acc, case r of None \<Rightarrow> got | Some v \<Rightarrow> v # got, t))"

lemma cb_window_not_Nil [simp]: "cb_window b \<noteq> []"
  by (simp add: cb_window_def)

lemma cb_run_window:
  "cb_wf b \<Longrightarrow> 0 < cb_size b \<Longrightarrow> cb_run ops b = (acc, got, t) \<Longrightarrow>
     cb_wf t \<and> cb_size t = cb_size b \<and> got @ cb_window t = cb_window b @ acc"
proof (induction ops arbitrary: b acc got)
  case Nil
  then show ?case by simp
next
  case (Cons p ops)
  show ?case
  proof (cases p)
    case (Push v)
    show ?thesis
    proof (cases "cb_free b = 0")
      case True
      then show ?thesis using Cons Push cb_push_refused [of b v] by (auto split: prod.splits)
    next
      case False
      then obtain b' where b': "cb_push v b = (True, b')" "cb_wf b'" "cb_size b' = cb_size b" "cb_window b' = cb_window b @ [v]"
        using cb_push_taken [of b v] Cons.prems(1) by auto
      obtain acc' where "cb_run ops b' = (acc', got, t)" "acc = v # acc'"
        using Cons.prems(3) Push b'(1) by (auto split: prod.splits)
      then show ?thesis using Cons.IH [of b' acc' got] Cons.prems(2) b' by simp
    qed
  next
    case Pop
    show ?thesis
    proof (cases "cb_used b = 0")
      case True
      then show ?thesis using Cons Pop cb_pop_empty [of b] by (auto split: prod.splits)
    next
      case False
      then obtain b' where b': "cb_pop b = (Some (hd (cb_window b)), b')" "cb_wf b'" "cb_size b' = cb_size b"
          "cb_window b' = tl (cb_window b)"
        using cb_pop_taken [of b] Cons.prems(1,2) by auto
      obtain got' where "cb_run ops b' = (acc, got', t)" "got = hd (cb_window b) # got'"
        using Cons.prems(3) Pop b'(1) by (auto split: prod.splits)
      moreover have "hd (cb_window b) # tl (cb_window b) @ acc = cb_window b @ acc"
        by (simp flip: append_Cons)
      ultimately show ?thesis using Cons.IH [of b' acc got'] Cons.prems(2) b' by simp
    qed
  qed
qed

section \<open>The processes are never stuck\<close>

text \<open>
  Receivers wait only while the ring is empty, so a value is never taken from the ring for a waiting
  receiver. While senders are blocked there is a woken sender for every free slot and every waiting
  receiver.
\<close>

definition chan_offers :: "nat set \<Rightarrow> 'a chan_sys \<Rightarrow> bool" where
  "chan_offers P s \<longleftrightarrow> distinct (blocked_senders (cbus s) @ woken s) \<and>
     (\<forall>q. q \<notin> P \<longrightarrow> (offer s q \<noteq> None \<longleftrightarrow> q \<in> set (blocked_senders (cbus s) @ woken s))) \<and>
     (\<forall>q\<in>P. q \<notin> set (blocked_senders (cbus s) @ woken s @ blocked_receivers (cbus s))) \<and>
     (\<forall>q\<in>set (blocked_receivers (cbus s)). offer s q = None)"

definition chan_room :: "nat \<Rightarrow> 'a chan_sys \<Rightarrow> bool" where
  "chan_room k s \<longleftrightarrow> cb_wf (bus_buffer (cbus s)) \<and>
     (blocked_receivers (cbus s) \<noteq> [] \<longrightarrow> cb_used (bus_buffer (cbus s)) = 0) \<and>
     (blocked_senders (cbus s) \<noteq> [] \<longrightarrow>
        cb_free (bus_buffer (cbus s)) + length (blocked_receivers (cbus s)) \<le> length (woken s) + k)"

definition chan_inv :: "'a chan_sys \<Rightarrow> bool" where
  "chan_inv s \<longleftrightarrow> chan_offers {} s \<and> chan_room 0 s"

lemma cb_used_pos: "cb_wf b \<Longrightarrow> 0 < cb_used b \<Longrightarrow> 0 < cb_size b"
  by (rule ccontr) (simp add: cb_used_def cb_wf_def)

lemma cb_free_used: "cb_wf b \<Longrightarrow> 0 < cb_free b \<Longrightarrow> cb_size b' = cb_size b \<Longrightarrow> cb_used b' = Suc (cb_used b) \<Longrightarrow>
    Suc (cb_free b') = cb_free b"
  by (simp add: cb_free_def)

lemma maybe_deliver_waiting:
  assumes "cb_wf (bus_buffer b)" "cb_used (bus_buffer b) = 0" "blocked_receivers b = r # rs"
  shows "maybe_deliver v b = (True, \<lparr>stored = [(r, v)], unblocked = [r]\<rparr>, b\<lparr>blocked_receivers := rs\<rparr>)"
  using assms cb_pop_empty [of "bus_buffer b"] by (cases b) (simp add: maybe_deliver_def)

text \<open>The three ways a turn of \<^verbatim>\<open>put\<close> ends.\<close>

lemma chan_put_cases:
  assumes "chan_room k s"
  obtains
    (direct) r rs where "blocked_receivers (cbus s) = r # rs" "chan_put p v s =
       settle \<lparr>stored = [(r, v)], unblocked = [r]\<rparr> ((cbus s)\<lparr>blocked_receivers := rs\<rparr>)
         (s\<lparr>offer := (offer s)(p := None), accepted := accepted s @ [v]\<rparr>)"
  | (buffered) buf where "blocked_receivers (cbus s) = []" "cb_push v (bus_buffer (cbus s)) = (True, buf)" "cb_wf buf"
       "Suc (cb_free buf) = cb_free (bus_buffer (cbus s))" "chan_put p v s =
       settle nothing ((cbus s)\<lparr>bus_buffer := buf\<rparr>) (s\<lparr>offer := (offer s)(p := None), accepted := accepted s @ [v]\<rparr>)"
  | (blocked) "blocked_receivers (cbus s) = []" "cb_free (bus_buffer (cbus s)) = 0" "chan_put p v s =
       settle nothing ((cbus s)\<lparr>blocked_senders := blocked_senders (cbus s) @ [p]\<rparr>) (s\<lparr>offer := (offer s)(p \<mapsto> v)\<rparr>)"
proof (cases "blocked_receivers (cbus s)")
  case (Cons r rs)
  then show ?thesis using assms maybe_deliver_waiting [of "cbus s" r rs v]
    by (intro direct) (auto simp: chan_room_def chan_put_def put_once_def)
next
  case Nil
  let ?b = "bus_buffer (cbus s)"
  have wf: "cb_wf ?b" using assms by (simp add: chan_room_def)
  show ?thesis
  proof (cases "cb_free ?b = 0")
    case True
    then show ?thesis using Nil cb_push_refused [OF wf, of v]
      by (intro blocked) (auto simp: chan_put_def put_once_def maybe_deliver_def)
  next
    case False
    then obtain b' where "cb_push v ?b = (True, b')" "cb_wf b'" "Suc (cb_free b') = cb_free ?b"
      using cb_push_taken [OF wf, of v] cb_free_used [OF wf] by (metis gr0I)
    then show ?thesis using Nil
      by (intro buffered) (auto simp: chan_put_def put_once_def maybe_deliver_def)
  qed
qed

lemmas chan_inv_defs = chan_inv_def chan_offers_def chan_room_def settle_def nothing_def

lemma chan_put_inv:
  assumes "chan_offers {p} s" "chan_room 1 s"
  shows "chan_inv (chan_put p v s)"
  using assms(2)
proof (cases rule: chan_put_cases [where p = p and v = v])
  case (direct r rs)
  then show ?thesis using assms by (auto simp: chan_inv_defs)
next
  case (buffered buf)
  then show ?thesis using assms by (auto simp: chan_inv_defs)
next
  case blocked
  then show ?thesis using assms by (auto simp: chan_inv_defs)
qed

text \<open>The two ways \<^verbatim>\<open>get\<close> ends, and the sender it wakes up.\<close>

lemma maybe_fill_cases:
  obtains (none) "blocked_senders b = []" "maybe_fill b = (nothing, b)"
  | (one) q qs where "blocked_senders b = q # qs" "maybe_fill b = (nothing\<lparr>unblocked := [q]\<rparr>, b\<lparr>blocked_senders := qs\<rparr>)"
  by (cases "blocked_senders b") (auto simp: maybe_fill_def)

lemma chan_get_cases:
  assumes "chan_room k s"
  obtains (waits) "cb_used (bus_buffer (cbus s)) = 0" "bus_get p (cbus s) =
      (let (eff, b) = maybe_fill ((cbus s)\<lparr>blocked_receivers := blocked_receivers (cbus s) @ [p]\<rparr>) in (False, eff, b))"
  | (taken) buf where "blocked_receivers (cbus s) = []" "cb_pop (bus_buffer (cbus s)) = (Some (hd (cb_window (bus_buffer (cbus s)))), buf)"
      "cb_wf buf" "cb_free buf = Suc (cb_free (bus_buffer (cbus s)))" "bus_get p (cbus s) =
      (let (eff, b) = maybe_fill ((cbus s)\<lparr>bus_buffer := buf\<rparr>) in (True, eff\<lparr>stored := [(p, hd (cb_window (bus_buffer (cbus s))))]\<rparr>, b))"
proof -
  let ?b = "bus_buffer (cbus s)"
  have wf: "cb_wf ?b" using assms by (simp add: chan_room_def)
  show ?thesis
  proof (cases "cb_used ?b = 0")
    case True
    then show ?thesis using cb_pop_empty [OF wf]
      by (intro waits) (auto simp: bus_get_def)
  next
    case False
    then have n: "0 < cb_size ?b" using cb_used_pos [OF wf] by simp
    obtain buf where buf: "cb_pop ?b = (Some (hd (cb_window ?b)), buf)" "cb_wf buf" "cb_size buf = cb_size ?b"
        "Suc (cb_used buf) = cb_used ?b"
      by (rule cb_pop_taken [OF wf _ n]) (use False in simp_all)
    then have "cb_free buf = Suc (cb_free ?b)" using cb_used_lt [OF n] unfolding cb_free_def by linarith
    with buf(1,2) show ?thesis using False assms by (intro taken) (auto simp: bus_get_def chan_room_def)
  qed
qed

lemma chan_get_inv:
  assumes "chan_inv s" "\<not> busy p s"
  shows "chan_inv (chan_get p s)"
proof -
  have "chan_room 0 s" using assms(1) by (simp add: chan_inv_def)
  then show ?thesis
  proof (cases rule: chan_get_cases [where p = p])
    case waits
    then show ?thesis using assms
      by (cases rule: maybe_fill_cases [of "(cbus s)\<lparr>blocked_receivers := blocked_receivers (cbus s) @ [p]\<rparr>"])
         (auto simp: chan_get_def chan_inv_defs busy_def)
  next
    case (taken buf)
    then show ?thesis using assms
      by (cases rule: maybe_fill_cases [of "(cbus s)\<lparr>bus_buffer := buf\<rparr>"])
         (auto simp: chan_get_def chan_inv_defs busy_def)
  qed
qed

lemma chan_step_inv:
  assumes "chan_step s e t" "chan_inv s"
  shows "chan_inv t"
  using assms
proof (cases rule: chan_step.cases)
  case (send p v)
  have "chan_offers {p} s" "chan_room 1 s"
    using assms(2) send by (auto simp: chan_inv_def chan_offers_def chan_room_def busy_def)
  then show ?thesis using send by (simp add: chan_put_inv)
next
  case (retry xs p ys v)
  have "chan_offers {p} (s\<lparr>woken := xs @ ys\<rparr>)" "chan_room 1 (s\<lparr>woken := xs @ ys\<rparr>)"
    using assms(2) retry by (auto simp: chan_inv_def chan_offers_def chan_room_def)
  then show ?thesis using retry by (simp add: chan_put_inv)
next
  case (recv p)
  then show ?thesis using assms(2) by (simp add: chan_get_inv)
qed

interpretation chan: step_system chan_next chan_inv
  by unfold_locales (auto simp: chan_next_def intro: chan_step_inv)

lemma make_channel_inv: "length slots < 2 ^ 63 \<Longrightarrow> chan_inv (make_channel slots)"
  by (auto simp: chan_inv_def make_channel_def chan_offers_def chan_room_def cb_wf_def cb_used_def cb_free_def)

section \<open>A channel without a buffer is exact\<close>

lemma chan_put_exact:
  assumes "chan_room k s" "cb_size (bus_buffer (cbus s)) \<le> 1" "received s = accepted s"
  shows "received (chan_put p v s) = accepted (chan_put p v s) \<and> cb_size (bus_buffer (cbus (chan_put p v s))) \<le> 1"
  using assms(1)
proof (cases rule: chan_put_cases [where p = p and v = v])
  case (buffered buf)
  then show ?thesis using assms(2) by (simp add: cb_free_def)
qed (use assms in \<open>auto simp: settle_def nothing_def\<close>)

lemma chan_get_exact:
  assumes "chan_room k s" "cb_size (bus_buffer (cbus s)) \<le> 1" "received s = accepted s"
  shows "received (chan_get p s) = accepted (chan_get p s) \<and> cb_size (bus_buffer (cbus (chan_get p s))) \<le> 1"
  using assms(1)
proof (cases rule: chan_get_cases [where p = p])
  case waits
  then show ?thesis using assms
    by (cases rule: maybe_fill_cases [of "(cbus s)\<lparr>blocked_receivers := blocked_receivers (cbus s) @ [p]\<rparr>"])
       (auto simp: chan_get_def settle_def nothing_def)
next
  case (taken buf)
  then have "cb_size buf = cb_size (bus_buffer (cbus s))" by (auto simp: cb_pop_def Let_def split: if_splits)
  with taken assms(2) show ?thesis by (simp add: cb_free_def)
qed

definition chan_exact_inv :: "'a chan_sys \<Rightarrow> bool" where
  "chan_exact_inv s \<longleftrightarrow> chan_inv s \<and> cb_size (bus_buffer (cbus s)) \<le> 1 \<and> received s = accepted s"

lemma chan_step_exact:
  assumes "chan_step s e t" "chan_exact_inv s"
  shows "chan_exact_inv t"
proof -
  have i: "chan_room 0 s" "cb_size (bus_buffer (cbus s)) \<le> 1" "received s = accepted s" "chan_inv t"
    using assms chan_step_inv by (auto simp: chan_exact_inv_def chan_inv_def)
  from assms(1) show ?thesis
  proof (cases rule: chan_step.cases)
    case (send p v)
    then show ?thesis using chan_put_exact [OF i(1-3)] i(4) by (simp add: chan_exact_inv_def)
  next
    case (retry xs p ys v)
    let ?s = "s\<lparr>woken := xs @ ys\<rparr>"
    have "chan_room 1 ?s" using i(1) retry by (auto simp: chan_room_def)
    then show ?thesis using retry i chan_put_exact [of 1 ?s p v] by (simp add: chan_exact_inv_def)
  next
    case (recv p)
    then show ?thesis using chan_get_exact [OF i(1-3)] i(4) by (simp add: chan_exact_inv_def)
  qed
qed

interpretation rendezvous: step_system chan_next chan_exact_inv
  by unfold_locales (auto simp: chan_next_def intro: chan_step_exact)

end
