(* ===== verification/Run_Queues.thy ===== *)
theory Run_Queues
  imports Xi_Prelude "HOL-Library.Multiset"
begin

text \<open>
  The queues a worker schedules from (\<^verbatim>\<open>worker_queue.h\<close>, \<^verbatim>\<open>shared_queue.h\<close>, \<^verbatim>\<open>sleep_queue.h\<close>) and the
  budget that bounds its rounds (\<^verbatim>\<open>execution_budget.h\<close>), all under \<^verbatim>\<open>xi/core\<close>.

  A resumable is its identity and its wake-up time. Time points are the nanosecond counts of
  \<^verbatim>\<open>steady_clock\<close>, below \<open>time_max\<close>. The time stamp counter is read once per operation and is an
  argument.
\<close>

section \<open>Execution budget\<close>

record execution_budget =
  eb_allocated :: u64
  eb_jitter :: u64
  eb_start_tsc :: u64
  eb_curr_tsc :: u64

definition budget_new :: "u64 \<Rightarrow> u64 \<Rightarrow> u64 \<Rightarrow> execution_budget" where
  "budget_new a jitter tsc = \<lparr>eb_allocated = a, eb_jitter = jitter, eb_start_tsc = tsc, eb_curr_tsc = tsc\<rparr>"

definition budget_is_expended :: "execution_budget \<Rightarrow> bool" where
  "budget_is_expended b \<longleftrightarrow> eb_allocated b \<le> eb_curr_tsc b + eb_jitter b - eb_start_tsc b"

definition budget_remainder :: "execution_budget \<Rightarrow> u64" where
  "budget_remainder b = eb_curr_tsc b + eb_jitter b - eb_start_tsc b - eb_allocated b"

definition budget_adjust_spent :: "u64 \<Rightarrow> execution_budget \<Rightarrow> bool \<times> execution_budget" where
  "budget_adjust_spent tsc b = (let b' = b\<lparr>eb_curr_tsc := tsc\<rparr> in (\<not> budget_is_expended b', b'))"

definition sub_budget :: "u64 \<Rightarrow> u64 \<Rightarrow> execution_budget \<Rightarrow> execution_budget" where
  "sub_budget a tsc b =
     \<lparr>eb_allocated = min (budget_remainder b) a, eb_jitter = eb_jitter b, eb_start_tsc = eb_start_tsc b, eb_curr_tsc = tsc\<rparr>"

abbreviation budget_spent :: "execution_budget \<Rightarrow> u64" where
  "budget_spent b \<equiv> eb_curr_tsc b + eb_jitter b - eb_start_tsc b"

text \<open>
  The remainder is the overspent time. Of a budget that is not used up it is the wrap-around of what is
  left, so adding it to the allocation gives what was spent.
\<close>

lemma remainder_plus_allocated: "eb_allocated b + budget_remainder b = budget_spent b"
  by (simp add: budget_remainder_def)

lemma remainder_overspent:
  "budget_is_expended b \<Longrightarrow> unat (budget_remainder b) = unat (budget_spent b) - unat (eb_allocated b)"
  by (simp add: budget_is_expended_def budget_remainder_def unat_sub)

lemma remainder_unspent:
  assumes "\<not> budget_is_expended b"
  shows "unat (budget_remainder b) = 2 ^ 64 - (unat (eb_allocated b) - unat (budget_spent b))"
proof -
  have "budget_spent b < eb_allocated b" using assms by (simp add: budget_is_expended_def not_le)
  then have "unat (budget_spent b) < unat (eb_allocated b)" by (simp add: word_less_nat_alt)
  moreover have "unat (eb_allocated b) < 2 ^ LENGTH(64)" by (rule unsigned_less)
  ultimately show ?thesis
    by (simp add: budget_remainder_def unat_sub_if' word_le_nat_alt)
qed

section \<open>Queues of resumables\<close>

record resumable =
  rs_id :: nat
  rs_wakeup :: int

definition time_max :: int where
  "time_max = 2 ^ 63 - 1"

type_synonym worker_queue = "resumable list"

definition wq_enqueue :: "resumable \<Rightarrow> worker_queue \<Rightarrow> worker_queue" where
  "wq_enqueue r q = q @ [r]"

definition wq_is_empty :: "worker_queue \<Rightarrow> bool" where
  "wq_is_empty q = List.null q"

fun wq_dequeue :: "worker_queue \<Rightarrow> resumable option \<times> worker_queue" where
  "wq_dequeue [] = (None, [])"
| "wq_dequeue (r # q) = (Some r, q)"

text \<open>The shared queue holds builders; \<open>build\<close> is the virtual \<^verbatim>\<open>resumable_builder::build\<close>.\<close>

definition shq_enqueue :: "'b \<Rightarrow> 'b list \<Rightarrow> 'b list" where
  "shq_enqueue b s = s @ [b]"

fun shq_dequeue_loop :: "('b \<Rightarrow> resumable) \<Rightarrow> nat \<Rightarrow> nat \<Rightarrow> 'b list \<Rightarrow> worker_queue \<Rightarrow> nat \<times> 'b list \<times> worker_queue" where
  "shq_dequeue_loop build i 0 s q = (i, s, q)"
| "shq_dequeue_loop build i (Suc left) [] q = (i, [], q)"
| "shq_dequeue_loop build i (Suc left) (b # s) q = shq_dequeue_loop build (Suc i) left s (wq_enqueue (build b) q)"

definition shq_dequeue_into :: "('b \<Rightarrow> resumable) \<Rightarrow> nat \<Rightarrow> 'b list \<Rightarrow> worker_queue \<Rightarrow> nat \<times> 'b list \<times> worker_queue" where
  "shq_dequeue_into build n s q = shq_dequeue_loop build 0 n s q"

lemma shq_dequeue_loop_spec:
  "shq_dequeue_loop build i n s q = (i + min n (length s), drop n s, q @ map build (take n s))"
  by (induction build i n s q rule: shq_dequeue_loop.induct) (auto simp: wq_enqueue_def)

lemma shq_dequeue_into_spec:
  "shq_dequeue_into build n s q = (min n (length s), drop n s, q @ map build (take n s))"
  by (simp add: shq_dequeue_into_def shq_dequeue_loop_spec)

section \<open>The sleep queue\<close>

record sleep_queue =
  sq_queue :: "resumable list"
  sq_next_item :: int

definition sq_new :: sleep_queue where
  "sq_new = \<lparr>sq_queue = [], sq_next_item = time_max\<rparr>"

text \<open>
  \<^verbatim>\<open>boost::intrusive::set\<close> keeps its elements in order and unique: an element whose key is already
  there is not inserted.
\<close>

fun set_insert :: "resumable \<Rightarrow> resumable list \<Rightarrow> resumable list" where
  "set_insert r [] = [r]"
| "set_insert r (x # xs) =
     (if rs_wakeup r < rs_wakeup x then r # x # xs
      else if rs_wakeup x < rs_wakeup r then x # set_insert r xs
      else x # xs)"

definition sq_enqueue :: "int \<Rightarrow> resumable \<Rightarrow> sleep_queue \<Rightarrow> sleep_queue" where
  "sq_enqueue when r s =
     (let s1 = (if sq_next_item s > when then s\<lparr>sq_next_item := when\<rparr> else s)
      in s1\<lparr>sq_queue := set_insert (r\<lparr>rs_wakeup := when\<rparr>) (sq_queue s1)\<rparr>)"

fun sq_drain :: "int \<Rightarrow> resumable list \<Rightarrow> worker_queue \<Rightarrow> sleep_queue \<times> worker_queue" where
  "sq_drain cutoff [] q = (\<lparr>sq_queue = [], sq_next_item = time_max\<rparr>, q)"
| "sq_drain cutoff (x # xs) q =
     (if rs_wakeup x > cutoff then (\<lparr>sq_queue = x # xs, sq_next_item = rs_wakeup x\<rparr>, q)
      else sq_drain cutoff xs (wq_enqueue (x\<lparr>rs_wakeup := time_max\<rparr>) q))"

definition sq_dequeue_into :: "int \<Rightarrow> sleep_queue \<Rightarrow> worker_queue \<Rightarrow> sleep_queue \<times> worker_queue" where
  "sq_dequeue_into cutoff s q = (if sq_next_item s > cutoff then (s, q) else sq_drain cutoff (sq_queue s) q)"

definition sq_is_empty :: "sleep_queue \<Rightarrow> bool" where
  "sq_is_empty s = List.null (sq_queue s)"

text \<open>The queue is in strict order of wake-up time, and \<^verbatim>\<open>_next_item\<close> is the first of them.\<close>

definition sq_wf :: "sleep_queue \<Rightarrow> bool" where
  "sq_wf s \<longleftrightarrow> sorted_wrt (\<lambda>x y. rs_wakeup x < rs_wakeup y) (sq_queue s) \<and>
     (\<forall>x\<in>set (sq_queue s). rs_wakeup x \<le> time_max) \<and>
     sq_next_item s = (case sq_queue s of [] \<Rightarrow> time_max | x # _ \<Rightarrow> rs_wakeup x)"

lemma set_insert_set: "set (set_insert r xs) \<subseteq> insert r (set xs)"
  by (induction xs) auto

lemma set_insert_sorted:
  "sorted_wrt (\<lambda>x y. rs_wakeup x < rs_wakeup y) xs \<Longrightarrow> sorted_wrt (\<lambda>x y. rs_wakeup x < rs_wakeup y) (set_insert r xs)"
  using set_insert_set by (induction xs) fastforce+

lemma set_insert_present:
  "sorted_wrt (\<lambda>x y. rs_wakeup x < rs_wakeup y) xs \<Longrightarrow> rs_wakeup r \<in> rs_wakeup ` set xs \<Longrightarrow> set_insert r xs = xs"
  by (induction xs) auto

lemma set_insert_absent:
  "rs_wakeup r \<notin> rs_wakeup ` set xs \<Longrightarrow> mset (set_insert r xs) = add_mset r (mset xs)"
  by (induction xs) auto

lemma sq_new_wf [simp]: "sq_wf sq_new"
  by (simp add: sq_wf_def sq_new_def)

lemma sq_enqueue_wf:
  assumes "sq_wf s" "when \<le> time_max"
  shows "sq_wf (sq_enqueue when r s)"
proof -
  have "set (sq_queue (sq_enqueue when r s)) \<subseteq> insert (r\<lparr>rs_wakeup := when\<rparr>) (set (sq_queue s))"
    by (auto simp: sq_enqueue_def Let_def dest: subsetD [OF set_insert_set])
  then have "\<forall>x\<in>set (sq_queue (sq_enqueue when r s)). rs_wakeup x \<le> time_max"
    using assms by (auto simp: sq_wf_def)
  moreover have "sorted_wrt (\<lambda>x y. rs_wakeup x < rs_wakeup y) (sq_queue (sq_enqueue when r s))"
    using assms by (auto simp: sq_enqueue_def sq_wf_def Let_def intro: set_insert_sorted)
  moreover have "sq_next_item (sq_enqueue when r s) = (case sq_queue (sq_enqueue when r s) of [] \<Rightarrow> time_max | x # _ \<Rightarrow> rs_wakeup x)"
    using assms by (cases "sq_queue s") (auto simp: sq_enqueue_def sq_wf_def Let_def)
  ultimately show ?thesis by (simp add: sq_wf_def)
qed

lemma sq_drain_spec:
  "sorted_wrt (\<lambda>x y. rs_wakeup x < rs_wakeup y) xs \<Longrightarrow>
     sq_drain cutoff xs q =
       (let rest = filter (\<lambda>x. cutoff < rs_wakeup x) xs
        in (\<lparr>sq_queue = rest, sq_next_item = (case rest of [] \<Rightarrow> time_max | x # _ \<Rightarrow> rs_wakeup x)\<rparr>,
            q @ map (\<lambda>x. x\<lparr>rs_wakeup := time_max\<rparr>) (filter (\<lambda>x. rs_wakeup x \<le> cutoff) xs)))"
proof (induction xs arbitrary: q)
  case (Cons x xs)
  show ?case
  proof (cases "cutoff < rs_wakeup x")
    case True
    then have "filter (\<lambda>x. cutoff < rs_wakeup x) xs = xs" "filter (\<lambda>x. rs_wakeup x \<le> cutoff) xs = []"
      using Cons.prems by (force simp: filter_id_conv filter_empty_conv)+
    then show ?thesis using True by simp
  next
    case False
    then show ?thesis using Cons by (simp add: wq_enqueue_def)
  qed
qed simp

text \<open>A dequeue moves exactly the resumables that are due, in the order of their times; the shortcut is sound.\<close>

lemma sq_dequeue_into_spec:
  assumes "sq_wf s" "cutoff < time_max"
  shows "sq_dequeue_into cutoff s q =
       (let rest = filter (\<lambda>x. cutoff < rs_wakeup x) (sq_queue s)
        in (\<lparr>sq_queue = rest, sq_next_item = (case rest of [] \<Rightarrow> time_max | x # _ \<Rightarrow> rs_wakeup x)\<rparr>,
            q @ map (\<lambda>x. x\<lparr>rs_wakeup := time_max\<rparr>) (filter (\<lambda>x. rs_wakeup x \<le> cutoff) (sq_queue s))))"
proof (cases "sq_next_item s > cutoff")
  case False
  then show ?thesis using assms sq_drain_spec [of "sq_queue s" cutoff q] by (simp add: sq_dequeue_into_def sq_wf_def)
next
  case True
  have "\<forall>x\<in>set (sq_queue s). cutoff < rs_wakeup x"
    using assms(1) True by (cases "sq_queue s") (auto simp: sq_wf_def)
  then have "filter (\<lambda>x. cutoff < rs_wakeup x) (sq_queue s) = sq_queue s" "filter (\<lambda>x. rs_wakeup x \<le> cutoff) (sq_queue s) = []"
    by (auto simp: filter_id_conv filter_empty_conv)
  moreover have "s = \<lparr>sq_queue = sq_queue s, sq_next_item = (case sq_queue s of [] \<Rightarrow> time_max | x # _ \<Rightarrow> rs_wakeup x)\<rparr>"
    using assms(1) by (cases s) (simp add: sq_wf_def)
  ultimately show ?thesis using True by (simp add: sq_dequeue_into_def Let_def)
qed

lemma sq_dequeue_into_wf: "sq_wf s \<Longrightarrow> cutoff < time_max \<Longrightarrow> sq_wf (fst (sq_dequeue_into cutoff s q))"
  by (auto simp: sq_dequeue_into_spec Let_def sq_wf_def sorted_wrt_filter split: list.splits)

end
