(* ===== verification/Worker.thy ===== *)
theory Worker
  imports Run_Queues
begin

text \<open>
  The worker of the runtime: \<^verbatim>\<open>netpoller.cpp\<close> and \<^verbatim>\<open>worker.cpp\<close> under \<^verbatim>\<open>src/src/core\<close>, with
  \<^verbatim>\<open>worker2.h\<close>.

  The endless loop of \<^verbatim>\<open>worker::run\<close> is a machine whose control points are the labels and loops of
  the code. What a step reads from outside (the time stamp counter, the clock, the answers of
  \<^verbatim>\<open>epoll_wait\<close> and \<^verbatim>\<open>epoll_ctl\<close>, what the resumed task answers) is its input. A failed assertion, a
  call of \<^verbatim>\<open>exit\<close> and an uncaught panic are the value \<open>None\<close>.
\<close>

section \<open>The netpoller\<close>

datatype ctl_op = Epoll_ctl_mod | Epoll_ctl_add

definition ENOENT :: int where "ENOENT = 2"
definition EINTR :: int where "EINTR = 4"
definition EEXIST :: int where "EEXIST = 17"
definition MAX_EVENTS :: nat where "MAX_EVENTS = 1024"

text \<open>\<open>ctl\<close> gives the return value of \<^verbatim>\<open>epoll_ctl\<close> and \<^verbatim>\<open>errno\<close>.\<close>

datatype await_outcome = Registered | Dropped | Exits

definition np_await :: "(ctl_op \<Rightarrow> int \<times> int) \<Rightarrow> await_outcome" where
  "np_await ctl =
     (let (ret, errno) = ctl Epoll_ctl_mod
      in if ret = -1 \<and> errno = ENOENT
         then let (ret2, errno2) = ctl Epoll_ctl_add
              in if ret2 = -1 then if errno2 = EEXIST then Dropped else Exits else Registered
         else if ret = -1 then Dropped else Registered)"

text \<open>\<^verbatim>\<open>await_readable\<close> and \<^verbatim>\<open>await_writable\<close> differ in the event mask only; \<open>held\<close> are the resumables released to the kernel.\<close>

definition await_ready :: "(ctl_op \<Rightarrow> int \<times> int) \<Rightarrow> resumable \<Rightarrow> resumable list \<Rightarrow> resumable list option" where
  "await_ready ctl r held =
     (case np_await ctl of Registered \<Rightarrow> Some (held @ [r]) | Dropped \<Rightarrow> Some held | Exits \<Rightarrow> None)"

datatype np_event = Wakeup_fd | Ready resumable

datatype wait_result = Wait_events "np_event list" | Wait_error int

fun deliver_events :: "np_event list \<Rightarrow> resumable list \<Rightarrow> worker_queue \<Rightarrow> resumable list \<times> worker_queue" where
  "deliver_events [] held q = (held, q)"
| "deliver_events (Wakeup_fd # es) held q = deliver_events es held q"
| "deliver_events (Ready r # es) held q = deliver_events es (remove1 r held) (wq_enqueue r q)"

text \<open>\<open>wait\<close> is \<^verbatim>\<open>epoll_wait\<close>, asked for so many events.\<close>

definition poll_into :: "(nat \<Rightarrow> wait_result) \<Rightarrow> nat \<Rightarrow> resumable list \<Rightarrow> worker_queue \<Rightarrow> (nat \<times> resumable list \<times> worker_queue) option" where
  "poll_into wait n held q =
     (case wait (min n MAX_EVENTS) of
        Wait_error e \<Rightarrow> if e = EINTR then Some (0, held, q) else None
      | Wait_events es \<Rightarrow> Some (length es, deliver_events es held q))"

section \<open>The worker\<close>

record worker_config =
  netpoll_max :: nat
  scheduler_dequeue_max :: nat
  loop_budget_allocation :: u64
  max_loop_budget_allocation :: u64
  isolation_budget_allocation :: u64
  nr_spins_before_idle :: u64
  upper_bound_ready_queue :: int
  upper_bound_fast_queue :: int

definition DEFAULT_CONFIG :: worker_config where
  "DEFAULT_CONFIG = \<lparr>netpoll_max = usize_max, scheduler_dequeue_max = 100, loop_budget_allocation = 1000000,
     max_loop_budget_allocation = 5000000, isolation_budget_allocation = 10000000, nr_spins_before_idle = 1000,
     upper_bound_ready_queue = 50000, upper_bound_fast_queue = 100000000\<rparr>"

text \<open>\<open>w_inbox\<close> is the shared queue the scheduler puts builders in, \<open>w_held\<close> belongs to the netpoller, \<open>w_done\<close> are the tasks that ended.\<close>

record 'b worker =
  w_config :: worker_config
  w_port :: worker_queue
  w_ready :: worker_queue
  w_sleep :: sleep_queue
  w_inbox :: "'b list"
  w_held :: "resumable list"
  w_done :: "nat list"
  w_alloc :: u64
  w_spins :: u64

definition worker_new :: "worker_config \<Rightarrow> 'b worker" where
  "worker_new c = \<lparr>w_config = c, w_port = [], w_ready = [], w_sleep = sq_new, w_inbox = [], w_held = [], w_done = [],
     w_alloc = loop_budget_allocation c, w_spins = 0\<rparr>"

datatype port_kind = Read | Write

datatype resume_result = Blocked_port port_kind | Blocked_sleep int | Reschedule | Done

record env =
  e_tsc :: u64
  e_tsc2 :: u64
  e_now :: int
  e_wait :: "nat \<Rightarrow> wait_result"
  e_ctl :: "port_kind \<Rightarrow> ctl_op \<Rightarrow> int \<times> int"
  e_result :: resume_result

definition block_resumable_on_sleep :: "int \<Rightarrow> resumable \<Rightarrow> int \<Rightarrow> 'b worker \<Rightarrow> 'b worker" where
  "block_resumable_on_sleep now r ns w =
     (if ns < upper_bound_ready_queue (w_config w) then w\<lparr>w_ready := wq_enqueue r (w_ready w)\<rparr>
      else w\<lparr>w_sleep := sq_enqueue (now + ns) r (w_sleep w)\<rparr>)"

text \<open>The visitor of \<^verbatim>\<open>_run_task_from_queue\<close>.\<close>

definition match_result :: "env \<Rightarrow> resumable \<Rightarrow> 'b worker \<Rightarrow> 'b worker option" where
  "match_result e r w =
     (case e_result e of
        Done \<Rightarrow> Some (w\<lparr>w_done := rs_id r # w_done w\<rparr>)
      | Reschedule \<Rightarrow> Some (w\<lparr>w_ready := wq_enqueue r (w_ready w)\<rparr>)
      | Blocked_sleep ns \<Rightarrow> Some (block_resumable_on_sleep (e_now e) r ns w)
      | Blocked_port k \<Rightarrow> map_option (\<lambda>h. w\<lparr>w_held := h\<rparr>) (await_ready (e_ctl e k) r (w_held w)))"

definition run_task_from_port :: "env \<Rightarrow> 'b worker \<Rightarrow> 'b worker option" where
  "run_task_from_port e w =
     (case wq_dequeue (w_port w) of (None, _) \<Rightarrow> None | (Some r, q) \<Rightarrow> match_result e r (w\<lparr>w_port := q\<rparr>))"

definition run_task_from_ready :: "env \<Rightarrow> 'b worker \<Rightarrow> 'b worker option" where
  "run_task_from_ready e w =
     (case wq_dequeue (w_ready w) of (None, _) \<Rightarrow> None | (Some r, q) \<Rightarrow> match_result e r (w\<lparr>w_ready := q\<rparr>))"

text \<open>The control points of \<^verbatim>\<open>run\<close>, with the budgets that are in scope there.\<close>

datatype pc =
    Central
  | Poll execution_budget
  | Ports execution_budget execution_budget
  | Readies execution_budget execution_budget
  | Round_end execution_budget execution_budget

text \<open>\<^verbatim>\<open>idle_worker\<close> parks the worker in a blocking poll for one event.\<close>

definition idle_worker :: "env \<Rightarrow> 'b worker \<Rightarrow> 'b worker option" where
  "idle_worker e w = map_option (\<lambda>(cnt, h, q). w\<lparr>w_held := h, w_port := q\<rparr>) (poll_into (e_wait e) 1 (w_held w) (w_port w))"

definition central_step :: "('b \<Rightarrow> resumable) \<Rightarrow> env \<Rightarrow> 'b worker \<Rightarrow> (pc \<times> 'b worker) option" where
  "central_step build e w =
     (let (cnt, inbox, ready) = shq_dequeue_into build (scheduler_dequeue_max (w_config w)) (w_inbox w) (w_ready w);
          w1 = w\<lparr>w_inbox := inbox, w_ready := ready\<rparr>;
          quiet = (cnt = 0 \<and> sq_is_empty (w_sleep w1));
          w2 = (if quiet then w1\<lparr>w_spins := w_spins w1 + 1\<rparr> else w1)
      in if quiet \<and> nr_spins_before_idle (w_config w2) < w_spins w2
         then map_option (\<lambda>w3. (Central, w3)) (idle_worker e (w2\<lparr>w_spins := 0\<rparr>))
         else Some (Poll (budget_new (isolation_budget_allocation (w_config w2)) 0 (e_tsc e)), w2))"

definition poll_step :: "env \<Rightarrow> execution_budget \<Rightarrow> 'b worker \<Rightarrow> (pc \<times> 'b worker) option" where
  "poll_step e isol w =
     (let (go, isol') = budget_adjust_spent (e_tsc e) isol
      in if \<not> go then Some (Central, w)
         else do {
           (cnt, held, port) \<leftarrow> poll_into (e_wait e) (netpoll_max (w_config w)) (w_held w) (w_port w);
           let (sleep, ready) = sq_dequeue_into (e_now e) (w_sleep w) (w_ready w);
               w1 = w\<lparr>w_held := held, w_port := port, w_sleep := sleep, w_ready := ready\<rparr>;
               w2 = (if \<not> wq_is_empty port \<or> \<not> wq_is_empty ready then w1\<lparr>w_spins := 0\<rparr> else w1)
           in Some (Ports isol' (budget_new (w_alloc w) 0 (e_tsc2 e)), w2) })"

definition ports_step :: "env \<Rightarrow> execution_budget \<Rightarrow> execution_budget \<Rightarrow> 'b worker \<Rightarrow> (pc \<times> 'b worker) option" where
  "ports_step e isol loop w =
     (if wq_is_empty (w_port w) then Some (Readies isol loop, w)
      else do {
        w1 \<leftarrow> run_task_from_port e (w\<lparr>w_spins := 0\<rparr>);
        let (go, loop') = budget_adjust_spent (e_tsc e) loop
        in Some (if go then Ports isol loop' else Poll isol, w1) })"

definition readies_step :: "env \<Rightarrow> execution_budget \<Rightarrow> execution_budget \<Rightarrow> 'b worker \<Rightarrow> (pc \<times> 'b worker) option" where
  "readies_step e isol loop w =
     (if wq_is_empty (w_ready w) then Some (Round_end isol loop, w)
      else do {
        w1 \<leftarrow> run_task_from_ready e w;
        let (go, loop') = budget_adjust_spent (e_tsc e) loop
        in Some (if go then Readies isol loop' else Poll isol, w1) })"

definition round_end_step :: "execution_budget \<Rightarrow> execution_budget \<Rightarrow> 'b worker \<Rightarrow> pc \<times> 'b worker" where
  "round_end_step isol loop w =
     (if \<not> budget_is_expended loop
      then (Central, w\<lparr>w_alloc := max (max_loop_budget_allocation (w_config w)) (w_alloc w + budget_remainder loop)\<rparr>)
      else (Poll isol, w\<lparr>w_alloc := loop_budget_allocation (w_config w)\<rparr>))"

fun worker_step :: "('b \<Rightarrow> resumable) \<Rightarrow> env \<Rightarrow> pc \<times> 'b worker \<Rightarrow> (pc \<times> 'b worker) option" where
  "worker_step build e (Central, w) = central_step build e w"
| "worker_step build e (Poll isol, w) = poll_step e isol w"
| "worker_step build e (Ports isol loop, w) = ports_step e isol loop w"
| "worker_step build e (Readies isol loop, w) = readies_step e isol loop w"
| "worker_step build e (Round_end isol loop, w) = Some (round_end_step isol loop w)"

text \<open>Between the steps the scheduler may enqueue builders.\<close>

datatype 'b worker_input = Step env | Enqueue 'b

fun worker_run :: "('b \<Rightarrow> resumable) \<Rightarrow> 'b worker_input list \<Rightarrow> pc \<times> 'b worker \<Rightarrow> (pc \<times> 'b worker) option" where
  "worker_run build [] c = Some c"
| "worker_run build (Enqueue b # is) (p, w) = worker_run build is (p, w\<lparr>w_inbox := shq_enqueue b (w_inbox w)\<rparr>)"
| "worker_run build (Step e # is) c = Option.bind (worker_step build e c) (worker_run build is)"

section \<open>No task is lost\<close>

definition worker_ids :: "('b \<Rightarrow> resumable) \<Rightarrow> 'b worker \<Rightarrow> nat multiset" where
  "worker_ids build w =
     image_mset rs_id (mset (w_port w @ w_ready w @ sq_queue (w_sleep w) @ w_held w @ map build (w_inbox w))) + mset (w_done w)"

text \<open>
  What the environment owes the worker. The kernel reports resumables that were registered with it and
  not reported since, and at most as many events as asked for; a wait fails only with \<^verbatim>\<open>EINTR\<close>; a file
  descriptor can be registered. Two sleepers do not ask for the same instant.
\<close>

definition wait_ok :: "resumable list \<Rightarrow> wait_result \<Rightarrow> bool" where
  "wait_ok held r = (case r of
     Wait_error e \<Rightarrow> e = EINTR
   | Wait_events es \<Rightarrow> mset (List.map_filter (\<lambda>v. case v of Wakeup_fd \<Rightarrow> None | Ready x \<Rightarrow> Some x) es) \<subseteq># mset held)"

definition env_ok :: "env \<Rightarrow> 'b worker \<Rightarrow> bool" where
  "env_ok e w \<longleftrightarrow> (\<forall>n. wait_ok (w_held w) (e_wait e n)) \<and> (\<forall>k. np_await (e_ctl e k) = Registered) \<and> e_now e < time_max \<and>
     (case e_result e of
        Blocked_sleep ns \<Rightarrow> e_now e + ns \<le> time_max \<and> e_now e + ns \<notin> rs_wakeup ` set (sq_queue (w_sleep w))
      | _ \<Rightarrow> True)"

text \<open>The answers the machine can rely on for the whole of its run.\<close>

fun inputs_ok :: "('b \<Rightarrow> resumable) \<Rightarrow> 'b worker_input list \<Rightarrow> pc \<times> 'b worker \<Rightarrow> bool" where
  "inputs_ok build [] c \<longleftrightarrow> True"
| "inputs_ok build (Enqueue b # is) (p, w) \<longleftrightarrow> inputs_ok build is (p, w\<lparr>w_inbox := shq_enqueue b (w_inbox w)\<rparr>)"
| "inputs_ok build (Step e # is) (p, w) \<longleftrightarrow> env_ok e w \<and>
     (case worker_step build e (p, w) of None \<Rightarrow> True | Some c \<Rightarrow> inputs_ok build is c)"

text \<open>
  The invariant of the loop: the sleep queue is in order, the allocation of a round is one of the two
  configured values and the one its budget was made with, and ready tasks run only when no port waits.
\<close>

definition pc_ok :: "pc \<Rightarrow> 'b worker \<Rightarrow> bool" where
  "pc_ok p w = (case p of
     Central \<Rightarrow> True
   | Poll isol \<Rightarrow> True
   | Ports isol loop \<Rightarrow> eb_allocated loop = w_alloc w
   | Readies isol loop \<Rightarrow> eb_allocated loop = w_alloc w \<and> w_port w = []
   | Round_end isol loop \<Rightarrow> eb_allocated loop = w_alloc w \<and> w_port w = [] \<and> w_ready w = [])"

definition worker_inv :: "pc \<times> 'b worker \<Rightarrow> bool" where
  "worker_inv c = (case c of (p, w) \<Rightarrow>
     sq_wf (w_sleep w) \<and> loop_budget_allocation (w_config w) \<le> max_loop_budget_allocation (w_config w) \<and>
     w_alloc w \<in> {loop_budget_allocation (w_config w), max_loop_budget_allocation (w_config w)} \<and> pc_ok p w)"

lemma deliver_events_mset:
  "mset (List.map_filter (\<lambda>v. case v of Wakeup_fd \<Rightarrow> None | Ready x \<Rightarrow> Some x) es) \<subseteq># mset held \<Longrightarrow>
     deliver_events es held q = (held', q') \<Longrightarrow> mset held' + mset q' = mset held + mset q"
proof (induction es held q rule: deliver_events.induct)
  case (3 r es held q)
  let ?rs = "mset (List.map_filter (\<lambda>v. case v of Wakeup_fd \<Rightarrow> None | Ready x \<Rightarrow> Some x) es)"
  have le: "add_mset r ?rs \<subseteq># mset held" using "3.prems"(1) by (simp add: List.map_filter_simps)
  then have r: "r \<in># mset held" by (meson insert_subset_eq_iff)
  have "?rs \<subseteq># mset (remove1 r held)" using le by (simp add: insert_subset_eq_iff)
  with "3.IH" "3.prems"(2) have "mset held' + mset q' = mset (remove1 r held) + mset (wq_enqueue r q)" by simp
  also have "\<dots> = add_mset r (mset held - {#r#}) + mset q" by (simp add: wq_enqueue_def)
  also have "add_mset r (mset held - {#r#}) = mset held" using r by (rule insert_DiffM)
  finally show ?case .
qed (auto simp: List.map_filter_simps)

lemma env_ok_wait: "env_ok e w \<Longrightarrow> \<forall>n. wait_ok (w_held w) (e_wait e n)"
  by (simp add: env_ok_def)

lemma poll_into_ok:
  assumes "\<forall>n. wait_ok held (wait n)"
  obtains cnt held' q' where "poll_into wait n held q = Some (cnt, held', q')" "mset held' + mset q' = mset held + mset q"
proof (cases "wait (min n MAX_EVENTS)")
  case (Wait_events es)
  obtain h q1 where d: "deliver_events es held q = (h, q1)" by force
  have "wait_ok held (Wait_events es)" using assms Wait_events by metis
  then have "mset h + mset q1 = mset held + mset q" using deliver_events_mset [OF _ d] by (simp add: wait_ok_def)
  then show ?thesis using that Wait_events d by (simp add: poll_into_def)
next
  case (Wait_error e)
  then have "wait_ok held (Wait_error e)" using assms by metis
  then show ?thesis using that Wait_error by (simp add: poll_into_def wait_ok_def)
qed

text \<open>The resumed task is filed in exactly one place.\<close>

lemma match_result_ok:
  assumes "env_ok e w" "sq_wf (w_sleep w)"
  obtains w' where "match_result e r w = Some w'" "worker_ids build w' = add_mset (rs_id r) (worker_ids build w)"
    "sq_wf (w_sleep w')" "w_port w' = w_port w" "w_config w' = w_config w" "w_alloc w' = w_alloc w"
proof (cases "e_result e")
  case (Blocked_port k)
  then show ?thesis using assms
    by (intro that [of "w\<lparr>w_held := w_held w @ [r]\<rparr>"]) (auto simp: match_result_def await_ready_def env_ok_def worker_ids_def)
next
  case (Blocked_sleep ns)
  let ?t = "e_now e + ns"
  have "mset (sq_queue (sq_enqueue ?t r (w_sleep w))) = add_mset (r\<lparr>rs_wakeup := ?t\<rparr>) (mset (sq_queue (w_sleep w)))"
    using assms(1) Blocked_sleep by (simp add: sq_enqueue_def Let_def set_insert_absent env_ok_def)
  moreover have "sq_wf (sq_enqueue ?t r (w_sleep w))"
    using assms Blocked_sleep by (intro sq_enqueue_wf) (auto simp: env_ok_def)
  ultimately show ?thesis using Blocked_sleep assms(2)
    by (intro that [of "block_resumable_on_sleep (e_now e) r ns w"]) (auto simp: match_result_def block_resumable_on_sleep_def worker_ids_def wq_enqueue_def)
next
  case Reschedule
  then show ?thesis using assms(2)
    by (intro that [of "w\<lparr>w_ready := wq_enqueue r (w_ready w)\<rparr>"]) (auto simp: match_result_def worker_ids_def wq_enqueue_def)
next
  case Done
  then show ?thesis using assms(2)
    by (intro that [of "w\<lparr>w_done := rs_id r # w_done w\<rparr>"]) (auto simp: match_result_def worker_ids_def)
qed

lemma run_port_ok:
  assumes "env_ok e w" "sq_wf (w_sleep w)" "w_port w \<noteq> []"
  obtains w' where "run_task_from_port e w = Some w'" "worker_ids build w' = worker_ids build w"
    "sq_wf (w_sleep w')" "w_config w' = w_config w" "w_alloc w' = w_alloc w"
proof -
  obtain r q where q: "w_port w = r # q" using assms(3) by (cases "w_port w") auto
  let ?w = "w\<lparr>w_port := q\<rparr>"
  have "env_ok e ?w" "sq_wf (w_sleep ?w)" using assms by (auto simp: env_ok_def split: resume_result.splits)
  then obtain w' where m: "match_result e r ?w = Some w'" "worker_ids build w' = add_mset (rs_id r) (worker_ids build ?w)"
      "sq_wf (w_sleep w')" "w_config w' = w_config w" "w_alloc w' = w_alloc w"
    by (rule match_result_ok [where build = build]) auto
  show ?thesis
    by (rule that [of w']) (use m q in \<open>auto simp: run_task_from_port_def worker_ids_def\<close>)
qed

lemma run_ready_ok:
  assumes "env_ok e w" "sq_wf (w_sleep w)" "w_ready w \<noteq> []"
  obtains w' where "run_task_from_ready e w = Some w'" "worker_ids build w' = worker_ids build w"
    "sq_wf (w_sleep w')" "w_port w' = w_port w" "w_config w' = w_config w" "w_alloc w' = w_alloc w"
proof -
  obtain r q where q: "w_ready w = r # q" using assms(3) by (cases "w_ready w") auto
  let ?w = "w\<lparr>w_ready := q\<rparr>"
  have "env_ok e ?w" "sq_wf (w_sleep ?w)" using assms by (auto simp: env_ok_def split: resume_result.splits)
  then obtain w' where m: "match_result e r ?w = Some w'" "worker_ids build w' = add_mset (rs_id r) (worker_ids build ?w)"
      "sq_wf (w_sleep w')" "w_port w' = w_port w" "w_config w' = w_config w" "w_alloc w' = w_alloc w"
    by (rule match_result_ok [where build = build]) auto
  show ?thesis
    by (rule that [of w']) (use m q in \<open>auto simp: run_task_from_ready_def worker_ids_def\<close>)
qed

text \<open>\<open>step_ok\<close>: a step is defined, keeps the invariant, and keeps the tasks.\<close>

definition step_ok :: "('b \<Rightarrow> resumable) \<Rightarrow> 'b worker \<Rightarrow> (pc \<times> 'b worker) option \<Rightarrow> bool" where
  "step_ok build w out = (case out of None \<Rightarrow> False | Some c \<Rightarrow> worker_inv c \<and> worker_ids build (snd c) = worker_ids build w)"

lemma central_step_ok:
  assumes "worker_inv (Central, w)" "env_ok e w"
  shows "step_ok build w (central_step build e w)"
proof -
  let ?n = "scheduler_dequeue_max (w_config w)"
  define w1 where "w1 = w\<lparr>w_inbox := drop ?n (w_inbox w), w_ready := w_ready w @ map build (take ?n (w_inbox w))\<rparr>"
  have "map build (w_inbox w) = map build (take ?n (w_inbox w)) @ map build (drop ?n (w_inbox w))"
    by (simp flip: map_append)
  then have ids: "worker_ids build w1 = worker_ids build w" by (simp add: worker_ids_def w1_def)
  obtain cnt h q where p: "poll_into (e_wait e) 1 (w_held w) (w_port w) = Some (cnt, h, q)"
      "mset h + mset q = mset (w_held w) + mset (w_port w)"
    by (rule poll_into_ok [OF env_ok_wait [OF assms(2)]])
  have "image_mset rs_id (mset h) + image_mset rs_id (mset q) = image_mset rs_id (mset (w_held w)) + image_mset rs_id (mset (w_port w))"
    using p(2) by (simp flip: image_mset_union)
  then have pids: "worker_ids build (w1\<lparr>w_spins := 0, w_held := h, w_port := q\<rparr>) = worker_ids build w1"
    by (simp add: worker_ids_def w1_def ac_simps)
  have inv: "worker_inv (pc.Central, w1\<lparr>w_spins := 0, w_held := h, w_port := q\<rparr>)"
      "\<And>b n. worker_inv (Poll b, w1\<lparr>w_spins := n\<rparr>)" "\<And>b. worker_inv (Poll b, w1)"
    using assms(1) by (auto simp: worker_inv_def pc_ok_def w1_def)
  define quiet where "quiet \<longleftrightarrow> min ?n (length (w_inbox w)) = 0 \<and> sq_is_empty (w_sleep w1)"
  define w2 where "w2 = (if quiet then w1\<lparr>w_spins := w_spins w1 + 1\<rparr> else w1)"
  have c: "central_step build e w =
     (if quiet \<and> nr_spins_before_idle (w_config w2) < w_spins w2
      then map_option (\<lambda>w3. (Central, w3)) (idle_worker e (w2\<lparr>w_spins := 0\<rparr>))
      else Some (Poll (budget_new (isolation_budget_allocation (w_config w2)) 0 (e_tsc e)), w2))"
    by (simp only: central_step_def shq_dequeue_into_spec Let_def prod.case quiet_def w2_def w1_def)
  have "idle_worker e (w2\<lparr>w_spins := 0\<rparr>) = Some (w1\<lparr>w_spins := 0, w_held := h, w_port := q\<rparr>)"
    using p(1) by (simp add: idle_worker_def w2_def w1_def)
  moreover have "worker_ids build w2 = worker_ids build w1" "\<And>b. worker_inv (Poll b, w2)"
    using inv by (auto simp: w2_def worker_ids_def)
  ultimately show ?thesis using ids pids inv unfolding c step_ok_def by simp
qed

lemma sleepers_moved:
  assumes "sq_wf s" "cutoff < time_max" "sq_dequeue_into cutoff s q = (s', q')"
  shows "image_mset rs_id (mset (sq_queue s')) + image_mset rs_id (mset q') = image_mset rs_id (mset (sq_queue s)) + image_mset rs_id (mset q)"
    and "sq_wf s'"
proof -
  let ?due = "\<lambda>x. rs_wakeup x \<le> cutoff"
  have e: "sq_queue s' = filter (\<lambda>x. cutoff < rs_wakeup x) (sq_queue s)"
      "q' = q @ map (\<lambda>x. x\<lparr>rs_wakeup := time_max\<rparr>) (filter ?due (sq_queue s))"
    using assms sq_dequeue_into_spec [OF assms(1,2), of q] by (auto simp: Let_def)
  let ?Q = "mset (sq_queue s)"
  have "image_mset rs_id ?Q = image_mset rs_id (filter_mset ?due ?Q) + image_mset rs_id (filter_mset (\<lambda>x. cutoff < rs_wakeup x) ?Q)"
    by (subst multiset_partition [of ?Q ?due]) (simp only: image_mset_union not_le)
  then show "image_mset rs_id (mset (sq_queue s')) + image_mset rs_id (mset q') = image_mset rs_id ?Q + image_mset rs_id (mset q)"
    by (simp add: e multiset.map_comp comp_def ac_simps)
  show "sq_wf s'" using sq_dequeue_into_wf [OF assms(1,2), of q] assms(3) by simp
qed

lemma poll_step_ok:
  assumes "worker_inv (Poll isol, w)" "env_ok e w"
  shows "step_ok build w (poll_step e isol w)"
proof -
  obtain go isol' where b: "budget_adjust_spent (e_tsc e) isol = (go, isol')" by force
  obtain cnt h q where p: "poll_into (e_wait e) (netpoll_max (w_config w)) (w_held w) (w_port w) = Some (cnt, h, q)"
      "mset h + mset q = mset (w_held w) + mset (w_port w)"
    by (rule poll_into_ok [OF env_ok_wait [OF assms(2)]])
  obtain s r where d: "sq_dequeue_into (e_now e) (w_sleep w) (w_ready w) = (s, r)" by force
  have wf: "sq_wf (w_sleep w)" "e_now e < time_max" using assms by (auto simp: worker_inv_def env_ok_def)
  note moved = sleepers_moved [OF wf d]
  have "image_mset rs_id (mset h) + image_mset rs_id (mset q) = image_mset rs_id (mset (w_held w)) + image_mset rs_id (mset (w_port w))"
    using p(2) by (simp flip: image_mset_union)
  with moved(1) have ids: "worker_ids build (w\<lparr>w_held := h, w_port := q, w_sleep := s, w_ready := r\<rparr>) = worker_ids build w"
    by (simp add: worker_ids_def ac_simps)
  show ?thesis
  proof (cases go)
    case False
    then show ?thesis using b assms(1) by (simp add: poll_step_def step_ok_def worker_inv_def pc_ok_def)
  next
    case True
    then show ?thesis using b p(1) d ids moved(2) assms(1)
      by (auto simp: poll_step_def step_ok_def worker_inv_def pc_ok_def budget_new_def worker_ids_def Let_def)
  qed
qed

lemma ports_step_ok:
  assumes "worker_inv (Ports isol loop, w)" "env_ok e w"
  shows "step_ok build w (ports_step e isol loop w)"
proof (cases "w_port w = []")
  case True
  then show ?thesis using assms(1) by (simp add: ports_step_def wq_is_empty_def step_ok_def worker_inv_def pc_ok_def)
next
  case False
  have ok: "env_ok e (w\<lparr>w_spins := 0\<rparr>)" "sq_wf (w_sleep (w\<lparr>w_spins := 0\<rparr>))" "w_port (w\<lparr>w_spins := 0\<rparr>) \<noteq> []"
    using assms False by (auto simp: env_ok_def worker_inv_def split: resume_result.splits)
  obtain w' where w': "run_task_from_port e (w\<lparr>w_spins := 0\<rparr>) = Some w'" "worker_ids build w' = worker_ids build (w\<lparr>w_spins := 0\<rparr>)"
      "sq_wf (w_sleep w')" "w_config w' = w_config (w\<lparr>w_spins := 0\<rparr>)" "w_alloc w' = w_alloc (w\<lparr>w_spins := 0\<rparr>)"
    by (rule run_port_ok [OF ok])
  then show ?thesis using assms(1) False
    by (auto simp: ports_step_def wq_is_empty_def step_ok_def worker_inv_def pc_ok_def budget_adjust_spent_def Let_def worker_ids_def)
qed

lemma readies_step_ok:
  assumes "worker_inv (Readies isol loop, w)" "env_ok e w"
  shows "step_ok build w (readies_step e isol loop w)"
proof (cases "w_ready w = []")
  case True
  then show ?thesis using assms(1) by (simp add: readies_step_def wq_is_empty_def step_ok_def worker_inv_def pc_ok_def)
next
  case False
  have "sq_wf (w_sleep w)" using assms by (simp add: worker_inv_def)
  then obtain w' where "run_task_from_ready e w = Some w'" "worker_ids build w' = worker_ids build w"
      "sq_wf (w_sleep w')" "w_port w' = w_port w" "w_config w' = w_config w" "w_alloc w' = w_alloc w"
    by (rule run_ready_ok [OF assms(2) _ False])
  then show ?thesis using assms(1) False
    by (auto simp: readies_step_def wq_is_empty_def step_ok_def worker_inv_def pc_ok_def budget_adjust_spent_def Let_def)
qed

text \<open>A round that leaves budget over makes the next allocation the configured maximum, however much was left.\<close>

lemma round_end_alloc:
  assumes "worker_inv (Round_end isol loop, w)"
  shows "w_alloc (snd (round_end_step isol loop w)) =
    (if budget_is_expended loop then loop_budget_allocation (w_config w) else max_loop_budget_allocation (w_config w))"
proof (cases "budget_is_expended loop")
  case False
  let ?m = "max_loop_budget_allocation (w_config w)"
  have a: "eb_allocated loop = w_alloc w" "w_alloc w \<le> ?m" using assms by (auto simp: worker_inv_def pc_ok_def)
  then have "w_alloc w + budget_remainder loop = budget_spent loop"
    using remainder_plus_allocated [of loop] by simp
  moreover have "budget_spent loop < ?m" using False a by (simp add: budget_is_expended_def not_le)
  ultimately show ?thesis using False by (simp add: round_end_step_def max_absorb1 less_imp_le)
qed (simp add: round_end_step_def)

lemma round_end_step_ok:
  assumes "worker_inv (Round_end isol loop, w)"
  shows "step_ok build w (Some (round_end_step isol loop w))"
  using round_end_alloc [OF assms] assms
  by (auto simp: step_ok_def round_end_step_def worker_inv_def pc_ok_def worker_ids_def)

lemma worker_step_ok:
  assumes "worker_inv (p, w)" "env_ok e w"
  shows "step_ok build w (worker_step build e (p, w))"
  using assms by (cases p) (auto intro: central_step_ok poll_step_ok ports_step_ok readies_step_ok round_end_step_ok)

text \<open>The builders that arrive during a run.\<close>

fun arrivals :: "('b \<Rightarrow> resumable) \<Rightarrow> 'b worker_input list \<Rightarrow> nat multiset" where
  "arrivals build [] = {#}"
| "arrivals build (Enqueue b # is) = add_mset (rs_id (build b)) (arrivals build is)"
| "arrivals build (Step e # is) = arrivals build is"

lemma worker_run_ok:
  "worker_inv (p, w) \<Longrightarrow> inputs_ok build is (p, w) \<Longrightarrow>
     \<exists>p' w'. worker_run build is (p, w) = Some (p', w') \<and> worker_inv (p', w') \<and>
       worker_ids build w' = worker_ids build w + arrivals build is"
proof (induction "is" arbitrary: p w)
  case (Cons i "is")
  show ?case
  proof (cases i)
    case (Enqueue b)
    have "worker_inv (p, w\<lparr>w_inbox := shq_enqueue b (w_inbox w)\<rparr>)"
      using Cons.prems(1) by (cases p) (auto simp: worker_inv_def pc_ok_def)
    then show ?thesis using Cons.IH [of p "w\<lparr>w_inbox := shq_enqueue b (w_inbox w)\<rparr>"] Cons.prems(2) Enqueue
      by (auto simp: worker_ids_def shq_enqueue_def)
  next
    case (Step e)
    then have "step_ok build w (worker_step build e (p, w))" using Cons.prems by (intro worker_step_ok) auto
    then obtain p1 w1 where s: "worker_step build e (p, w) = Some (p1, w1)" "worker_inv (p1, w1)" "worker_ids build w1 = worker_ids build w"
      by (auto simp: step_ok_def split: option.splits)
    then show ?thesis using Cons.IH [of p1 w1] Cons.prems(2) Step by auto
  qed
qed simp

lemma worker_new_inv:
  "loop_budget_allocation c \<le> max_loop_budget_allocation c \<Longrightarrow> worker_inv (Central, worker_new c)"
  by (simp add: worker_inv_def worker_new_def pc_ok_def)

end
