(* ===== verification/Worker_Policy.thy ===== *)
theory Worker_Policy
  imports Run_Queues
begin

text \<open>
  The first worker of the repository: \<^verbatim>\<open>xi/core/policy/worker_isolation.h\<close> (the queues of a worker and the
  choice of the next task), \<^verbatim>\<open>xi/core/worker.h\<close> (its loop) and the scheduling part of
  \<^verbatim>\<open>src/src/core/resumable.cpp\<close>.

  The clock and what arrives from other threads are inputs. A task in the ready queue or in the sleep
  queue is linked there by its hook, so it is in each of them at most once. A failed assertion is \<open>None\<close>.
\<close>

section \<open>The queues of a worker\<close>

record worker_data =
  wd_ready :: "resumable list"
  wd_sleep :: "resumable list"
  wd_external :: "resumable list"
  wd_next_wakeup :: int
  wd_tasks_ready :: u64
  wd_max_tasks_ready :: u64

definition worker_data_new :: worker_data where
  "worker_data_new = \<lparr>wd_ready = [], wd_sleep = [], wd_external = [], wd_next_wakeup = time_max, wd_tasks_ready = 0,
     wd_max_tasks_ready = 0\<rparr>"

abbreviation same_task :: "resumable \<Rightarrow> resumable \<Rightarrow> bool" where
  "same_task r x \<equiv> rs_id x = rs_id r"

definition unlink :: "resumable \<Rightarrow> resumable list \<Rightarrow> resumable list" where
  "unlink r q = filter (\<lambda>x. \<not> same_task r x) q"

definition is_linked :: "resumable \<Rightarrow> resumable list \<Rightarrow> bool" where
  "is_linked r q \<longleftrightarrow> list_ex (same_task r) q"

definition push_internally :: "resumable \<Rightarrow> worker_data \<Rightarrow> worker_data" where
  "push_internally r d =
     (let tr = wd_tasks_ready d + 1
      in d\<lparr>wd_tasks_ready := tr, wd_max_tasks_ready := (if wd_max_tasks_ready d < tr then tr else wd_max_tasks_ready d),
           wd_ready := wd_ready d @ [r]\<rparr>)"

definition push_externally :: "resumable \<Rightarrow> worker_data \<Rightarrow> worker_data" where
  "push_externally r d = d\<lparr>wd_external := wd_external d @ [r]\<rparr>"

definition policy_sleep_for :: "int \<Rightarrow> resumable \<Rightarrow> int \<Rightarrow> worker_data \<Rightarrow> worker_data option" where
  "policy_sleep_for now r ns d =
     (let wakeup_time = now + ns;
          d1 = d\<lparr>wd_ready := unlink r (wd_ready d)\<rparr>;
          d2 = d1\<lparr>wd_sleep := set_insert (r\<lparr>rs_wakeup := wakeup_time\<rparr>) (wd_sleep d1)\<rparr>;
          d3 = (if wd_next_wakeup d2 > wakeup_time then d2\<lparr>wd_next_wakeup := wakeup_time\<rparr> else d2)
      in if is_linked r (wd_sleep d3) \<and> \<not> is_linked r (wd_ready d3) then Some d3 else None)"

definition drain_external_queue :: "worker_data \<Rightarrow> worker_data" where
  "drain_external_queue d = fold push_internally (wd_external d) (d\<lparr>wd_external := []\<rparr>)"

text \<open>\<open>drain_due\<close> is the loop over the sleep queue; \<^verbatim>\<open>100us\<close> are added to the current time.\<close>

fun drain_due :: "int \<Rightarrow> resumable list \<Rightarrow> worker_data \<Rightarrow> worker_data" where
  "drain_due now [] d = d\<lparr>wd_sleep := [], wd_next_wakeup := time_max\<rparr>"
| "drain_due now (x # xs) d =
     (if rs_wakeup x \<le> now then drain_due now xs (push_internally x d)
      else d\<lparr>wd_sleep := x # xs, wd_next_wakeup := rs_wakeup x\<rparr>)"

definition drain_sleep_queue :: "int \<Rightarrow> worker_data \<Rightarrow> worker_data" where
  "drain_sleep_queue clock d =
     (let now = clock + 100000 in if wd_next_wakeup d \<le> now then drain_due now (wd_sleep d) d else d)"

text \<open>How long the reactor may block.\<close>

definition poll_timeout :: "int \<Rightarrow> worker_data \<Rightarrow> int" where
  "poll_timeout clock d = (if wd_ready d = [] then wd_next_wakeup d - clock else 0)"

text \<open>
  One turn of the loop of \<^verbatim>\<open>pop\<close>; polling the reactor runs its handlers, which push the tasks \<open>woken\<close>.
\<close>

definition pop_turn :: "int \<Rightarrow> resumable list \<Rightarrow> worker_data \<Rightarrow> resumable option \<times> worker_data" where
  "pop_turn clock woken d =
     (let d1 = drain_sleep_queue clock (drain_external_queue d);
          d2 = fold push_internally woken d1
      in case wd_ready d2 of
           [] \<Rightarrow> (None, d2)
         | r # rest \<Rightarrow> (Some r, d2\<lparr>wd_ready := rest, wd_tasks_ready := wd_tasks_ready d2 - 1\<rparr>))"

section \<open>The loop of a worker\<close>

datatype resume_answer = Blocked | Resume_later | Finished

text \<open>What is done with a task after it ran: \<^verbatim>\<open>done\<close> destroys it, \<^verbatim>\<open>blocked\<close> leaves it to whoever unblocks it.\<close>

definition after_resume :: "resume_answer \<Rightarrow> resumable \<Rightarrow> worker_data \<Rightarrow> worker_data" where
  "after_resume a r d = (case a of Finished \<Rightarrow> d | Blocked \<Rightarrow> d | Resume_later \<Rightarrow> push_internally r d)"

definition worker_schedule :: "bool \<Rightarrow> resumable \<Rightarrow> worker_data \<Rightarrow> worker_data" where
  "worker_schedule local r d = (if local then push_internally r d else push_externally r d)"

text \<open>\<^verbatim>\<open>resumable::unblock\<close> unlinks both hooks and schedules; \<^verbatim>\<open>resumable::sleep_for\<close> likewise before it blocks.\<close>

definition unblock :: "bool \<Rightarrow> resumable \<Rightarrow> worker_data \<Rightarrow> worker_data" where
  "unblock local r d = worker_schedule local r (d\<lparr>wd_sleep := unlink r (wd_sleep d), wd_ready := unlink r (wd_ready d)\<rparr>)"

definition resumable_sleep_for :: "int \<Rightarrow> resumable \<Rightarrow> int \<Rightarrow> worker_data \<Rightarrow> worker_data option" where
  "resumable_sleep_for now r ns d = policy_sleep_for now r ns (d\<lparr>wd_ready := unlink r (wd_ready d)\<rparr>)"

section \<open>Choosing a worker\<close>

definition next_worker :: "nat \<Rightarrow> u64 \<Rightarrow> nat option \<times> u64" where
  "next_worker n cnt = (if n = 0 then (None, cnt) else (Some (unat cnt mod n), cnt + 1))"

definition central_schedule :: "resumable \<Rightarrow> worker_data list \<Rightarrow> u64 \<Rightarrow> (worker_data list \<times> u64) option" where
  "central_schedule r ws cnt =
     (case next_worker (length ws) cnt of
        (None, _) \<Rightarrow> None
      | (Some i, cnt') \<Rightarrow> Some (ws[i := push_externally r (ws ! i)], cnt'))"

section \<open>What a turn does\<close>

definition sleep_wf :: "worker_data \<Rightarrow> bool" where
  "sleep_wf d \<longleftrightarrow> sorted_wrt (\<lambda>x y. rs_wakeup x < rs_wakeup y) (wd_sleep d) \<and>
     (\<forall>x\<in>set (wd_sleep d). wd_next_wakeup d \<le> rs_wakeup x)"

lemma fold_push:
  "wd_ready (fold push_internally rs d) = wd_ready d @ rs \<and> wd_sleep (fold push_internally rs d) = wd_sleep d \<and>
   wd_external (fold push_internally rs d) = wd_external d \<and> wd_next_wakeup (fold push_internally rs d) = wd_next_wakeup d \<and>
   wd_tasks_ready (fold push_internally rs d) = wd_tasks_ready d + of_nat (length rs)"
  by (induction rs arbitrary: d) (auto simp: push_internally_def Let_def)

lemma drain_due_spec:
  "sorted_wrt (\<lambda>x y. rs_wakeup x < rs_wakeup y) xs \<Longrightarrow>
     wd_ready (drain_due now xs d) = wd_ready d @ filter (\<lambda>x. rs_wakeup x \<le> now) xs \<and>
     wd_sleep (drain_due now xs d) = filter (\<lambda>x. now < rs_wakeup x) xs \<and> wd_external (drain_due now xs d) = wd_external d \<and>
     wd_next_wakeup (drain_due now xs d) = (case filter (\<lambda>x. now < rs_wakeup x) xs of [] \<Rightarrow> time_max | x # _ \<Rightarrow> rs_wakeup x)"
proof (induction xs arbitrary: d)
  case (Cons x xs)
  show ?case
  proof (cases "rs_wakeup x \<le> now")
    case True
    then show ?thesis using Cons by (auto simp: push_internally_def Let_def)
  next
    case False
    then have "filter (\<lambda>x. now < rs_wakeup x) xs = xs" "filter (\<lambda>x. rs_wakeup x \<le> now) xs = []"
      using Cons.prems by (force simp: filter_id_conv filter_empty_conv)+
    then show ?thesis using False by simp
  qed
qed simp

lemma drain_sleep_queue_spec:
  assumes "sleep_wf d"
  shows "wd_ready (drain_sleep_queue clock d) = wd_ready d @ filter (\<lambda>x. rs_wakeup x \<le> clock + 100000) (wd_sleep d)"
    and "wd_sleep (drain_sleep_queue clock d) = filter (\<lambda>x. clock + 100000 < rs_wakeup x) (wd_sleep d)"
    and "wd_external (drain_sleep_queue clock d) = wd_external d"
    and "sleep_wf (drain_sleep_queue clock d)"
proof -
  let ?now = "clock + 100000"
  have srt: "sorted_wrt (\<lambda>x y. rs_wakeup x < rs_wakeup y) (wd_sleep d)" using assms by (simp add: sleep_wf_def)
  have all: "wd_ready (drain_sleep_queue clock d) = wd_ready d @ filter (\<lambda>x. rs_wakeup x \<le> ?now) (wd_sleep d) \<and>
     wd_sleep (drain_sleep_queue clock d) = filter (\<lambda>x. ?now < rs_wakeup x) (wd_sleep d) \<and>
     wd_external (drain_sleep_queue clock d) = wd_external d \<and> sleep_wf (drain_sleep_queue clock d)"
  proof (cases "wd_next_wakeup d \<le> ?now")
    case True
    let ?rest = "filter (\<lambda>x. ?now < rs_wakeup x) (wd_sleep d)"
    have "sorted_wrt (\<lambda>x y. rs_wakeup x < rs_wakeup y) ?rest" using srt by (rule sorted_wrt_filter)
    moreover from this have "\<forall>x\<in>set ?rest. (case ?rest of [] \<Rightarrow> time_max | y # _ \<Rightarrow> rs_wakeup y) \<le> rs_wakeup x"
      by (cases ?rest) auto
    ultimately show ?thesis using True drain_due_spec [OF srt, of ?now d]
      unfolding drain_sleep_queue_def sleep_wf_def Let_def by simp
  next
    case False
    then have "\<forall>x\<in>set (wd_sleep d). ?now < rs_wakeup x" using assms by (force simp: sleep_wf_def)
    then have "filter (\<lambda>x. ?now < rs_wakeup x) (wd_sleep d) = wd_sleep d" "filter (\<lambda>x. rs_wakeup x \<le> ?now) (wd_sleep d) = []"
      by (auto simp: filter_id_conv filter_empty_conv)
    then show ?thesis using False assms by (simp add: drain_sleep_queue_def Let_def)
  qed
  then show "wd_ready (drain_sleep_queue clock d) = wd_ready d @ filter (\<lambda>x. rs_wakeup x \<le> ?now) (wd_sleep d)"
    "wd_sleep (drain_sleep_queue clock d) = filter (\<lambda>x. ?now < rs_wakeup x) (wd_sleep d)"
    "wd_external (drain_sleep_queue clock d) = wd_external d" "sleep_wf (drain_sleep_queue clock d)"
    by auto
qed

lemma unlink_not_linked [simp]: "\<not> is_linked r (unlink r q)"
  by (auto simp: is_linked_def unlink_def list_ex_iff)

lemma set_insert_linked: "rs_wakeup r \<notin> rs_wakeup ` set xs \<Longrightarrow> r \<in> set (set_insert r xs)"
  by (metis set_insert_absent set_mset_mset union_single_eq_member add_mset_add_single add.commute)

text \<open>Going to sleep succeeds when nobody else sleeps until the same instant, and fails its assertion otherwise.\<close>

lemma policy_sleep_ok:
  assumes "sleep_wf d" "now + ns \<notin> rs_wakeup ` set (wd_sleep d)"
  shows "\<exists>d'. policy_sleep_for now r ns d = Some d' \<and> sleep_wf d' \<and> r\<lparr>rs_wakeup := now + ns\<rparr> \<in> set (wd_sleep d') \<and>
     wd_ready d' = unlink r (wd_ready d)"
proof -
  let ?r = "r\<lparr>rs_wakeup := now + ns\<rparr>"
  have m: "?r \<in> set (set_insert ?r (wd_sleep d))" using assms(2) by (intro set_insert_linked) simp
  then have "is_linked r (set_insert ?r (wd_sleep d))" unfolding is_linked_def list_ex_iff by (intro bexI [of _ ?r]) simp_all
  moreover have "\<forall>x\<in>set (set_insert ?r (wd_sleep d)). min (wd_next_wakeup d) (now + ns) \<le> rs_wakeup x"
    using set_insert_set [of ?r "wd_sleep d"] assms(1) by (force simp: sleep_wf_def)
  moreover have "sorted_wrt (\<lambda>x y. rs_wakeup x < rs_wakeup y) (set_insert ?r (wd_sleep d))"
    using assms(1) by (simp add: sleep_wf_def set_insert_sorted)
  ultimately show ?thesis using assms(1) m
    by (auto simp: policy_sleep_for_def Let_def sleep_wf_def min_def split: if_splits)
qed

lemma policy_sleep_clash:
  assumes "sleep_wf d" "now + ns \<in> rs_wakeup ` set (wd_sleep d)" "\<not> is_linked r (wd_sleep d)"
  shows "policy_sleep_for now r ns d = None"
  using assms by (auto simp: policy_sleep_for_def Let_def sleep_wf_def set_insert_present)

end
