(* ===== verification/Scheduler.thy ===== *)
theory Scheduler
  imports Xi_Prelude "HOL-Library.Multiset"
begin

text \<open>
  \<^verbatim>\<open>xi/core/scheduler.h\<close>: the parking of idle workers and the choice of a worker for a new job. The
  threads interleave: each worker goes through \<^verbatim>\<open>_park\<close> one shared access at a time, and the thread that
  enqueues goes through \<^verbatim>\<open>central_enqueue\<close> likewise. An event names the access that happens next;
  a failed assertion, or an event that is not the next access of its thread, is \<open>None\<close>.

  The wake-up descriptor of a netpoller is the counter \<^verbatim>\<open>eventfd\<close> keeps; a blocking poll returns when it
  is positive or when a port is ready.
\<close>

datatype worker_state = RUNNING | PARKED_NETPOLL | PARKED_THREAD | SPINNING

text \<open>Where a worker's thread is: working, or between two accesses of \<^verbatim>\<open>_park\<close>.\<close>

datatype park_pos = Working | Marked | Polling | Polled | Restored

record 'b control_block =
  cb_input :: "'b list"
  cb_state :: worker_state
  cb_wakeups :: nat
  cb_pos :: park_pos

datatype 'b enqueue_pos = Idle | Chosen 'b nat | Queued nat

record 'b sched =
  sc_workers :: "'b control_block list"
  sc_parked :: u64
  sc_active :: u64
  sc_round_robin :: u64
  sc_enqueue :: "'b enqueue_pos"
  sc_taken :: "'b list"

definition worker_bit :: "nat \<Rightarrow> u64" where
  "worker_bit idx = push_bit idx 1"

section \<open>Starting\<close>

text \<open>The slot of \<^verbatim>\<open>_workers\<close> the thread for each \<^verbatim>\<open>cpu\<close> writes: \<^verbatim>\<open>cpu\<close> runs from 0, \<^verbatim>\<open>idx = cpu - core_start\<close>.\<close>

definition start_slots :: "nat \<Rightarrow> nat \<Rightarrow> int list" where
  "start_slots core_start core_end = map (\<lambda>cpu. int cpu - int core_start) [0..<core_end - core_start]"

definition block_new :: "'b control_block" where
  "block_new = \<lparr>cb_input = [], cb_state = RUNNING, cb_wakeups = 0, cb_pos = Working\<rparr>"

definition scheduler_start :: "nat \<Rightarrow> nat \<Rightarrow> 'b sched option" where
  "scheduler_start core_start core_end =
     (if core_end < core_start then None
      else let cores = core_end - core_start; slots = start_slots core_start core_end
           in if \<forall>i\<in>set slots. 0 \<le> i \<and> i < int cores
              then Some \<lparr>sc_workers = replicate cores block_new, sc_parked = 0,
                         sc_active = fold (\<lambda>i m. m OR worker_bit (nat i)) slots 0,
                         sc_round_robin = 0, sc_enqueue = Idle, sc_taken = []\<rparr>
              else None)"

section \<open>Choosing a worker\<close>

text \<open>
  One turn of the loop of \<^verbatim>\<open>_first_parked_worker\<close>: \<open>seen\<close> is the mask it loaded, \<open>now\<close> the mask its
  \<^verbatim>\<open>fetch_and\<close> finds. The bit is cleared in any case; if the mask has changed in between, the loop goes on.
\<close>

datatype parked_turn = No_parked | Lost_race | Picked nat

definition first_parked_turn :: "u64 \<Rightarrow> u64 \<Rightarrow> parked_turn \<times> u64" where
  "first_parked_turn seen now =
     (case count_trailing_zeroes seen of
        None \<Rightarrow> (No_parked, now)
      | Some idx \<Rightarrow> (if seen = now then Picked idx else Lost_race, now AND NOT (worker_bit idx)))"

definition least_loaded_worker :: "'b sched \<Rightarrow> (nat \<times> 'b sched) option" where
  "least_loaded_worker s =
     (if sc_workers s = [] then None
      else Some (unat (sc_round_robin s) mod length (sc_workers s), s\<lparr>sc_round_robin := sc_round_robin s + 1\<rparr>))"

definition first_parked_worker :: "'b sched \<Rightarrow> (nat option \<times> 'b sched) option" where
  "first_parked_worker s =
     (case first_parked_turn (sc_parked s) (sc_parked s) of
        (Picked idx, m) \<Rightarrow> if idx < length (sc_workers s) then Some (Some idx, s\<lparr>sc_parked := m\<rparr>) else None
      | _ \<Rightarrow> Some (None, s))"

definition worker_for_job :: "'b sched \<Rightarrow> (nat \<times> 'b sched) option" where
  "worker_for_job s =
     (if sc_workers s = [] then None
      else do {
        (p, s1) \<leftarrow> first_parked_worker s;
        case p of Some idx \<Rightarrow> Some (idx, s1) | None \<Rightarrow> least_loaded_worker s1 })"

section \<open>The accesses\<close>

text \<open>
  \<open>Mark\<close> is \<^verbatim>\<open>_parked_workers.fetch_or\<close>, \<open>Set_parked\<close> the assignment of \<^verbatim>\<open>PARKED_NETPOLL\<close>, after which the
  poll blocks; it returns by \<open>Wake\<close> or by \<open>Port_ready\<close>; \<open>Set_running\<close> and \<open>Unmark\<close> are the assignment of
  \<^verbatim>\<open>RUNNING\<close> and \<^verbatim>\<open>_parked_workers.fetch_and\<close>. \<open>Drain\<close> is a worker that takes builders from its queue.
  The enqueuing thread does \<open>Choose\<close> (\<^verbatim>\<open>_worker_for_job\<close>), \<open>Put\<close> (\<^verbatim>\<open>input_queue->enqueue\<close>) and \<open>Check\<close>
  (the test of \<^verbatim>\<open>state\<close>, and \<^verbatim>\<open>unblock_one\<close>).
\<close>

datatype 'b sched_event =
    Mark nat | Set_parked nat | Wake nat | Port_ready nat | Set_running nat | Unmark nat | Drain nat nat
  | Choose 'b | Put | Check

definition at_pos :: "nat \<Rightarrow> park_pos \<Rightarrow> 'b sched \<Rightarrow> bool" where
  "at_pos i p s \<longleftrightarrow> i < length (sc_workers s) \<and> cb_pos (sc_workers s ! i) = p"

definition upd :: "nat \<Rightarrow> ('b control_block \<Rightarrow> 'b control_block) \<Rightarrow> 'b sched \<Rightarrow> 'b sched" where
  "upd i f s = s\<lparr>sc_workers := (sc_workers s)[i := f (sc_workers s ! i)]\<rparr>"

text \<open>The accesses of \<^verbatim>\<open>_park\<close>.\<close>

definition park_mark :: "nat \<Rightarrow> 'b sched \<Rightarrow> 'b sched" where
  [simp]: "park_mark i s = upd i (\<lambda>c. c\<lparr>cb_pos := Marked\<rparr>) (s\<lparr>sc_parked := sc_parked s OR worker_bit i\<rparr>)"

definition park_block :: "nat \<Rightarrow> 'b sched \<Rightarrow> 'b sched" where
  [simp]: "park_block i s = upd i (\<lambda>c. c\<lparr>cb_state := PARKED_NETPOLL, cb_pos := Polling\<rparr>) s"

definition park_restore :: "nat \<Rightarrow> 'b sched \<Rightarrow> 'b sched" where
  [simp]: "park_restore i s = upd i (\<lambda>c. c\<lparr>cb_state := RUNNING, cb_pos := Restored\<rparr>) s"

definition park_unmark :: "nat \<Rightarrow> 'b sched \<Rightarrow> 'b sched" where
  [simp]: "park_unmark i s = upd i (\<lambda>c. c\<lparr>cb_pos := Working\<rparr>) (s\<lparr>sc_parked := sc_parked s AND NOT (worker_bit i)\<rparr>)"

text \<open>The accesses of \<^verbatim>\<open>central_enqueue\<close>.\<close>

definition central_choose :: "'b \<Rightarrow> 'b sched \<Rightarrow> 'b sched option" where
  [simp]: "central_choose b s = map_option (\<lambda>(idx, s'). s'\<lparr>sc_enqueue := Chosen b idx\<rparr>) (worker_for_job s)"

definition central_put :: "'b \<Rightarrow> nat \<Rightarrow> 'b sched \<Rightarrow> 'b sched" where
  [simp]: "central_put b idx s = upd idx (\<lambda>c. c\<lparr>cb_input := cb_input c @ [b]\<rparr>) (s\<lparr>sc_enqueue := Queued idx\<rparr>)"

definition central_check :: "nat \<Rightarrow> 'b sched \<Rightarrow> 'b sched" where
  [simp]: "central_check idx s =
     (let s1 = s\<lparr>sc_enqueue := Idle\<rparr>
      in if cb_state (sc_workers s ! idx) = PARKED_NETPOLL then upd idx (\<lambda>c. c\<lparr>cb_wakeups := Suc (cb_wakeups c)\<rparr>) s1 else s1)"

fun sched_step :: "'b sched_event \<Rightarrow> 'b sched \<Rightarrow> 'b sched option" where
  "sched_step (Mark i) s = (if at_pos i Working s then Some (park_mark i s) else None)"
| "sched_step (Set_parked i) s = (if at_pos i Marked s then Some (park_block i s) else None)"
| "sched_step (Wake i) s =
     (if at_pos i Polling s \<and> 0 < cb_wakeups (sc_workers s ! i)
      then Some (upd i (\<lambda>c. c\<lparr>cb_wakeups := 0, cb_pos := Polled\<rparr>) s) else None)"
| "sched_step (Port_ready i) s =
     (if at_pos i Polling s then Some (upd i (\<lambda>c. c\<lparr>cb_pos := Polled\<rparr>) s) else None)"
| "sched_step (Set_running i) s = (if at_pos i Polled s then Some (park_restore i s) else None)"
| "sched_step (Unmark i) s = (if at_pos i Restored s then Some (park_unmark i s) else None)"
| "sched_step (Drain i n) s =
     (if at_pos i Working s
      then Some (upd i (\<lambda>c. c\<lparr>cb_input := drop n (cb_input c)\<rparr>) (s\<lparr>sc_taken := sc_taken s @ take n (cb_input (sc_workers s ! i))\<rparr>))
      else None)"
| "sched_step (Choose b) s = (if sc_enqueue s = Idle then central_choose b s else None)"
| "sched_step Put s = (case sc_enqueue s of Chosen b idx \<Rightarrow> Some (central_put b idx s) | _ \<Rightarrow> None)"
| "sched_step Check s = (case sc_enqueue s of Queued idx \<Rightarrow> Some (central_check idx s) | _ \<Rightarrow> None)"

fun sched_run :: "'b sched_event list \<Rightarrow> 'b sched \<Rightarrow> 'b sched option" where
  "sched_run [] s = Some s"
| "sched_run (e # es) s = Option.bind (sched_step e s) (sched_run es)"

section \<open>The masks name workers\<close>

text \<open>Every bit of the mask belongs to a worker, so the assertion of \<^verbatim>\<open>_first_parked_worker\<close> cannot fail.\<close>

definition sched_inv :: "'b sched \<Rightarrow> bool" where
  "sched_inv s \<longleftrightarrow> sc_workers s \<noteq> [] \<and> length (sc_workers s) \<le> 64 \<and>
     (\<forall>i. bit (sc_parked s) i \<longrightarrow> i < length (sc_workers s)) \<and>
     (case sc_enqueue s of Idle \<Rightarrow> True | Chosen b idx \<Rightarrow> idx < length (sc_workers s) | Queued idx \<Rightarrow> idx < length (sc_workers s))"

lemma bit_worker_bit: "bit (worker_bit i) j \<longleftrightarrow> i = j \<and> j < 64"
  by (auto simp: worker_bit_def bit_simps)

lemma first_parked_turn_picked:
  "first_parked_turn m m = (Picked i, m') \<Longrightarrow> bit m i \<and> (\<forall>j<i. \<not> bit m j) \<and> m' = m AND NOT (worker_bit i)"
  by (auto simp: first_parked_turn_def ctz_bit split: option.splits)

lemma first_parked_turn_none: "first_parked_turn m m' = (No_parked, m'') \<longleftrightarrow> m = 0 \<and> m'' = m'"
  by (auto simp: first_parked_turn_def count_trailing_zeroes_def split: option.splits if_splits)

lemma first_parked_turn_quiet: "first_parked_turn m m \<noteq> (Lost_race, m')"
  by (simp add: first_parked_turn_def split: option.splits)

text \<open>Which worker a job goes to: the first parked one, or the next in turn when none is parked.\<close>

lemma worker_for_job_cases:
  assumes "sched_inv s"
  obtains
    (parked) i where "bit (sc_parked s) i" "\<forall>j<i. \<not> bit (sc_parked s) j" "i < length (sc_workers s)"
      "worker_for_job s = Some (i, s\<lparr>sc_parked := sc_parked s AND NOT (worker_bit i)\<rparr>)"
  | (turn) "sc_parked s = 0"
      "worker_for_job s = Some (unat (sc_round_robin s) mod length (sc_workers s), s\<lparr>sc_round_robin := sc_round_robin s + 1\<rparr>)"
proof -
  have w: "sc_workers s \<noteq> []" using assms by (simp add: sched_inv_def)
  obtain t m where t: "first_parked_turn (sc_parked s) (sc_parked s) = (t, m)" by force
  show ?thesis
  proof (cases t)
    case No_parked
    then have "sc_parked s = 0" using t first_parked_turn_none by auto
    then show ?thesis using w t No_parked
      by (intro turn) (auto simp: worker_for_job_def first_parked_worker_def least_loaded_worker_def)
  next
    case Lost_race
    then show ?thesis using t first_parked_turn_quiet by metis
  next
    case (Picked i)
    then have i: "bit (sc_parked s) i" "\<forall>j<i. \<not> bit (sc_parked s) j" "m = sc_parked s AND NOT (worker_bit i)"
      using t first_parked_turn_picked by auto
    moreover have "i < length (sc_workers s)" using assms i(1) by (simp add: sched_inv_def)
    ultimately show ?thesis using w t Picked
      by (intro parked) (auto simp: worker_for_job_def first_parked_worker_def)
  qed
qed

lemma upd_frame [xi_frame, simp]:
  "length (sc_workers (upd i f s)) = length (sc_workers s)" "sc_parked (upd i f s) = sc_parked s"
  "sc_enqueue (upd i f s) = sc_enqueue s" "sc_taken (upd i f s) = sc_taken s"
  "sc_workers (upd i f s) = [] \<longleftrightarrow> sc_workers s = []"
  by (auto simp: upd_def)

lemma choose_ok:
  assumes "sched_inv s" "sc_enqueue s = Idle"
  obtains idx s' where "sched_step (Choose b) s = Some (s'\<lparr>sc_enqueue := Chosen b idx\<rparr>)" "idx < length (sc_workers s)"
    "sc_workers s' = sc_workers s" "sc_taken s' = sc_taken s" "\<forall>i. bit (sc_parked s') i \<longrightarrow> bit (sc_parked s) i"
  using assms(1)
proof (cases rule: worker_for_job_cases)
  case (parked i)
  then show ?thesis using assms(2)
    by (intro that [of i "s\<lparr>sc_parked := sc_parked s AND NOT (worker_bit i)\<rparr>"]) (auto simp: bit_simps)
next
  case turn
  let ?i = "unat (sc_round_robin s) mod length (sc_workers s)"
  have "?i < length (sc_workers s)" using assms(1) by (simp add: sched_inv_def)
  then show ?thesis using turn assms(2)
    by (intro that [of ?i "s\<lparr>sc_round_robin := sc_round_robin s + 1\<rparr>"]) auto
qed

lemma sched_step_inv:
  assumes "sched_step e s = Some t" "sched_inv s"
  shows "sched_inv t \<and> length (sc_workers t) = length (sc_workers s)"
proof (cases e)
  case (Mark i)
  then show ?thesis using assms
    by (auto simp: sched_inv_def at_pos_def bit_simps bit_worker_bit split: if_splits enqueue_pos.splits)
next
  case (Unmark i)
  then show ?thesis using assms
    by (auto simp: sched_inv_def at_pos_def bit_simps split: if_splits enqueue_pos.splits)
next
  case (Choose b)
  then have "sc_enqueue s = Idle" using assms(1) by (auto split: if_splits)
  then obtain idx s' where c: "sched_step (sched_event.Choose b) s = Some (s'\<lparr>sc_enqueue := Chosen b idx\<rparr>)" "idx < length (sc_workers s)"
      "sc_workers s' = sc_workers s" "\<forall>i. bit (sc_parked s') i \<longrightarrow> bit (sc_parked s) i"
    by (rule choose_ok [OF assms(2)]) blast
  then have "t = s'\<lparr>sc_enqueue := Chosen b idx\<rparr>" using assms(1) Choose by simp
  then show ?thesis using assms(2) c by (auto simp: sched_inv_def)
qed (use assms in \<open>auto simp: sched_inv_def Let_def split: if_splits enqueue_pos.splits\<close>)

section \<open>No job is lost\<close>

definition sched_jobs :: "'b sched \<Rightarrow> 'b multiset" where
  "sched_jobs s = mset (concat (map cb_input (sc_workers s))) + mset (sc_taken s) +
     (case sc_enqueue s of Chosen b idx \<Rightarrow> {#b#} | _ \<Rightarrow> {#})"

fun submitted :: "'b sched_event list \<Rightarrow> 'b multiset" where
  "submitted [] = {#}"
| "submitted (Choose b # es) = add_mset b (submitted es)"
| "submitted (e # es) = submitted es"

lemma concat_update_mset:
  "i < length ws \<Longrightarrow> mset (concat (map g (ws[i := w]))) + mset (g (ws ! i)) = mset (concat (map g ws)) + mset (g w)"
proof (induction ws arbitrary: i)
  case (Cons a ws)
  show ?case
  proof (cases i)
    case 0
    then show ?thesis by simp
  next
    case (Suc j)
    with Cons.prems have "j < length ws" by simp
    from Cons.IH [OF this] show ?thesis using Suc by simp
  qed
qed simp

lemma upd_same_input:
  "i < length (sc_workers s) \<Longrightarrow> (\<And>c. cb_input (f c) = cb_input c) \<Longrightarrow>
     mset (concat (map cb_input (sc_workers (upd i f s)))) = mset (concat (map cb_input (sc_workers s)))"
  using concat_update_mset [of i "sc_workers s" cb_input "f (sc_workers s ! i)"] by (simp add: upd_def)

lemma sched_step_jobs:
  assumes "sched_step e s = Some t" "sched_inv s"
  shows "sched_jobs t = sched_jobs s + submitted [e]"
proof (cases e)
  case (Drain i n)
  then have i: "i < length (sc_workers s)" using assms(1) by (auto simp: at_pos_def split: if_splits)
  let ?c = "sc_workers s ! i"
  have "mset (cb_input ?c) = mset (take n (cb_input ?c)) + mset (drop n (cb_input ?c))"
    by (simp flip: mset_append)
  then show ?thesis using Drain assms(1) i concat_update_mset [OF i, of cb_input "?c\<lparr>cb_input := drop n (cb_input ?c)\<rparr>"]
    by (auto simp: sched_jobs_def upd_def split: if_splits)
next
  case (Choose b)
  then have idle: "sc_enqueue s = Idle" using assms(1) by (auto split: if_splits)
  obtain idx s' where c: "sched_step (sched_event.Choose b) s = Some (s'\<lparr>sc_enqueue := Chosen b idx\<rparr>)"
      "sc_workers s' = sc_workers s" "sc_taken s' = sc_taken s"
    by (rule choose_ok [OF assms(2) idle]) blast
  then have "t = s'\<lparr>sc_enqueue := Chosen b idx\<rparr>" using assms(1) Choose by simp
  then show ?thesis using c Choose idle by (simp add: sched_jobs_def)
next
  case Put
  then obtain b idx where q: "sc_enqueue s = Chosen b idx" using assms(1) by (auto split: enqueue_pos.splits)
  then have i: "idx < length (sc_workers s)" using assms(2) by (simp add: sched_inv_def)
  let ?c = "sc_workers s ! idx"
  show ?thesis using Put assms(1) q concat_update_mset [OF i, of cb_input "?c\<lparr>cb_input := cb_input ?c @ [b]\<rparr>"]
    by (auto simp: sched_jobs_def upd_def)
next
  case Check
  then obtain idx where q: "sc_enqueue s = Queued idx" using assms(1) by (auto split: enqueue_pos.splits)
  then have i: "idx < length (sc_workers s)" using assms(2) by (simp add: sched_inv_def)
  show ?thesis using Check assms(1) q i upd_same_input [of idx "s\<lparr>sc_enqueue := Idle\<rparr>" "\<lambda>c. c\<lparr>cb_wakeups := Suc (cb_wakeups c)\<rparr>"]
    by (auto simp: sched_jobs_def Let_def split: if_splits)
qed (use assms in \<open>auto simp: sched_jobs_def at_pos_def upd_same_input split: if_splits\<close>)

lemma sched_run_ok:
  "sched_run es s = Some t \<Longrightarrow> sched_inv s \<Longrightarrow> sched_inv t \<and> sched_jobs t = sched_jobs s + submitted es"
proof (induction es arbitrary: s)
  case (Cons e es)
  then obtain u where u: "sched_step e s = Some u" "sched_run es u = Some t" by (auto simp: bind_eq_Some_conv)
  have "submitted (e # es) = submitted [e] + submitted es" by (cases e) auto
  then show ?case using Cons.IH [OF u(2)] sched_step_inv [OF u(1) Cons.prems(2)] sched_step_jobs [OF u(1) Cons.prems(2)] by simp
qed simp

section \<open>Waking a parked worker\<close>

text \<open>\<^verbatim>\<open>state\<close> says \<^verbatim>\<open>PARKED_NETPOLL\<close> exactly while the thread is in the poll, or has just left it.\<close>

definition pos_inv :: "'b sched \<Rightarrow> bool" where
  "pos_inv s \<longleftrightarrow> (\<forall>c\<in>set (sc_workers s). cb_state c = PARKED_NETPOLL \<longleftrightarrow> cb_pos c \<in> {Polling, Polled})"

lemma upd_pos_inv:
  "pos_inv s \<Longrightarrow> (i < length (sc_workers s) \<Longrightarrow> cb_state (f (sc_workers s ! i)) = PARKED_NETPOLL \<longleftrightarrow> cb_pos (f (sc_workers s ! i)) \<in> {Polling, Polled}) \<Longrightarrow>
     pos_inv (upd i f s)"
proof (cases "i < length (sc_workers s)")
  case False
  then show "pos_inv s \<Longrightarrow> pos_inv (upd i f s)" by (simp add: pos_inv_def upd_def list_update_beyond)
qed (force simp: pos_inv_def upd_def dest!: set_update_subset_insert [THEN subsetD])

lemma pos_inv_nth: "pos_inv s \<Longrightarrow> i < length (sc_workers s) \<Longrightarrow>
    cb_state (sc_workers s ! i) = PARKED_NETPOLL \<longleftrightarrow> cb_pos (sc_workers s ! i) \<in> {Polling, Polled}"
  by (simp add: pos_inv_def)

lemma start_slots_0: "start_slots 0 n = map int [0..<n]"
  by (simp add: start_slots_def)

lemma scheduler_start_0:
  assumes "0 < n" "n \<le> 64" "scheduler_start 0 n = Some s"
  shows "sched_inv s" "pos_inv s" "sched_jobs s = {#}" "length (sc_workers s) = n"
  using assms
  by (auto simp: scheduler_start_def start_slots_0 Let_def sched_inv_def pos_inv_def sched_jobs_def block_new_def split: if_splits)

lemma pos_inv_frame [xi_frame, simp]:
  "pos_inv (s\<lparr>sc_parked := m\<rparr>) = pos_inv s" "pos_inv (s\<lparr>sc_enqueue := q\<rparr>) = pos_inv s" "pos_inv (s\<lparr>sc_taken := js\<rparr>) = pos_inv s"
  by (simp_all add: pos_inv_def)

lemma sched_step_pos_inv:
  assumes "sched_step e s = Some t" "sched_inv s" "pos_inv s"
  shows "pos_inv t"
proof (cases e)
  case (Choose b)
  then have idle: "sc_enqueue s = Idle" using assms(1) by (auto split: if_splits)
  obtain idx s' where c: "sched_step (sched_event.Choose b) s = Some (s'\<lparr>sc_enqueue := Chosen b idx\<rparr>)" "sc_workers s' = sc_workers s"
    by (rule choose_ok [OF assms(2) idle]) blast
  then have "t = s'\<lparr>sc_enqueue := Chosen b idx\<rparr>" using assms(1) Choose by simp
  then show ?thesis using c assms(3) by (simp add: pos_inv_def)
next
  case Put
  then obtain b idx where "sc_enqueue s = Chosen b idx" using assms(1) by (auto split: enqueue_pos.splits)
  then show ?thesis using Put assms by (auto simp: pos_inv_nth intro!: upd_pos_inv)
next
  case Check
  then obtain idx where "sc_enqueue s = Queued idx" using assms(1) by (auto split: enqueue_pos.splits)
  then show ?thesis using Check assms
    by (auto simp: Let_def pos_inv_nth intro!: upd_pos_inv split: if_splits)
qed (use assms in \<open>auto simp: at_pos_def pos_inv_nth intro!: upd_pos_inv split: if_splits\<close>)

lemma sched_run_pos_inv: "sched_run es s = Some t \<Longrightarrow> sched_inv s \<Longrightarrow> pos_inv s \<Longrightarrow> pos_inv t"
  by (induction es arbitrary: s) (auto simp: bind_eq_Some_conv intro: sched_step_pos_inv dest: sched_step_inv)

text \<open>A job given to a worker that is in its poll wakes it.\<close>

lemma put_check_wakes:
  assumes "sched_inv s" "pos_inv s" "sc_enqueue s = Chosen b i" "at_pos i Polling s"
  shows "\<exists>t. sched_run [Put, Check] s = Some t \<and> at_pos i Polling t \<and> 0 < cb_wakeups (sc_workers t ! i) \<and>
     b \<in> set (cb_input (sc_workers t ! i))"
proof -
  have i: "i < length (sc_workers s)" using assms(4) by (simp add: at_pos_def)
  then have "cb_state (sc_workers s ! i) = PARKED_NETPOLL"
    using assms(2,4) by (auto simp: pos_inv_nth at_pos_def)
  then show ?thesis using assms(3,4) i by (simp add: upd_def at_pos_def Let_def)
qed

text \<open>
  The job that arrives between the two accesses with which a worker parks is not announced to it: the
  choice sees the mark, the test of \<^verbatim>\<open>state\<close> does not see the poll.
\<close>

definition stranded :: "nat \<Rightarrow> 'b sched \<Rightarrow> bool" where
  "stranded i s \<longleftrightarrow> at_pos i Polling s \<and> cb_wakeups (sc_workers s ! i) = 0 \<and> cb_input (sc_workers s ! i) \<noteq> [] \<and>
     sc_enqueue s = Idle \<and> \<not> bit (sc_parked s) i"

lemma stranded_run:
  assumes "scheduler_start 0 1 = Some s"
  shows "\<exists>t. sched_run [Mark 0, Choose b, Put, Check, Set_parked 0] s = Some t \<and> stranded 0 t"
proof -
  have c: "count_trailing_zeroes (1 :: u64) = Some 0" by code_simp
  have "s = \<lparr>sc_workers = [block_new], sc_parked = 0, sc_active = 1, sc_round_robin = 0, sc_enqueue = Idle, sc_taken = []\<rparr>"
    using assms by (auto simp: scheduler_start_def start_slots_def worker_bit_def split: if_splits)
  then show ?thesis
    by (simp add: at_pos_def upd_def block_new_def worker_bit_def worker_for_job_def first_parked_worker_def
        first_parked_turn_def c Let_def stranded_def)
qed

text \<open>A lost race in \<^verbatim>\<open>_first_parked_worker\<close> clears the mark of a worker nobody was assigned to.\<close>

lemma lost_race_unmarks:
  assumes "first_parked_turn seen now = (Lost_race, m)"
  shows "\<exists>i. bit seen i \<and> \<not> bit m i \<and> (\<forall>j. j \<noteq> i \<longrightarrow> bit m j = bit now j)"
proof -
  from assms obtain i where "count_trailing_zeroes seen = Some i" "m = now AND NOT (worker_bit i)"
    by (auto simp: first_parked_turn_def split: option.splits if_splits)
  then show ?thesis
    by (intro exI [of _ i]) (auto simp: ctz_bit bit_simps bit_worker_bit dest: bit_imp_le_length)
qed

text \<open>With a first core above 0 the threads write outside \<^verbatim>\<open>_workers\<close>.\<close>

lemma scheduler_start_offset: "0 < a \<Longrightarrow> a < b \<Longrightarrow> scheduler_start a b = None"
  by (auto simp: scheduler_start_def start_slots_def Let_def intro!: bexI [of _ 0])

end
