(* ===== verification/Outcome.thy ===== *)
theory Outcome
  imports Xi_Prelude
begin

text \<open>
  The value types that carry failure: \<^verbatim>\<open>optional\<close> (\<^verbatim>\<open>xi/util/optional.h\<close>), \<^verbatim>\<open>result\<close>
  (\<^verbatim>\<open>xi/util/result.h\<close>) and \<^verbatim>\<open>expected\<close> (\<^verbatim>\<open>xi/ext/expected.h\<close>).

  A call either returns, throws, or ends the process (a failed \<^verbatim>\<open>assert\<close>, or \<^verbatim>\<open>std::terminate\<close> when an
  exception leaves a \<^verbatim>\<open>noexcept\<close> function). The objects are mutable, so an operation that moves the
  value out returns the emptied object too. Callbacks are arguments, and they may change a state of
  their own, so that how often they are called can be seen.
\<close>

section \<open>Outcomes and exceptions\<close>

datatype category = System_category | Generic_category | Other_category string

datatype error_code = Error_code int category

definition no_error :: error_code where
  "no_error = Error_code 0 System_category"

fun error_value :: "error_code \<Rightarrow> int" where
  "error_value (Error_code v c) = v"

definition error_from_value :: "int \<Rightarrow> error_code" where
  "error_from_value v = Error_code v Generic_category"

datatype exn = Optional_panic string | System_error error_code | Bad_get | Invalid_promise | Broken_promise | User_exn nat

datatype 'a outcome = Returns 'a | Throws exn | Aborts

fun outcome_map :: "('a \<Rightarrow> 'b) \<Rightarrow> 'a outcome \<Rightarrow> 'b outcome" where
  "outcome_map f (Returns x) = Returns (f x)"
| "outcome_map f (Throws e) = Throws e"
| "outcome_map f Aborts = Aborts"

text \<open>A callback: it reads and writes a state, and it may fail in either way.\<close>

type_synonym ('a, 'b, 's) callback = "'a \<Rightarrow> 's \<Rightarrow> 'b outcome \<times> 's"

section \<open>optional\<close>

fun opt_is_none :: "'a option \<Rightarrow> bool" where
  "opt_is_none None = True"
| "opt_is_none (Some x) = False"

definition opt_is_some :: "'a option \<Rightarrow> bool" where
  "opt_is_some v \<longleftrightarrow> \<not> opt_is_none v"

text \<open>\<^verbatim>\<open>some\<close> of an optional is that optional.\<close>

definition opt_some :: "'a \<Rightarrow> 'a option" where
  "opt_some x = Some x"

definition opt_some_opt :: "'a option \<Rightarrow> 'a option" where
  "opt_some_opt v = v"

definition opt_panic_if_none :: "string \<Rightarrow> 'a option \<Rightarrow> unit outcome" where
  "opt_panic_if_none meth v = (if opt_is_none v then Throws (Optional_panic meth) else Returns ())"

text \<open>\<^verbatim>\<open>extract_value\<close> moves the value out and leaves none behind, on every way out.\<close>

definition opt_extract :: "'a option \<Rightarrow> 'a outcome \<times> 'a option" where
  "opt_extract v = ((case v of None \<Rightarrow> Throws Bad_get | Some x \<Rightarrow> Returns x), None)"

definition opt_unwrap :: "'a option \<Rightarrow> 'a outcome \<times> 'a option" where
  "opt_unwrap v = (case opt_panic_if_none ''unwrap'' v of
     Returns _ \<Rightarrow> opt_extract v | Throws e \<Rightarrow> (Throws e, v) | Aborts \<Rightarrow> (Aborts, v))"

definition opt_unwrap_or :: "'a \<Rightarrow> 'a option \<Rightarrow> 'a outcome \<times> 'a option" where
  "opt_unwrap_or d v = (if opt_is_none v then (Returns d, v) else opt_extract v)"

definition opt_unwrap_or_else :: "(unit, 'a, 's) callback \<Rightarrow> 'a option \<Rightarrow> 's \<Rightarrow> 'a outcome \<times> 'a option \<times> 's" where
  "opt_unwrap_or_else g v s =
     (if opt_is_none v then let (r, s') = g () s in (r, v, s') else let (r, v') = opt_extract v in (r, v', s))"

text \<open>The callback runs on the extracted value, so the optional is empty even if it throws.\<close>

definition opt_apply :: "('a, 'b, 's) callback \<Rightarrow> 'a option \<Rightarrow> 's \<Rightarrow> 'b outcome \<times> 'a option \<times> 's" where
  "opt_apply f v s =
     (case opt_extract v of
        (Returns x, v') \<Rightarrow> let (r, s') = f x s in (r, v', s')
      | (Throws e, v') \<Rightarrow> (Throws e, v', s)
      | (Aborts, v') \<Rightarrow> (Aborts, v', s))"

definition opt_map :: "('a, 'b, 's) callback \<Rightarrow> 'a option \<Rightarrow> 's \<Rightarrow> 'b option outcome \<times> 'a option \<times> 's" where
  "opt_map f v s =
     (if opt_is_none v then (Returns None, v, s)
      else let (r, v', s') = opt_apply f v s in (outcome_map opt_some r, v', s'))"

definition opt_map_opt :: "('a, 'b option, 's) callback \<Rightarrow> 'a option \<Rightarrow> 's \<Rightarrow> 'b option outcome \<times> 'a option \<times> 's" where
  "opt_map_opt f v s =
     (if opt_is_none v then (Returns None, v, s)
      else let (r, v', s') = opt_apply f v s in (outcome_map opt_some_opt r, v', s'))"

definition opt_map_void :: "('a, unit, 's) callback \<Rightarrow> 'a option \<Rightarrow> 's \<Rightarrow> unit outcome \<times> 'a option \<times> 's" where
  "opt_map_void f v s = (if opt_is_none v then (Returns (), v, s) else opt_apply f v s)"

definition opt_map_or :: "'b \<Rightarrow> ('a, 'b, 's) callback \<Rightarrow> 'a option \<Rightarrow> 's \<Rightarrow> 'b outcome \<times> 'a option \<times> 's" where
  "opt_map_or d f v s = (if opt_is_none v then (Returns d, v, s) else opt_apply f v s)"

definition opt_map_or_else ::
    "(unit, 'b, 's) callback \<Rightarrow> ('a, 'b, 's) callback \<Rightarrow> 'a option \<Rightarrow> 's \<Rightarrow> 'b outcome \<times> 'a option \<times> 's" where
  "opt_map_or_else g f v s =
     (if opt_is_none v then let (r, s') = g () s in (r, v, s') else opt_apply f v s)"

definition opt_and :: "'a option \<Rightarrow> 'b option \<Rightarrow> 'b option" where
  "opt_and v w = (if opt_is_none v then None else w)"

fun opt_equal :: "('a \<Rightarrow> 'a \<Rightarrow> bool) \<Rightarrow> 'a option \<Rightarrow> 'a option \<Rightarrow> bool" where
  "opt_equal eq None w = opt_is_none w"
| "opt_equal eq (Some x) w = (case w of None \<Rightarrow> False | Some y \<Rightarrow> eq x y)"

fun opt_less :: "('a \<Rightarrow> 'a \<Rightarrow> bool) \<Rightarrow> 'a option \<Rightarrow> 'a option \<Rightarrow> bool" where
  "opt_less lt (Some x) (Some y) = lt x y"
| "opt_less lt v w = False"

definition opt_not_equal :: "('a \<Rightarrow> 'a \<Rightarrow> bool) \<Rightarrow> 'a option \<Rightarrow> 'a option \<Rightarrow> bool" where
  "opt_not_equal eq v w \<longleftrightarrow> \<not> opt_equal eq v w"

definition opt_greater :: "('a \<Rightarrow> 'a \<Rightarrow> bool) \<Rightarrow> 'a option \<Rightarrow> 'a option \<Rightarrow> bool" where
  "opt_greater lt v w = opt_less lt w v"

section \<open>result\<close>

datatype 'a result = Ok 'a | Err error_code | Empty

fun res_is_ok :: "'a result \<Rightarrow> bool" where
  "res_is_ok (Ok x) = True"
| "res_is_ok r = False"

fun res_is_error :: "'a result \<Rightarrow> bool" where
  "res_is_error (Err e) = True"
| "res_is_error r = False"

fun res_to_error :: "'a result \<Rightarrow> error_code" where
  "res_to_error (Err e) = e"
| "res_to_error r = no_error"

definition res_is_error_of :: "error_code \<Rightarrow> 'a result \<Rightarrow> bool" where
  "res_is_error_of e r \<longleftrightarrow> res_is_error r \<and> res_to_error r = e"

text \<open>\<^verbatim>\<open>extract<T>\<close> and \<^verbatim>\<open>extract<error_code>\<close>: the wrong alternative throws, and the object ends up empty.\<close>

fun res_extract :: "'a result \<Rightarrow> 'a outcome \<times> 'a result" where
  "res_extract (Ok x) = (Returns x, Empty)"
| "res_extract r = (Throws Bad_get, Empty)"

fun res_extract_error :: "'a result \<Rightarrow> error_code outcome \<times> 'a result" where
  "res_extract_error (Err e) = (Returns e, Empty)"
| "res_extract_error r = (Throws Bad_get, Empty)"

fun res_throw_if_error :: "'a result \<Rightarrow> unit outcome" where
  "res_throw_if_error (Err e) = Throws (System_error e)"
| "res_throw_if_error r = Returns ()"

definition res_unwrap :: "'a result \<Rightarrow> 'a outcome \<times> 'a result" where
  "res_unwrap r =
     (if \<not> res_is_ok r then (Aborts, r)
      else case res_throw_if_error r of
             Returns _ \<Rightarrow> res_extract r | Throws e \<Rightarrow> (Throws e, r) | Aborts \<Rightarrow> (Aborts, r))"

definition res_ref :: "'a result \<Rightarrow> 'a outcome" where
  "res_ref r =
     (if \<not> res_is_ok r then Aborts
      else case res_throw_if_error r of
             Returns _ \<Rightarrow> (case r of Ok x \<Rightarrow> Returns x | _ \<Rightarrow> Throws Bad_get) | Throws e \<Rightarrow> Throws e | Aborts \<Rightarrow> Aborts)"

definition res_to_optional :: "'a result \<Rightarrow> 'a option outcome \<times> 'a result" where
  "res_to_optional r =
     (if res_is_ok r then let (v, r') = res_unwrap r in (outcome_map opt_some v, r') else (Returns None, r))"

definition res_equal_error :: "'a result \<Rightarrow> error_code \<Rightarrow> bool" where
  "res_equal_error r e \<longleftrightarrow> res_to_error r = e"

definition res_equal :: "('a \<Rightarrow> 'b \<Rightarrow> bool) \<Rightarrow> 'a result \<Rightarrow> 'b \<Rightarrow> bool outcome" where
  "res_equal eq r y = outcome_map (\<lambda>x. eq x y) (res_ref r)"

definition res_not_equal :: "('a \<Rightarrow> 'b \<Rightarrow> bool) \<Rightarrow> 'a result \<Rightarrow> 'b \<Rightarrow> bool outcome" where
  "res_not_equal eq r y = outcome_map (\<lambda>x. \<not> eq x y) (res_ref r)"

definition res_less :: "('a \<Rightarrow> 'b \<Rightarrow> bool) \<Rightarrow> 'a result \<Rightarrow> 'b \<Rightarrow> bool outcome" where
  "res_less lt r y = outcome_map (\<lambda>x. lt x y) (res_ref r)"

definition res_greater :: "('b \<Rightarrow> 'a \<Rightarrow> bool) \<Rightarrow> 'a result \<Rightarrow> 'b \<Rightarrow> bool outcome" where
  "res_greater lt r y = outcome_map (\<lambda>x. lt y x) (res_ref r)"

text \<open>The converting constructor, and the one of \<^verbatim>\<open>result<void>\<close> that forgets the value.\<close>

definition res_convert :: "('a \<Rightarrow> 'b) \<Rightarrow> 'a result \<Rightarrow> 'b result outcome \<times> 'a result" where
  "res_convert conv r =
     (if res_is_ok r then let (v, r') = res_extract r in (outcome_map (\<lambda>x. Ok (conv x)) v, r')
      else let (e, r') = res_extract_error r in (outcome_map Err e, r'))"

definition res_to_void :: "'a result \<Rightarrow> unit result outcome \<times> 'a result" where
  "res_to_void r = res_convert (\<lambda>_. ()) r"

definition res_ok :: "'a \<Rightarrow> 'a result" where
  "res_ok x = Ok x"

definition res_err :: "error_code \<Rightarrow> 'a result" where
  "res_err e = Err e"

definition result_from_errno :: "int \<Rightarrow> 'a result" where
  "result_from_errno errno = Err (error_from_value errno)"

text \<open>
  \<^verbatim>\<open>then\<close>: \<open>wrap\<close> is the constructor of the returned type, which wraps a plain value and keeps a result.
\<close>

definition res_then_with ::
    "('c \<Rightarrow> 'b result) \<Rightarrow> ('a, 'c, 's) callback \<Rightarrow> 'a result \<Rightarrow> 's \<Rightarrow> 'b result outcome \<times> 'a result \<times> 's" where
  "res_then_with wrap f r s =
     (if res_is_error r then let (e, r') = res_extract_error r in (outcome_map Err e, r', s)
      else case res_extract r of
             (Returns x, r') \<Rightarrow> let (v, s') = f x s in (outcome_map wrap v, r', s')
           | (Throws e, r') \<Rightarrow> (Throws e, r', s)
           | (Aborts, r') \<Rightarrow> (Aborts, r', s))"

definition res_then :: "('a, 'b result, 's) callback \<Rightarrow> 'a result \<Rightarrow> 's \<Rightarrow> 'b result outcome \<times> 'a result \<times> 's" where
  "res_then f = res_then_with (\<lambda>r. r) f"

definition res_then_value :: "('a, 'b, 's) callback \<Rightarrow> 'a result \<Rightarrow> 's \<Rightarrow> 'b result outcome \<times> 'a result \<times> 's" where
  "res_then_value f = res_then_with Ok f"

definition res_then_void :: "('a, unit, 's) callback \<Rightarrow> 'a result \<Rightarrow> 's \<Rightarrow> unit result outcome \<times> 'a result \<times> 's" where
  "res_then_void f = res_then_with (\<lambda>_. Ok ()) f"

text \<open>\<^verbatim>\<open>r.then(f1).then(f2)...\<close>\<close>

fun then_chain :: "('a, 'a result, 's) callback list \<Rightarrow> 'a result \<Rightarrow> 's \<Rightarrow> 'a result outcome \<times> 's" where
  "then_chain [] r s = (Returns r, s)"
| "then_chain (f # fs) r s =
     (case res_then f r s of
        (Returns r', _, s') \<Rightarrow> then_chain fs r' s'
      | (Throws e, _, s') \<Rightarrow> (Throws e, s')
      | (Aborts, _, s') \<Rightarrow> (Aborts, s'))"

section \<open>expected\<close>

datatype 'a expected = Value 'a | Failed error_code

fun exp_has_error :: "'a expected \<Rightarrow> bool" where
  "exp_has_error (Failed e) = True"
| "exp_has_error (Value x) = False"

fun exp_error :: "'a expected \<Rightarrow> error_code" where
  "exp_error (Failed e) = e"
| "exp_error (Value x) = no_error"

text \<open>\<^verbatim>\<open>value()\<close> throws inside a \<^verbatim>\<open>noexcept\<close> function.\<close>

fun exp_value :: "'a expected \<Rightarrow> 'a outcome" where
  "exp_value (Value x) = Returns x"
| "exp_value (Failed e) = Aborts"

text \<open>\<^verbatim>\<open>expected<void>\<close> is an error code.\<close>

definition expv_of :: "'a expected \<Rightarrow> error_code" where
  "expv_of v = (if exp_has_error v then exp_error v else no_error)"

definition expv_has_error :: "error_code \<Rightarrow> bool" where
  "expv_has_error e \<longleftrightarrow> error_value e \<noteq> 0"

definition posix_to_expected :: "int \<Rightarrow> int \<Rightarrow> int expected" where
  "posix_to_expected ret errno = (if ret = -1 then Failed (error_from_value errno) else Value ret)"

text \<open>
  \<^verbatim>\<open>fmap\<close> asks \<^verbatim>\<open>if (val)\<close>: the only conversion of \<^verbatim>\<open>expected<T>\<close> is the one to \<^verbatim>\<open>T const &\<close>, so this is
  \<^verbatim>\<open>value()\<close> followed by the conversion \<open>truthy\<close> of \<^verbatim>\<open>T\<close> to \<^verbatim>\<open>bool\<close>.
\<close>

definition exp_fmap :: "('a \<Rightarrow> bool) \<Rightarrow> ('a, 'b, 's) callback \<Rightarrow> 'a expected \<Rightarrow> 's \<Rightarrow> 'b expected outcome \<times> 's" where
  "exp_fmap truthy f v s =
     (case exp_value v of
        Returns x \<Rightarrow> (if truthy x then let (r, s') = f x s in (outcome_map Value r, s') else (Returns (Failed (exp_error v)), s))
      | Throws e \<Rightarrow> (Throws e, s)
      | Aborts \<Rightarrow> (Aborts, s))"

text \<open>On \<^verbatim>\<open>expected<void>\<close> the conversion is \<^verbatim>\<open>operator bool\<close>, which is the absence of an error.\<close>

definition expv_fmap :: "(unit, 'b, 's) callback \<Rightarrow> error_code \<Rightarrow> 's \<Rightarrow> 'b expected outcome \<times> 's" where
  "expv_fmap f e s =
     (if \<not> expv_has_error e then let (r, s') = f () s in (outcome_map Value r, s') else (Returns (Failed e), s))"

section \<open>What the operations do\<close>

lemma outcome_map_id [simp]: "outcome_map (\<lambda>x. x) v = v"
  by (cases v) auto

lemmas opt_defs [xi_defs] = opt_is_some_def opt_some_def opt_some_opt_def opt_panic_if_none_def opt_extract_def opt_unwrap_def
  opt_unwrap_or_def opt_unwrap_or_else_def opt_apply_def opt_map_def opt_map_opt_def opt_map_void_def opt_map_or_def
  opt_map_or_else_def opt_and_def opt_not_equal_def opt_greater_def

lemmas res_defs [xi_defs] = res_is_error_of_def res_unwrap_def res_ref_def res_to_optional_def res_equal_error_def
  res_equal_def res_not_equal_def res_less_def res_greater_def res_convert_def res_to_void_def res_ok_def res_err_def
  result_from_errno_def res_then_with_def res_then_def res_then_value_def res_then_void_def

text \<open>The accesses that move the value out leave none, and a second one panics.\<close>

lemma opt_unwrap_twice: "opt_unwrap (snd (opt_unwrap v)) = (Throws (Optional_panic ''unwrap''), None)"
  by (cases v) (auto simp: xi_defs)

lemma opt_map_none [simp]: "opt_map f None s = (Returns None, None, s)"
  by (simp add: xi_defs)

lemma opt_map_some: "opt_map f (Some x) s = (outcome_map Some (fst (f x s)), None, snd (f x s))"
  by (cases "fst (f x s)") (auto simp: xi_defs Let_def split: prod.splits)

lemma opt_map_opt_bind:
  "f x s = (Returns w, s') \<Longrightarrow> opt_map_opt f (Some x) s = (Returns w, None, s')"
  by (simp add: xi_defs)

lemma opt_map_or_else_cases:
  "opt_map_or_else g f v s =
     (case v of None \<Rightarrow> (fst (g () s), None, snd (g () s)) | Some x \<Rightarrow> (fst (f x s), None, snd (f x s)))"
  by (cases v) (auto simp: xi_defs split: prod.splits)

text \<open>
  The order of optionals makes none incomparable with everything; incomparability is then not
  transitive, so the order is not a strict weak one.
\<close>

lemma opt_less_none: "\<not> opt_less lt None w" "\<not> opt_less lt v None"
  by (cases v; simp)+

lemma opt_less_not_weak:
  assumes "lt x y"
  shows "\<not> opt_less lt (Some x) None \<and> \<not> opt_less lt None (Some x) \<and>
         \<not> opt_less lt (Some y) None \<and> \<not> opt_less lt None (Some y) \<and> opt_less lt (Some x) (Some y)"
  using assms by simp

lemma res_then_error [simp]: "res_then f (Err e) s = (Returns (Err e), Empty, s)"
  by (simp add: xi_defs)

lemma res_then_ok [simp]: "res_then f (Ok x) s = (fst (f x s), Empty, snd (f x s))"
  by (auto simp: xi_defs split: prod.splits)

lemma res_then_empty [simp]: "res_then f Empty s = (Throws Bad_get, Empty, s)"
  by (simp add: xi_defs)

lemma then_chain_error: "then_chain fs (Err e) s = (Returns (Err e), s)"
  by (induction fs) auto

text \<open>\<open>succeeds fs x s y t\<close>: the callbacks return values one after the other.\<close>

fun succeeds :: "('a, 'a result, 's) callback list \<Rightarrow> 'a \<Rightarrow> 's \<Rightarrow> 'a \<Rightarrow> 's \<Rightarrow> bool" where
  "succeeds [] x s y t \<longleftrightarrow> y = x \<and> t = s"
| "succeeds (f # fs) x s y t \<longleftrightarrow> (case f x s of (Returns (Ok z), s') \<Rightarrow> succeeds fs z s' y t | _ \<Rightarrow> False)"

lemma then_chain_succeeds: "succeeds pre x s y t \<Longrightarrow> then_chain (pre @ post) (Ok x) s = then_chain post (Ok y) t"
  by (induction pre arbitrary: x s) (auto split: prod.splits outcome.splits result.splits)

end
