(* ===== verification/Future.thy ===== *)
theory Future
  imports Outcome
begin

text \<open>
  Promises and futures: \<^verbatim>\<open>xi/core/future/state.h\<close>, \<^verbatim>\<open>shared_state.h\<close>, \<^verbatim>\<open>promise.h\<close>, \<^verbatim>\<open>future.h\<close>, and
  \<^verbatim>\<open>xi/core/latch.h\<close>.

  The shared states live in a store and are named by numbers; a new one gets the next number. A
  callback set by \<^verbatim>\<open>then\<close> owns the promise it fulfils, so it is the continuation and the number of that
  promise's state. Values have one type; a continuation returns a value or a future, or throws. Locks
  are held across each operation, so the operations are atomic.

  Setting a state runs its callback, which sets the next state, and so on: the depth of this recursion
  is bounded by a fuel argument, and running out of it is the value \<open>None\<close>.
\<close>

section \<open>States\<close>

datatype 'a fvalue = Unfulfilled | Val 'a | Exc exn

datatype 'a future = Local "'a fvalue" | Shared nat

datatype 'a cont_result = Plain 'a | Fut "'a future"

type_synonym 'a continuation = "'a \<Rightarrow> 'a cont_result outcome"

record 'a fcallback =
  fc_fun :: "'a continuation"
  fc_promise :: nat
  fc_shard :: "nat option"

record 'a fstore =
  fs_value :: "nat \<Rightarrow> 'a fvalue"
  fs_callback :: "nat \<Rightarrow> 'a fcallback option"
  fs_next :: nat
  fs_posted :: "(nat \<times> 'a continuation \<times> nat \<times> 'a) list"

definition fstore_new :: "'a fstore" where
  "fstore_new = \<lparr>fs_value = (\<lambda>_. Unfulfilled), fs_callback = (\<lambda>_. None), fs_next = 0, fs_posted = []\<rparr>"

fun fv_is_ready :: "'a fvalue \<Rightarrow> bool" where
  "fv_is_ready Unfulfilled = False"
| "fv_is_ready v = True"

fun fv_is_exception :: "'a fvalue \<Rightarrow> bool" where
  "fv_is_exception (Exc e) = True"
| "fv_is_exception v = False"

text \<open>\<^verbatim>\<open>get_value\<close> rethrows a stored exception; on an unfulfilled state its assertion fails.\<close>

fun fv_get_value :: "'a fvalue \<Rightarrow> 'a outcome" where
  "fv_get_value (Val x) = Returns x"
| "fv_get_value (Exc e) = Throws e"
| "fv_get_value Unfulfilled = Aborts"

definition future_value :: "'a fstore \<Rightarrow> 'a future \<Rightarrow> 'a fvalue" where
  "future_value h f = (case f of Local v \<Rightarrow> v | Shared i \<Rightarrow> fs_value h i)"

definition future_is_ready :: "'a fstore \<Rightarrow> 'a future \<Rightarrow> bool" where
  "future_is_ready h f = fv_is_ready (future_value h f)"

definition state_new :: "'a fstore \<Rightarrow> nat \<times> 'a fstore" where
  "state_new h = (fs_next h, h\<lparr>fs_value := (fs_value h)(fs_next h := Unfulfilled),
     fs_callback := (fs_callback h)(fs_next h := None), fs_next := Suc (fs_next h)\<rparr>)"

section \<open>Setting a state\<close>

text \<open>
  \<open>state_set\<close> is \<^verbatim>\<open>shared_state::set\<close> with \<^verbatim>\<open>maybe_callback\<close> and the body of the callback. \<open>catching\<close> is the
  \<^verbatim>\<open>catch (...)\<close> around \<^verbatim>\<open>promise.set\<close>: the promise already counts as set there, so setting the exception
  throws in its turn. When a continuation returns a future that is not ready, the promise takes over
  that future's state, and being destroyed with the callback it breaks it.
\<close>

definition catching :: "(unit outcome \<times> 'a fstore) option \<Rightarrow> (unit outcome \<times> 'a fstore) option" where
  "catching r = map_option (\<lambda>(v, h). case v of Throws e \<Rightarrow> (Throws Invalid_promise, h) | _ \<Rightarrow> (v, h)) r"

fun state_set :: "nat \<Rightarrow> nat \<Rightarrow> 'a fvalue \<Rightarrow> 'a fstore \<Rightarrow> (unit outcome \<times> 'a fstore) option" where
  "state_set 0 i v h = None"
| "state_set (Suc k) i v h =
     (let h1 = h\<lparr>fs_value := (fs_value h)(i := v)\<rparr>
      in case fs_callback h i of
           None \<Rightarrow> Some (Returns (), h1)
         | Some cb \<Rightarrow>
             (case v of
                Unfulfilled \<Rightarrow> Some (Aborts, h1)
              | Exc e \<Rightarrow> state_set k (fc_promise cb) (Exc e) h1
              | Val x \<Rightarrow>
                  (case fc_shard cb of
                     Some e \<Rightarrow> Some (Returns (), h1\<lparr>fs_posted := fs_posted h1 @ [(e, fc_fun cb, fc_promise cb, x)]\<rparr>)
                   | None \<Rightarrow>
                       (case fc_fun cb x of
                          Returns (Plain y) \<Rightarrow> catching (state_set k (fc_promise cb) (Val y) h1)
                        | Returns (Fut f) \<Rightarrow>
                            (case future_value h1 f of
                               Val y \<Rightarrow> catching (state_set k (fc_promise cb) (Val y) h1)
                             | Exc e \<Rightarrow> Some (Throws Invalid_promise, h1)
                             | Unfulfilled \<Rightarrow>
                                 (case f of
                                    Shared j \<Rightarrow> state_set k j (Exc Broken_promise) h1
                                  | Local w \<Rightarrow> Some (Throws Invalid_promise, h1)))
                        | Throws e \<Rightarrow> state_set k (fc_promise cb) (Exc e) h1
                        | Aborts \<Rightarrow> Some (Aborts, h1)))))"

text \<open>The task a shard runs for a continuation that was posted to it.\<close>

definition run_posted :: "nat \<Rightarrow> 'a continuation \<Rightarrow> nat \<Rightarrow> 'a \<Rightarrow> 'a fstore \<Rightarrow> (unit outcome \<times> 'a fstore) option" where
  "run_posted k f p x h =
     (case f x of
        Returns (Plain y) \<Rightarrow> catching (state_set k p (Val y) h)
      | Returns (Fut g) \<Rightarrow>
          (case future_value h g of
             Val y \<Rightarrow> catching (state_set k p (Val y) h)
           | Exc e \<Rightarrow> Some (Throws Invalid_promise, h)
           | Unfulfilled \<Rightarrow> (case g of Shared j \<Rightarrow> state_set k j (Exc Broken_promise) h | Local w \<Rightarrow> Some (Throws Invalid_promise, h)))
      | Throws e \<Rightarrow> state_set k p (Exc e) h
      | Aborts \<Rightarrow> Some (Aborts, h))"

section \<open>then\<close>

text \<open>\<^verbatim>\<open>state::set_continuation\<close>: the state is ready and the continuation runs at once.\<close>

definition ready_continuation :: "'a continuation \<Rightarrow> 'a fvalue \<Rightarrow> 'a future outcome" where
  "ready_continuation f v =
     (case v of
        Exc e \<Rightarrow> Returns (Local (Exc e))
      | Unfulfilled \<Rightarrow> Aborts
      | Val x \<Rightarrow>
          (case f x of
             Returns (Plain y) \<Rightarrow> Returns (Local (Val y))
           | Returns (Fut g) \<Rightarrow> Returns g
           | Throws e \<Rightarrow> Returns (Local (Exc e))
           | Aborts \<Rightarrow> Aborts))"

definition set_continuation :: "'a continuation \<Rightarrow> nat \<Rightarrow> 'a fstore \<Rightarrow> 'a future outcome \<times> 'a fstore" where
  "set_continuation f i h =
     (if fv_is_ready (fs_value h i) then (ready_continuation f (fs_value h i), h)
      else let (p, h1) = state_new h
           in (Returns (Shared p), h1\<lparr>fs_callback := (fs_callback h1)(i \<mapsto> \<lparr>fc_fun = f, fc_promise = p, fc_shard = None\<rparr>)\<rparr>))"

definition future_then :: "'a continuation \<Rightarrow> 'a future \<Rightarrow> 'a fstore \<Rightarrow> 'a future outcome \<times> 'a fstore" where
  "future_then f fut h = (case fut of Local v \<Rightarrow> (ready_continuation f v, h) | Shared i \<Rightarrow> set_continuation f i h)"

text \<open>\<^verbatim>\<open>then\<close> on a shard: the continuation is posted, now or when the value is set.\<close>

definition ready_continuation_on :: "nat \<Rightarrow> 'a continuation \<Rightarrow> 'a fvalue \<Rightarrow> 'a fstore \<Rightarrow> 'a future outcome \<times> 'a fstore" where
  "ready_continuation_on e f v h =
     (case v of
        Exc x \<Rightarrow> (Returns (Local (Exc x)), h)
      | Unfulfilled \<Rightarrow> (Aborts, h)
      | Val x \<Rightarrow> let (p, h1) = state_new h in (Returns (Shared p), h1\<lparr>fs_posted := fs_posted h1 @ [(e, f, p, x)]\<rparr>))"

definition set_continuation_on :: "nat \<Rightarrow> 'a continuation \<Rightarrow> nat \<Rightarrow> 'a fstore \<Rightarrow> 'a future outcome \<times> 'a fstore" where
  "set_continuation_on e f i h =
     (if fv_is_ready (fs_value h i) then ready_continuation_on e f (fs_value h i) h
      else let (p, h1) = state_new h
           in (Returns (Shared p), h1\<lparr>fs_callback := (fs_callback h1)(i \<mapsto> \<lparr>fc_fun = f, fc_promise = p, fc_shard = Some e\<rparr>)\<rparr>))"

definition future_then_on :: "nat \<Rightarrow> 'a continuation \<Rightarrow> 'a future \<Rightarrow> 'a fstore \<Rightarrow> 'a future outcome \<times> 'a fstore" where
  "future_then_on e f fut h = (case fut of Local v \<Rightarrow> ready_continuation_on e f v h | Shared i \<Rightarrow> set_continuation_on e f i h)"

section \<open>Promises\<close>

record promise =
  pr_state :: nat
  pr_future_made :: bool
  pr_value_set :: bool

definition promise_new :: "'a fstore \<Rightarrow> promise \<times> 'a fstore" where
  "promise_new h = (let (i, h1) = state_new h in (\<lparr>pr_state = i, pr_future_made = False, pr_value_set = False\<rparr>, h1))"

definition get_future :: "promise \<Rightarrow> 'a future outcome \<times> promise" where
  "get_future p = (if pr_future_made p then (Throws Invalid_promise, p) else (Returns (Shared (pr_state p)), p\<lparr>pr_future_made := True\<rparr>))"

definition promise_set :: "nat \<Rightarrow> 'a fvalue \<Rightarrow> promise \<Rightarrow> 'a fstore \<Rightarrow> (unit outcome \<times> promise \<times> 'a fstore) option" where
  "promise_set k v p h =
     (if pr_value_set p then Some (Throws Invalid_promise, p, h)
      else map_option (\<lambda>(r, h'). (r, p\<lparr>pr_value_set := True\<rparr>, h')) (state_set k (pr_state p) v h))"

definition promise_destroy :: "nat \<Rightarrow> promise \<Rightarrow> 'a fstore \<Rightarrow> (unit outcome \<times> 'a fstore) option" where
  "promise_destroy k p h =
     (if fv_is_ready (fs_value h (pr_state p)) then Some (Returns (), h) else state_set k (pr_state p) (Exc Broken_promise) h)"

section \<open>Latch\<close>

record latch =
  la_count :: usize
  la_set :: nat

text \<open>\<open>la_set\<close> counts the calls of \<^verbatim>\<open>_promise.set()\<close>.\<close>

definition latch_new :: "usize \<Rightarrow> latch" where
  "latch_new c = \<lparr>la_count = c, la_set = (if c = 0 then 1 else 0)\<rparr>"

definition count_down :: "usize \<Rightarrow> latch \<Rightarrow> latch" where
  "count_down amount l =
     (if la_count l = 0 then l
      else let new_count = (if amount < la_count l then la_count l - amount else 0)
           in \<lparr>la_count = new_count, la_set = (if new_count = 0 then Suc (la_set l) else la_set l)\<rparr>)"

lemma count_down_fold:
  "fold count_down as \<lparr>la_count = c, la_set = n\<rparr> =
     \<lparr>la_count = c - sum_list as, la_set = (if 0 < c \<and> c \<le> sum_list as then Suc n else n)\<rparr>"
  by (induction as arbitrary: c n) (auto simp: count_down_def Let_def)

section \<open>Chains of continuations\<close>

fun attach :: "'a continuation list \<Rightarrow> 'a future \<Rightarrow> 'a fstore \<Rightarrow> 'a future outcome \<times> 'a fstore" where
  "attach [] fut h = (Returns fut, h)"
| "attach (f # fs) fut h =
     (case future_then f fut h of
        (Returns g, h') \<Rightarrow> attach fs g h'
      | (Throws e, h') \<Rightarrow> (Throws e, h')
      | (Aborts, h') \<Rightarrow> (Aborts, h'))"

text \<open>What a chain means: the first exception goes through to the end.\<close>

fun chain_value :: "'a continuation list \<Rightarrow> 'a fvalue \<Rightarrow> 'a fvalue" where
  "chain_value [] v = v"
| "chain_value (f # fs) (Val x) =
     (case f x of Returns (Plain y) \<Rightarrow> chain_value fs (Val y) | Throws e \<Rightarrow> chain_value fs (Exc e) | _ \<Rightarrow> Unfulfilled)"
| "chain_value (f # fs) v = v"

lemma chain_value_exc [simp]: "chain_value fs (Exc e) = Exc e"
  by (cases fs) auto

definition plain :: "'a continuation \<Rightarrow> bool" where
  "plain f \<longleftrightarrow> (\<forall>x. case f x of Returns (Plain y) \<Rightarrow> True | Throws e \<Rightarrow> True | _ \<Rightarrow> False)"

text \<open>\<open>chained h fs i j\<close>: the continuations \<open>fs\<close> lead from state \<open>i\<close> to state \<open>j\<close>.\<close>

fun chained :: "'a fstore \<Rightarrow> 'a continuation list \<Rightarrow> nat \<Rightarrow> nat \<Rightarrow> bool" where
  "chained h [] i j \<longleftrightarrow> i = j \<and> fs_callback h j = None"
| "chained h (f # fs) i j \<longleftrightarrow> (\<exists>p. fs_callback h i = Some \<lparr>fc_fun = f, fc_promise = p, fc_shard = None\<rparr> \<and> chained h fs p j)"

lemma chained_cong: "fs_callback h' = fs_callback h \<Longrightarrow> chained h' fs i j = chained h fs i j"
  by (induction fs arbitrary: i) auto

lemma attach_chained:
  "fs_value h i = Unfulfilled \<Longrightarrow> fs_callback h i = None \<Longrightarrow> i < fs_next h \<Longrightarrow>
     \<exists>j h'. attach fs (Shared i) h = (Returns (Shared j), h') \<and> chained h' fs i j \<and> fs_next h \<le> fs_next h' \<and>
       (\<forall>q<fs_next h. fs_value h' q = fs_value h q) \<and> (\<forall>q<fs_next h. q \<noteq> i \<longrightarrow> fs_callback h' q = fs_callback h q)"
proof (induction fs arbitrary: i h)
  case (Cons f fs)
  let ?p = "fs_next h"
  let ?h = "h\<lparr>fs_value := (fs_value h)(?p := Unfulfilled),
     fs_callback := (fs_callback h)(?p := None, i \<mapsto> \<lparr>fc_fun = f, fc_promise = ?p, fc_shard = None\<rparr>), fs_next := Suc ?p\<rparr>"
  have t: "future_then f (Shared i) h = (Returns (Shared ?p), ?h)"
    using Cons.prems by (simp add: future_then_def set_continuation_def state_new_def)
  have "fs_value ?h ?p = Unfulfilled" "fs_callback ?h ?p = None" "?p < fs_next ?h" using Cons.prems by auto
  from Cons.IH [OF this] obtain j h' where r: "attach fs (Shared ?p) ?h = (Returns (Shared j), h')" "chained h' fs ?p j"
      "Suc ?p \<le> fs_next h'" "\<forall>q<Suc ?p. fs_value h' q = fs_value ?h q" "\<forall>q<Suc ?p. q \<noteq> ?p \<longrightarrow> fs_callback h' q = fs_callback ?h q"
    by auto
  have "fs_callback h' i = Some \<lparr>fc_fun = f, fc_promise = ?p, fc_shard = None\<rparr>" using r(5) Cons.prems(3) by simp
  moreover have "\<forall>q<?p. fs_value h' q = fs_value h q" "\<forall>q<?p. q \<noteq> i \<longrightarrow> fs_callback h' q = fs_callback h q"
    using r(4,5) by auto
  ultimately show ?case using t r by auto
qed auto

text \<open>Setting the first state of a chain sets the last one to what the chain means.\<close>

lemma state_set_chained:
  "chained h fs i j \<Longrightarrow> list_all plain fs \<Longrightarrow> v \<noteq> Unfulfilled \<Longrightarrow> length fs < k \<Longrightarrow>
     \<exists>h'. state_set k i v h = Some (Returns (), h') \<and> fs_value h' j = chain_value fs v"
proof (induction fs arbitrary: i v h k)
  case Nil
  then show ?case by (cases k) auto
next
  case (Cons f fs)
  from Cons.prems(1) obtain p where cb: "fs_callback h i = Some \<lparr>fc_fun = f, fc_promise = p, fc_shard = None\<rparr>" "chained h fs p j"
    by auto
  let ?h = "h\<lparr>fs_value := (fs_value h)(i := v)\<rparr>"
  have c: "chained ?h fs p j" using cb(2) by (simp add: chained_cong [of ?h h])
  obtain k' where k: "k = Suc k'" "length fs < k'" using Cons.prems(4) by (cases k) auto
  have pl: "plain f" "list_all plain fs" using Cons.prems(2) by auto
  note IH = Cons.IH [OF c pl(2) _ k(2)]
  show ?case
  proof (cases v)
    case (Val x)
    have "case f x of Returns (Plain y) \<Rightarrow> True | Throws e \<Rightarrow> True | _ \<Rightarrow> False" using pl(1) by (simp add: plain_def)
    then consider y where "f x = Returns (Plain y)" | e where "f x = Throws e"
      by (cases "f x") (auto split: cont_result.splits)
    then show ?thesis
    proof cases
      case 1
      from IH [of "fvalue.Val y"] obtain h' where "state_set k' p (fvalue.Val y) ?h = Some (Returns (), h')"
        "fs_value h' j = chain_value fs (fvalue.Val y)" by auto
      then show ?thesis using 1 Val cb(1) k by (simp add: catching_def)
    next
      case 2
      from IH [of "Exc e"] obtain h' where "state_set k' p (Exc e) ?h = Some (Returns (), h')"
        "fs_value h' j = chain_value fs (Exc e)" by auto
      then show ?thesis using 2 Val cb(1) k by simp
    qed
  next
    case (Exc e)
    then show ?thesis using IH [of v] cb(1) k by simp
  qed (use Cons.prems in simp)
qed

text \<open>Attaching the chain to a future that is ready runs it at once, with the same meaning.\<close>

lemma attach_local: "list_all plain fs \<Longrightarrow> v \<noteq> Unfulfilled \<Longrightarrow> attach fs (Local v) h = (Returns (Local (chain_value fs v)), h)"
proof (induction fs arbitrary: v)
  case (Cons f fs)
  show ?case
  proof (cases v)
    case (Val x)
    have "case f x of Returns (Plain y) \<Rightarrow> True | Throws e \<Rightarrow> True | _ \<Rightarrow> False" using Cons.prems(1) by (simp add: plain_def)
    then show ?thesis using Cons Val
      by (auto simp: future_then_def ready_continuation_def split: outcome.splits cont_result.splits)
  next
    case (Exc e)
    then show ?thesis using Cons by (simp add: future_then_def ready_continuation_def)
  qed (use Cons.prems in simp)
qed simp

lemma attach_ready:
  assumes "list_all plain fs" "fs_value h i = v" "v \<noteq> Unfulfilled"
  shows "\<exists>g. attach fs (Shared i) h = (Returns g, h) \<and> future_value h g = chain_value fs v"
proof (cases fs)
  case Nil
  then show ?thesis using assms by (simp add: future_value_def)
next
  case (Cons f gs)
  have r: "future_then f (Shared i) h = future_then f (Local v) h"
    using assms(2,3) by (cases v) (auto simp: future_then_def set_continuation_def)
  have "attach fs (Shared i) h = attach fs (Local v) h" unfolding Cons attach.simps r ..
  also have "\<dots> = (Returns (Local (chain_value fs v)), h)" using assms by (intro attach_local)
  finally show ?thesis by (simp add: future_value_def)
qed

text \<open>
  A continuation that returns a future: a ready value goes through; a failed future makes the setter
  throw and leaves the dependent future unfulfilled; an unfinished one is broken, and the dependent
  future is left unfulfilled too.
\<close>

lemma unwrap_ready:
  assumes "fs_callback h i = Some \<lparr>fc_fun = f, fc_promise = p, fc_shard = None\<rparr>" "fs_callback h p = None"
    "f x = Returns (Fut (Local (Val y)))"
  shows "\<exists>h'. state_set (Suc (Suc k)) i (Val x) h = Some (Returns (), h') \<and> fs_value h' p = Val y"
  using assms by (simp add: future_value_def catching_def)

lemma unwrap_failed:
  assumes "fs_callback h i = Some \<lparr>fc_fun = f, fc_promise = p, fc_shard = None\<rparr>" "p \<noteq> i"
    "f x = Returns (Fut (Local (Exc e)))"
  shows "\<exists>h'. state_set (Suc k) i (Val x) h = Some (Throws Invalid_promise, h') \<and> fs_value h' p = fs_value h p"
  using assms by (simp add: future_value_def)

lemma unwrap_unfinished:
  assumes "fs_callback h i = Some \<lparr>fc_fun = f, fc_promise = p, fc_shard = None\<rparr>" "fs_callback h j = None"
    "f x = Returns (Fut (Shared j))" "fs_value h j = Unfulfilled" "distinct [i, p, j]"
  shows "\<exists>h'. state_set (Suc (Suc k)) i (Val x) h = Some (Returns (), h') \<and> fs_value h' j = Exc Broken_promise \<and> fs_value h' p = fs_value h p"
  using assms by (auto simp: future_value_def)

text \<open>A promise is used once for each purpose.\<close>

lemma promise_set_once:
  assumes "promise_set k v p h = Some (r, p', h')" "v \<noteq> Unfulfilled"
  shows "promise_set k' v' p' h' = Some (Throws Invalid_promise, p', h')"
  using assms by (auto simp: promise_set_def split: if_splits)

lemma get_future_once: "get_future (snd (get_future p)) = (Throws Invalid_promise, snd (get_future p))"
  by (simp add: get_future_def)

lemma promise_broken:
  assumes "fs_value h (pr_state p) = Unfulfilled" "fs_callback h (pr_state p) = None"
  shows "promise_destroy (Suc k) p h = Some (Returns (), h\<lparr>fs_value := (fs_value h)(pr_state p := Exc Broken_promise)\<rparr>)"
  using assms by (simp add: promise_destroy_def)

end
