(* ===== verification/Message_Bus.thy ===== *)
theory Message_Bus
  imports Outcome
begin

text \<open>
  \<^verbatim>\<open>src/src/core/message_bus.cpp\<close> and \<^verbatim>\<open>xi/core/message_bus_impl.h\<close>: requests between two shards. A
  message waits in the backlog, then in a single-producer single-consumer ring of 128 entries
  (\<^verbatim>\<open>boost::lockfree\<close>, which pushes a range as far as there is room). \<open>mb_trace\<close> records the calls of
  \<^verbatim>\<open>process_request\<close> and \<^verbatim>\<open>process_reply\<close>.

  \<^verbatim>\<open>message_count\<close> has no initial value in the source; it is an argument of the constructor here.
\<close>

definition QUEUE_CAPACITY :: usize where "QUEUE_CAPACITY = 128"
definition QUEUE_BATCH :: usize where "QUEUE_BATCH = 16"

record 'm work_queue =
  wk_backlog :: "'m list"
  wk_messages :: "'m list"
  wk_message_count :: usize

datatype 'm bus_call = Request 'm | Reply 'm

record 'm message_bus =
  mb_pending :: "'m work_queue"
  mb_complete :: "'m work_queue"
  mb_trace :: "'m bus_call list"

definition work_queue_new :: "usize \<Rightarrow> 'm work_queue" where
  "work_queue_new count0 = \<lparr>wk_backlog = [], wk_messages = [], wk_message_count = count0\<rparr>"

definition message_bus_new :: "usize \<Rightarrow> usize \<Rightarrow> 'm message_bus" where
  "message_bus_new c1 c2 = \<lparr>mb_pending = work_queue_new c1, mb_complete = work_queue_new c2, mb_trace = []\<rparr>"

definition spsc_push :: "'m list \<Rightarrow> 'm list \<Rightarrow> 'm list" where
  "spsc_push xs q = q @ take (QUEUE_CAPACITY - length q) xs"

definition flush_backlog :: "'m work_queue \<Rightarrow> usize \<times> 'm work_queue" where
  "flush_backlog work =
     (let queue_room = usub QUEUE_CAPACITY (wk_message_count work);
          move_count = min queue_room (length (wk_backlog work))
      in if move_count = 0 then (0, work)
         else (move_count,
           \<lparr>wk_backlog = drop move_count (wk_backlog work),
            wk_messages = spsc_push (take move_count (wk_backlog work)) (wk_messages work),
            wk_message_count = uadd (wk_message_count work) move_count\<rparr>))"

definition queue_message :: "'m \<Rightarrow> 'm work_queue \<Rightarrow> 'm work_queue" where
  "queue_message msg work =
     (let w1 = work\<lparr>wk_backlog := wk_backlog work @ [msg]\<rparr>
      in if QUEUE_BATCH \<le> length (wk_backlog w1) then snd (flush_backlog w1) else w1)"

definition bus_submit :: "'m \<Rightarrow> 'm message_bus \<Rightarrow> 'm message_bus" where
  "bus_submit msg b = b\<lparr>mb_pending := queue_message msg (mb_pending b)\<rparr>"

definition bus_reply :: "'m \<Rightarrow> 'm message_bus \<Rightarrow> 'm message_bus" where
  "bus_reply msg b = b\<lparr>mb_complete := queue_message msg (mb_complete b)\<rparr>"

text \<open>\<^verbatim>\<open>_process_queue\<close> is given a queue, and pops \<^verbatim>\<open>_pending.messages\<close>.\<close>

definition process_queue :: "('m \<Rightarrow> 'm message_bus \<Rightarrow> 'm message_bus) \<Rightarrow> 'm message_bus \<Rightarrow> usize \<times> 'm message_bus" where
  "process_queue f b =
     (let items = take QUEUE_CAPACITY (wk_messages (mb_pending b));
          b1 = b\<lparr>mb_pending := (mb_pending b)\<lparr>wk_messages := drop QUEUE_CAPACITY (wk_messages (mb_pending b))\<rparr>\<rparr>
      in (length items, fold f items b1))"

definition on_request :: "'m \<Rightarrow> 'm message_bus \<Rightarrow> 'm message_bus" where
  "on_request msg b = bus_reply msg (b\<lparr>mb_trace := mb_trace b @ [Request msg]\<rparr>)"

definition on_reply :: "'m \<Rightarrow> 'm message_bus \<Rightarrow> 'm message_bus" where
  "on_reply msg b = b\<lparr>mb_trace := mb_trace b @ [Reply msg]\<rparr>"

definition process_pending :: "'m message_bus \<Rightarrow> usize \<times> 'm message_bus" where
  "process_pending b = process_queue on_request (b\<lparr>mb_pending := snd (flush_backlog (mb_pending b))\<rparr>)"

definition process_complete :: "'m message_bus \<Rightarrow> usize \<times> 'm message_bus" where
  "process_complete b = process_queue on_reply (b\<lparr>mb_complete := snd (flush_backlog (mb_complete b))\<rparr>)"

section \<open>The message\<close>

text \<open>\<^verbatim>\<open>remote_message\<close>: the request stores what the delegate returns or throws, the reply passes it to the promise.\<close>

record 'a remote_message =
  rm_result :: "'a option"
  rm_exception :: "exn option"

datatype 'a promise_call = Set_value 'a | Set_exception "exn option"

definition process_request :: "(unit, 'a, 's) callback \<Rightarrow> 'a remote_message \<Rightarrow> 's \<Rightarrow> 'a remote_message \<times> 's" where
  "process_request delegate m s =
     (case delegate () s of
        (Returns x, s') \<Rightarrow> (m\<lparr>rm_result := opt_some x\<rparr>, s')
      | (Throws e, s') \<Rightarrow> (m\<lparr>rm_exception := Some e\<rparr>, s')
      | (Aborts, s') \<Rightarrow> (m, s'))"

definition process_reply :: "'a remote_message \<Rightarrow> 'a promise_call" where
  "process_reply m =
     (case fst (opt_map_or_else (\<lambda>_ s. (Returns (Set_exception (rm_exception m)), s)) (\<lambda>x s. (Returns (Set_value x), s)) (rm_result m) ()) of
        Returns c \<Rightarrow> c | _ \<Rightarrow> Set_exception None)"

lemma request_reply:
  "process_reply (fst (process_request delegate \<lparr>rm_result = None, rm_exception = None\<rparr> s)) =
     (case fst (delegate () s) of Returns x \<Rightarrow> Set_value x | Throws e \<Rightarrow> Set_exception (Some e) | Aborts \<Rightarrow> Set_exception None)"
  by (auto simp: process_reply_def process_request_def opt_map_or_else_cases opt_some_def split: prod.splits outcome.splits)

text \<open>A reply to a message that was never processed gives the promise a null exception pointer.\<close>

lemma reply_unprocessed: "process_reply \<lparr>rm_result = None, rm_exception = None\<rparr> = Set_exception None"
  by (simp add: process_reply_def opt_map_or_else_cases)

section \<open>Runs of the bus\<close>

datatype 'm bus_op = Submit 'm | Process_pending | Process_complete

fun bus_step :: "'m bus_op \<Rightarrow> 'm message_bus \<Rightarrow> 'm message_bus" where
  "bus_step (Submit m) b = bus_submit m b"
| "bus_step Process_pending b = snd (process_pending b)"
| "bus_step Process_complete b = snd (process_complete b)"

fun submissions :: "'m bus_op list \<Rightarrow> 'm list" where
  "submissions [] = []"
| "submissions (Submit m # ops) = m # submissions ops"
| "submissions (_ # ops) = submissions ops"

fun called :: "'m bus_call \<Rightarrow> 'm" where
  "called (Request m) = m"
| "called (Reply m) = m"

text \<open>
  Every message leaves the pending queue once, in the order of submission. The count of the queue is
  the number of messages that ever went through it.
\<close>

definition bus_inv :: "'m list \<Rightarrow> 'm message_bus \<Rightarrow> bool" where
  "bus_inv sub b \<longleftrightarrow>
     map called (mb_trace b) @ wk_messages (mb_pending b) @ wk_backlog (mb_pending b) = sub \<and>
     wk_message_count (mb_pending b) = length (mb_trace b) + length (wk_messages (mb_pending b)) \<and>
     wk_message_count (mb_pending b) \<le> QUEUE_CAPACITY"

lemma flush_exact:
  assumes "wk_message_count w \<le> QUEUE_CAPACITY" "length (wk_messages w) \<le> wk_message_count w"
  shows "snd (flush_backlog w) =
    (let n = min (QUEUE_CAPACITY - wk_message_count w) (length (wk_backlog w))
     in \<lparr>wk_backlog = drop n (wk_backlog w), wk_messages = wk_messages w @ take n (wk_backlog w), wk_message_count = wk_message_count w + n\<rparr>)"
proof -
  let ?n = "min (QUEUE_CAPACITY - wk_message_count w) (length (wk_backlog w))"
  have "wk_message_count w + ?n < 2 ^ 64" using assms(1) by (simp add: QUEUE_CAPACITY_def)
  moreover have "take (QUEUE_CAPACITY - length (wk_messages w)) (take ?n (wk_backlog w)) = take ?n (wk_backlog w)"
    using assms(2) by simp
  ultimately show ?thesis using assms(1) by (simp add: flush_backlog_def Let_def spsc_push_def)
qed

lemma flush_inv:
  assumes "bus_inv sub b"
  shows "bus_inv sub (b\<lparr>mb_pending := snd (flush_backlog (mb_pending b))\<rparr>)"
  using assms by (auto simp: bus_inv_def flush_exact Let_def)

lemma submit_inv:
  assumes "bus_inv sub b"
  shows "bus_inv (sub @ [m]) (bus_submit m b)"
proof -
  have "bus_inv (sub @ [m]) (b\<lparr>mb_pending := (mb_pending b)\<lparr>wk_backlog := wk_backlog (mb_pending b) @ [m]\<rparr>\<rparr>)"
    using assms by (auto simp: bus_inv_def)
  from this flush_inv [OF this] show ?thesis
    by (auto simp: bus_submit_def queue_message_def Let_def)
qed

lemma bus_reply_frame [xi_frame]: "mb_pending (bus_reply m b) = mb_pending b" "mb_trace (bus_reply m b) = mb_trace b"
  by (simp_all add: bus_reply_def)

lemma fold_on_request:
  "mb_pending (fold on_request ms b) = mb_pending b \<and> mb_trace (fold on_request ms b) = mb_trace b @ map Request ms"
  by (induction ms arbitrary: b) (auto simp: on_request_def xi_frame)

lemma fold_on_reply:
  "mb_pending (fold on_reply ms b) = mb_pending b \<and> mb_trace (fold on_reply ms b) = mb_trace b @ map Reply ms"
  by (induction ms arbitrary: b) (auto simp: on_reply_def)

lemma process_queue_inv:
  assumes "bus_inv sub b" "\<And>m. called (h m) = m"
    and "\<And>ms b. mb_pending (fold f ms b) = mb_pending b \<and> mb_trace (fold f ms b) = mb_trace b @ map h ms"
  shows "bus_inv sub (snd (process_queue f b))"
proof -
  have "length (wk_messages (mb_pending b)) \<le> QUEUE_CAPACITY" using assms(1) by (simp add: bus_inv_def)
  then show ?thesis using assms by (simp add: process_queue_def bus_inv_def comp_def Let_def)
qed

lemma bus_step_inv:
  assumes "bus_inv sub b"
  shows "bus_inv (sub @ submissions [p]) (bus_step p b)"
proof (cases p)
  case (Submit m)
  then show ?thesis using submit_inv [OF assms] by simp
next
  case Process_pending
  then show ?thesis using process_queue_inv [OF flush_inv [OF assms], of Request on_request] fold_on_request
    by (auto simp: process_pending_def)
next
  case Process_complete
  have "bus_inv sub (b\<lparr>mb_complete := snd (flush_backlog (mb_complete b))\<rparr>)" using assms by (simp add: bus_inv_def)
  from process_queue_inv [OF this, of Reply on_reply] fold_on_reply show ?thesis using Process_complete
    by (auto simp: process_complete_def)
qed

lemma submissions_append: "submissions (p # ops) = submissions [p] @ submissions ops"
  by (cases p) auto

lemma bus_run_inv: "bus_inv sub b \<Longrightarrow> bus_inv (sub @ submissions ops) (fold bus_step ops b)"
proof (induction ops arbitrary: sub b)
  case (Cons p ops)
  from Cons.IH [OF bus_step_inv [OF Cons.prems, of p]] show ?case by (simp add: submissions_append [of p ops])
qed simp

lemma message_bus_new_inv: "bus_inv [] (message_bus_new 0 c)"
  by (simp add: bus_inv_def message_bus_new_def work_queue_new_def)

end
