(* ===== verification/Shard.thy ===== *)
theory Shard
  imports Xi_Prelude
begin

text \<open>
  \<^verbatim>\<open>xi/core/task_queue.h\<close>, \<^verbatim>\<open>xi/core/shard.h\<close> and \<^verbatim>\<open>src/src/core/shard.cpp\<close>: the loop of one shard. A task is
  opaque; \<open>act\<close> says what running it does to the shard: the tasks it posts to its own shard, and
  whether it throws. \<open>sh_log\<close> lists the tasks that were run.

  The pollers other than the deferred one (reactor, signals, registered ones) are named only; what
  they do outside the shard's queues is not part of the model.
\<close>

record 't task_effect =
  te_posts :: "'t list"
  te_throws :: bool

type_synonym 't act = "'t \<Rightarrow> 't task_effect"

record 't shard =
  sh_tasks :: "'t list"
  sh_deferred :: "'t list"
  sh_inbound :: "'t list"
  sh_pollers :: "nat list"
  sh_running :: bool
  sh_shutdown_asked :: bool
  sh_log :: "'t list"

definition shard_new :: "'t shard" where
  "shard_new = \<lparr>sh_tasks = [], sh_deferred = [], sh_inbound = [], sh_pollers = [], sh_running = False,
     sh_shutdown_asked = False, sh_log = []\<rparr>"

section \<open>Posting\<close>

definition task_queue_submit :: "'t \<Rightarrow> 't list \<Rightarrow> 't list" where
  "task_queue_submit t q = q @ [t]"

definition deferred_push :: "'t \<Rightarrow> 't shard \<Rightarrow> 't shard" where
  "deferred_push t s = s\<lparr>sh_deferred := sh_deferred s @ [t]\<rparr>"

definition push_task_to_inbound_queue :: "'t \<Rightarrow> 't shard \<Rightarrow> 't shard" where
  "push_task_to_inbound_queue t s = s\<lparr>sh_inbound := sh_inbound s @ [t]\<rparr>"

text \<open>\<open>local\<close>: the posting thread is the one of this shard.\<close>

definition post_task :: "bool \<Rightarrow> 't \<Rightarrow> 't shard \<Rightarrow> 't shard" where
  "post_task local t s = (if local then deferred_push t s else push_task_to_inbound_queue t s)"

definition handle_exception :: "'t shard \<Rightarrow> 't shard" where
  "handle_exception s = s\<lparr>sh_shutdown_asked := True\<rparr>"

text \<open>Running a task: what it posts goes to the deferred poller. The flag says whether it threw.\<close>

definition run_task :: "'t act \<Rightarrow> 't \<Rightarrow> 't shard \<Rightarrow> bool \<times> 't shard" where
  "run_task act t s =
     (te_throws (act t), fold (post_task True) (te_posts (act t)) (s\<lparr>sh_log := sh_log s @ [t]\<rparr>))"

definition dispatch :: "'t act \<Rightarrow> bool \<Rightarrow> 't \<Rightarrow> 't shard \<Rightarrow> 't shard" where
  "dispatch act local t s =
     (if local then let (threw, s') = run_task act t s in if threw then handle_exception s' else s'
      else post_task False t s)"

section \<open>Polling\<close>

definition deferred_poll :: "'t shard \<Rightarrow> 't shard" where
  "deferred_poll s = s\<lparr>sh_tasks := fold task_queue_submit (sh_deferred s) (sh_tasks s), sh_deferred := []\<rparr>"

text \<open>
  \<^verbatim>\<open>process_tasks\<close> runs the front of the queue and pops it, also when it throws. The queue does not grow
  meanwhile. \<open>True\<close> means an exception got out.
\<close>

fun process_tasks_from :: "'t act \<Rightarrow> 't list \<Rightarrow> 't shard \<Rightarrow> bool \<times> 't shard" where
  "process_tasks_from act [] s = (False, s\<lparr>sh_tasks := []\<rparr>)"
| "process_tasks_from act (t # ts) s =
     (let (threw, s') = run_task act t s
      in if threw then (True, s'\<lparr>sh_tasks := ts\<rparr>) else process_tasks_from act ts s')"

definition process_tasks :: "'t act \<Rightarrow> 't shard \<Rightarrow> bool \<times> 't shard" where
  "process_tasks act s = process_tasks_from act (sh_tasks s) s"

fun consume_inbound_from :: "'t act \<Rightarrow> 't list \<Rightarrow> 't shard \<Rightarrow> bool \<times> 't shard" where
  "consume_inbound_from act [] s = (False, s\<lparr>sh_inbound := []\<rparr>)"
| "consume_inbound_from act (t # ts) s =
     (let (threw, s') = run_task act t s
      in if threw then (True, s'\<lparr>sh_inbound := ts\<rparr>) else consume_inbound_from act ts s')"

definition consume_inbound :: "'t act \<Rightarrow> 't shard \<Rightarrow> bool \<times> 't shard" where
  "consume_inbound act s = consume_inbound_from act (sh_inbound s) s"

definition shard_poll :: "'t act \<Rightarrow> 't shard \<Rightarrow> 't shard" where
  "shard_poll act s =
     (let (threw, s1) = process_tasks act (deferred_poll s)
      in if threw then handle_exception s1
         else let (threw2, s2) = consume_inbound act s1
              in if threw2 then handle_exception s2 else s2)"

definition shard_shutdown :: "'t shard \<Rightarrow> 't shard" where
  "shard_shutdown s = s\<lparr>sh_running := False\<rparr>"

text \<open>
  \<^verbatim>\<open>run\<close>: polls until the flag is cleared. Between two polls other threads may act on the shard: \<open>inputs\<close>
  lists what they do before each test of the flag.
\<close>

fun shard_run :: "'t act \<Rightarrow> ('t shard \<Rightarrow> 't shard) list \<Rightarrow> 't shard \<Rightarrow> 't shard option" where
  "shard_run act [] s = None"
| "shard_run act (f # fs) s =
     (let s1 = f (shard_poll act s) in if sh_running s1 then shard_run act fs s1 else Some s1)"

definition register_poller :: "nat \<Rightarrow> 't shard \<Rightarrow> 't shard" where
  "register_poller p s = s\<lparr>sh_pollers := sh_pollers s @ [p]\<rparr>"

definition deregister_poller :: "nat \<Rightarrow> 't shard \<Rightarrow> 't shard" where
  "deregister_poller p s = s\<lparr>sh_pollers := filter (\<lambda>x. x \<noteq> p) (sh_pollers s)\<rparr>"

section \<open>A poll runs what was there, in order\<close>

text \<open>The tasks that get to run: up to and including the first that throws.\<close>

fun until_throw :: "'t act \<Rightarrow> 't list \<Rightarrow> 't list" where
  "until_throw act [] = []"
| "until_throw act (t # ts) = (if te_throws (act t) then [t] else t # until_throw act ts)"

definition posted :: "'t act \<Rightarrow> 't list \<Rightarrow> 't list" where
  "posted act ts = concat (map (\<lambda>t. te_posts (act t)) ts)"

definition any_throws :: "'t act \<Rightarrow> 't list \<Rightarrow> bool" where
  "any_throws act ts \<longleftrightarrow> (\<exists>t\<in>set ts. te_throws (act t))"

lemma fold_post: "fold (post_task True) ts s = s\<lparr>sh_deferred := sh_deferred s @ ts\<rparr>"
  by (induction ts arbitrary: s) (auto simp: post_task_def deferred_push_def)

lemma fold_submit: "fold task_queue_submit ts q = q @ ts"
  by (induction ts arbitrary: q) (auto simp: task_queue_submit_def)

lemma run_task_exact:
  "run_task act t s = (te_throws (act t), s\<lparr>sh_deferred := sh_deferred s @ te_posts (act t), sh_log := sh_log s @ [t]\<rparr>)"
  by (simp add: run_task_def fold_post)

lemma process_tasks_from_spec:
  "process_tasks_from act ts s = (any_throws act ts,
     s\<lparr>sh_tasks := drop (length (until_throw act ts)) ts, sh_deferred := sh_deferred s @ posted act (until_throw act ts),
       sh_log := sh_log s @ until_throw act ts\<rparr>)"
  by (induction act ts s rule: process_tasks_from.induct) (auto simp: run_task_exact any_throws_def posted_def)

lemma consume_inbound_from_spec:
  "consume_inbound_from act ts s = (any_throws act ts,
     s\<lparr>sh_inbound := drop (length (until_throw act ts)) ts, sh_deferred := sh_deferred s @ posted act (until_throw act ts),
       sh_log := sh_log s @ until_throw act ts\<rparr>)"
  by (induction act ts s rule: consume_inbound_from.induct) (auto simp: run_task_exact any_throws_def posted_def)

lemma until_throw_none: "\<not> any_throws act ts \<Longrightarrow> until_throw act ts = ts"
  by (induction ts) (auto simp: any_throws_def)

lemma until_throw_append:
  "until_throw act (xs @ ys) = (if any_throws act xs then until_throw act xs else xs @ until_throw act ys)"
  by (induction xs) (auto simp: any_throws_def)

lemma until_throw_length: "length (until_throw act ts) \<le> length ts"
  by (induction ts) auto

lemma shard_poll_parts:
  fixes s :: "'t shard" and act :: "'t act"
  defines "local \<equiv> sh_tasks s @ sh_deferred s"
  defines "batch \<equiv> until_throw act (local @ sh_inbound s)"
  shows "sh_log (shard_poll act s) = sh_log s @ batch"
    and "sh_deferred (shard_poll act s) = posted act batch"
    and "sh_tasks (shard_poll act s) @ sh_inbound (shard_poll act s) = drop (length batch) (local @ sh_inbound s)"
    and "sh_shutdown_asked (shard_poll act s) \<longleftrightarrow> sh_shutdown_asked s \<or> any_throws act (local @ sh_inbound s)"
proof -
  have p: "process_tasks act (deferred_poll s) = (any_throws act local,
     s\<lparr>sh_tasks := drop (length (until_throw act local)) local, sh_deferred := posted act (until_throw act local),
       sh_log := sh_log s @ until_throw act local\<rparr>)"
    by (simp add: process_tasks_def deferred_poll_def process_tasks_from_spec fold_submit local_def)
  have thr: "any_throws act (local @ sh_inbound s) \<longleftrightarrow> any_throws act local \<or> any_throws act (sh_inbound s)"
    by (auto simp: any_throws_def)
  note defs = shard_poll_def p consume_inbound_def consume_inbound_from_spec handle_exception_def
  show "sh_log (shard_poll act s) = sh_log s @ batch" "sh_deferred (shard_poll act s) = posted act batch"
    "sh_tasks (shard_poll act s) @ sh_inbound (shard_poll act s) = drop (length batch) (local @ sh_inbound s)"
    "sh_shutdown_asked (shard_poll act s) \<longleftrightarrow> sh_shutdown_asked s \<or> any_throws act (local @ sh_inbound s)"
    using until_throw_none [of act local] until_throw_length [of act local]
    by (auto simp: defs Let_def batch_def until_throw_append thr posted_def)
qed

end
