(* ===== verification/Spin_Lock.thy ===== *)
theory Spin_Lock
  imports Steps
begin

text \<open>
  \<^verbatim>\<open>xi/util/spin_lock.h\<close>, with any number of threads: the atomic accesses of \<^verbatim>\<open>lock\<close> and \<^verbatim>\<open>unlock\<close> are the
  steps. \<open>Check\<close> is the assertion at the end of \<^verbatim>\<open>lock\<close>, which reads the state once more.
\<close>

datatype lock_state = Locked | Unlocked

datatype thread_pos = Outside | Spinning nat | Acquired | Inside

record spin_sys =
  sl_state :: lock_state
  sl_pos :: "nat \<Rightarrow> thread_pos"

definition spin_lock_new :: spin_sys where
  "spin_lock_new = \<lparr>sl_state = Unlocked, sl_pos = (\<lambda>_. Outside)\<rparr>"

text \<open>\<^verbatim>\<open>_state.exchange(locked)\<close>: the old value, and the new state.\<close>

definition exchange_locked :: "lock_state \<Rightarrow> lock_state \<times> lock_state" where
  "exchange_locked old = (old, Locked)"

text \<open>One turn of the loop; \<open>attempt\<close> counts the failed exchanges (after eight of them the thread pauses).\<close>

definition lock_turn :: "nat \<Rightarrow> nat \<Rightarrow> spin_sys \<Rightarrow> spin_sys" where
  "lock_turn t attempt s =
     (let (old, new) = exchange_locked (sl_state s)
      in s\<lparr>sl_state := new, sl_pos := (sl_pos s)(t := if old = Locked then Spinning (uadd attempt 1) else Acquired)\<rparr>)"

definition lock_assert :: "nat \<Rightarrow> spin_sys \<Rightarrow> spin_sys option" where
  "lock_assert t s = (if sl_state s = Locked then Some (s\<lparr>sl_pos := (sl_pos s)(t := Inside)\<rparr>) else None)"

definition spin_unlock :: "nat \<Rightarrow> spin_sys \<Rightarrow> spin_sys" where
  "spin_unlock t s = s\<lparr>sl_state := Unlocked, sl_pos := (sl_pos s)(t := Outside)\<rparr>"

inductive spin_step :: "spin_sys \<Rightarrow> spin_sys \<Rightarrow> bool" where
  first_turn: "sl_pos s t = Outside \<Longrightarrow> spin_step s (lock_turn t 0 s)"
| next_turn: "sl_pos s t = Spinning n \<Longrightarrow> spin_step s (lock_turn t n s)"
| check: "sl_pos s t = Acquired \<Longrightarrow> lock_assert t s = Some s' \<Longrightarrow> spin_step s s'"
| release: "sl_pos s t = Inside \<Longrightarrow> spin_step s (spin_unlock t s)"

definition holds_lock :: "nat \<Rightarrow> spin_sys \<Rightarrow> bool" where
  "holds_lock t s \<longleftrightarrow> sl_pos s t \<in> {Acquired, Inside}"

text \<open>The lock is held by nobody when it is free, and by exactly one thread when it is taken.\<close>

definition spin_inv :: "spin_sys \<Rightarrow> bool" where
  "spin_inv s \<longleftrightarrow> (case sl_state s of Unlocked \<Rightarrow> \<forall>t. \<not> holds_lock t s | Locked \<Rightarrow> \<exists>!t. holds_lock t s)"

lemma spin_lock_new_inv: "spin_inv spin_lock_new"
  by (simp add: spin_inv_def spin_lock_new_def holds_lock_def)

lemma lock_turn_inv:
  assumes "spin_inv s" "\<not> holds_lock t s"
  shows "spin_inv (lock_turn t n s)"
proof (cases "sl_state s")
  case Locked
  then have "holds_lock u (lock_turn t n s) = holds_lock u s" for u
    using assms(2) by (simp add: holds_lock_def lock_turn_def exchange_locked_def)
  moreover have "sl_state (lock_turn t n s) = Locked" by (simp add: lock_turn_def exchange_locked_def)
  ultimately show ?thesis using assms(1) Locked by (simp add: spin_inv_def)
next
  case Unlocked
  then have "holds_lock u (lock_turn t n s) \<longleftrightarrow> u = t" for u
    using assms(1) by (simp add: spin_inv_def holds_lock_def lock_turn_def exchange_locked_def)
  moreover have "sl_state (lock_turn t n s) = Locked" by (simp add: lock_turn_def exchange_locked_def)
  ultimately show ?thesis by (simp add: spin_inv_def)
qed

lemma lock_assert_ok:
  assumes "spin_inv s" "holds_lock t s"
  shows "\<exists>s'. lock_assert t s = Some s' \<and> spin_inv s'"
proof -
  have l: "sl_state s = Locked" using assms by (cases "sl_state s") (auto simp: spin_inv_def)
  have "holds_lock u (s\<lparr>sl_pos := (sl_pos s)(t := Inside)\<rparr>) = holds_lock u s" for u
    using assms(2) by (simp add: holds_lock_def)
  then show ?thesis using assms(1) l by (simp add: lock_assert_def spin_inv_def)
qed

lemma spin_unlock_inv:
  assumes "spin_inv s" "holds_lock t s"
  shows "spin_inv (spin_unlock t s)"
proof -
  have "sl_state s = Locked" using assms by (cases "sl_state s") (auto simp: spin_inv_def)
  then have "\<And>u. holds_lock u s \<longleftrightarrow> u = t" using assms by (auto simp: spin_inv_def)
  then have "\<not> holds_lock u (spin_unlock t s)" for u by (auto simp: holds_lock_def spin_unlock_def)
  then show ?thesis by (simp add: spin_inv_def) (simp add: spin_unlock_def)
qed

lemma spin_step_inv: "spin_step s s' \<Longrightarrow> spin_inv s \<Longrightarrow> spin_inv s'"
proof (induction rule: spin_step.induct)
  case (check s t s')
  then show ?case using lock_assert_ok [of s t] by (auto simp: holds_lock_def)
qed (auto intro!: lock_turn_inv spin_unlock_inv simp: holds_lock_def)

interpretation spin: started_system spin_step spin_inv spin_lock_new
  by unfold_locales (rule spin_step_inv, assumption+, rule spin_lock_new_inv)

end
