(* ===== verification/Runtime_Properties.thy ===== *)
theory Runtime_Properties
  imports Ring_Buffer Channel Worker Worker_Policy Scheduler Future Message_Bus Shard Spin_Lock "HOL-Library.Sublist"
begin

text \<open>
  The properties of the runtime: queues, channels, workers, the scheduler, futures, the message bus and
  shards (\<^verbatim>\<open>xi/core\<close>, \<^verbatim>\<open>xi/util\<close>), with concrete instances.
\<close>

section \<open>Queues and channels\<close>



text \<open>
  C7. Channels do not lose wake-ups: in every reachable state receivers wait only while the ring is
  empty, and when senders are blocked although a receiver waits or a slot is free, some sender has
  been woken and still has its value to send.
\<close>

theorem channel_no_lost_wakeup:
  assumes "length slots < 2 ^ 63" "chan_reaches (make_channel slots) s"
  shows "(blocked_receivers (cbus s) \<noteq> [] \<longrightarrow> cb_used (bus_buffer (cbus s)) = 0) \<and>
    (blocked_senders (cbus s) \<noteq> [] \<and> (blocked_receivers (cbus s) \<noteq> [] \<or> 0 < cb_free (bus_buffer (cbus s))) \<longrightarrow>
       (\<exists>p\<in>set (woken s). offer s p \<noteq> None))"
proof -
  have i: "chan_offers {} s" "chan_room 0 s"
    using chan.reach_keeps [OF assms(2) make_channel_inv [OF assms(1)]] by (auto simp: chan_inv_def)
  then have "woken s \<noteq> []" if "blocked_senders (cbus s) \<noteq> []" "blocked_receivers (cbus s) \<noteq> [] \<or> 0 < cb_free (bus_buffer (cbus s))"
    using that by (auto simp: chan_room_def)
  then show ?thesis using i by (auto simp: chan_room_def chan_offers_def intro: hd_in_set)
qed

theorem channel_no_lost_wakeup_witness:
  "\<exists>s :: nat chan_sys. chan_reaches (make_channel []) s \<and> blocked_receivers (cbus s) \<noteq> [] \<and> blocked_senders (cbus s) = [8] \<and>
    (\<exists>p\<in>set (woken s). offer s p \<noteq> None)"
proof -
  define s0 where "s0 = (make_channel [] :: nat chan_sys)"
  define s1 where "s1 = chan_put 7 100 s0"
  define s2 where "s2 = chan_put 8 200 s1"
  define s3 where "s3 = chan_get 9 s2"
  note defs = s0_def s1_def s2_def s3_def make_channel_def chan_put_def chan_get_def put_once_def bus_get_def
    maybe_deliver_def maybe_fill_def cb_pop_def cb_push_def settle_def nothing_def busy_def
  have "chan_step s0 (Send 7 100) s1" unfolding s1_def by (rule send) (simp add: defs)
  moreover have "chan_step s1 (Send 8 200) s2" unfolding s2_def by (rule send) (simp add: defs)
  moreover have "chan_step s2 (Recv 9) s3" unfolding s3_def by (rule recv) (simp add: defs)
  ultimately have r: "chan_reaches (make_channel []) s3"
    unfolding s0_def [symmetric] by (meson chan_next_def rtranclp.rtrancl_refl rtranclp.rtrancl_into_rtrancl)
  have "blocked_receivers (cbus s3) \<noteq> []" "blocked_senders (cbus s3) = [8]" by (simp_all add: defs)
  then show ?thesis using channel_no_lost_wakeup [of "[]", OF _ r] r by (intro exI [of _ s3]) simp
qed

text \<open>
  A channel without a buffer (or with one slot, which is never used) delivers exactly what was
  sent: in every reachable state the values received are the values accepted, in the same order.
\<close>

theorem channel_exact:
  assumes "length slots \<le> 1" "chan_reaches (make_channel slots) s"
  shows "received s = accepted s"
proof -
  have "chan_exact_inv (make_channel slots)"
    using assms(1) make_channel_inv [of slots] by (simp add: chan_exact_inv_def) (simp add: make_channel_def)
  from rendezvous.reach_keeps [OF assms(2) this] show ?thesis by (simp add: chan_exact_inv_def)
qed

theorem channel_exact_witness: "received (chan_put 2 5 (chan_get 1 (make_channel [0 :: nat]))) = [5]"
proof -
  let ?s = "chan_get 1 (make_channel [0 :: nat])"
  note defs = make_channel_def chan_put_def chan_get_def put_once_def bus_get_def maybe_deliver_def maybe_fill_def
    cb_pop_def cb_push_def settle_def nothing_def busy_def
  have "chan_step (make_channel [0]) (Recv 1) ?s" by (rule recv) (simp add: defs)
  moreover have "chan_step ?s (Send 2 5) (chan_put 2 5 ?s)" by (rule send) (simp add: defs)
  ultimately have "chan_reaches (make_channel [0]) (chan_put 2 5 ?s)"
    by (meson chan_next_def rtranclp.rtrancl_refl rtranclp.rtrancl_into_rtrancl)
  from channel_exact [OF _ this] have "received (chan_put 2 5 ?s) = accepted (chan_put 2 5 ?s)" by simp
  then show ?thesis by (simp add: defs)
qed

text \<open>
  The ring of a buffered channel hands out values one behind: what is popped is what was in the
  first slot at the start, followed by the accepted values from the first on, and the last accepted
  value always stays inside.
\<close>

theorem channel_buffer_lags:
  assumes "slots \<noteq> []" "length slots < 2 ^ 63"
    and "cb_run ops \<lparr>cb_queue = slots, cb_head = 0, cb_tail = 0\<rparr> = (acc, got, b)"
  shows "got = take (length got) (hd slots # acc) \<and> length got \<le> length acc"
proof -
  let ?b = "\<lparr>cb_queue = slots, cb_head = 0, cb_tail = 0\<rparr>"
  have "cb_wf ?b" "0 < cb_size ?b" using assms(1,2) by (auto simp: cb_wf_def)
  from cb_run_window [OF this assms(3)] have w: "got @ cb_window b = cb_window ?b @ acc" by simp
  have "cb_window ?b = [hd slots]" using assms(1) by (simp add: cb_window_def cb_used_def hd_conv_nth)
  with w have e: "got @ cb_window b = hd slots # acc" by simp
  then have "got = take (length got) (hd slots # acc)" by (metis append_eq_conv_conj)
  moreover have "length got < length (hd slots # acc)" using arg_cong [OF e, of length] by (cases "cb_window b") auto
  ultimately show ?thesis by simp
qed

theorem channel_buffer_lags_witness:
  "fst (snd (cb_run [Push 11, Pop, Push 12, Pop] \<lparr>cb_queue = [0, 0, 0 :: nat], cb_head = 0, cb_tail = 0\<rparr>)) = [0, 11]"
proof -
  obtain acc got b where r: "cb_run [Push 11, Pop, Push 12, Pop] \<lparr>cb_queue = [0, 0, 0 :: nat], cb_head = 0, cb_tail = 0\<rparr> = (acc, got, b)"
    by (cases "cb_run [Push 11, Pop, Push 12, Pop] \<lparr>cb_queue = [0, 0, 0 :: nat], cb_head = 0, cb_tail = 0\<rparr>") auto
  have "acc = [11, 12] \<and> length got = 2"
    using r by (auto simp: cb_push_def cb_pop_def next_idx_def push_at_def pop_at_def uadd_def)
  then show ?thesis using channel_buffer_lags [OF _ _ r] r by simp
qed

section \<open>Workers and the scheduler\<close>





text \<open>
  The budget carried over at the end of a round is not what was left: a round that leaves budget
  over makes the allocation of the next one exactly the configured maximum, and any other round resets it.
\<close>

theorem worker_round_budget:
  assumes "worker_inv (Round_end isol loop, w)"
  shows "w_alloc (snd (round_end_step isol loop w)) =
    (if budget_is_expended loop then loop_budget_allocation (w_config w) else max_loop_budget_allocation (w_config w))"
  using assms by (rule round_end_alloc)

theorem worker_round_budget_witness:
  "w_alloc (snd (round_end_step (budget_new 1 0 0) ((budget_new 1000000 0 0)\<lparr>eb_curr_tsc := 999999\<rparr>) (worker_new DEFAULT_CONFIG))) = 5000000"
proof -
  let ?l = "(budget_new 1000000 0 0)\<lparr>eb_curr_tsc := 999999\<rparr>"
  have "worker_inv (Round_end (budget_new 1 0 0) ?l, worker_new DEFAULT_CONFIG)"
    by (simp add: worker_inv_def pc_ok_def worker_new_def budget_new_def DEFAULT_CONFIG_def)
  moreover have "\<not> budget_is_expended ?l" by (simp add: budget_is_expended_def budget_new_def)
  ultimately show ?thesis using worker_round_budget [of "budget_new 1 0 0" ?l "worker_new DEFAULT_CONFIG"]
    by (simp add: worker_new_def DEFAULT_CONFIG_def)
qed

text \<open>
  The sleep queue wakes exactly the sleepers that are due, in the order of their times, resets
  their wake-up times, keeps the others, and stays in order; the early exit on \<^verbatim>\<open>_next_item\<close> is sound.
\<close>

theorem sleep_queue_due:
  assumes "sq_wf s" "cutoff < time_max" "sq_dequeue_into cutoff s q = (s', q')"
  shows "sq_wf s' \<and> sq_queue s' = filter (\<lambda>x. cutoff < rs_wakeup x) (sq_queue s) \<and>
    q' = q @ map (\<lambda>x. x\<lparr>rs_wakeup := time_max\<rparr>) (filter (\<lambda>x. rs_wakeup x \<le> cutoff) (sq_queue s))"
  using sq_dequeue_into_spec [OF assms(1,2), of q] sq_dequeue_into_wf [OF assms(1,2), of q] assms(3) by (auto simp: Let_def)

theorem sleep_queue_due_witness:
  "snd (sq_dequeue_into 15 (sq_enqueue 20 \<lparr>rs_id = 2, rs_wakeup = 0\<rparr> (sq_enqueue 10 \<lparr>rs_id = 1, rs_wakeup = 0\<rparr> sq_new)) []) =
     [\<lparr>rs_id = 1, rs_wakeup = time_max\<rparr>]"
proof -
  let ?s = "sq_enqueue 20 \<lparr>rs_id = 2, rs_wakeup = 0\<rparr> (sq_enqueue 10 \<lparr>rs_id = 1, rs_wakeup = 0\<rparr> sq_new)"
  have "sq_wf ?s" by (intro sq_enqueue_wf sq_new_wf) (simp_all add: time_max_def)
  moreover have "sq_queue ?s = [\<lparr>rs_id = 1, rs_wakeup = 10\<rparr>, \<lparr>rs_id = 2, rs_wakeup = 20\<rparr>]" by (simp add: sq_enqueue_def sq_new_def)
  ultimately show ?thesis
    using sleep_queue_due [of ?s 15 "[]" "fst (sq_dequeue_into 15 ?s [])" "snd (sq_dequeue_into 15 ?s [])"]
    by (simp add: time_max_def)
qed

text \<open>
  Two sleepers with the same wake-up time: the second one is in no queue afterwards. In the worker
  it is gone; the isolation policy stops at an assertion.
\<close>

theorem sleep_clash_lost:
  assumes "sq_wf s" "when \<in> rs_wakeup ` set (sq_queue s)"
  shows "sq_queue (sq_enqueue when r s) = sq_queue s \<and>
    (\<forall>d now ns. sleep_wf d \<and> wd_sleep d = sq_queue s \<and> now + ns = when \<and> \<not> is_linked r (wd_sleep d) \<longrightarrow>
      policy_sleep_for now r ns d = None)"
  using assms policy_sleep_clash by (auto simp: sq_enqueue_def Let_def sq_wf_def set_insert_present)

theorem sleep_clash_lost_witness:
  "sq_queue (sq_enqueue 10 \<lparr>rs_id = 2, rs_wakeup = 0\<rparr> (sq_enqueue 10 \<lparr>rs_id = 1, rs_wakeup = 0\<rparr> sq_new)) = [\<lparr>rs_id = 1, rs_wakeup = 10\<rparr>]"
proof -
  let ?s = "sq_enqueue 10 \<lparr>rs_id = 1, rs_wakeup = 0\<rparr> sq_new"
  have "sq_wf ?s" by (intro sq_enqueue_wf sq_new_wf) (simp add: time_max_def)
  moreover have "sq_queue ?s = [\<lparr>rs_id = 1, rs_wakeup = 10\<rparr>]" by (simp add: sq_enqueue_def sq_new_def)
  ultimately show ?thesis using sleep_clash_lost [of ?s 10] by simp
qed




text \<open>
  C27. The spin lock excludes: in every state the threads can reach, at most one of them is past the
  successful exchange, and the assertion at the end of \<^verbatim>\<open>lock\<close> holds for it.
\<close>

theorem spin_lock_mutex:
  assumes "spin_step\<^sup>*\<^sup>* spin_lock_new s" "holds_lock t s"
  shows "(holds_lock u s \<longrightarrow> u = t) \<and> lock_assert t s \<noteq> None"
proof -
  have i: "spin_inv s" by (rule spin.reachable_inv [OF assms(1)])
  then have "sl_state s = Locked" using assms(2) by (cases "sl_state s") (auto simp: spin_inv_def)
  then have "holds_lock u s \<longrightarrow> u = t" using i assms(2) by (auto simp: spin_inv_def)
  then show ?thesis using lock_assert_ok [OF i assms(2)] by auto
qed

theorem spin_lock_mutex_witness: "\<not> holds_lock 2 (lock_turn 2 0 (lock_turn 1 0 spin_lock_new))"
proof -
  let ?s1 = "lock_turn 1 0 spin_lock_new" and ?s2 = "lock_turn 2 0 (lock_turn 1 0 spin_lock_new)"
  note defs = lock_turn_def exchange_locked_def spin_lock_new_def holds_lock_def
  have "spin_step spin_lock_new ?s1" by (rule first_turn) (simp add: defs)
  moreover have "spin_step ?s1 ?s2" by (rule first_turn) (simp add: defs)
  ultimately have "spin_step\<^sup>*\<^sup>* spin_lock_new ?s2" by (meson rtranclp.rtrancl_refl rtranclp.rtrancl_into_rtrancl)
  moreover have "holds_lock 1 ?s2" by (simp add: defs)
  ultimately show ?thesis using spin_lock_mutex [of ?s2 1 2] by auto
qed

section \<open>Results, futures, messages and shards\<close>

text \<open>
  A chain of \<^verbatim>\<open>then\<close> on a result stops at the first error: the callbacks before it have run, its error
  is the result of the chain, and no later callback is called.
\<close>

theorem result_chain_first_error:
  assumes "succeeds before x s y t" "f y t = (Returns (Err e), u)"
  shows "then_chain (before @ f # after) (Ok x) s = (Returns (Err e), u)"
  using then_chain_succeeds [OF assms(1), of "f # after"] assms(2) by (simp add: then_chain_error)

theorem result_chain_first_error_witness:
  "then_chain [\<lambda>x n. (Returns (Ok (x + 1)), n + 1), \<lambda>x n. (Returns (Err (Error_code 5 Generic_category)), n + 10),
     \<lambda>x n. (Aborts, n + 100)] (Ok (1 :: nat)) (0 :: nat) = (Returns (Err (Error_code 5 Generic_category)), 11)"
  using result_chain_first_error [where before = "[\<lambda>x n. (Returns (Ok (x + 1)), n + 1)]" and x = "1 :: nat" and s = "0 :: nat"
      and y = 2 and t = 1 and f = "\<lambda>x n. (Returns (Err (Error_code 5 Generic_category)), n + 10)" and u = 11
      and after = "[\<lambda>x n. (Aborts, n + 100)]"]
  by simp







text \<open>
  C28. One poll of a shard runs what was queued, in order: the submitted tasks, the deferred ones, then the
  ones from other threads, up to and including the first that throws. What they post is deferred to the
  next poll, nothing is dropped, and a shutdown is asked for exactly if one of them throws.
\<close>

theorem shard_poll_spec:
  fixes s :: "'t shard" and act :: "'t act"
  shows "let todo = sh_tasks s @ sh_deferred s @ sh_inbound s; batch = until_throw act todo; s' = shard_poll act s
    in sh_log s' = sh_log s @ batch \<and> sh_deferred s' = posted act batch \<and>
       sh_tasks s' @ sh_inbound s' = drop (length batch) todo \<and>
       (sh_shutdown_asked s' \<longleftrightarrow> sh_shutdown_asked s \<or> any_throws act todo)"
  using shard_poll_parts [of act s] by (simp add: Let_def)

theorem shard_poll_spec_witness:
  "sh_log (shard_poll (\<lambda>t. \<lparr>te_posts = [t + 10], te_throws = (t = 2)\<rparr>)
     (post_task False 3 (post_task True 2 (post_task True (1 :: nat) shard_new)))) = [1, 2]"
  using shard_poll_spec [of "post_task False 3 (post_task True 2 (post_task True (1 :: nat) shard_new))"
      "\<lambda>t. \<lparr>te_posts = [t + 10], te_throws = (t = 2)\<rparr>"]
  by (simp add: Let_def post_task_def deferred_push_def push_task_to_inbound_queue_def shard_new_def)

end
