(* ===== verification/Pipes.thy ===== *)
theory Pipes
  imports Steps
begin

text \<open>
  The filter pipes of \<^verbatim>\<open>xi/io/pipes\<close>. A pipe owns a deque of filter contexts; for every message type
  a context declares, it holds a raw pointer to the next context that reads the type and to the next one
  that writes it, and the pipe holds the head for reads and the tail for writes. The template recursion
  over the declared messages is recursion over the list of declarations. A context is named by its
  address; \<open>objs\<close> holds the contexts that are alive, and following a pointer to any other is
  \<open>Dangling\<close>.

  The code of a filter is a program: it runs up to its next call of the context, and goes on from the state
  the call left behind. \<open>'f\<close> is the state of all filters, \<open>'m\<close> names the message types, \<open>'v\<close> the values.
\<close>

section \<open>Contexts and links\<close>

datatype 'm modifier = Read_only 'm | Write_only 'm | Read_write 'm

record 'm filter_context =
  cx_decl :: "'m modifier list"
  next_read :: "'m \<Rightarrow> addr option"
  next_write :: "'m \<Rightarrow> addr option"

record 'm pipe =
  pipe_decl :: "'m modifier list"
  contexts :: "addr list"
  objs :: "addr \<Rightarrow> 'm filter_context option"
  head :: "'m \<Rightarrow> addr option"
  tail :: "'m \<Rightarrow> addr option"
  removals :: "addr list"

datatype pipe_error = Dangling | Out_of_fuel

definition make_pipe :: "'m modifier list \<Rightarrow> 'm pipe" where
  "make_pipe ms = \<lparr>pipe_decl = ms, contexts = [], objs = (\<lambda>_. None), head = (\<lambda>_. None), tail = (\<lambda>_. None), removals = []\<rparr>"

definition make_filter_context :: "'m modifier list \<Rightarrow> 'm filter_context" where
  "make_filter_context ms = \<lparr>cx_decl = ms, next_read = (\<lambda>_. None), next_write = (\<lambda>_. None)\<rparr>"

text \<open>\<^verbatim>\<open>dynamic_cast\<close> to \<^verbatim>\<open>read_link<M>\<close> and \<^verbatim>\<open>write_link<M>\<close>: which messages the context derives links for.\<close>

definition reads :: "'m modifier list \<Rightarrow> 'm \<Rightarrow> bool" where
  "reads ms m \<longleftrightarrow> Read_write m \<in> set ms \<or> Read_only m \<in> set ms"

definition writes :: "'m modifier list \<Rightarrow> 'm \<Rightarrow> bool" where
  "writes ms m \<longleftrightarrow> Read_write m \<in> set ms \<or> Write_only m \<in> set ms"

text \<open>\<open>d\<close> and \<open>ds\<close> are the other context and its declarations.\<close>

definition read_add_link_if_null :: "addr \<Rightarrow> 'm modifier list \<Rightarrow> 'm \<Rightarrow> 'm filter_context \<Rightarrow> 'm filter_context" where
  "read_add_link_if_null d ds m cx =
     (if reads ds m \<and> next_read cx m = None then cx\<lparr>next_read := (next_read cx)(m \<mapsto> d)\<rparr> else cx)"

definition write_add_link_if_null :: "addr \<Rightarrow> 'm modifier list \<Rightarrow> 'm \<Rightarrow> 'm filter_context \<Rightarrow> 'm filter_context" where
  "write_add_link_if_null d ds m cx =
     (if writes ds m \<and> next_write cx m = None then cx\<lparr>next_write := (next_write cx)(m \<mapsto> d)\<rparr> else cx)"

fun add_read_if_null :: "'m modifier list \<Rightarrow> addr \<Rightarrow> 'm modifier list \<Rightarrow> 'm filter_context \<Rightarrow> 'm filter_context" where
  "add_read_if_null [] d ds cx = cx"
| "add_read_if_null (Read_write m # ms) d ds cx = add_read_if_null ms d ds (read_add_link_if_null d ds m cx)"
| "add_read_if_null (Read_only m # ms) d ds cx = add_read_if_null ms d ds (read_add_link_if_null d ds m cx)"
| "add_read_if_null (Write_only m # ms) d ds cx = add_read_if_null ms d ds cx"

fun add_write_if_null :: "'m modifier list \<Rightarrow> addr \<Rightarrow> 'm modifier list \<Rightarrow> 'm filter_context \<Rightarrow> 'm filter_context" where
  "add_write_if_null [] d ds cx = cx"
| "add_write_if_null (Read_write m # ms) d ds cx = add_write_if_null ms d ds (write_add_link_if_null d ds m cx)"
| "add_write_if_null (Read_only m # ms) d ds cx = add_write_if_null ms d ds cx"
| "add_write_if_null (Write_only m # ms) d ds cx = add_write_if_null ms d ds (write_add_link_if_null d ds m cx)"

text \<open>\<open>d\<close> is the context being removed and \<open>nr\<close>, \<open>nw\<close> its own links.\<close>

definition link_unlink_read :: "addr \<Rightarrow> ('m \<Rightarrow> addr option) \<Rightarrow> 'm \<Rightarrow> 'm filter_context \<Rightarrow> 'm filter_context" where
  "link_unlink_read d nr m cx = (if next_read cx m = Some d then cx\<lparr>next_read := (next_read cx)(m := nr m)\<rparr> else cx)"

definition link_unlink_write :: "addr \<Rightarrow> ('m \<Rightarrow> addr option) \<Rightarrow> 'm \<Rightarrow> 'm filter_context \<Rightarrow> 'm filter_context" where
  "link_unlink_write d nw m cx = (if next_write cx m = Some d then cx\<lparr>next_write := (next_write cx)(m := nw m)\<rparr> else cx)"

fun unlink_read :: "'m modifier list \<Rightarrow> addr \<Rightarrow> ('m \<Rightarrow> addr option) \<Rightarrow> 'm filter_context \<Rightarrow> 'm filter_context" where
  "unlink_read [] d nr cx = cx"
| "unlink_read (Read_write m # ms) d nr cx = unlink_read ms d nr (link_unlink_read d nr m cx)"
| "unlink_read (Read_only m # ms) d nr cx = unlink_read ms d nr (link_unlink_read d nr m cx)"
| "unlink_read (Write_only m # ms) d nr cx = unlink_read ms d nr cx"

fun unlink_write :: "'m modifier list \<Rightarrow> addr \<Rightarrow> ('m \<Rightarrow> addr option) \<Rightarrow> 'm filter_context \<Rightarrow> 'm filter_context" where
  "unlink_write [] d nw cx = cx"
| "unlink_write (Read_write m # ms) d nw cx = unlink_write ms d nw (link_unlink_write d nw m cx)"
| "unlink_write (Read_only m # ms) d nw cx = unlink_write ms d nw cx"
| "unlink_write (Write_only m # ms) d nw cx = unlink_write ms d nw (link_unlink_write d nw m cx)"

section \<open>The deque of contexts\<close>

definition update_context :: "addr \<Rightarrow> ('m filter_context \<Rightarrow> 'm filter_context) \<Rightarrow> 'm pipe \<Rightarrow> 'm pipe" where
  "update_context c f p = p\<lparr>objs := (objs p)(c := map_option f (objs p c))\<rparr>"

definition decl_of :: "'m pipe \<Rightarrow> addr \<Rightarrow> 'm modifier list" where
  "decl_of p c = (case objs p c of None \<Rightarrow> [] | Some cx \<Rightarrow> cx_decl cx)"

text \<open>\<open>link_reads p d c\<close>: \<^verbatim>\<open>c->add_read_if_null(d)\<close>; \<open>link_writes p d c\<close>: \<^verbatim>\<open>c->add_write_if_null(d)\<close>.\<close>

definition link_reads :: "addr \<Rightarrow> addr \<Rightarrow> 'm pipe \<Rightarrow> 'm pipe" where
  "link_reads d c p = update_context c (add_read_if_null (decl_of p c) d (decl_of p d)) p"

definition link_writes :: "addr \<Rightarrow> addr \<Rightarrow> 'm pipe \<Rightarrow> 'm pipe" where
  "link_writes d c p = update_context c (add_write_if_null (decl_of p c) d (decl_of p d)) p"

definition base_push_front :: "addr \<Rightarrow> 'm pipe \<Rightarrow> 'm pipe" where
  "base_push_front n p =
     (let p1 = fold (\<lambda>c. link_writes c n) (contexts p) p;
          p2 = fold (link_reads n) (rev (contexts p)) p1
      in p2\<lparr>contexts := n # contexts p\<rparr>)"

definition base_push_back :: "addr \<Rightarrow> 'm pipe \<Rightarrow> 'm pipe" where
  "base_push_back n p =
     (let p1 = fold (link_reads n) (contexts p) p;
          p2 = fold (\<lambda>c. link_writes c n) (rev (contexts p)) p1
      in p2\<lparr>contexts := contexts p @ [n]\<rparr>)"

definition points_to :: "'m filter_context \<Rightarrow> addr \<Rightarrow> bool" where
  "points_to cx d \<longleftrightarrow>
     list_ex (\<lambda>x. case x of Read_write m \<Rightarrow> next_read cx m = Some d \<or> next_write cx m = Some d
       | Read_only m \<Rightarrow> next_read cx m = Some d | Write_only m \<Rightarrow> next_write cx m = Some d) (cx_decl cx)"

text \<open>\<^verbatim>\<open>cx->unlink_read(ctx); cx->unlink_write(ctx)\<close>: a link to \<open>d\<close> is replaced by what \<open>d\<close> links to.\<close>

definition unlink_context :: "addr \<Rightarrow> addr \<Rightarrow> 'm pipe \<Rightarrow> pipe_error + 'm pipe" where
  "unlink_context d c p =
     (case objs p c of
        None \<Rightarrow> Inl Dangling
      | Some cx \<Rightarrow> (case objs p d of
          None \<Rightarrow> if points_to cx d then Inl Dangling else Inr p
        | Some dx \<Rightarrow> Inr (update_context c
            (\<lambda>cx. unlink_write (cx_decl cx) d (next_write dx) (unlink_read (cx_decl cx) d (next_read dx) cx)) p)))"

fun unlink_all :: "addr \<Rightarrow> addr list \<Rightarrow> 'm pipe \<Rightarrow> pipe_error + 'm pipe" where
  "unlink_all d [] p = Inr p"
| "unlink_all d (c # cs) p = (case unlink_context d c p of Inl e \<Rightarrow> Inl e | Inr p' \<Rightarrow> unlink_all d cs p')"

text \<open>Erasing the context from the deque destroys it.\<close>

definition base_remove :: "addr \<Rightarrow> 'm pipe \<Rightarrow> pipe_error + 'm pipe" where
  "base_remove d p = map_sum id
     (\<lambda>p'. p'\<lparr>contexts := filter (\<lambda>c. c \<noteq> d) (contexts p'),
             objs := (if d \<in> set (contexts p') then (objs p')(d := None) else objs p')\<rparr>)
     (unlink_all d (contexts p) p)"

section \<open>Head and tail\<close>

definition set_head_if_reads :: "addr \<Rightarrow> 'm \<Rightarrow> 'm pipe \<Rightarrow> 'm pipe" where
  "set_head_if_reads c m p = (if reads (decl_of p c) m then p\<lparr>head := (head p)(m \<mapsto> c)\<rparr> else p)"

definition set_tail_if_writes :: "addr \<Rightarrow> 'm \<Rightarrow> 'm pipe \<Rightarrow> 'm pipe" where
  "set_tail_if_writes c m p = (if writes (decl_of p c) m then p\<lparr>tail := (tail p)(m \<mapsto> c)\<rparr> else p)"

fun link_update_head :: "addr \<Rightarrow> 'm modifier \<Rightarrow> 'm pipe \<Rightarrow> 'm pipe" where
  "link_update_head c (Read_write m) p =
     (let p1 = set_head_if_reads c m p in if tail p1 m = None then set_tail_if_writes c m p1 else p1)"
| "link_update_head c (Read_only m) p = set_head_if_reads c m p"
| "link_update_head c (Write_only m) p = (if tail p m = None then set_tail_if_writes c m p else p)"

fun link_update_tail :: "addr \<Rightarrow> 'm modifier \<Rightarrow> 'm pipe \<Rightarrow> 'm pipe" where
  "link_update_tail c (Read_write m) p =
     (let p1 = set_tail_if_writes c m p in if head p1 m = None then set_head_if_reads c m p1 else p1)"
| "link_update_tail c (Read_only m) p = (if head p m = None then set_head_if_reads c m p else p)"
| "link_update_tail c (Write_only m) p = set_tail_if_writes c m p"

text \<open>\<^verbatim>\<open>maybe_change_head\<close> follows the link of the head it replaces; so does the one for the tail.\<close>

definition change_head :: "addr \<Rightarrow> 'm \<Rightarrow> 'm pipe \<Rightarrow> pipe_error + 'm pipe" where
  "change_head c m p =
     (if head p m = Some c
      then case objs p c of None \<Rightarrow> Inl Dangling | Some cx \<Rightarrow> Inr (p\<lparr>head := (head p)(m := next_read cx m)\<rparr>)
      else Inr p)"

definition change_tail :: "addr \<Rightarrow> 'm \<Rightarrow> 'm pipe \<Rightarrow> pipe_error + 'm pipe" where
  "change_tail c m p =
     (if tail p m = Some c
      then case objs p c of None \<Rightarrow> Inl Dangling | Some cx \<Rightarrow> Inr (p\<lparr>tail := (tail p)(m := next_write cx m)\<rparr>)
      else Inr p)"

fun link_change_head :: "addr \<Rightarrow> 'm modifier \<Rightarrow> 'm pipe \<Rightarrow> pipe_error + 'm pipe" where
  "link_change_head c (Read_write m) p = change_head c m p"
| "link_change_head c (Read_only m) p = change_head c m p"
| "link_change_head c (Write_only m) p = Inr p"

fun link_change_tail :: "addr \<Rightarrow> 'm modifier \<Rightarrow> 'm pipe \<Rightarrow> pipe_error + 'm pipe" where
  "link_change_tail c (Read_write m) p = change_tail c m p"
| "link_change_tail c (Read_only m) p = Inr p"
| "link_change_tail c (Write_only m) p = change_tail c m p"

fun for_messages :: "('m modifier \<Rightarrow> 'm pipe \<Rightarrow> pipe_error + 'm pipe) \<Rightarrow> 'm modifier list \<Rightarrow> 'm pipe \<Rightarrow> pipe_error + 'm pipe" where
  "for_messages f [] p = Inr p"
| "for_messages f (x # xs) p = (case f x p of Inl e \<Rightarrow> Inl e | Inr p' \<Rightarrow> for_messages f xs p')"

definition maybe_update_head :: "addr \<Rightarrow> 'm pipe \<Rightarrow> 'm pipe" where
  "maybe_update_head c p = fold (link_update_head c) (pipe_decl p) p"

definition maybe_update_tail :: "addr \<Rightarrow> 'm pipe \<Rightarrow> 'm pipe" where
  "maybe_update_tail c p = fold (link_update_tail c) (pipe_decl p) p"

definition maybe_change_head :: "addr \<Rightarrow> 'm pipe \<Rightarrow> pipe_error + 'm pipe" where
  "maybe_change_head c p = for_messages (link_change_head c) (pipe_decl p) p"

definition maybe_change_tail :: "addr \<Rightarrow> 'm pipe \<Rightarrow> pipe_error + 'm pipe" where
  "maybe_change_tail c p = for_messages (link_change_tail c) (pipe_decl p) p"

section \<open>The control interface\<close>

text \<open>\<open>n\<close> is the address the new context gets.\<close>

definition add_context :: "addr \<Rightarrow> 'm modifier list \<Rightarrow> 'm pipe \<Rightarrow> 'm pipe" where
  "add_context n ms p = p\<lparr>objs := (objs p)(n \<mapsto> make_filter_context ms)\<rparr>"

definition push_front_ctx :: "addr \<Rightarrow> 'm pipe \<Rightarrow> 'm pipe" where
  "push_front_ctx n p = maybe_update_head n (base_push_front n p)"

definition push_back_ctx :: "addr \<Rightarrow> 'm pipe \<Rightarrow> 'm pipe" where
  "push_back_ctx n p = maybe_update_tail n (base_push_back n p)"

definition push_front :: "addr \<Rightarrow> 'm modifier list \<Rightarrow> 'm pipe \<Rightarrow> 'm pipe" where
  "push_front n ms p = push_front_ctx n (add_context n ms p)"

definition push_back :: "addr \<Rightarrow> 'm modifier list \<Rightarrow> 'm pipe \<Rightarrow> 'm pipe" where
  "push_back n ms p = push_back_ctx n (add_context n ms p)"

text \<open>The head and the tail change at once; the links change when the shard runs the deferred task.\<close>

definition remove :: "addr \<Rightarrow> 'm pipe \<Rightarrow> pipe_error + 'm pipe" where
  "remove c p =
     (case maybe_change_head c p of Inl e \<Rightarrow> Inl e
      | Inr p1 \<Rightarrow> (case maybe_change_tail c p1 of Inl e \<Rightarrow> Inl e
         | Inr p2 \<Rightarrow> Inr (p2\<lparr>removals := removals p2 @ [c]\<rparr>)))"

definition run_removal :: "'m pipe \<Rightarrow> pipe_error + 'm pipe" where
  "run_removal p = (case removals p of [] \<Rightarrow> Inr p | d # ds \<Rightarrow> base_remove d (p\<lparr>removals := ds\<rparr>))"

section \<open>Messages\<close>

datatype ('m, 'v) action = Forward_read 'm 'v | Forward_write 'm 'v | Remove_me

datatype ('m, 'v, 'f) program = Return | Do "('m, 'v) action" "'f \<Rightarrow> 'f \<times> ('m, 'v, 'f) program"

datatype direction = Reading | Writing

type_synonym ('m, 'v, 'f) filters = "addr \<Rightarrow> direction \<Rightarrow> 'm \<Rightarrow> 'v \<Rightarrow> 'f \<Rightarrow> 'f \<times> ('m, 'v, 'f) program"

text \<open>\<^verbatim>\<open>filter_impl\<close>: a filter that does not override a method passes the message on.\<close>

fun filter_impl :: "direction \<Rightarrow> 'm \<Rightarrow> 'v \<Rightarrow> 'f \<Rightarrow> 'f \<times> ('m, 'v, 'f) program" where
  "filter_impl Reading m v f = (f, Do (Forward_read m v) (\<lambda>f'. (f', Return)))"
| "filter_impl Writing m v f = (f, Do (Forward_write m v) (\<lambda>f'. (f', Return)))"

text \<open>
  \<open>deliver\<close> calls the filter of a context; \<open>run_filter\<close> runs its program, where a call of the context delivers
  to the next one, if there is one. Each nested call and each step costs one unit of fuel.
\<close>

fun deliver :: "nat \<Rightarrow> ('m, 'v, 'f) filters \<Rightarrow> direction \<Rightarrow> 'm \<Rightarrow> 'v \<Rightarrow> addr option \<Rightarrow> 'm pipe \<times> 'f \<Rightarrow>
      pipe_error + 'm pipe \<times> 'f"
  and run_filter :: "nat \<Rightarrow> ('m, 'v, 'f) filters \<Rightarrow> addr \<Rightarrow> ('m, 'v, 'f) program \<Rightarrow> 'm pipe \<times> 'f \<Rightarrow>
      pipe_error + 'm pipe \<times> 'f" where
  "deliver n fs dir m v None s = Inr s"
| "deliver 0 fs dir m v (Some c) s = Inl Out_of_fuel"
| "deliver (Suc n) fs dir m v (Some c) (p, f) =
     (if objs p c = None then Inl Dangling
      else let (f', prog) = fs c dir m v f in run_filter n fs c prog (p, f'))"
| "run_filter n fs c Return s = Inr s"
| "run_filter 0 fs c (Do a k) s = Inl Out_of_fuel"
| "run_filter (Suc n) fs c (Do a k) (p, f) =
     (case objs p c of
        None \<Rightarrow> Inl Dangling
      | Some cx \<Rightarrow>
          (case (case a of
                   Forward_read m v \<Rightarrow> deliver n fs Reading m v (next_read cx m) (p, f)
                 | Forward_write m v \<Rightarrow> deliver n fs Writing m v (next_write cx m) (p, f)
                 | Remove_me \<Rightarrow> map_sum id (\<lambda>p'. (p', f)) (remove c p)) of
             Inl e \<Rightarrow> Inl e
           | Inr (p', f') \<Rightarrow> let (f'', prog) = k f' in run_filter n fs c prog (p', f'')))"

definition pipe_read :: "nat \<Rightarrow> ('m, 'v, 'f) filters \<Rightarrow> 'm \<Rightarrow> 'v \<Rightarrow> 'm pipe \<times> 'f \<Rightarrow> pipe_error + 'm pipe \<times> 'f" where
  "pipe_read n fs m v s = deliver n fs Reading m v (head (fst s) m) s"

definition pipe_write :: "nat \<Rightarrow> ('m, 'v, 'f) filters \<Rightarrow> 'm \<Rightarrow> 'v \<Rightarrow> 'm pipe \<times> 'f \<Rightarrow> pipe_error + 'm pipe \<times> 'f" where
  "pipe_write n fs m v s = deliver n fs Writing m v (tail (fst s) m) s"

section \<open>Links as functions of the pipe\<close>

definition nread :: "'m pipe \<Rightarrow> addr \<Rightarrow> 'm \<Rightarrow> addr option" where
  "nread p c m = Option.bind (objs p c) (\<lambda>cx. next_read cx m)"

definition nwrite :: "'m pipe \<Rightarrow> addr \<Rightarrow> 'm \<Rightarrow> addr option" where
  "nwrite p c m = Option.bind (objs p c) (\<lambda>cx. next_write cx m)"

lemma reads_simps [simp]:
  "\<not> reads [] m" "reads (Read_write k # ms) m \<longleftrightarrow> k = m \<or> reads ms m"
  "reads (Read_only k # ms) m \<longleftrightarrow> k = m \<or> reads ms m" "reads (Write_only k # ms) m \<longleftrightarrow> reads ms m"
  by (auto simp: reads_def)

lemma writes_simps [simp]:
  "\<not> writes [] m" "writes (Read_write k # ms) m \<longleftrightarrow> k = m \<or> writes ms m"
  "writes (Write_only k # ms) m \<longleftrightarrow> k = m \<or> writes ms m" "writes (Read_only k # ms) m \<longleftrightarrow> writes ms m"
  by (auto simp: writes_def)

lemma add_read_if_null_view [simp]:
  "cx_decl (add_read_if_null ms d ds cx) = cx_decl cx"
  "next_write (add_read_if_null ms d ds cx) = next_write cx"
  "next_read (add_read_if_null ms d ds cx) m =
     (if reads ms m \<and> reads ds m \<and> next_read cx m = None then Some d else next_read cx m)"
  by (induction ms d ds cx rule: add_read_if_null.induct) (auto simp: read_add_link_if_null_def)

lemma add_write_if_null_view [simp]:
  "cx_decl (add_write_if_null ms d ds cx) = cx_decl cx"
  "next_read (add_write_if_null ms d ds cx) = next_read cx"
  "next_write (add_write_if_null ms d ds cx) m =
     (if writes ms m \<and> writes ds m \<and> next_write cx m = None then Some d else next_write cx m)"
  by (induction ms d ds cx rule: add_write_if_null.induct) (auto simp: write_add_link_if_null_def)

lemma unlink_read_view [simp]:
  "cx_decl (unlink_read ms d nr cx) = cx_decl cx"
  "next_write (unlink_read ms d nr cx) = next_write cx"
  "next_read (unlink_read ms d nr cx) m = (if reads ms m \<and> next_read cx m = Some d then nr m else next_read cx m)"
  by (induction ms d nr cx rule: unlink_read.induct) (auto simp: link_unlink_read_def)

lemma unlink_write_view [simp]:
  "cx_decl (unlink_write ms d nw cx) = cx_decl cx"
  "next_read (unlink_write ms d nw cx) = next_read cx"
  "next_write (unlink_write ms d nw cx) m = (if writes ms m \<and> next_write cx m = Some d then nw m else next_write cx m)"
  by (induction ms d nw cx rule: unlink_write.induct) (auto simp: link_unlink_write_def)

lemma update_context_frame [simp]:
  "pipe_decl (update_context c f p) = pipe_decl p" "contexts (update_context c f p) = contexts p"
  "head (update_context c f p) = head p" "tail (update_context c f p) = tail p"
  "removals (update_context c f p) = removals p" "dom (objs (update_context c f p)) = dom (objs p)"
  by (auto simp: update_context_def)

lemma link_reads_view [simp]:
  "decl_of (link_reads d c p) x = decl_of p x"
  "nwrite (link_reads d c p) x m = nwrite p x m"
  "nread (link_reads d c p) x m =
     (if x = c \<and> reads (decl_of p c) m \<and> reads (decl_of p d) m \<and> nread p c m = None then Some d else nread p x m)"
  by (auto simp: link_reads_def update_context_def decl_of_def nread_def nwrite_def split: option.splits)

lemma link_writes_view [simp]:
  "decl_of (link_writes d c p) x = decl_of p x"
  "nread (link_writes d c p) x m = nread p x m"
  "nwrite (link_writes d c p) x m =
     (if x = c \<and> writes (decl_of p c) m \<and> writes (decl_of p d) m \<and> nwrite p c m = None then Some d else nwrite p x m)"
  by (auto simp: link_writes_def update_context_def decl_of_def nread_def nwrite_def split: option.splits)

lemma link_frame [simp]:
  "pipe_decl (link_reads d c p) = pipe_decl p" "contexts (link_reads d c p) = contexts p"
  "head (link_reads d c p) = head p" "tail (link_reads d c p) = tail p" "removals (link_reads d c p) = removals p"
  "dom (objs (link_reads d c p)) = dom (objs p)"
  "pipe_decl (link_writes d c p) = pipe_decl p" "contexts (link_writes d c p) = contexts p"
  "head (link_writes d c p) = head p" "tail (link_writes d c p) = tail p" "removals (link_writes d c p) = removals p"
  "dom (objs (link_writes d c p)) = dom (objs p)"
  by (simp_all add: link_reads_def link_writes_def)

lemma fold_link_reads [simp]:
  "decl_of (fold (link_reads n) cs p) x = decl_of p x"
  "nwrite (fold (link_reads n) cs p) x m = nwrite p x m"
  "nread (fold (link_reads n) cs p) x m =
     (if x \<in> set cs \<and> reads (decl_of p x) m \<and> reads (decl_of p n) m \<and> nread p x m = None then Some n else nread p x m)"
  by (induction cs arbitrary: p) auto

text \<open>The new context links to the first of the visited contexts that writes.\<close>

lemma fold_link_writes [simp]:
  "decl_of (fold (\<lambda>c. link_writes c n) cs p) x = decl_of p x"
  "nread (fold (\<lambda>c. link_writes c n) cs p) x m = nread p x m"
  "nwrite (fold (\<lambda>c. link_writes c n) cs p) x m =
     (if x = n \<and> writes (decl_of p n) m \<and> nwrite p n m = None then find (\<lambda>c. writes (decl_of p c) m) cs
      else nwrite p x m)"
  by (induction cs arbitrary: p) auto

lemma fold_link_frame [simp]:
  "pipe_decl (fold (link_reads n) cs p) = pipe_decl p" "contexts (fold (link_reads n) cs p) = contexts p"
  "head (fold (link_reads n) cs p) = head p" "tail (fold (link_reads n) cs p) = tail p"
  "removals (fold (link_reads n) cs p) = removals p" "dom (objs (fold (link_reads n) cs p)) = dom (objs p)"
  "pipe_decl (fold (\<lambda>c. link_writes c n) cs p) = pipe_decl p"
  "contexts (fold (\<lambda>c. link_writes c n) cs p) = contexts p"
  "head (fold (\<lambda>c. link_writes c n) cs p) = head p" "tail (fold (\<lambda>c. link_writes c n) cs p) = tail p"
  "removals (fold (\<lambda>c. link_writes c n) cs p) = removals p"
  "dom (objs (fold (\<lambda>c. link_writes c n) cs p)) = dom (objs p)"
  by (induction cs arbitrary: p) (simp_all)

lemma record_views [simp]:
  "decl_of (p\<lparr>contexts := cs\<rparr>) = decl_of p" "nread (p\<lparr>contexts := cs\<rparr>) = nread p" "nwrite (p\<lparr>contexts := cs\<rparr>) = nwrite p"
  "decl_of (p\<lparr>head := h\<rparr>) = decl_of p" "nread (p\<lparr>head := h\<rparr>) = nread p" "nwrite (p\<lparr>head := h\<rparr>) = nwrite p"
  "decl_of (p\<lparr>tail := t\<rparr>) = decl_of p" "nread (p\<lparr>tail := t\<rparr>) = nread p" "nwrite (p\<lparr>tail := t\<rparr>) = nwrite p"
  "decl_of (p\<lparr>removals := r\<rparr>) = decl_of p" "nread (p\<lparr>removals := r\<rparr>) = nread p" "nwrite (p\<lparr>removals := r\<rparr>) = nwrite p"
  by (auto simp: decl_of_def nread_def nwrite_def fun_eq_iff)

lemma add_context_view [simp]:
  "decl_of (add_context n ms p) x = (if x = n then ms else decl_of p x)"
  "nread (add_context n ms p) x m = (if x = n then None else nread p x m)"
  "nwrite (add_context n ms p) x m = (if x = n then None else nwrite p x m)"
  "pipe_decl (add_context n ms p) = pipe_decl p" "contexts (add_context n ms p) = contexts p"
  "head (add_context n ms p) = head p" "tail (add_context n ms p) = tail p"
  "removals (add_context n ms p) = removals p" "dom (objs (add_context n ms p)) = insert n (dom (objs p))"
  by (auto simp: add_context_def decl_of_def nread_def nwrite_def make_filter_context_def)

text \<open>Updating the head or the tail touches nothing else.\<close>

definition same_links :: "'m pipe \<Rightarrow> 'm pipe \<Rightarrow> bool" where
  "same_links p q \<longleftrightarrow> pipe_decl q = pipe_decl p \<and> contexts q = contexts p \<and> objs q = objs p \<and> removals q = removals p"

lemma same_links_refl [simp]: "same_links p p"
  by (simp add: same_links_def)

lemma same_links_trans: "same_links p q \<Longrightarrow> same_links q r \<Longrightarrow> same_links p r"
  by (simp add: same_links_def)

lemma same_links_views:
  "same_links p q \<Longrightarrow> decl_of q = decl_of p \<and> nread q = nread p \<and> nwrite q = nwrite p"
  by (auto simp: same_links_def decl_of_def nread_def nwrite_def fun_eq_iff)

lemma same_links_head_tail [simp]: "same_links p (q\<lparr>head := h\<rparr>) = same_links p q" "same_links p (q\<lparr>tail := t\<rparr>) = same_links p q"
  by (auto simp: same_links_def)

lemma link_update_tail_view:
  "same_links p (link_update_tail c x p)"
  "head (link_update_tail c x p) m =
     (if reads [x] m \<and> head p m = None \<and> reads (decl_of p c) m then Some c else head p m)"
  "tail (link_update_tail c x p) m = (if writes [x] m \<and> writes (decl_of p c) m then Some c else tail p m)"
  by (cases x; auto simp: set_head_if_reads_def set_tail_if_writes_def Let_def)+

lemma link_update_head_view:
  "same_links p (link_update_head c x p)"
  "tail (link_update_head c x p) m =
     (if writes [x] m \<and> tail p m = None \<and> writes (decl_of p c) m then Some c else tail p m)"
  "head (link_update_head c x p) m = (if reads [x] m \<and> reads (decl_of p c) m then Some c else head p m)"
  by (cases x; auto simp: set_head_if_reads_def set_tail_if_writes_def Let_def)+

lemma reads_Cons: "reads (x # xs) m \<longleftrightarrow> reads [x] m \<or> reads xs m"
  by (cases x) auto

lemma writes_Cons: "writes (x # xs) m \<longleftrightarrow> writes [x] m \<or> writes xs m"
  by (cases x) auto

lemma fold_update_tail:
  "same_links p (fold (link_update_tail c) xs p) \<and>
   head (fold (link_update_tail c) xs p) m =
     (if reads xs m \<and> head p m = None \<and> reads (decl_of p c) m then Some c else head p m) \<and>
   tail (fold (link_update_tail c) xs p) m = (if writes xs m \<and> writes (decl_of p c) m then Some c else tail p m)"
proof (induction xs arbitrary: p)
  case (Cons x xs)
  let ?q = "link_update_tail c x p"
  have l: "same_links p ?q" by (rule link_update_tail_view)
  then have d: "decl_of ?q = decl_of p" by (simp add: same_links_views)
  note IH = Cons.IH [of ?q, unfolded d link_update_tail_view]
  have "same_links p (fold (link_update_tail c) (x # xs) p)"
    using IH same_links_trans [OF l] by simp
  then show ?case
    using IH reads_Cons [of x xs m] writes_Cons [of x xs m]
    by (intro conjI) (simp_all del: reads_simps writes_simps split: if_splits)
qed simp

lemma fold_update_head:
  "same_links p (fold (link_update_head c) xs p) \<and>
   tail (fold (link_update_head c) xs p) m =
     (if writes xs m \<and> tail p m = None \<and> writes (decl_of p c) m then Some c else tail p m) \<and>
   head (fold (link_update_head c) xs p) m = (if reads xs m \<and> reads (decl_of p c) m then Some c else head p m)"
proof (induction xs arbitrary: p)
  case (Cons x xs)
  let ?q = "link_update_head c x p"
  have l: "same_links p ?q" by (rule link_update_head_view)
  then have d: "decl_of ?q = decl_of p" by (simp add: same_links_views)
  note IH = Cons.IH [of ?q, unfolded d link_update_head_view]
  have "same_links p (fold (link_update_head c) (x # xs) p)"
    using IH same_links_trans [OF l] by simp
  then show ?case
    using IH reads_Cons [of x xs m] writes_Cons [of x xs m]
    by (intro conjI) (simp_all del: reads_simps writes_simps split: if_splits)
qed simp

section \<open>What the operations do to the links\<close>

lemma find_cong_set: "(\<And>x. x \<in> set xs \<Longrightarrow> P x = Q x) \<Longrightarrow> find P xs = find Q xs"
  by (induction xs) auto

lemma find_append: "find P (xs @ ys) = (case find P xs of None \<Rightarrow> find P ys | Some x \<Rightarrow> Some x)"
  by (induction xs) auto

lemma find_filter: "find P (filter Q xs) = find (\<lambda>x. P x \<and> Q x) xs"
  by (induction xs) auto

lemma push_back_view:
  assumes "n \<notin> set (contexts p)"
  shows "decl_of (push_back n ms p) x = (if x = n then ms else decl_of p x)"
    and "nread (push_back n ms p) x m =
      (if x = n then None
       else if x \<in> set (contexts p) \<and> reads (decl_of p x) m \<and> reads ms m \<and> nread p x m = None then Some n
       else nread p x m)"
    and "nwrite (push_back n ms p) x m =
      (if x = n then if writes ms m then find (\<lambda>c. writes (decl_of p c) m) (rev (contexts p)) else None
       else nwrite p x m)"
    and "head (push_back n ms p) m =
      (if reads (pipe_decl p) m \<and> head p m = None \<and> reads ms m then Some n else head p m)"
    and "tail (push_back n ms p) m = (if writes (pipe_decl p) m \<and> writes ms m then Some n else tail p m)"
    and "contexts (push_back n ms p) = contexts p @ [n]" "dom (objs (push_back n ms p)) = insert n (dom (objs p))"
    and "pipe_decl (push_back n ms p) = pipe_decl p" "removals (push_back n ms p) = removals p"
proof -
  let ?q = "base_push_back n (add_context n ms p)"
  have l: "same_links ?q (push_back n ms p)"
    using fold_update_tail [of ?q] by (simp add: push_back_def push_back_ctx_def maybe_update_tail_def)
  note v = same_links_views [OF l]
  have f: "find (\<lambda>c. writes (if c = n then ms else decl_of p c) m) (rev (contexts p)) =
      find (\<lambda>c. writes (decl_of p c) m) (rev (contexts p))"
    by (rule find_cong_set) (use assms in auto)
  show "decl_of (push_back n ms p) x = (if x = n then ms else decl_of p x)"
    using v by (simp add: base_push_back_def)
  show "nread (push_back n ms p) x m =
      (if x = n then None
       else if x \<in> set (contexts p) \<and> reads (decl_of p x) m \<and> reads ms m \<and> nread p x m = None then Some n
       else nread p x m)"
    using v assms by (auto simp: base_push_back_def)
  show "nwrite (push_back n ms p) x m =
      (if x = n then if writes ms m then find (\<lambda>c. writes (decl_of p c) m) (rev (contexts p)) else None
       else nwrite p x m)"
    using v by (simp add: base_push_back_def f)
  show "contexts (push_back n ms p) = contexts p @ [n]" "dom (objs (push_back n ms p)) = insert n (dom (objs p))"
    "pipe_decl (push_back n ms p) = pipe_decl p" "removals (push_back n ms p) = removals p"
    using l by (simp_all add: same_links_def base_push_back_def)
  show "head (push_back n ms p) m =
      (if reads (pipe_decl p) m \<and> head p m = None \<and> reads ms m then Some n else head p m)"
    "tail (push_back n ms p) m = (if writes (pipe_decl p) m \<and> writes ms m then Some n else tail p m)"
    using fold_update_tail [of ?q n "pipe_decl p" m] by (simp_all add: push_back_def push_back_ctx_def maybe_update_tail_def base_push_back_def)
qed

lemma push_front_view:
  assumes "n \<notin> set (contexts p)"
  shows "decl_of (push_front n ms p) x = (if x = n then ms else decl_of p x)"
    and "nread (push_front n ms p) x m =
      (if x = n then None
       else if x \<in> set (contexts p) \<and> reads (decl_of p x) m \<and> reads ms m \<and> nread p x m = None then Some n
       else nread p x m)"
    and "x \<noteq> n \<Longrightarrow> nwrite (push_front n ms p) x m = nwrite p x m"
    and "head (push_front n ms p) m = (if reads (pipe_decl p) m \<and> reads ms m then Some n else head p m)"
    and "tail (push_front n ms p) m =
      (if writes (pipe_decl p) m \<and> tail p m = None \<and> writes ms m then Some n else tail p m)"
    and "contexts (push_front n ms p) = n # contexts p" "dom (objs (push_front n ms p)) = insert n (dom (objs p))"
    and "pipe_decl (push_front n ms p) = pipe_decl p" "removals (push_front n ms p) = removals p"
proof -
  let ?q = "base_push_front n (add_context n ms p)"
  have l: "same_links ?q (push_front n ms p)"
    using fold_update_head [of ?q] by (simp add: push_front_def push_front_ctx_def maybe_update_head_def)
  note v = same_links_views [OF l]
  show "decl_of (push_front n ms p) x = (if x = n then ms else decl_of p x)"
    using v by (simp add: base_push_front_def)
  show "nread (push_front n ms p) x m =
      (if x = n then None
       else if x \<in> set (contexts p) \<and> reads (decl_of p x) m \<and> reads ms m \<and> nread p x m = None then Some n
       else nread p x m)"
    using v assms by (auto simp: base_push_front_def)
  show "x \<noteq> n \<Longrightarrow> nwrite (push_front n ms p) x m = nwrite p x m"
    using v by (simp add: base_push_front_def)
  show "contexts (push_front n ms p) = n # contexts p" "dom (objs (push_front n ms p)) = insert n (dom (objs p))"
    "pipe_decl (push_front n ms p) = pipe_decl p" "removals (push_front n ms p) = removals p"
    using l by (simp_all add: same_links_def base_push_front_def)
  show "head (push_front n ms p) m = (if reads (pipe_decl p) m \<and> reads ms m then Some n else head p m)"
    "tail (push_front n ms p) m =
      (if writes (pipe_decl p) m \<and> tail p m = None \<and> writes ms m then Some n else tail p m)"
    using fold_update_head [of ?q n "pipe_decl p" m] by (simp_all add: push_front_def push_front_ctx_def maybe_update_head_def base_push_front_def)
qed

text \<open>Removing the pointers to a context that is alive never follows a dangling pointer.\<close>

lemma link_change_head_ok:
  "objs p c \<noteq> None \<Longrightarrow> link_change_head c x p =
     Inr (p\<lparr>head := \<lambda>m. if reads [x] m \<and> head p m = Some c then nread p c m else head p m\<rparr>)"
  by (cases x) (auto simp: change_head_def nread_def fun_eq_iff intro!: pipe.equality)

lemma for_change_head:
  "objs p c \<noteq> None \<Longrightarrow> \<exists>q. for_messages (link_change_head c) xs p = Inr q \<and> same_links p q \<and> tail q = tail p \<and>
     (\<forall>m. nread p c m \<noteq> Some c \<longrightarrow>
       head q m = (if reads xs m \<and> head p m = Some c then nread p c m else head p m))"
proof (induction xs arbitrary: p)
  case (Cons x xs)
  obtain q where q: "link_change_head c x p = Inr q" "same_links p q" "tail q = tail p"
    "\<And>m. head q m = (if reads [x] m \<and> head p m = Some c then nread p c m else head p m)"
    using link_change_head_ok [OF Cons.prems, of x] by simp
  from q(2) Cons.prems have "objs q c \<noteq> None" by (simp add: same_links_def)
  from Cons.IH [OF this] obtain r where r: "for_messages (link_change_head c) xs q = Inr r" "same_links q r"
    "tail r = tail q"
    "\<And>m. nread q c m \<noteq> Some c \<Longrightarrow> head r m = (if reads xs m \<and> head q m = Some c then nread q c m else head q m)"
    by blast
  have v: "nread q = nread p" using same_links_views [OF q(2)] by simp
  show ?case
    using q r same_links_trans [OF q(2) r(2)] by (auto simp: v reads_Cons [of x xs] simp del: reads_simps)
qed simp

lemma link_change_tail_ok:
  "objs p c \<noteq> None \<Longrightarrow> link_change_tail c x p =
     Inr (p\<lparr>tail := \<lambda>m. if writes [x] m \<and> tail p m = Some c then nwrite p c m else tail p m\<rparr>)"
  by (cases x) (auto simp: change_tail_def nwrite_def fun_eq_iff intro!: pipe.equality)

lemma for_change_tail:
  "objs p c \<noteq> None \<Longrightarrow> \<exists>q. for_messages (link_change_tail c) xs p = Inr q \<and> same_links p q \<and> head q = head p \<and>
     (\<forall>m. nwrite p c m \<noteq> Some c \<longrightarrow>
       tail q m = (if writes xs m \<and> tail p m = Some c then nwrite p c m else tail p m))"
proof (induction xs arbitrary: p)
  case (Cons x xs)
  obtain q where q: "link_change_tail c x p = Inr q" "same_links p q" "head q = head p"
    "\<And>m. tail q m = (if writes [x] m \<and> tail p m = Some c then nwrite p c m else tail p m)"
    using link_change_tail_ok [OF Cons.prems, of x] by simp
  from q(2) Cons.prems have "objs q c \<noteq> None" by (simp add: same_links_def)
  from Cons.IH [OF this] obtain r where r: "for_messages (link_change_tail c) xs q = Inr r" "same_links q r"
    "head r = head q"
    "\<And>m. nwrite q c m \<noteq> Some c \<Longrightarrow> tail r m = (if writes xs m \<and> tail q m = Some c then nwrite q c m else tail q m)"
    by blast
  have v: "nwrite q = nwrite p" using same_links_views [OF q(2)] by simp
  show ?case
    using q r same_links_trans [OF q(2) r(2)] by (auto simp: v writes_Cons [of x xs] simp del: writes_simps)
qed simp

lemma remove_view:
  assumes "objs p c \<noteq> None" "\<And>m. nread p c m \<noteq> Some c" "\<And>m. nwrite p c m \<noteq> Some c"
  shows "\<exists>q. remove c p = Inr q \<and> pipe_decl q = pipe_decl p \<and> contexts q = contexts p \<and> objs q = objs p \<and>
    removals q = removals p @ [c] \<and>
    (\<forall>m. head q m = (if reads (pipe_decl p) m \<and> head p m = Some c then nread p c m else head p m)) \<and>
    (\<forall>m. tail q m = (if writes (pipe_decl p) m \<and> tail p m = Some c then nwrite p c m else tail p m))"
proof -
  obtain q where q: "maybe_change_head c p = Inr q" "same_links p q" "tail q = tail p"
    "\<And>m. head q m = (if reads (pipe_decl p) m \<and> head p m = Some c then nread p c m else head p m)"
    using for_change_head [OF assms(1), of "pipe_decl p"] assms(2) unfolding maybe_change_head_def by auto
  then have "objs q c \<noteq> None" "pipe_decl q = pipe_decl p" using assms(1) by (auto simp: same_links_def)
  then obtain r where r: "maybe_change_tail c q = Inr r" "same_links q r" "head r = head q"
    "\<And>m. tail r m = (if writes (pipe_decl p) m \<and> tail p m = Some c then nwrite p c m else tail p m)"
    using for_change_tail [of q c "pipe_decl p"] assms(3) q(3) same_links_views [OF q(2)]
    unfolding maybe_change_tail_def by auto
  show ?thesis
    by (rule exI [of _ "r\<lparr>removals := removals r @ [c]\<rparr>"])
      (use q r in \<open>auto simp: remove_def same_links_def\<close>)
qed

text \<open>\<open>unlinked d X p q\<close>: in \<open>q\<close> the contexts in \<open>X\<close> skip \<open>d\<close>, and nothing else has changed.\<close>

definition skip_link :: "bool \<Rightarrow> addr \<Rightarrow> addr option \<Rightarrow> addr option \<Rightarrow> addr option" where
  "skip_link on d nxt l = (if on \<and> l = Some d then nxt else l)"

definition unlinked :: "addr \<Rightarrow> addr set \<Rightarrow> 'm pipe \<Rightarrow> 'm pipe \<Rightarrow> bool" where
  "unlinked d X p q \<longleftrightarrow>
     dom (objs q) = dom (objs p) \<and> contexts q = contexts p \<and> pipe_decl q = pipe_decl p \<and>
     head q = head p \<and> tail q = tail p \<and> removals q = removals p \<and> decl_of q = decl_of p \<and>
     nread q = (\<lambda>x m. skip_link (x \<in> X \<and> reads (decl_of p x) m) d (nread p d m) (nread p x m)) \<and>
     nwrite q = (\<lambda>x m. skip_link (x \<in> X \<and> writes (decl_of p x) m) d (nwrite p d m) (nwrite p x m))"

definition no_self_link :: "addr \<Rightarrow> 'm pipe \<Rightarrow> bool" where
  "no_self_link d p \<longleftrightarrow> (\<forall>m. nread p d m \<noteq> Some d \<and> nwrite p d m \<noteq> Some d)"

lemma skip_link_twice: "nxt \<noteq> Some d \<Longrightarrow> skip_link b d nxt (skip_link a d nxt l) = skip_link (a \<or> b) d nxt l"
  by (auto simp: skip_link_def)

lemma unlinked_no_self: "no_self_link d p \<Longrightarrow> unlinked d X p q \<Longrightarrow> no_self_link d q \<and> nread q d = nread p d \<and> nwrite q d = nwrite p d"
  by (auto simp: unlinked_def no_self_link_def skip_link_def fun_eq_iff)

lemma unlinked_trans:
  assumes "no_self_link d p" "unlinked d X p q" "unlinked d Y q r"
  shows "unlinked d (X \<union> Y) p r"
proof -
  have d: "nread q d = nread p d" "nwrite q d = nwrite p d" using unlinked_no_self [OF assms(1,2)] by auto
  have "nread p d m \<noteq> Some d" "nwrite p d m \<noteq> Some d" for m using assms(1) by (auto simp: no_self_link_def)
  then show ?thesis
    using assms(2,3) unfolding unlinked_def d by (simp add: skip_link_twice conj_disj_distribR)
qed

lemma unlink_context_view:
  assumes "objs p d \<noteq> None" "objs p c \<noteq> None"
  shows "\<exists>q. unlink_context d c p = Inr q \<and> unlinked d {c} p q"
  using assms
  by (auto simp: unlink_context_def update_context_def unlinked_def skip_link_def decl_of_def nread_def nwrite_def fun_eq_iff)

lemma unlink_all_view:
  assumes "objs p d \<noteq> None" "set cs \<subseteq> dom (objs p)" "no_self_link d p"
  shows "\<exists>q. unlink_all d cs p = Inr q \<and> unlinked d (set cs) p q"
  using assms
proof (induction cs arbitrary: p)
  case Nil
  then show ?case by (auto simp: unlinked_def skip_link_def)
next
  case (Cons c cs)
  from Cons.prems(2) have "objs p c \<noteq> None" by auto
  from unlink_context_view [OF Cons.prems(1) this]
  obtain q where q: "unlink_context d c p = Inr q" "unlinked d {c} p q" by blast
  have "no_self_link d q" using unlinked_no_self [OF Cons.prems(3) q(2)] by blast
  moreover have "dom (objs q) = dom (objs p)" using q(2) unfolding unlinked_def by blast
  moreover from this Cons.prems(1,2) have "objs q d \<noteq> None" "set cs \<subseteq> dom (objs q)"
by (auto simp del: not_None_eq simp flip: domIff)
  ultimately obtain r where r: "unlink_all d cs q = Inr r" "unlinked d (set cs) q r"
    using Cons.IH by blast
  have "unlinked d (set (c # cs)) p r" using unlinked_trans [OF Cons.prems(3) q(2) r(2)] by simp
  with q(1) r(1) show ?case by simp
qed

lemma base_remove_view:
  assumes "d \<in> set (contexts p)" "set (contexts p) = dom (objs p)" "no_self_link d p"
  shows "\<exists>q. base_remove d p = Inr q \<and> dom (objs q) = dom (objs p) - {d} \<and>
    contexts q = filter (\<lambda>c. c \<noteq> d) (contexts p) \<and>
    pipe_decl q = pipe_decl p \<and> head q = head p \<and> tail q = tail p \<and> removals q = removals p \<and>
    (\<forall>x. x \<noteq> d \<longrightarrow> x \<in> set (contexts p) \<longrightarrow> decl_of q x = decl_of p x \<and>
      nread q x = (\<lambda>m. skip_link (reads (decl_of p x) m) d (nread p d m) (nread p x m)) \<and>
      nwrite q x = (\<lambda>m. skip_link (writes (decl_of p x) m) d (nwrite p d m) (nwrite p x m)))"
proof -
  have "objs p d \<noteq> None" "set (contexts p) \<subseteq> dom (objs p)" using assms by auto
  from unlink_all_view [OF this assms(3)] obtain r where r: "unlink_all d (contexts p) p = Inr r"
    "unlinked d (set (contexts p)) p r" by blast
  let ?q = "r\<lparr>contexts := filter (\<lambda>c. c \<noteq> d) (contexts r), objs := (objs r)(d := None)\<rparr>"
  have b: "base_remove d p = Inr ?q" using r assms(1) by (simp add: base_remove_def unlinked_def)
  have v: "x \<noteq> d \<Longrightarrow> decl_of ?q x = decl_of r x \<and> nread ?q x = nread r x \<and> nwrite ?q x = nwrite r x" for x
    by (auto simp: decl_of_def nread_def nwrite_def fun_eq_iff)
  show ?thesis
    by (rule exI [of _ ?q]) (use b v r(2) in \<open>auto simp: unlinked_def\<close>)
qed

section \<open>Well-linked pipes\<close>

abbreviation readers :: "'m pipe \<Rightarrow> 'm \<Rightarrow> addr \<Rightarrow> bool" where
  "readers p m \<equiv> \<lambda>c. reads (decl_of p c) m"

abbreviation writers :: "'m pipe \<Rightarrow> 'm \<Rightarrow> addr \<Rightarrow> bool" where
  "writers p m \<equiv> \<lambda>c. writes (decl_of p c) m"

definition staying :: "'m pipe \<Rightarrow> addr list" where
  "staying p = filter (\<lambda>c. c \<notin> set (removals p)) (contexts p)"

text \<open>Each link of \<open>c\<close> goes to the nearest context behind it that reads, and in front of it that writes, the message.\<close>

definition links_ok :: "'m pipe \<Rightarrow> bool" where
  "links_ok p \<longleftrightarrow> (\<forall>xs c ys m. contexts p = xs @ c # ys \<longrightarrow>
     nread p c m = (if readers p m c then find (readers p m) ys else None) \<and>
     nwrite p c m = (if writers p m c then find (writers p m) (rev xs) else None))"

definition ends_ok :: "'m pipe \<Rightarrow> bool" where
  "ends_ok p \<longleftrightarrow> (\<forall>m.
     (reads (pipe_decl p) m \<longrightarrow> head p m = find (readers p m) (staying p)) \<and>
     (writes (pipe_decl p) m \<longrightarrow> tail p m = find (writers p m) (rev (staying p))))"

definition pipe_wf :: "'m pipe \<Rightarrow> bool" where
  "pipe_wf p \<longleftrightarrow> distinct (contexts p) \<and> dom (objs p) = set (contexts p) \<and>
     set (removals p) \<subseteq> set (contexts p) \<and> links_ok p \<and> ends_ok p"

lemma make_pipe_wf: "pipe_wf (make_pipe ms)"
  by (simp add: pipe_wf_def make_pipe_def links_ok_def ends_ok_def staying_def)

lemma links_okD:
  assumes "links_ok p" "contexts p = xs @ c # ys"
  shows "nread p c m = (if readers p m c then find (readers p m) ys else None)"
    and "nwrite p c m = (if writers p m c then find (writers p m) (rev xs) else None)"
  using assms unfolding links_ok_def by blast+

lemma find_Some_set: "find P xs = Some x \<Longrightarrow> x \<in> set xs \<and> P x"
  by (induction xs) (auto split: if_splits)

lemma wf_no_self_link:
  assumes "pipe_wf p" "c \<in> set (contexts p)"
  shows "no_self_link c p"
proof -
  obtain xs ys where s: "contexts p = xs @ c # ys" using assms(2) by (meson split_list)
  with assms(1) have "c \<notin> set xs" "c \<notin> set ys" by (auto simp: pipe_wf_def)
  with links_okD [OF _ s] assms(1) show ?thesis
    by (auto simp: no_self_link_def pipe_wf_def dest: find_Some_set split: if_splits)
qed

lemma push_back_wf:
  assumes wf: "pipe_wf p" and n: "n \<notin> set (contexts p)"
  shows "pipe_wf (push_back n ms p)"
proof -
  let ?q = "push_back n ms p"
  note v = push_back_view [OF n]
  have P: "find (readers ?q m) xs = find (readers p m) xs" "find (writers ?q m) xs = find (writers p m) xs"
    if "set xs \<subseteq> set (contexts p)" for xs m
    by (rule find_cong_set; use that n v(1) in auto)+
  have "links_ok ?q"
    unfolding links_ok_def
  proof (intro allI impI)
    fix xs c ys m
    assume "contexts ?q = xs @ c # ys"
    with v(6) consider "xs = contexts p" "c = n" "ys = []" | zs where "contexts p = xs @ c # zs" "ys = zs @ [n]"
      by (cases ys rule: rev_cases) auto
    then show "nread ?q c m = (if readers ?q m c then find (readers ?q m) ys else None) \<and>
      nwrite ?q c m = (if writers ?q m c then find (writers ?q m) (rev xs) else None)"
    proof cases
      case 1
      then show ?thesis by (simp add: v(2,3) v(1) [of _ n] P)
    next
      case 2
      then have "c \<noteq> n" "c \<in> set (contexts p)" using n by auto
      moreover have "find (readers ?q m) zs = find (readers p m) zs"
        "find (writers ?q m) (rev xs) = find (writers p m) (rev xs)"
        using 2(1) by (auto intro!: P)
      ultimately show ?thesis
        using links_okD [OF _ 2(1), of m] wf 2(2)
        by (simp add: v(2,3) v(1) [of _ c] v(1) [of _ n] find_append pipe_wf_def split: option.split)
    qed
  qed
  moreover have "ends_ok ?q"
  proof -
    have s: "staying ?q = staying p @ [n]"
      using wf n by (auto simp: staying_def v pipe_wf_def)
    have t: "find (readers ?q m) (staying p) = find (readers p m) (staying p)"
      "find (writers ?q m) (rev (staying p)) = find (writers p m) (rev (staying p))" for m
      by (rule P; auto simp: staying_def)+
    have "ends_ok p" using wf by (simp add: pipe_wf_def)
    then show ?thesis
      unfolding ends_ok_def s by (simp add: find_append t v(1) [of _ n] v(4,5,8) split: option.split)
  qed
  ultimately show ?thesis
    using wf n by (auto simp: pipe_wf_def v)
qed

text \<open>Removing one context keeps the pipe well linked, if no other removal is waiting.\<close>

lemma find_without:
  "distinct (xs @ c # ys) \<Longrightarrow> find P (xs @ c # ys) = Some c \<Longrightarrow> find P (xs @ ys) = find P ys"
  by (induction xs) (auto split: if_splits dest: find_Some_set)

lemma find_other:
  "find P (xs @ c # ys) \<noteq> Some c \<Longrightarrow> find P (xs @ ys) = find P (xs @ c # ys)"
  by (induction xs) auto

lemma remove_wf:
  assumes wf: "pipe_wf p" and c: "c \<in> set (contexts p)" and none: "removals p = []"
  shows "\<exists>q. remove c p = Inr q \<and> pipe_wf q"
proof -
  obtain xs ys where s: "contexts p = xs @ c # ys" using c by (meson split_list)
  have ns: "no_self_link c p" by (rule wf_no_self_link [OF wf c])
  have d: "distinct (xs @ c # ys)" and lk: "links_ok p" and en: "ends_ok p" and ob: "objs p c \<noteq> None"
    using wf s c by (auto simp: pipe_wf_def)
  from remove_view [OF ob] ns obtain q where q: "remove c p = Inr q" "pipe_decl q = pipe_decl p"
    "contexts q = contexts p" "objs q = objs p" "removals q = [c]"
    "\<And>m. head q m = (if reads (pipe_decl p) m \<and> head p m = Some c then nread p c m else head p m)"
    "\<And>m. tail q m = (if writes (pipe_decl p) m \<and> tail p m = Some c then nwrite p c m else tail p m)"
    using none by (auto simp: no_self_link_def)
  have v: "decl_of q = decl_of p" "nread q = nread p" "nwrite q = nwrite p"
    by (auto simp: decl_of_def nread_def nwrite_def fun_eq_iff q(4))
  have st: "staying q = xs @ ys" using d by (auto simp: staying_def q(3,5) s filter_id_conv intro!: arg_cong2 [of _ _ _ _ append])
  have st': "staying p = xs @ c # ys" using none by (simp add: staying_def s)
  have "ends_ok q"
    unfolding ends_ok_def st v q(2,6,7)
  proof (intro allI conjI impI)
    fix m
    assume "reads (pipe_decl p) m"
    with en st' have h: "head p m = find (readers p m) (xs @ c # ys)" by (simp add: ends_ok_def)
    show "(if reads (pipe_decl p) m \<and> head p m = Some c then nread p c m else head p m) = find (readers p m) (xs @ ys)"
      using find_without [OF d] find_other [of "readers p m" xs c ys] h links_okD(1) [OF lk s] \<open>reads (pipe_decl p) m\<close>
      by (auto dest: find_Some_set)
  next
    fix m
    assume "writes (pipe_decl p) m"
    with en st' have h: "tail p m = find (writers p m) (rev ys @ c # rev xs)" by (simp add: ends_ok_def)
    have d': "distinct (rev ys @ c # rev xs)" using d by auto
    show "(if writes (pipe_decl p) m \<and> tail p m = Some c then nwrite p c m else tail p m) = find (writers p m) (rev (xs @ ys))"
      using find_without [OF d'] find_other [of "writers p m" "rev ys" c "rev xs"] h links_okD(2) [OF lk s]
        \<open>writes (pipe_decl p) m\<close>
      by (auto dest: find_Some_set)
  qed
  moreover have "links_ok q" using lk by (simp add: links_ok_def v q(3))
  ultimately have "pipe_wf q" using wf c by (simp add: pipe_wf_def q)
  with q(1) show ?thesis by blast
qed

lemma split_without:
  assumes "xs @ ys = as @ c # bs"
  shows "(\<exists>zs. xs = as @ c # zs \<and> bs = zs @ ys) \<or> (\<exists>zs. ys = zs @ c # bs \<and> as = xs @ zs)"
  using assms by (auto simp: append_eq_append_conv2 append_eq_Cons_conv)

lemma skip_find:
  assumes "distinct (us @ d # vs)" "P d \<Longrightarrow> nxt = find P vs"
  shows "skip_link True d nxt (find P (us @ d # vs)) = find P (us @ vs)"
proof (cases "find P (us @ d # vs) = Some d")
  case True
  with assms find_without [OF assms(1), of P] show ?thesis by (auto simp: skip_link_def dest: find_Some_set)
next
  case False
  then show ?thesis using find_other [OF False] by (simp add: skip_link_def)
qed

lemma base_remove_wf:
  assumes wf: "pipe_wf p" and r: "removals p = [d]"
  shows "\<exists>q. base_remove d (p\<lparr>removals := []\<rparr>) = Inr q \<and> pipe_wf q \<and> removals q = [] \<and> contexts q = staying p"
proof -
  let ?p = "p\<lparr>removals := []\<rparr>"
  have d: "d \<in> set (contexts p)" using wf r by (simp add: pipe_wf_def)
  then obtain us vs where s: "contexts p = us @ d # vs" by (meson split_list)
  have di: "distinct (us @ d # vs)" and lk: "links_ok p" and dm: "dom (objs p) = set (contexts p)"
    using wf s by (simp_all add: pipe_wf_def)
  have "no_self_link d ?p" using wf_no_self_link [OF wf d] by (simp add: no_self_link_def)
  with base_remove_view [of d ?p] d dm obtain q where q: "base_remove d ?p = Inr q" "dom (objs q) = dom (objs p) - {d}"
    "contexts q = filter (\<lambda>c. c \<noteq> d) (contexts p)" "pipe_decl q = pipe_decl p" "head q = head p" "tail q = tail p"
    "removals q = []"
    "\<And>x. x \<noteq> d \<Longrightarrow> x \<in> set (contexts p) \<Longrightarrow> decl_of q x = decl_of p x"
    "\<And>x m. x \<noteq> d \<Longrightarrow> x \<in> set (contexts p) \<Longrightarrow>
       nread q x m = skip_link (readers p m x) d (nread p d m) (nread p x m)"
    "\<And>x m. x \<noteq> d \<Longrightarrow> x \<in> set (contexts p) \<Longrightarrow>
       nwrite q x m = skip_link (writers p m x) d (nwrite p d m) (nwrite p x m)"
    by auto
  have cq: "contexts q = us @ vs" "staying p = us @ vs" "staying q = us @ vs"
    using di by (auto simp: q(3,7) s staying_def r filter_id_conv intro!: arg_cong2 [of _ _ _ _ append])
  have dq: "decl_of q x = decl_of p x" if "x \<in> set (us @ vs)" for x
    by (rule q(8)) (use that di s in auto)
  have P: "find (readers q m) zs = find (readers p m) zs" "find (writers q m) zs = find (writers p m) zs"
    if "set zs \<subseteq> set (us @ vs)" for zs m
    by (rule find_cong_set; use that in \<open>simp add: dq subset_iff\<close>)+
  have "links_ok q"
    unfolding links_ok_def
  proof (intro allI impI)
    fix as c bs m
    assume a: "contexts q = as @ c # bs"
    then have sub: "set as \<subseteq> set (us @ vs)" "set bs \<subseteq> set (us @ vs)" and c: "c \<noteq> d" "c \<in> set (contexts p)"
      using cq(1) s di by (auto dest!: arg_cong [of _ _ set])
    note qc = q(8-10) [OF c]
    have dl: "nread p d m = find (readers p m) vs" if "readers p m d" using links_okD(1) [OF lk s] that by simp
    have dw: "nwrite p d m = find (writers p m) (rev us)" if "writers p m d" using links_okD(2) [OF lk s] that by simp
    from split_without [of us vs as c bs] a cq(1)
    consider zs where "us = as @ c # zs" "bs = zs @ vs" | zs where "vs = zs @ c # bs" "as = us @ zs" by metis
    then show "nread q c m = (if readers q m c then find (readers q m) bs else None) \<and>
      nwrite q c m = (if writers q m c then find (writers q m) (rev as) else None)"
    proof cases
      case 1
      have sp: "contexts p = as @ c # (zs @ d # vs)" using s 1 by simp
      have "d \<notin> set as" "distinct (zs @ d # vs)" using di 1 by auto
      then show ?thesis
        using links_okD [OF lk sp] skip_find [of zs d vs "readers p m" "nread p d m"] dl 1 sub
        by (auto simp: qc P skip_link_def dest: find_Some_set split: if_splits)
    next
      case 2
      have sp: "contexts p = (us @ d # zs) @ c # bs" using s 2 by simp
      have "d \<notin> set bs" "distinct (rev zs @ d # rev us)" using di 2 by auto
      then show ?thesis
        using links_okD [OF lk sp] skip_find [of "rev zs" d "rev us" "writers p m" "nwrite p d m"] dw 2 sub
        by (auto simp: qc P skip_link_def dest: find_Some_set split: if_splits)
    qed
  qed
  moreover have "ends_ok q"
    using wf P [of "us @ vs"] P [of "rev (us @ vs)"] unfolding pipe_wf_def ends_ok_def cq q(4-6) by auto
  ultimately have "pipe_wf q"
    using wf di by (auto simp: pipe_wf_def q(2,7) cq(1) s)
  with q(1,7) cq show ?thesis by auto
qed

section \<open>Runs of a pipe\<close>

text \<open>Filters are appended and removed, and the shard runs the deferred part of a removal before the next one.\<close>

inductive pipe_next :: "'m pipe \<Rightarrow> 'm pipe \<Rightarrow> bool" where
  Push: "n \<notin> set (contexts p) \<Longrightarrow> pipe_next p (push_back n ms p)"
| Remove: "removals p = [] \<Longrightarrow> c \<in> set (contexts p) \<Longrightarrow> remove c p = Inr q \<Longrightarrow> pipe_next p q"
| Drain: "run_removal p = Inr q \<Longrightarrow> pipe_next p q"

definition pipe_inv :: "'m pipe \<Rightarrow> bool" where
  "pipe_inv p \<longleftrightarrow> pipe_wf p \<and> length (removals p) \<le> 1"

lemma run_removal_wf:
  assumes "pipe_inv p"
  shows "\<exists>q. run_removal p = Inr q \<and> pipe_inv q \<and> removals q = [] \<and> contexts q = staying p"
proof (cases "removals p")
  case Nil
  with assms show ?thesis by (simp add: run_removal_def pipe_inv_def staying_def)
next
  case (Cons d ds)
  with assms have "removals p = [d]" by (cases ds) (auto simp: pipe_inv_def)
  with assms base_remove_wf [of p d] show ?thesis by (auto simp: run_removal_def pipe_inv_def)
qed

lemma remove_inv:
  assumes "pipe_inv p" "removals p = []" "c \<in> set (contexts p)"
  shows "\<exists>q. remove c p = Inr q \<and> pipe_inv q"
proof -
  from assms have wf: "pipe_wf p" and ob: "objs p c \<noteq> None" by (auto simp: pipe_inv_def pipe_wf_def)
  from wf_no_self_link [OF wf assms(3)] remove_view [OF ob] assms(2) remove_wf [OF wf assms(3,2)] show ?thesis
    by (fastforce simp: pipe_inv_def no_self_link_def)
qed

lemma pipe_next_inv: "pipe_next p q \<Longrightarrow> pipe_inv p \<Longrightarrow> pipe_inv q"
proof (induction rule: pipe_next.induct)
  case (Push n p ms)
  then show ?case using push_back_wf [of p n ms] push_back_view(9) [of n p ms] by (simp add: pipe_inv_def)
next
  case (Remove p c q)
  then show ?case using remove_inv by fastforce
next
  case (Drain p q)
  then show ?case using run_removal_wf by fastforce
qed

interpretation pipes: started_system pipe_next pipe_inv "make_pipe ms" for ms
  by unfold_locales (rule pipe_next_inv, auto simp: pipe_inv_def make_pipe_wf, simp add: make_pipe_def)

section \<open>Messages only reach filters that declare them\<close>

definition declares :: "'m pipe \<Rightarrow> direction \<Rightarrow> 'm \<Rightarrow> addr \<Rightarrow> bool" where
  "declares p dir m c = (case dir of Reading \<Rightarrow> readers p m c | Writing \<Rightarrow> writers p m c)"

definition next_link :: "'m pipe \<Rightarrow> direction \<Rightarrow> 'm \<Rightarrow> addr \<Rightarrow> addr option" where
  "next_link p dir m c = (case dir of Reading \<Rightarrow> nread p c m | Writing \<Rightarrow> nwrite p c m)"

definition typed_target :: "'m pipe \<Rightarrow> direction \<Rightarrow> 'm \<Rightarrow> addr option \<Rightarrow> bool" where
  "typed_target p dir m t \<longleftrightarrow> (\<forall>d. t = Some d \<longrightarrow> objs p d \<noteq> None \<and> declares p dir m d)"

definition typed_links :: "'m pipe \<Rightarrow> bool" where
  "typed_links p \<longleftrightarrow> (\<forall>c dir m. typed_target p dir m (next_link p dir m c))"

definition agree :: "'m pipe \<Rightarrow> ('m, 'v, 'f) filters \<Rightarrow> ('m, 'v, 'f) filters \<Rightarrow> bool" where
  "agree p fs gs \<longleftrightarrow> (\<forall>c dir m v f. declares p dir m c \<longrightarrow> fs c dir m v f = gs c dir m v f)"

lemma wf_typed_links:
  assumes "pipe_wf p"
  shows "typed_links p"
  unfolding typed_links_def typed_target_def
proof (intro allI impI)
  fix c dir m d
  assume l: "next_link p dir m c = Some d"
  then have "objs p c \<noteq> None" by (auto simp: next_link_def nread_def nwrite_def bind_eq_Some_conv split: direction.splits)
  with assms have "c \<in> set (contexts p)" by (auto simp: pipe_wf_def)
  then obtain xs ys where s: "contexts p = xs @ c # ys" by (meson split_list)
  have dm: "dom (objs p) = set (contexts p)" and lk: "links_ok p" using assms by (auto simp: pipe_wf_def)
  from l links_okD [OF lk s, of m] have "d \<in> set xs \<union> set ys \<and> declares p dir m d"
    by (auto simp: next_link_def declares_def split: direction.splits if_splits dest: find_Some_set find_Some_set [OF sym])
  with dm s show "objs p d \<noteq> None \<and> declares p dir m d" by (auto simp del: not_None_eq simp flip: domIff)
qed

lemma wf_ends_typed:
  assumes "pipe_wf p"
  shows "reads (pipe_decl p) m \<Longrightarrow> typed_target p Reading m (head p m)"
    and "writes (pipe_decl p) m \<Longrightarrow> typed_target p Writing m (tail p m)"
proof -
  have st: "set (staying p) \<subseteq> dom (objs p)" and en: "ends_ok p" using assms by (auto simp: pipe_wf_def staying_def)
  show "reads (pipe_decl p) m \<Longrightarrow> typed_target p Reading m (head p m)"
    "writes (pipe_decl p) m \<Longrightarrow> typed_target p Writing m (tail p m)"
    using st en find_Some_set [of "readers p m" "staying p"] find_Some_set [of "writers p m" "rev (staying p)"]
    by (auto simp: typed_target_def declares_def ends_ok_def)
qed

lemma same_objs_typed:
  assumes "objs q = objs p"
  shows "typed_links q = typed_links p" "agree q fs gs = agree p fs gs" "typed_target q = typed_target p"
proof -
  have "decl_of q = decl_of p" "nread q = nread p" "nwrite q = nwrite p"
    using assms by (auto simp: decl_of_def nread_def nwrite_def fun_eq_iff)
  then have "declares q = declares p" "next_link q = next_link p"
    unfolding declares_def [abs_def] next_link_def [abs_def] by (simp_all cong: direction.case_cong)
  with assms show "typed_links q = typed_links p" "agree q fs gs = agree p fs gs" "typed_target q = typed_target p"
    unfolding typed_links_def agree_def typed_target_def [abs_def] by simp_all
qed

lemma remove_objs: "objs p c \<noteq> None \<Longrightarrow> \<exists>q. remove c p = Inr q \<and> objs q = objs p"
proof -
  assume "objs p c \<noteq> None"
  from for_change_head [OF this, of "pipe_decl p"] obtain q where q: "maybe_change_head c p = Inr q" "same_links p q"
    unfolding maybe_change_head_def by blast
  with \<open>objs p c \<noteq> None\<close> have "objs q c \<noteq> None" by (simp add: same_links_def)
  from for_change_tail [OF this, of "pipe_decl q"] obtain r where "maybe_change_tail c q = Inr r" "same_links q r"
    unfolding maybe_change_tail_def by blast
  with q show ?thesis by (simp add: remove_def same_links_def)
qed

lemma delivery_typed:
  "typed_links p \<Longrightarrow> agree p fs gs \<Longrightarrow> typed_target p dir m t \<Longrightarrow>
     deliver n fs dir m v t (p, f) = deliver n gs dir m v t (p, f) \<and>
     deliver n fs dir m v t (p, f) \<noteq> Inl Dangling \<and>
     (\<forall>q f'. deliver n fs dir m v t (p, f) = Inr (q, f') \<longrightarrow> objs q = objs p)"
  "typed_links p \<Longrightarrow> agree p fs gs \<Longrightarrow> objs p c \<noteq> None \<Longrightarrow>
     run_filter n fs c prog (p, f) = run_filter n gs c prog (p, f) \<and>
     run_filter n fs c prog (p, f) \<noteq> Inl Dangling \<and>
     (\<forall>q f'. run_filter n fs c prog (p, f) = Inr (q, f') \<longrightarrow> objs q = objs p)"
proof (induction n arbitrary: p f dir m v t c prog)
  case 0
  {
    case 1
    show ?case by (cases t) auto
  next
    case 2
    show ?case by (cases prog) auto
  }
next
  case (Suc n)
  {
    case 1
    show ?case
    proof (cases t)
      case (Some d)
      with 1 have d: "objs p d \<noteq> None" "fs d dir m v f = gs d dir m v f"
        by (auto simp: typed_target_def agree_def)
      obtain f' prog where "gs d dir m v f = (f', prog)" by force
      with Suc.IH(2) [OF 1(1,2) d(1), of prog f'] d Some show ?thesis by auto
    qed simp
  next
    case 2
    show ?case
    proof (cases prog)
      case (Do a k)
      obtain cx where cx: "objs p c = Some cx" using 2 by blast
      define call where "call hs = (case a of
           Forward_read m v \<Rightarrow> deliver n hs Reading m v (next_read cx m) (p, f)
         | Forward_write m v \<Rightarrow> deliver n hs Writing m v (next_write cx m) (p, f)
         | Remove_me \<Rightarrow> map_sum id (\<lambda>p'. (p', f)) (remove c p))" for hs
      have t: "typed_target p Reading m (next_read cx m)" "typed_target p Writing m (next_write cx m)" for m
        using 2(1) cx unfolding typed_links_def next_link_def nread_def nwrite_def
        by (metis bind.bind_lunit direction.simps(3,4))+
      obtain r where r: "remove c p = Inr r" "objs r = objs p" using remove_objs [OF 2(3)] by blast
      have c: "call fs = call gs \<and> call fs \<noteq> Inl Dangling \<and> (\<forall>q f'. call fs = Inr (q, f') \<longrightarrow> objs q = objs p)"
      proof (cases a)
        case (Forward_read m v)
        show ?thesis using Suc.IH(1) [OF 2(1,2) t(1)] unfolding call_def Forward_read action.case by blast
      next
        case (Forward_write m v)
        show ?thesis using Suc.IH(1) [OF 2(1,2) t(2)] unfolding call_def Forward_write action.case by blast
      qed (use r in \<open>simp add: call_def\<close>)
      have e: "run_filter (Suc n) hs c prog (p, f) =
          (case call hs of Inl e \<Rightarrow> Inl e | Inr (p', f') \<Rightarrow> let (f'', prog) = k f' in run_filter n hs c prog (p', f''))" for hs
        by (simp add: Do cx call_def)
      show ?thesis
      proof (cases "call gs")
        case (Inl er)
        with c have "call fs = Inl er" "er \<noteq> Dangling" by auto
        with Inl show ?thesis unfolding e by simp
      next
        case (Inr s)
        obtain q f' where s: "s = (q, f')" by force
        with c Inr have o: "objs q = objs p" by simp
        obtain f'' prog' where k: "k f' = (f'', prog')" by force
        have "typed_links q" "agree q fs gs" "objs q c \<noteq> None" using 2 o by (simp_all add: same_objs_typed [OF o])
        note IH = Suc.IH(2) [OF this, of prog' f'']
        have "call fs = Inr (q, f')" "call gs = Inr (q, f')" using c Inr s by simp_all
        with IH k show ?thesis unfolding e o by auto
      qed
    qed simp
  }
qed

section \<open>The order of delivery\<close>

text \<open>Filters that change the value and pass it on; the state is the list of what they were given.\<close>

definition relay :: "(addr \<Rightarrow> 'v \<Rightarrow> 'v) \<Rightarrow> ('m, 'v, (addr \<times> 'v) list) filters" where
  "relay g c dir m v f =
     (f @ [(c, v)], Do (case dir of Reading \<Rightarrow> Forward_read m (g c v) | Writing \<Rightarrow> Forward_write m (g c v)) (\<lambda>f'. (f', Return)))"

fun relay_trace :: "(addr \<Rightarrow> 'v \<Rightarrow> 'v) \<Rightarrow> 'v \<Rightarrow> addr list \<Rightarrow> (addr \<times> 'v) list" where
  "relay_trace g v [] = []"
| "relay_trace g v (c # cs) = (c, v) # relay_trace g (g c v) cs"

lemma relay_step:
  assumes "objs p c \<noteq> None"
  shows "deliver (Suc (Suc n)) (relay g) dir m v (Some c) (p, f) =
    (case deliver n (relay g) dir m (g c v) (next_link p dir m c) (p, f @ [(c, v)]) of
       Inl e \<Rightarrow> Inl e | Inr s \<Rightarrow> Inr s)"
  using assms
  by (cases dir) (auto simp: relay_def next_link_def nread_def nwrite_def split: sum.split)

lemma relay_reads:
  "links_ok p \<Longrightarrow> dom (objs p) = set (contexts p) \<Longrightarrow> contexts p = xs @ ys \<Longrightarrow> 2 * length (filter (readers p m) ys) \<le> n \<Longrightarrow>
     deliver n (relay g) Reading m v (find (readers p m) ys) (p, f) =
       Inr (p, f @ relay_trace g v (filter (readers p m) ys))"
proof (induction ys arbitrary: xs n v f)
  case (Cons y ys)
  show ?case
  proof (cases "readers p m y")
    case True
    with Cons.prems(4) obtain k where k: "n = Suc (Suc k)" "2 * length (filter (readers p m) ys) \<le> k"
      by (cases n rule: nat.exhaust; cases "n - 1") auto
    have "objs p y \<noteq> None" using Cons.prems(2,3) by auto
    moreover have "next_link p Reading m y = find (readers p m) ys"
      using links_okD(1) [OF Cons.prems(1,3)] True by (simp add: next_link_def)
    ultimately show ?thesis
      using True k Cons.IH [of "xs @ [y]" k] Cons.prems(1-3) by (simp add: relay_step del: deliver.simps(3))
  next
    case False
    with Cons.IH [of "xs @ [y]" n v f] Cons.prems show ?thesis by simp
  qed
qed simp

lemma relay_writes:
  "links_ok p \<Longrightarrow> dom (objs p) = set (contexts p) \<Longrightarrow> contexts p = xs @ ys \<Longrightarrow> 2 * length (filter (writers p m) xs) \<le> n \<Longrightarrow>
     deliver n (relay g) Writing m v (find (writers p m) (rev xs)) (p, f) =
       Inr (p, f @ relay_trace g v (filter (writers p m) (rev xs)))"
proof (induction xs arbitrary: ys n v f rule: rev_induct)
  case (snoc x xs)
  show ?case
  proof (cases "writers p m x")
    case True
    with snoc.prems(4) obtain k where k: "n = Suc (Suc k)" "2 * length (filter (writers p m) xs) \<le> k"
      by (cases n rule: nat.exhaust; cases "n - 1") auto
    have "objs p x \<noteq> None" using snoc.prems(2,3) by auto
    moreover have "next_link p Writing m x = find (writers p m) (rev xs)"
      using links_okD(2) [OF snoc.prems(1), of xs x ys] snoc.prems(3) True by (simp add: next_link_def)
    ultimately show ?thesis
      using True k snoc.IH [of "x # ys" k] snoc.prems(1-3) by (simp add: relay_step del: deliver.simps(3))
  next
    case False
    with snoc.IH [of "x # ys" n v f] snoc.prems show ?thesis by simp
  qed
qed simp

end
