(* ===== verification/Socket.thy ===== *)
theory Socket
  imports Buffer_Reader Outcome
begin

text \<open>
  \<^verbatim>\<open>xi/io/net/socket2.h\<close> and \<^verbatim>\<open>src/src/io/net/socket2.cpp\<close>: sockets over the system calls.

  The operating system is a parameter: a record of functions on a state \<open>'k\<close> of its own, each giving the
  return value and \<^verbatim>\<open>errno\<close>. \<^verbatim>\<open>sendmsg\<close> is shown the bytes it is offered, \<^verbatim>\<open>recvmsg\<close> the room there is, and it
  gives the bytes it stores. \<open>sent\<close> is the record of the bytes the system took.
\<close>

section \<open>The operating system\<close>

type_synonym posix_endpoint = "u8 list"

text \<open>Level, name, value and length of a socket option.\<close>

type_synonym option_t = "int \<times> int \<times> int \<times> int"

record 'k kernel =
  k_socket :: "'k \<Rightarrow> (int \<times> int) \<times> 'k"
  k_close :: "int \<Rightarrow> 'k \<Rightarrow> (int \<times> int) \<times> 'k"
  k_connect :: "int \<Rightarrow> posix_endpoint \<Rightarrow> 'k \<Rightarrow> (int \<times> int) \<times> 'k"
  k_bind :: "int \<Rightarrow> posix_endpoint \<Rightarrow> 'k \<Rightarrow> (int \<times> int) \<times> 'k"
  k_listen :: "int \<Rightarrow> int \<Rightarrow> 'k \<Rightarrow> (int \<times> int) \<times> 'k"
  k_accept4 :: "int \<Rightarrow> 'k \<Rightarrow> (int \<times> int) \<times> 'k"
  k_setsockopt :: "int \<Rightarrow> option_t \<Rightarrow> 'k \<Rightarrow> (int \<times> int) \<times> 'k"
  k_getsockopt :: "int \<Rightarrow> int \<times> int \<Rightarrow> 'k \<Rightarrow> (int \<times> int \<times> int) \<times> 'k"
  k_fionread :: "int \<Rightarrow> 'k \<Rightarrow> (int \<times> int \<times> usize) \<times> 'k"
  k_sendmsg :: "int \<Rightarrow> posix_endpoint option \<Rightarrow> u8 list \<Rightarrow> 'k \<Rightarrow> (int \<times> int) \<times> 'k"
  k_recvmsg :: "int \<Rightarrow> posix_endpoint option \<Rightarrow> nat \<Rightarrow> 'k \<Rightarrow> (int \<times> int \<times> u8 list) \<times> 'k"
  k_send :: "int \<Rightarrow> u8 list \<Rightarrow> 'k \<Rightarrow> (int \<times> int) \<times> 'k"
  k_recv :: "int \<Rightarrow> nat \<Rightarrow> 'k \<Rightarrow> (int \<times> int \<times> u8 list) \<times> 'k"

text \<open>What the manual pages promise of the calls that move data: a result is -1 or a count within what was offered.\<close>

definition sends_within :: "'k kernel \<Rightarrow> bool" where
  "sends_within K \<longleftrightarrow> (\<forall>fd ep bs s. let r = fst (fst (k_sendmsg K fd ep bs s)) in r = -1 \<or> 0 \<le> r \<and> r \<le> int (length bs))"

definition receives_within :: "'k kernel \<Rightarrow> bool" where
  "receives_within K \<longleftrightarrow> (\<forall>fd ep n s. case fst (k_recvmsg K fd ep n s) of (r, _, bs) \<Rightarrow>
     (r = -1 \<and> bs = [] \<or> r = int (length bs) \<and> length bs \<le> n))"

abbreviation EINTR :: int where "EINTR \<equiv> 4"
abbreviation EAGAIN :: int where "EAGAIN \<equiv> 11"
abbreviation EWOULDBLOCK :: int where "EWOULDBLOCK \<equiv> 11"
abbreviation EPIPE :: int where "EPIPE \<equiv> 32"
abbreviation ECONNRESET :: int where "ECONNRESET \<equiv> 104"
abbreviation EINPROGRESS :: int where "EINPROGRESS \<equiv> 115"

text \<open>\<^verbatim>\<open>xi/io/error.h\<close>: the enumeration starts at zero.\<close>

definition kEOF :: error_code where
  "kEOF = Error_code 0 (Other_category ''xi'')"

definition kRetry :: error_code where
  "kRetry = Error_code 1 (Other_category ''xi'')"

fun io_error_message :: "int \<Rightarrow> string" where
  "io_error_message code =
     (if code = 0 then ''End of file'' else if code = 1 then ''Operation would block'' else ''Unknown io'')"

section \<open>Sockets that own a descriptor\<close>

text \<open>A socket is its descriptor, or -1. \<^verbatim>\<open>expected<void>\<close> is an error code.\<close>

definition socket_of :: "int \<Rightarrow> int \<Rightarrow> int outcome" where
  "socket_of fd errno = (if fd = -1 then Throws (System_error (error_from_value errno)) else Returns fd)"

definition socket_open :: "'k kernel \<Rightarrow> 'k \<Rightarrow> int outcome \<times> 'k" where
  "socket_open K s = (let ((fd, errno), s') = k_socket K s in (socket_of fd errno, s'))"

text \<open>The new socket and what is left of the old one.\<close>

definition socket_move :: "int \<Rightarrow> int \<times> int" where
  "socket_move other = (other, -1)"

definition socket_close :: "'k kernel \<Rightarrow> int \<Rightarrow> 'k \<Rightarrow> error_code \<times> int \<times> 'k" where
  "socket_close K fd s =
     (if fd = -1 then (no_error, fd, s)
      else let ((ret, errno), s') = k_close K fd s
           in ((if ret = -1 then error_from_value errno else no_error), -1, s'))"

definition socket_create :: "'k kernel \<Rightarrow> 'k \<Rightarrow> int expected \<times> 'k" where
  "socket_create K s =
     (let ((ret, errno), s') = k_socket K s
      in ((if ret = -1 then Failed (error_from_value errno) else Value ret), s'))"

definition socket_connect :: "'k kernel \<Rightarrow> int \<Rightarrow> posix_endpoint \<Rightarrow> 'k \<Rightarrow> error_code \<times> 'k" where
  "socket_connect K fd remote s =
     (let ((ret, errno), s') = k_connect K fd remote s
      in ((if ret = -1 then if errno = EINPROGRESS then kRetry else error_from_value errno else no_error), s'))"

definition bindable_bind :: "'k kernel \<Rightarrow> int \<Rightarrow> posix_endpoint \<Rightarrow> 'k \<Rightarrow> unit outcome \<times> 'k" where
  "bindable_bind K fd local s =
     (let ((ret, errno), s') = k_bind K fd local s
      in ((if ret = -1 then Throws (System_error (error_from_value errno)) else Returns ()), s'))"

definition server_bind :: "'k kernel \<Rightarrow> int \<Rightarrow> posix_endpoint \<Rightarrow> 'k \<Rightarrow> unit outcome \<times> 'k" where
  "server_bind K fd local s =
     (case bindable_bind K fd local s of
        (Returns _, s1) \<Rightarrow>
          let ((ret, errno), s2) = k_listen K fd 1024 s1
          in ((if ret = -1 then Throws (System_error (error_from_value errno)) else Returns ()), s2)
      | (v, s1) \<Rightarrow> (v, s1))"

fun set_child_options :: "'k kernel \<Rightarrow> int \<Rightarrow> option_t list \<Rightarrow> 'k \<Rightarrow> error_code option \<times> 'k" where
  "set_child_options K fd [] s = (None, s)"
| "set_child_options K fd (opt # opts) s =
     (let ((ret, errno), s') = k_setsockopt K fd opt s; res = posix_to_expected ret errno
      in if exp_has_error res then (Some (exp_error res), s') else set_child_options K fd opts s')"

definition set_child_options_list :: "option_t list \<Rightarrow> option_t list \<Rightarrow> option_t list" where
  "set_child_options_list options opts = opts @ options"

text \<open>When an option cannot be set, the accepted descriptor is neither returned nor closed.\<close>

definition server_accept :: "'k kernel \<Rightarrow> int \<Rightarrow> option_t list \<Rightarrow> 'k \<Rightarrow> int expected \<times> 'k" where
  "server_accept K fd opts s =
     (let ((retval, errno), s1) = k_accept4 K fd s
      in if retval = -1 then (Failed (error_from_value errno), s1)
         else case set_child_options K retval opts s1 of
                (Some e, s2) \<Rightarrow> (Failed e, s2)
              | (None, s2) \<Rightarrow> (Value retval, s2))"

definition socket_set_option :: "'k kernel \<Rightarrow> int \<Rightarrow> option_t \<Rightarrow> 'k \<Rightarrow> error_code \<times> 'k" where
  "socket_set_option K fd opt s =
     (let ((ret, errno), s') = k_setsockopt K fd opt s in (expv_of (posix_to_expected ret errno), s'))"

definition socket_get_option :: "'k kernel \<Rightarrow> int \<Rightarrow> int \<times> int \<Rightarrow> 'k \<Rightarrow> int expected \<times> 'k" where
  "socket_get_option K fd opt s =
     (let ((ret, errno, value), s') = k_getsockopt K fd opt s; res = posix_to_expected ret errno
      in ((if exp_has_error res then Failed (exp_error res) else Value value), s'))"

definition readable_bytes :: "'k kernel \<Rightarrow> int \<Rightarrow> 'k \<Rightarrow> usize expected \<times> 'k" where
  "readable_bytes K fd s =
     (let ((ret, errno, sz), s') = k_fionread K fd s
      in ((if ret = -1 then Failed (error_from_value errno) else Value sz), s'))"

section \<open>Scatter and gather\<close>

record 'k net =
  kst :: 'k
  wld :: world
  sent :: "u8 list"

definition gathered :: "memory \<Rightarrow> byte_range list \<Rightarrow> u8 list" where
  "gathered m rs = concat (map (\<lambda>r. load m (rdata r) (rsize r)) rs)"

text \<open>The second test compares the return value, which is -1, with the error numbers.\<close>

definition write_iov_result :: "int \<Rightarrow> int \<Rightarrow> int expected" where
  "write_iov_result retval errno =
     (if retval = -1 then
        if errno = EAGAIN \<or> errno = EWOULDBLOCK then Failed kRetry
        else if ECONNRESET = retval \<or> EPIPE = retval then Failed kEOF
        else Failed (error_from_value errno)
      else if retval = 0 then Failed kRetry
      else Value retval)"

definition write_iov :: "'k kernel \<Rightarrow> int \<Rightarrow> posix_endpoint option \<Rightarrow> byte_range list \<Rightarrow> 'k net \<Rightarrow> int expected \<times> 'k net" where
  "write_iov K fd remote iov n =
     (if iov = [] then (Value 0, n)
      else let bs = gathered (mem (wld n)) iov; ((retval, errno), s') = k_sendmsg K fd remote bs (kst n)
           in (write_iov_result retval errno, n\<lparr>kst := s', sent := sent n @ take (nat retval) bs\<rparr>))"

definition read_iov_result :: "int \<Rightarrow> int \<Rightarrow> int expected" where
  "read_iov_result retval errno =
     (if retval = -1 then
        if errno = EAGAIN \<or> errno = EWOULDBLOCK then Failed kRetry
        else if errno = ECONNRESET then Failed kEOF
        else Failed (error_from_value errno)
      else if retval = 0 then Failed kEOF
      else Value retval)"

text \<open>What was received fills the vectors in turn.\<close>

fun scatter :: "memory \<Rightarrow> byte_range list \<Rightarrow> u8 list \<Rightarrow> memory" where
  "scatter m [] bs = m"
| "scatter m (r # rs) bs = scatter (store m (rdata r) (take (rsize r) bs)) rs (drop (rsize r) bs)"

definition read_iov :: "'k kernel \<Rightarrow> int \<Rightarrow> posix_endpoint option \<Rightarrow> byte_range list \<Rightarrow> 'k net \<Rightarrow> int expected \<times> 'k net" where
  "read_iov K fd remote iov n =
     (if iov = [] then (Value 0, n)
      else let ((retval, errno, bs), s') = k_recvmsg K fd remote (sum_list (map rsize iov)) (kst n)
           in (read_iov_result retval errno, n\<lparr>kst := s', wld := (wld n)\<lparr>mem := scatter (mem (wld n)) iov bs\<rparr>\<rparr>))"

text \<open>
  \<^verbatim>\<open>data_socket::write\<close>. The total is an \<^verbatim>\<open>i32\<close>: passing its range is undefined and gives \<open>None\<close>, as do a
  failed assertion and running out of fuel.
\<close>

fun data_write_loop ::
    "nat \<Rightarrow> 'k kernel \<Rightarrow> int \<Rightarrow> posix_endpoint option \<Rightarrow> int \<Rightarrow> buffer \<Rightarrow> 'k net \<Rightarrow> (int expected \<times> buffer \<times> 'k net) option" where
  "data_write_loop 0 K fd remote ret b n = None"
| "data_write_loop (Suc f) K fd remote ret b n =
     do { iov \<leftarrow> fill_readable_iovec b IOV_MAX;
          (case write_iov K fd remote iov n of
             (Failed e, n1) \<Rightarrow> Some (Failed e, b, n1)
           | (Value r, n1) \<Rightarrow>
               do { (b', w') \<leftarrow> buffer_skip_bytes (nat r) True b (wld n1);
                    let n2 = n1\<lparr>wld := w'\<rparr>; ret' = ret + r in
                    if 2 ^ 31 \<le> ret' then None
                    else if length iov = IOV_MAX then data_write_loop f K fd remote ret' b' n2
                    else Some (Value ret', b', n2) }) }"

definition data_write ::
    "nat \<Rightarrow> 'k kernel \<Rightarrow> int \<Rightarrow> posix_endpoint option \<Rightarrow> buffer \<Rightarrow> 'k net \<Rightarrow> (int expected \<times> buffer \<times> 'k net) option" where
  "data_write f K fd remote b n = (if bufsize b = 0 then Some (Value 0, b, n) else data_write_loop f K fd remote 0 b n)"

definition data_read ::
    "'k kernel \<Rightarrow> int \<Rightarrow> posix_endpoint option \<Rightarrow> buffer \<Rightarrow> 'k net \<Rightarrow> (int expected \<times> buffer \<times> 'k net) option" where
  "data_read K fd remote b n =
     (if buffer_tailroom b = 0 then Some (Value 0, b, n)
      else case read_iov K fd remote (fill_writable_iovec b) n of
             (Failed e, n1) \<Rightarrow> Some (Failed e, b, n1)
           | (Value r, n1) \<Rightarrow> do { b' \<leftarrow> report_written (nat r) b; Some (Value r, b', n1) })"

text \<open>The four entry points.\<close>

definition write_buffer :: "nat \<Rightarrow> 'k kernel \<Rightarrow> int \<Rightarrow> buffer \<Rightarrow> 'k net \<Rightarrow> (int expected \<times> buffer \<times> 'k net) option" where
  "write_buffer f K fd b n = data_write f K fd None b n"

definition read_buffer :: "'k kernel \<Rightarrow> int \<Rightarrow> buffer \<Rightarrow> 'k net \<Rightarrow> (int expected \<times> buffer \<times> 'k net) option" where
  "read_buffer K fd b n = data_read K fd None b n"

definition write_buffer_to ::
    "nat \<Rightarrow> 'k kernel \<Rightarrow> int \<Rightarrow> buffer \<Rightarrow> posix_endpoint \<Rightarrow> 'k net \<Rightarrow> (int expected \<times> buffer \<times> 'k net) option" where
  "write_buffer_to f K fd b remote n = data_write f K fd (Some remote) b n"

definition read_buffer_from ::
    "'k kernel \<Rightarrow> int \<Rightarrow> buffer \<Rightarrow> posix_endpoint \<Rightarrow> 'k net \<Rightarrow> (int expected \<times> buffer \<times> 'k net) option" where
  "read_buffer_from K fd b remote n = data_read K fd (Some remote) b n"

text \<open>\<^verbatim>\<open>write_iov\<close> with a coroutine to yield to: it does not yield, and it leaves only with an error other than \<open>kRetry\<close>.\<close>

fun write_iov_yield ::
    "nat \<Rightarrow> 'k kernel \<Rightarrow> int \<Rightarrow> posix_endpoint option \<Rightarrow> byte_range list \<Rightarrow> 'k net \<Rightarrow> (int expected \<times> 'k net) option" where
  "write_iov_yield 0 K fd remote iov n = None"
| "write_iov_yield (Suc f) K fd remote iov n =
     (let (r, n') = write_iov K fd remote iov n
      in if exp_has_error r \<and> exp_error r \<noteq> kRetry then Some (r, n') else write_iov_yield f K fd remote iov n')"

section \<open>Writing neither loses nor repeats a byte\<close>

lemma write_iov_spec:
  assumes "sends_within K"
  obtains r n' k where "write_iov K fd remote iov n = (r, n')" "wld n' = wld n"
    "sent n' = sent n @ take k (gathered (mem (wld n)) iov)" "k \<le> length (gathered (mem (wld n)) iov)"
    "\<And>v. r = Value v \<Longrightarrow> v = int k" "\<And>e. r = Failed e \<Longrightarrow> k = 0" "\<And>v. r = Value v \<Longrightarrow> iov \<noteq> [] \<Longrightarrow> 0 < k"
proof (cases "iov = []")
  case True
  then show ?thesis by (intro that [of "Value 0" n 0]) (auto simp: write_iov_def)
next
  case False
  let ?bs = "gathered (mem (wld n)) iov"
  obtain v e s' where s: "k_sendmsg K fd remote ?bs (kst n) = ((v, e), s')" by (metis surj_pair)
  have "v = -1 \<or> 0 \<le> v \<and> v \<le> int (length ?bs)"
    using assms [unfolded sends_within_def, rule_format, of fd remote ?bs "kst n"] s by (simp add: Let_def)
  then show ?thesis
    using False s
    by (intro that [of "write_iov_result v e" "n\<lparr>kst := s', sent := sent n @ take (nat v) ?bs\<rparr>" "nat v"])
      (auto simp: write_iov_def write_iov_result_def Let_def split: if_splits)
qed

lemma gathered_readable:
  assumes "buffer_ok b"
  obtains rs where "fill_readable_iovec b IOV_MAX = Some rs" "prefix (gathered m rs) (buffer_content m b)"
  using assms by (rule fill_readable_content [of b IOV_MAX m]) (auto simp: IOV_MAX_def gathered_def)

lemma data_write_loop_spec:
  assumes "sends_within K" "buffer_ok b" "guard_inv (buffer_guards b + M) (wld n)"
    and "0 \<le> ret" "ret + int (bufsize b) < 2 ^ 31" "bufsize b < f" "m = mem (wld n)"
  shows "\<exists>r b' n' k. data_write_loop f K fd remote ret b n = Some (r, b', n') \<and> buffer_ok b' \<and>
    guard_inv (buffer_guards b' + M) (wld n') \<and> mem (wld n') = m \<and> k \<le> bufsize b \<and>
    sent n' = sent n @ take k (buffer_content m b) \<and> buffer_content m b' = drop k (buffer_content m b) \<and>
    bufsize b' = bufsize b - k \<and> (\<forall>v. r = Value v \<longrightarrow> v = ret + int k)"
  using assms
proof (induction f arbitrary: ret b n)
  case (Suc f)
  obtain iov where iov: "fill_readable_iovec b IOV_MAX = Some iov" "prefix (gathered m iov) (buffer_content m b)"
    using gathered_readable [OF Suc.prems(2), of m] by blast
  have len: "length (buffer_content m b) = bufsize b" using Suc.prems(2) by (simp add: buffer_ok_def)
  obtain r n1 k where w: "write_iov K fd remote iov n = (r, n1)" "wld n1 = wld n"
    "sent n1 = sent n @ take k (gathered m iov)" "k \<le> length (gathered m iov)"
    "\<And>v. r = Value v \<Longrightarrow> v = int k" "\<And>e. r = Failed e \<Longrightarrow> k = 0" "\<And>v. r = Value v \<Longrightarrow> iov \<noteq> [] \<Longrightarrow> 0 < k"
    using write_iov_spec [OF Suc.prems(1), of fd remote iov n] unfolding Suc.prems(7) by blast
  have kb: "k \<le> bufsize b" using w(4) prefix_length_le [OF iov(2)] len by simp
  have tk: "take k (gathered m iov) = take k (buffer_content m b)" using w(4) iov(2) by (auto simp: prefix_def)
  show ?case
  proof (cases r)
    case (Failed e)
    with w(6) have "k = 0" by blast
    then show ?thesis
      using Suc.prems(2,3,7) iov(1) w(1-3) Failed
      by (intro exI [of _ r] exI [of _ b] exI [of _ n1] exI [of _ 0]) simp
  next
    case (Value v)
    with w(5) have v: "v = int k" by blast
    obtain b1 w1 where s: "buffer_skip_bytes k True b (wld n1) = Some (b1, w1)" "buffer_ok b1"
      "buffer_content m b1 = drop k (buffer_content m b)" "bufsize b1 = bufsize b - k"
      "guard_inv (buffer_guards b1 + M) w1" "mem w1 = m"
      using buffer_skip_bytes_live [OF Suc.prems(2,3), of k True m] unfolding w(2) Suc.prems(7) by blast
    let ?n2 = "n1\<lparr>wld := w1\<rparr>"
    have lim: "ret + int k < 2 ^ 31" using Suc.prems(5) kb by linarith
    have step: "data_write_loop (Suc f) K fd remote ret b n =
        (if length iov = IOV_MAX then data_write_loop f K fd remote (ret + int k) b1 ?n2
         else Some (Value (ret + int k), b1, ?n2))"
      using iov(1) w(1) s(1) lim by (simp add: Value v)
    show ?thesis
    proof (cases "length iov = IOV_MAX")
      case False
      with s kb show ?thesis
        by (intro exI [of _ "Value (ret + int k)"] exI [of _ b1] exI [of _ ?n2] exI [of _ k]) (simp add: step w(3) tk del: data_write_loop.simps)
    next
      case True
      then have "iov \<noteq> []" by (auto simp: IOV_MAX_def)
      with w(7) Value have "0 < k" by blast
      then have "ret + int k + int (bufsize b1) < 2 ^ 31" "bufsize b1 < f"
        using s(4) kb Suc.prems(5,6) by auto
      from Suc.IH [of b1 ?n2, OF Suc.prems(1) s(2) _ _ this] s(5,6) Suc.prems(4)
      obtain r' b' n' j where j: "data_write_loop f K fd remote (ret + int k) b1 ?n2 = Some (r', b', n')" "buffer_ok b'"
        "guard_inv (buffer_guards b' + M) (wld n')" "mem (wld n') = m" "j \<le> bufsize b1"
        "sent n' = sent n1 @ take j (buffer_content m b1)" "buffer_content m b' = drop j (buffer_content m b1)"
        "bufsize b' = bufsize b1 - j" "\<And>v. r' = Value v \<Longrightarrow> v = ret + int k + int j"
        by auto
      from j(1) True have "data_write_loop (Suc f) K fd remote ret b n = Some (r', b', n')" by (simp only: step simp_thms if_True)
      moreover have "sent n' = sent n @ take (k + j) (buffer_content m b)" by (simp add: j(6) w(3) tk s(3) take_add)
      moreover have "buffer_content m b' = drop (k + j) (buffer_content m b)" "bufsize b' = bufsize b - (k + j)"
        "k + j \<le> bufsize b" using j(5) kb by (simp_all add: j(7,8) s(3,4) add.commute)
      moreover have "\<forall>v. r' = Value v \<longrightarrow> v = ret + int (k + j)" by (intro allI impI, drule j(9)) simp
      ultimately show ?thesis using j(2-4) by (intro exI [of _ r'] exI [of _ b'] exI [of _ n'] exI [of _ "k + j"] conjI)
    qed
  qed
qed simp

lemma data_write_spec:
  assumes "sends_within K" "buffer_ok b" "guard_inv (buffer_guards b + M) (wld n)"
    and "bufsize b < 2 ^ 31" "bufsize b < f" "m = mem (wld n)"
  shows "\<exists>r b' n' k. data_write f K fd remote b n = Some (r, b', n') \<and> buffer_ok b' \<and>
    guard_inv (buffer_guards b' + M) (wld n') \<and> mem (wld n') = m \<and> k \<le> bufsize b \<and>
    sent n' = sent n @ take k (buffer_content m b) \<and> buffer_content m b' = drop k (buffer_content m b) \<and>
    bufsize b' = bufsize b - k \<and> (\<forall>v. r = Value v \<longrightarrow> v = int k)"
proof (cases "bufsize b = 0")
  case True
  with assms show ?thesis by (intro exI [of _ "Value 0"] exI [of _ b] exI [of _ n] exI [of _ 0]) (simp add: data_write_def)
next
  case False
  with data_write_loop_spec [OF assms(1-3), of 0 f m fd remote] assms(4-6) show ?thesis by (simp add: data_write_def)
qed

text \<open>One call is enough for a buffer that fits into the vectors, however much of it the system takes.\<close>

lemma data_write_once:
  assumes "buffer_ok b" "guard_inv (buffer_guards b + M) (wld n)" "length (filter (\<lambda>f. fsize f \<noteq> 0) (frags b)) < IOV_MAX"
    and "k_sendmsg K fd remote (buffer_content (mem (wld n)) b) (kst n) = ((int k, e), s')" "0 < k" "k \<le> bufsize b" "bufsize b < 2 ^ 31"
  shows "\<exists>b' n'. data_write (Suc f) K fd remote b n = Some (Value (int k), b', n') \<and> buffer_ok b' \<and> bufsize b' = bufsize b - k"
proof -
  let ?fs = "filter (\<lambda>f. fsize f \<noteq> 0) (frags b)"
  let ?iov = "map fragment_data_range ?fs"
  have "frags b \<noteq> []" using assms(1,5,6) by (auto simp: buffer_ok_def)
  then have iov: "fill_readable_iovec b IOV_MAX = Some ?iov"
    using assms(3,5,6) by (simp add: fill_readable_iovec_def readable_loop_ranges buffer_empty_def IOV_MAX_def)
  have "gathered (mem (wld n)) (map fragment_data_range fs) = frags_content (mem (wld n)) fs" for fs
    by (induction fs) (simp_all add: gathered_def fragment_data_range_def fragment_content_def)
  then have g: "gathered (mem (wld n)) ?iov = buffer_content (mem (wld n)) b" by (simp only: frags_content_nonempty)
  have "length (gathered (mem (wld n)) ?iov) = bufsize b" unfolding g using assms(1) by (simp add: buffer_ok_def)
  then have "?iov \<noteq> []" using assms(5,6) by (auto simp: gathered_def)
  then have w: "write_iov K fd remote ?iov n = (Value (int k), n\<lparr>kst := s', sent := sent n @ take k (buffer_content (mem (wld n)) b)\<rparr>)"
    using assms(4,5) unfolding write_iov_def g by (simp add: write_iov_result_def)
  obtain b1 w1 where s: "buffer_skip_bytes k True b (wld n) = Some (b1, w1)" "buffer_ok b1" "bufsize b1 = bufsize b - k"
    using buffer_skip_bytes_live [OF assms(1,2), of k True "mem (wld n)"] by blast
  with iov w assms(3,5-7) show ?thesis by (simp add: data_write_def)
qed

section \<open>Reading appends what was received\<close>

lemma receives_withinD:
  "receives_within K \<Longrightarrow> k_recvmsg K fd ep n s = ((r, e, bs), s') \<Longrightarrow>
     r = -1 \<and> bs = [] \<or> r = int (length bs) \<and> length bs \<le> n"
  unfolding receives_within_def by (drule spec [of _ fd], drule spec [of _ ep], drule spec [of _ n], drule spec [of _ s]) simp

lemma data_read_spec:
  assumes "receives_within K" "buffer_ok b" "frags b \<noteq> []" "bufsize b + buffer_tailroom b < 2 ^ 63"
    and apart: "apart (fragment_tail (last (frags b))) (buffer_tailroom b) (frags b)"
  shows "\<exists>r b' n' bs. data_read K fd remote b n = Some (r, b', n') \<and> buffer_ok b' \<and>
    buffer_content (mem (wld n')) b' = buffer_content (mem (wld n)) b @ bs \<and> length bs \<le> buffer_tailroom b \<and>
    (\<forall>v. r = Value v \<longrightarrow> v = int (length bs)) \<and> (\<forall>e. r = Failed e \<longrightarrow> bs = [] \<and> b' = b)"
proof (cases "buffer_tailroom b = 0")
  case True
  with assms show ?thesis by (auto simp: data_read_def)
next
  case False
  let ?f = "last (frags b)" and ?room = "buffer_tailroom b"
  have room: "fragment_tailroom ?f = ?room" using assms(3) by (simp add: buffer_tailroom_def)
  have iov: "fill_writable_iovec b = [\<lparr>rdata = fragment_tail ?f, rsize = ?room\<rparr>]"
    using assms(3) False room by (simp add: fill_writable_iovec_def buffer_empty_def fragment_tail_range_def br_empty_def)
  obtain v e bs s' where r: "k_recvmsg K fd remote ?room (kst n) = ((v, e, bs), s')" by (metis surj_pair)
  have bs: "v = -1 \<and> bs = [] \<or> v = int (length bs) \<and> length bs \<le> ?room"
    using receives_withinD [OF assms(1) r] .
  let ?n' = "n\<lparr>kst := s', wld := (wld n)\<lparr>mem := store (mem (wld n)) (fragment_tail ?f) bs\<rparr>\<rparr>"
  have run: "read_iov K fd remote (fill_writable_iovec b) n = (read_iov_result v e, ?n')"
    using iov r bs by (auto simp: read_iov_def)
  show ?thesis
  proof (cases "0 < v")
    case False
    then have "bs = []" "\<exists>e'. read_iov_result v e = Failed e'" using bs by (auto simp: read_iov_result_def)
    with run \<open>buffer_tailroom b \<noteq> 0\<close> assms(2) show ?thesis by (auto simp: data_read_def)
  next
    case True
    with bs have v: "v = int (length bs)" "length bs \<le> ?room" "read_iov_result v e = Value v"
      by (auto simp: read_iov_result_def)
    obtain b' where b': "report_written (length bs) b = Some b'" "buffer_ok b'"
      "buffer_content (mem (wld ?n')) b' =
        buffer_content (mem (wld ?n')) b @ load (mem (wld ?n')) (fragment_tail ?f) (length bs)"
      using report_written_effect [OF assms(2,3) v(2), of "mem (wld ?n')"] assms(4) v(2) by auto
    have "buffer_content (mem (wld ?n')) b = buffer_content (mem (wld n)) b"
      using apart_store [of "fragment_tail ?f" bs "frags b"] apart_part [OF apart, of 0 "length bs"] v(2) by simp
    moreover have "load (mem (wld ?n')) (fragment_tail ?f) (length bs) = bs" by simp
    ultimately show ?thesis
      using run b' v \<open>buffer_tailroom b \<noteq> 0\<close> by (auto simp: data_read_def)
  qed
qed

end
