(* ===== verification/Ports.thy ===== *)
theory Ports
  imports Socket
begin

text \<open>
  The other sockets: \<^verbatim>\<open>src/src/io/pollable_fd.cpp\<close> with \<^verbatim>\<open>src/src/io/net/socket.cpp\<close> and
  \<^verbatim>\<open>src/src/io/net/listener.cpp\<close>, whose calls suspend the current task until the descriptor is ready, and
  \<^verbatim>\<open>xi/io/net/socket/posix.hpp\<close>. A suspended task goes on when the runtime resumes it; \<open>waits\<close> records
  what it waited for, \<open>closes\<close> the descriptors it closed and \<open>out\<close> the bytes the system took.
\<close>

datatype wait = Yielded | Await_readable int | Await_writable int

record 'k task =
  tk :: 'k
  waits :: "wait list"
  closes :: "int list"
  out :: "u8 list"

definition task_wait :: "wait \<Rightarrow> 'k task \<Rightarrow> 'k task" where
  "task_wait x t = t\<lparr>waits := waits t @ [x]\<rparr>"

section \<open>Ports\<close>

definition port_move :: "int \<Rightarrow> int \<times> int" where
  "port_move other = (other, -1)"

definition close_fd :: "'k kernel \<Rightarrow> int \<Rightarrow> 'k task \<Rightarrow> 'k task" where
  "close_fd K fd t = t\<lparr>tk := snd (k_close K fd (tk t)), closes := closes t @ [fd]\<rparr>"

definition port_destroy :: "'k kernel \<Rightarrow> int \<Rightarrow> 'k task \<Rightarrow> 'k task" where
  "port_destroy K fd t = (if fd = -1 then t else close_fd K fd t)"

definition port_await_readable :: "int \<Rightarrow> 'k task \<Rightarrow> 'k task" where
  "port_await_readable fd t = task_wait (Await_readable fd) t"

definition port_await_writable :: "int \<Rightarrow> 'k task \<Rightarrow> 'k task" where
  "port_await_writable fd t = task_wait (Await_writable fd) t"

section \<open>Streams on a port\<close>

text \<open>The end of the stream is the value of the enumerator \<^verbatim>\<open>kEOF\<close>, which is zero. The bytes are what the call stored.\<close>

fun read_some :: "nat \<Rightarrow> 'k kernel \<Rightarrow> int \<Rightarrow> nat \<Rightarrow> 'k task \<Rightarrow> (int \<times> u8 list \<times> 'k task) option" where
  "read_some 0 K fd len t = None"
| "read_some (Suc f) K fd len t =
     (let ((r, errno, bs), s) = k_recv K fd len (tk t); t1 = t\<lparr>tk := s\<rparr>
      in if r < 0 then
           if errno = EINTR then read_some f K fd len (task_wait Yielded t1)
           else if errno = EAGAIN \<or> errno = EWOULDBLOCK then read_some f K fd len (port_await_readable fd t1)
           else Some (-1, [], t1)
         else if r = 0 then Some (error_value kEOF, [], t1)
         else Some (r, bs, t1))"

fun write_some :: "nat \<Rightarrow> 'k kernel \<Rightarrow> int \<Rightarrow> u8 list \<Rightarrow> 'k task \<Rightarrow> (int \<times> 'k task) option" where
  "write_some 0 K fd data t = None"
| "write_some (Suc f) K fd data t =
     (let ((r, errno), s) = k_send K fd data (tk t); t1 = t\<lparr>tk := s\<rparr>
      in if r < 0 then
           if errno = EINTR then write_some f K fd data t1
           else if errno = EAGAIN \<or> errno = EWOULDBLOCK then write_some f K fd data (port_await_writable fd t1)
           else Some (-1, t1)
         else Some (r, t1\<lparr>out := out t @ take (nat r) data\<rparr>))"

text \<open>
  \<^verbatim>\<open>write_exactly\<close> returns a \<^verbatim>\<open>size_t\<close>, so the failure -1 becomes the largest value. \<open>f\<close> bounds the rounds and
  the tries within one.
\<close>

fun write_exactly_loop :: "nat \<Rightarrow> nat \<Rightarrow> 'k kernel \<Rightarrow> int \<Rightarrow> u8 list \<Rightarrow> usize \<Rightarrow> 'k task \<Rightarrow> (usize \<times> 'k task) option" where
  "write_exactly_loop 0 g K fd data s t = None"
| "write_exactly_loop (Suc f) g K fd data s t =
     (if s < length data then
        do { (ret, t1) \<leftarrow> write_some g K fd (drop s data) t;
             if ret < 0 then Some (usub 0 (nat (- ret)), t1)
             else write_exactly_loop f g K fd data (s + nat ret) t1 }
      else Some (s, t))"

definition write_exactly :: "nat \<Rightarrow> nat \<Rightarrow> 'k kernel \<Rightarrow> int \<Rightarrow> u8 list \<Rightarrow> 'k task \<Rightarrow> (usize \<times> 'k task) option" where
  "write_exactly f g K fd data t = write_exactly_loop f g K fd data 0 t"

section \<open>Listeners\<close>

fun listener_accept :: "nat \<Rightarrow> 'k kernel \<Rightarrow> int \<Rightarrow> 'k task \<Rightarrow> (int result \<times> 'k task) option" where
  "listener_accept 0 K fd t = None"
| "listener_accept (Suc f) K fd t =
     (let ((sock, errno), s) = k_accept4 K fd (tk t); t1 = t\<lparr>tk := s\<rparr>
      in if sock < 0 then
           if errno = 0 \<or> errno = EAGAIN \<or> errno = EWOULDBLOCK then listener_accept f K fd (port_await_readable fd t1)
           else Some (result_from_errno errno, t1)
         else Some (res_ok sock, t1))"

text \<open>The task behind \<^verbatim>\<open>as_channel\<close> sends every accepted socket on the channel until accepting fails.\<close>

fun serve_channel :: "nat \<Rightarrow> nat \<Rightarrow> 'k kernel \<Rightarrow> int \<Rightarrow> 'k task \<Rightarrow> int list \<Rightarrow> (int list \<times> 'k task) option" where
  "serve_channel 0 g K fd t ch = None"
| "serve_channel (Suc f) g K fd t ch =
     do { (r, t1) \<leftarrow> listener_accept g K fd t;
          (case res_then_void (\<lambda>sock c. (Returns (), c @ [sock])) r ch of
             (Returns r', _, ch') \<Rightarrow> if res_is_error r' then Some (ch', t1) else serve_channel f g K fd t1 ch'
           | (_, _, ch') \<Rightarrow> Some (ch', t1)) }"

section \<open>The posix sockets\<close>

definition posix_socket_of :: "int \<Rightarrow> int outcome" where
  "posix_socket_of fd = (if fd < 0 then Throws (User_exn 0) else Returns fd)"

text \<open>The defaulted move copies the descriptor, and the destructor closes whatever it holds.\<close>

definition posix_move :: "int \<Rightarrow> int \<times> int" where
  "posix_move other = (other, other)"

definition posix_destroy :: "'k kernel \<Rightarrow> int \<Rightarrow> 'k task \<Rightarrow> 'k task" where
  "posix_destroy K fd t = close_fd K fd t"

text \<open>The result takes over a temporary socket, which is destroyed at the end of the statement.\<close>

definition posix_accept :: "'k kernel \<Rightarrow> int \<Rightarrow> 'k task \<Rightarrow> int result \<times> 'k task" where
  "posix_accept K fd t =
     (let ((retval, errno), s) = k_accept4 K fd (tk t); t1 = t\<lparr>tk := s\<rparr>
      in if retval = -1 then (result_from_errno errno, t1)
         else let (taken, temporary) = posix_move retval in (res_ok taken, posix_destroy K temporary t1))"

definition posix_bind :: "'k kernel \<Rightarrow> int \<Rightarrow> posix_endpoint \<Rightarrow> 'k \<Rightarrow> unit result \<times> 'k" where
  "posix_bind K fd local s =
     (let ((ret, errno), s') = k_bind K fd local s in ((if ret = -1 then result_from_errno errno else res_ok ()), s'))"

definition posix_listen :: "'k kernel \<Rightarrow> int \<Rightarrow> posix_endpoint \<Rightarrow> int option \<Rightarrow> 'k \<Rightarrow> unit result outcome \<times> 'k" where
  "posix_listen K fd local queue_length s =
     (let (r, s1) = posix_bind K fd local s;
          (v, _, s2) = res_then (\<lambda>_ s. let ((ret, errno), s') = k_listen K fd (case queue_length of None \<Rightarrow> 1024 | Some q \<Rightarrow> q) s
             in (Returns (if ret = -1 then result_from_errno errno else res_ok ()), s')) r s1
      in (v, s2))"

definition posix_write_result :: "int \<Rightarrow> int \<Rightarrow> int result" where
  "posix_write_result retval errno =
     (if retval = -1 then
        if errno = EAGAIN \<or> errno = EWOULDBLOCK then res_err kRetry
        else if ECONNRESET = retval \<or> EPIPE = retval then res_err kEOF
        else result_from_errno errno
      else if retval = 0 then res_err kRetry
      else res_ok retval)"

definition posix_write :: "'k kernel \<Rightarrow> int \<Rightarrow> posix_endpoint option \<Rightarrow> byte_range list \<Rightarrow> 'k net \<Rightarrow> int result \<times> 'k net" where
  "posix_write K fd remote iov n =
     (if iov = [] then (res_ok 0, n)
      else let bs = gathered (mem (wld n)) iov; ((retval, errno), s') = k_sendmsg K fd remote bs (kst n)
           in (posix_write_result retval errno, n\<lparr>kst := s', sent := sent n @ take (nat retval) bs\<rparr>))"

definition posix_read_result :: "int \<Rightarrow> int \<Rightarrow> int result" where
  "posix_read_result retval errno =
     (if retval = -1 then
        if errno = EAGAIN \<or> errno = EWOULDBLOCK then res_err kRetry
        else if errno = ECONNRESET then res_err kEOF
        else result_from_errno errno
      else if retval = 0 then res_err kEOF
      else res_ok retval)"

definition posix_read :: "'k kernel \<Rightarrow> int \<Rightarrow> posix_endpoint option \<Rightarrow> byte_range list \<Rightarrow> 'k net \<Rightarrow> int result \<times> 'k net" where
  "posix_read K fd remote iov n =
     (if iov = [] then (res_ok 0, n)
      else let ((retval, errno, bs), s') = k_recvmsg K fd remote (sum_list (map rsize iov)) (kst n)
           in (posix_read_result retval errno, n\<lparr>kst := s', wld := (wld n)\<lparr>mem := scatter (mem (wld n)) iov bs\<rparr>\<rparr>))"

definition posix_to_result :: "int \<Rightarrow> int \<Rightarrow> int result" where
  "posix_to_result ret errno = (if ret = -1 then result_from_errno errno else Ok ret)"

section \<open>What the loops do\<close>

definition send_within :: "'k kernel \<Rightarrow> bool" where
  "send_within K \<longleftrightarrow> (\<forall>fd bs s. fst (fst (k_send K fd bs s)) \<le> int (length bs))"

lemma write_some_spec:
  assumes "send_within K" "write_some f K fd data t = Some (r, t')"
  shows "r \<le> int (length data) \<and> -1 \<le> r \<and> out t' = out t @ take (nat r) data"
  using assms(2)
proof (induction f arbitrary: t)
  case (Suc f)
  obtain v e s where s: "k_send K fd data (tk t) = ((v, e), s)" by (metis surj_pair)
  have v: "v \<le> int (length data)"
    using assms(1) [unfolded send_within_def, rule_format, of fd data "tk t"] s by simp
  show ?case
  proof (cases "v < 0 \<and> (e = EINTR \<or> e = EAGAIN)")
    case True
    then show ?thesis
      using Suc.prems s Suc.IH [of "t\<lparr>tk := s\<rparr>"] Suc.IH [of "port_await_writable fd (t\<lparr>tk := s\<rparr>)"]
      by (auto simp: port_await_writable_def task_wait_def Let_def split: if_splits)
  next
    case False
    then show ?thesis using Suc.prems s v by (auto simp: Let_def split: if_splits)
  qed
qed simp

lemma write_exactly_loop_spec:
  assumes "send_within K" "write_exactly_loop f g K fd data s t = Some (r, t')" "s \<le> length data"
  shows "r = length data \<and> out t' = out t @ drop s data \<or>
    r = usize_max \<and> (\<exists>k < length data - s. out t' = out t @ take k (drop s data))"
  using assms(2,3)
proof (induction f arbitrary: s t)
  case (Suc f)
  show ?case
  proof (cases "s < length data")
    case True
    with Suc.prems(1) obtain ret t1 where w: "write_some g K fd (drop s data) t = Some (ret, t1)"
      and go: "(if ret < 0 then Some (usub 0 (nat (- ret)), t1)
                else write_exactly_loop f g K fd data (s + nat ret) t1) = Some (r, t')"
      by (auto simp: bind_eq_Some_conv)
    note ws = write_some_spec [OF assms(1) w]
    show ?thesis
    proof (cases "ret < 0")
      case True
      with ws have "ret = -1" by linarith
      then have "r = usize_max" "out t' = out t @ take 0 (drop s data)"
        using go ws by (auto simp: usub_def usize_max_def)
      with \<open>s < length data\<close> show ?thesis by (metis zero_less_diff)
    next
      case False
      let ?k = "nat ret"
      from ws have k: "?k \<le> length data - s" "out t1 = out t @ take ?k (drop s data)" by auto
      from Suc.IH [of "s + ?k" t1] go False k(1) True
      have "r = length data \<and> out t' = out t1 @ drop (s + ?k) data \<or>
        r = usize_max \<and> (\<exists>j < length data - (s + ?k). out t' = out t1 @ take j (drop (s + ?k) data))" by auto
      then show ?thesis
      proof
        assume "r = length data \<and> out t' = out t1 @ drop (s + ?k) data"
        then show ?thesis using k(2) by (metis append.assoc append_take_drop_id drop_drop add.commute)
      next
        assume "r = usize_max \<and> (\<exists>j < length data - (s + ?k). out t' = out t1 @ take j (drop (s + ?k) data))"
        then obtain j where j: "r = usize_max" "j < length data - (s + ?k)" "out t' = out t1 @ take j (drop (s + ?k) data)"
          by blast
        have "out t' = out t @ take (?k + j) (drop s data)"
          using j(3) k(2) take_add [of ?k j "drop s data"] by (simp add: add.commute [of s])
        moreover have "?k + j < length data - s" using j(2) by linarith
        ultimately show ?thesis using j(1) by blast
      qed
    qed
  qed (use Suc.prems in auto)
qed simp

text \<open>A system that takes at least one byte each time: one round per byte is enough.\<close>

definition always_sends :: "'k kernel \<Rightarrow> bool" where
  "always_sends K \<longleftrightarrow> (\<forall>fd bs s. bs \<noteq> [] \<longrightarrow> 0 < fst (fst (k_send K fd bs s)))"

lemma write_exactly_loop_returns:
  assumes "always_sends K" "send_within K" "length data - s < f" "s \<le> length data"
  shows "\<exists>t'. write_exactly_loop f (Suc g) K fd data s t = Some (length data, t') \<and> out t' = out t @ drop s data"
  using assms(3,4)
proof (induction f arbitrary: s t)
  case (Suc f)
  show ?case
  proof (cases "s < length data")
    case True
    obtain v e s' where s: "k_send K fd (drop s data) (tk t) = ((v, e), s')" by (metis surj_pair)
    with assms(1) [unfolded always_sends_def, rule_format, of "drop s data" fd "tk t"] True have "0 < v" by simp
    moreover have "v \<le> int (length data - s)"
      using assms(2) [unfolded send_within_def, rule_format, of fd "drop s data" "tk t"] s by simp
    moreover have "length data - (s + nat v) < f" using Suc.prems \<open>0 < v\<close> True by linarith
    moreover have "take (nat v) (drop s data) @ drop (s + nat v) data = drop s data"
      using append_take_drop_id [of "nat v" "drop s data"] by (simp add: add.commute)
    ultimately show ?thesis
      using s True Suc.IH [of "s + nat v" "t\<lparr>tk := s', out := out t @ take (nat v) (drop s data)\<rparr>"] by simp
  qed (use Suc.prems in simp)
qed simp

section \<open>Closing\<close>

text \<open>The owners after a chain of moves, each from the newest one, and what their destructors do.\<close>

fun move_chain :: "(int \<Rightarrow> int \<times> int) \<Rightarrow> nat \<Rightarrow> int \<Rightarrow> int list" where
  "move_chain mv 0 fd = [fd]"
| "move_chain mv (Suc k) fd = (let (new, old) = mv fd in old # move_chain mv k new)"

definition destroy_all :: "(int \<Rightarrow> 'k task \<Rightarrow> 'k task) \<Rightarrow> int list \<Rightarrow> 'k task \<Rightarrow> 'k task" where
  "destroy_all d fds t = fold d fds t"

lemma port_chain_closes:
  "fd \<noteq> -1 \<Longrightarrow> closes (destroy_all (port_destroy K) (move_chain port_move k fd) t) = closes t @ [fd]"
  by (induction k) (simp_all add: destroy_all_def port_move_def port_destroy_def close_fd_def)

lemma posix_chain_closes:
  "closes (destroy_all (posix_destroy K) (move_chain posix_move k fd) t) = closes t @ replicate (Suc k) fd"
  by (induction k arbitrary: t)
    (simp_all add: destroy_all_def posix_move_def posix_destroy_def close_fd_def replicate_append_same)

end
