(* ===== verification/Event_Loop.thy ===== *)
theory Event_Loop
  imports Steps
begin

text \<open>
  The reactor of a shard: \<^verbatim>\<open>xi/core/event.h\<close>, \<^verbatim>\<open>xi/core/reactor.h\<close>, \<^verbatim>\<open>src/src/core/event_handler.cpp\<close> and
  \<^verbatim>\<open>src/src/core/epoll\<close>, with the flag conversions of \<^verbatim>\<open>xi/core/epoll/detail\<close> and \<^verbatim>\<open>xi/core/libevent/detail\<close>.

  \<open>table\<close> is what the process has registered with \<^verbatim>\<open>epoll_ctl\<close>; whether a call succeeds is the parameter \<open>ctl\<close>.
  A handler is named by its address, and \<open>handlers\<close> holds the ones the reactor keeps alive. \<open>tasks\<close> are the deferred
  ends of cancellations in the order the shard will run them.
\<close>

section \<open>Flags\<close>

abbreviation (input) kNone :: u16 where "kNone \<equiv> 0"
abbreviation (input) kRead :: u16 where "kRead \<equiv> 1"
abbreviation (input) kWrite :: u16 where "kWrite \<equiv> 2"
abbreviation (input) kTimeout :: u16 where "kTimeout \<equiv> 4"
abbreviation (input) kClose :: u16 where "kClose \<equiv> 8"
abbreviation (input) kError :: u16 where "kError \<equiv> 16"

abbreviation (input) EPOLLIN :: u32 where "EPOLLIN \<equiv> 1"
abbreviation (input) EPOLLOUT :: u32 where "EPOLLOUT \<equiv> 4"
abbreviation (input) EPOLLERR :: u32 where "EPOLLERR \<equiv> 8"
abbreviation (input) EPOLLHUP :: u32 where "EPOLLHUP \<equiv> 16"
abbreviation (input) EPOLLRDHUP :: u32 where "EPOLLRDHUP \<equiv> 0x2000"

abbreviation (input) EV_TIMEOUT :: u16 where "EV_TIMEOUT \<equiv> 1"
abbreviation (input) EV_READ :: u16 where "EV_READ \<equiv> 2"
abbreviation (input) EV_WRITE :: u16 where "EV_WRITE \<equiv> 4"
abbreviation (input) EV_ET :: u16 where "EV_ET \<equiv> 0x20"

definition event_state_to_short :: "u16 \<Rightarrow> u32" where
  "event_state_to_short state =
     (let r0 = 0;
          r1 = (if state AND kRead \<noteq> 0 then r0 OR EPOLLIN else r0);
          r2 = (if state AND kWrite \<noteq> 0 then r1 OR EPOLLOUT else r1)
      in r2 OR EPOLLRDHUP)"

definition short_to_event_state :: "u32 \<Rightarrow> u16" where
  "short_to_event_state state =
     (let r0 = kNone;
          r1 = (if state AND EPOLLOUT \<noteq> 0 then r0 OR kWrite else r0);
          r2 = (if state AND EPOLLIN \<noteq> 0 then r1 OR kRead else r1);
          r3 = (if state AND EPOLLRDHUP \<noteq> 0 then r2 OR kClose else r2)
      in if state AND (EPOLLHUP OR EPOLLERR) \<noteq> 0 then r3 OR kError else r3)"

definition libevent_state_to_short :: "u16 \<Rightarrow> u16" where
  "libevent_state_to_short state =
     (let r0 = 0;
          r1 = (if state AND kRead \<noteq> 0 then r0 OR EV_READ else r0);
          r2 = (if state AND kWrite \<noteq> 0 then r1 OR EV_WRITE else r1);
          r3 = (if state AND kTimeout \<noteq> 0 then r2 OR EV_TIMEOUT else r2)
      in r3 OR EV_ET)"

definition libevent_short_to_state :: "u16 \<Rightarrow> u16" where
  "libevent_short_to_state state =
     (let r0 = kNone;
          r1 = (if state AND EV_READ \<noteq> 0 then r0 OR kRead else r0);
          r2 = (if state AND EV_WRITE \<noteq> 0 then r1 OR kWrite else r1)
      in if state AND EV_TIMEOUT \<noteq> 0 then r2 OR kTimeout else r2)"

section \<open>Events, handlers and the reactor\<close>

record event =
  ev_state :: u16
  ev_active :: bool

record handler =
  h_desc :: int
  h_expected :: u16
  h_event :: "event option"
  h_reactor :: bool

record reactor =
  table :: "int \<Rightarrow> (u32 \<times> addr) option"
  handlers :: "addr \<Rightarrow> handler option"
  tasks :: "addr list"

datatype loop_error = System_failure | Null_event | Dangling_handler | Terminated

datatype ctl_op = Ctl_add | Ctl_mod | Ctl_del

type_synonym ctl = "ctl_op \<Rightarrow> int \<Rightarrow> (int \<Rightarrow> (u32 \<times> addr) option) \<Rightarrow> bool"

text \<open>What the manual page of \<^verbatim>\<open>epoll_ctl\<close> says of registered and unregistered descriptors.\<close>

definition ctl_documented :: "ctl \<Rightarrow> bool" where
  "ctl_documented ctl \<longleftrightarrow> (\<forall>d tb. (ctl Ctl_add d tb \<longleftrightarrow> tb d = None) \<and> (ctl Ctl_mod d tb \<longleftrightarrow> tb d \<noteq> None) \<and>
     (ctl Ctl_del d tb \<longleftrightarrow> tb d \<noteq> None))"

definition reactor_new :: reactor where
  "reactor_new = \<lparr>table = (\<lambda>_. None), handlers = (\<lambda>_. None), tasks = []\<rparr>"

definition handler_new :: "int \<Rightarrow> u16 \<Rightarrow> handler" where
  "handler_new d st = \<lparr>h_desc = d, h_expected = st, h_event = None, h_reactor = False\<rparr>"

definition epoll_ctl :: "ctl \<Rightarrow> ctl_op \<Rightarrow> int \<Rightarrow> u32 \<Rightarrow> addr option \<Rightarrow> reactor \<Rightarrow> loop_error + reactor" where
  "epoll_ctl ctl op desc flags h s =
     (if ctl op desc (table s)
      then Inr (s\<lparr>table := (table s)(desc := (case h of None \<Rightarrow> None | Some a \<Rightarrow> Some (flags, a)))\<rparr>)
      else Inl System_failure)"

definition arm_event :: "ctl \<Rightarrow> int \<Rightarrow> u16 \<Rightarrow> addr \<Rightarrow> reactor \<Rightarrow> loop_error + reactor" where
  "arm_event ctl desc state h s = epoll_ctl ctl Ctl_add desc (event_state_to_short state) (Some h) s"

definition mod_event :: "ctl \<Rightarrow> int \<Rightarrow> u16 \<Rightarrow> addr \<Rightarrow> reactor \<Rightarrow> loop_error + reactor" where
  "mod_event ctl desc state h s = epoll_ctl ctl Ctl_mod desc (event_state_to_short state) (Some h) s"

definition del_event :: "ctl \<Rightarrow> int \<Rightarrow> reactor \<Rightarrow> loop_error + reactor" where
  "del_event ctl desc s = epoll_ctl ctl Ctl_del desc 0 None s"

definition set_handler :: "addr \<Rightarrow> handler \<Rightarrow> reactor \<Rightarrow> reactor" where
  "set_handler a h s = s\<lparr>handlers := (handlers s)(a \<mapsto> h)\<rparr>"

text \<open>The methods of \<^verbatim>\<open>epoll::event\<close>; \<open>h\<close> is the handler at \<open>a\<close> and \<open>ev\<close> its event.\<close>

definition event_arm :: "ctl \<Rightarrow> addr \<Rightarrow> handler \<Rightarrow> event \<Rightarrow> reactor \<Rightarrow> loop_error + reactor" where
  "event_arm ctl a h ev s = map_sum id (set_handler a (h\<lparr>h_event := Some (ev\<lparr>ev_active := True\<rparr>)\<rparr>))
     (arm_event ctl (h_desc h) (ev_state ev) a s)"

definition event_cancel :: "ctl \<Rightarrow> addr \<Rightarrow> handler \<Rightarrow> event \<Rightarrow> reactor \<Rightarrow> loop_error + reactor" where
  "event_cancel ctl a h ev s = map_sum id (set_handler a (h\<lparr>h_event := Some (ev\<lparr>ev_active := False\<rparr>)\<rparr>))
     (del_event ctl (h_desc h) s)"

definition event_change_state :: "ctl \<Rightarrow> u16 \<Rightarrow> addr \<Rightarrow> handler \<Rightarrow> event \<Rightarrow> reactor \<Rightarrow> loop_error + reactor" where
  "event_change_state ctl state a h ev s =
     mod_event ctl (h_desc h) state a (set_handler a (h\<lparr>h_event := Some (ev\<lparr>ev_state := state\<rparr>)\<rparr>) s)"

definition event_add_state :: "ctl \<Rightarrow> u16 \<Rightarrow> addr \<Rightarrow> handler \<Rightarrow> event \<Rightarrow> reactor \<Rightarrow> loop_error + reactor" where
  "event_add_state ctl state a h ev s = event_change_state ctl (ev_state ev OR state) a h ev s"

definition event_remove_state :: "ctl \<Rightarrow> u16 \<Rightarrow> addr \<Rightarrow> handler \<Rightarrow> event \<Rightarrow> reactor \<Rightarrow> loop_error + reactor" where
  "event_remove_state ctl state a h ev s = event_change_state ctl (ev_state ev AND NOT state) a h ev s"

definition is_active :: "handler \<Rightarrow> bool" where
  "is_active h = (case h_event h of None \<Rightarrow> False | Some ev \<Rightarrow> ev_active ev)"

text \<open>\<^verbatim>\<open>event_handler::attach_reactor\<close>, with the event \<^verbatim>\<open>create_event\<close> makes.\<close>

definition attach_reactor :: "ctl \<Rightarrow> addr \<Rightarrow> handler \<Rightarrow> reactor \<Rightarrow> loop_error + reactor" where
  "attach_reactor ctl a h s =
     (let ev = \<lparr>ev_state = h_expected h, ev_active = False\<rparr>; h' = h\<lparr>h_reactor := True, h_event := Some ev\<rparr>
      in event_arm ctl a h' ev (set_handler a h' s))"

text \<open>An exception erases the handler again and goes on; the state after it is the second component.\<close>

definition attach_handler :: "ctl \<Rightarrow> addr \<Rightarrow> handler \<Rightarrow> reactor \<Rightarrow> loop_error option \<times> reactor" where
  "attach_handler ctl a h s =
     (case attach_reactor ctl a h (set_handler a h s) of
        Inr s' \<Rightarrow> (None, s')
      | Inl e \<Rightarrow> (Some e, s\<lparr>handlers := (handlers s)(a := None)\<rparr>))"

definition detach_handler :: "addr \<Rightarrow> reactor \<Rightarrow> reactor" where
  "detach_handler a s = s\<lparr>handlers := (handlers s)(a := None)\<rparr>"

definition handler_cancelled :: "addr \<Rightarrow> reactor \<Rightarrow> reactor" where
  "handler_cancelled a s = s\<lparr>handlers := (handlers s)(a := None)\<rparr>"

definition cancel :: "ctl \<Rightarrow> addr \<Rightarrow> reactor \<Rightarrow> loop_error + reactor" where
  "cancel ctl a s =
     (case handlers s a of
        None \<Rightarrow> Inl Dangling_handler
      | Some h \<Rightarrow>
          (case h_event h of
             None \<Rightarrow> Inr s
           | Some ev \<Rightarrow>
               if ev_active ev then map_sum id (\<lambda>s'. s'\<lparr>tasks := tasks s' @ [a]\<rparr>) (event_cancel ctl a h ev s) else Inr s))"

text \<open>The deferred end of a cancellation runs only if the handler is still alive.\<close>

definition run_cancelled :: "reactor \<Rightarrow> reactor" where
  "run_cancelled s =
     (case tasks s of
        [] \<Rightarrow> s
      | a # as \<Rightarrow>
          let s1 = s\<lparr>tasks := as\<rparr>
          in case handlers s1 a of
               None \<Rightarrow> s1
             | Some h \<Rightarrow>
                 let s2 = set_handler a (h\<lparr>h_event := None\<rparr>) s1 in if h_reactor h then detach_handler a s2 else s2)"

definition with_event :: "(addr \<Rightarrow> handler \<Rightarrow> event \<Rightarrow> reactor \<Rightarrow> loop_error + reactor) \<Rightarrow> addr \<Rightarrow> reactor \<Rightarrow> loop_error + reactor" where
  "with_event f a s =
     (case handlers s a of
        None \<Rightarrow> Inl Dangling_handler
      | Some h \<Rightarrow> (case h_event h of None \<Rightarrow> Inl Null_event | Some ev \<Rightarrow> f a h ev s))"

definition expect_read :: "ctl \<Rightarrow> bool \<Rightarrow> addr \<Rightarrow> reactor \<Rightarrow> loop_error + reactor" where
  "expect_read ctl flag a s = with_event (if flag then event_add_state ctl kRead else event_remove_state ctl kRead) a s"

definition expect_write :: "ctl \<Rightarrow> bool \<Rightarrow> addr \<Rightarrow> reactor \<Rightarrow> loop_error + reactor" where
  "expect_write ctl flag a s = with_event (if flag then event_add_state ctl kWrite else event_remove_state ctl kWrite) a s"

section \<open>Dispatching\<close>

datatype callback = Handle_read | Handle_write | Handle_error | Handle_close

definition callbacks :: "u16 \<Rightarrow> callback list" where
  "callbacks state =
     (if state AND kRead \<noteq> 0 then [Handle_read] else []) @ (if state AND kWrite \<noteq> 0 then [Handle_write] else []) @
     (if state AND kError \<noteq> 0 then [Handle_error] else []) @ (if state AND kClose \<noteq> 0 then [Handle_close] else [])"

text \<open>What a callback does to its own event. Handlers it attaches are other handlers, attached between two callbacks.\<close>

datatype request = Expect_read bool | Expect_write bool | Cancel_me

type_synonym behaviour = "addr \<Rightarrow> callback \<Rightarrow> request list"

fun do_request :: "ctl \<Rightarrow> addr \<Rightarrow> request \<Rightarrow> reactor \<Rightarrow> loop_error + reactor" where
  "do_request ctl a (Expect_read b) s = expect_read ctl b a s"
| "do_request ctl a (Expect_write b) s = expect_write ctl b a s"
| "do_request ctl a Cancel_me s = cancel ctl a s"

fun do_requests :: "ctl \<Rightarrow> addr \<Rightarrow> request list \<Rightarrow> reactor \<Rightarrow> loop_error + reactor" where
  "do_requests ctl a [] s = Inr s"
| "do_requests ctl a (r # rs) s = (case do_request ctl a r s of Inl e \<Rightarrow> Inl e | Inr s' \<Rightarrow> do_requests ctl a rs s')"

definition io_handle :: "ctl \<Rightarrow> behaviour \<Rightarrow> addr \<Rightarrow> u16 \<Rightarrow> reactor \<Rightarrow> loop_error + reactor" where
  "io_handle ctl beh a state s = do_requests ctl a (concat (map (beh a) (callbacks state))) s"

text \<open>\<^verbatim>\<open>event_callback\<close> is \<^verbatim>\<open>noexcept\<close>: an exception ends the process.\<close>

definition event_callback :: "ctl \<Rightarrow> behaviour \<Rightarrow> u32 \<Rightarrow> addr \<Rightarrow> reactor \<Rightarrow> loop_error + reactor" where
  "event_callback ctl beh what a s =
     (if handlers s a = None then Inl Dangling_handler
      else case io_handle ctl beh a (short_to_event_state what) s of
             Inl System_failure \<Rightarrow> Inl Terminated | r \<Rightarrow> r)"

fun dispatch_events :: "ctl \<Rightarrow> behaviour \<Rightarrow> (u32 \<times> addr) list \<Rightarrow> reactor \<Rightarrow> loop_error + reactor" where
  "dispatch_events ctl beh [] s = Inr s"
| "dispatch_events ctl beh ((what, a) # evs) s =
     (case event_callback ctl beh what a s of Inl e \<Rightarrow> Inl e | Inr s' \<Rightarrow> dispatch_events ctl beh evs s')"

section \<open>What is registered is what the handlers expect\<close>

text \<open>
  Every active event is registered with its flags, everything registered belongs to an active event of a living handler,
  and a cancelled handler has exactly one task waiting to release it.
\<close>

definition registered :: "reactor \<Rightarrow> addr \<Rightarrow> handler \<Rightarrow> event \<Rightarrow> bool" where
  "registered s a h ev \<longleftrightarrow> handlers s a = Some h \<and> h_event h = Some ev \<and> ev_active ev"

definition reactor_ok :: "reactor \<Rightarrow> bool" where
  "reactor_ok s \<longleftrightarrow>
     (\<forall>a h ev. registered s a h ev \<longrightarrow> table s (h_desc h) = Some (event_state_to_short (ev_state ev), a)) \<and>
     (\<forall>d fl a. table s d = Some (fl, a) \<longrightarrow> (\<exists>h ev. registered s a h ev \<and> h_desc h = d)) \<and>
     distinct (tasks s) \<and>
     (\<forall>a. a \<in> set (tasks s) \<longleftrightarrow> (\<exists>h. handlers s a = Some h \<and> \<not> is_active h)) \<and>
     (\<forall>a h. handlers s a = Some h \<longrightarrow> h_reactor h \<and> h_event h \<noteq> None)"

lemma reactor_new_ok: "reactor_ok reactor_new"
  by (simp add: reactor_ok_def reactor_new_def registered_def)

lemma ok_registered: "reactor_ok s \<Longrightarrow> registered s a h ev \<Longrightarrow> table s (h_desc h) = Some (event_state_to_short (ev_state ev), a)"
  unfolding reactor_ok_def by blast

lemma ok_table: "reactor_ok s \<Longrightarrow> table s d = Some (fl, a) \<Longrightarrow> \<exists>h ev. registered s a h ev \<and> h_desc h = d"
  unfolding reactor_ok_def by blast

lemma ok_tasks: "reactor_ok s \<Longrightarrow> distinct (tasks s) \<and> (a \<in> set (tasks s) \<longleftrightarrow> (\<exists>h. handlers s a = Some h \<and> \<not> is_active h))"
  unfolding reactor_ok_def by blast

lemma ok_handler: "reactor_ok s \<Longrightarrow> handlers s a = Some h \<Longrightarrow> h_reactor h \<and> (\<exists>ev. h_event h = Some ev)"
  unfolding reactor_ok_def by blast

lemma reactor_okI:
  assumes "\<And>a h ev. registered s a h ev \<Longrightarrow> table s (h_desc h) = Some (event_state_to_short (ev_state ev), a)"
    and "\<And>d fl a. table s d = Some (fl, a) \<Longrightarrow> \<exists>h ev. registered s a h ev \<and> h_desc h = d"
    and "distinct (tasks s)" "\<And>a. a \<in> set (tasks s) \<longleftrightarrow> (\<exists>h. handlers s a = Some h \<and> \<not> is_active h)"
    and "\<And>a h. handlers s a = Some h \<Longrightarrow> h_reactor h \<and> (\<exists>ev. h_event h = Some ev)"
  shows "reactor_ok s"
  unfolding reactor_ok_def using assms by blast

lemma one_owner:
  "reactor_ok s \<Longrightarrow> registered s a h ev \<Longrightarrow> registered s c k e \<Longrightarrow> h_desc k = h_desc h \<Longrightarrow> c = a"
  using ok_registered [of s a h ev] ok_registered [of s c k e] by simp

text \<open>Changing what an active handler expects.\<close>

lemma change_state_ok:
  assumes ok: "reactor_ok s" and doc: "ctl_documented ctl" and r: "registered s a h ev"
  shows "\<exists>s'. event_change_state ctl st a h ev s = Inr s' \<and> reactor_ok s' \<and> tasks s' = tasks s \<and>
    dom (handlers s') = dom (handlers s) \<and> (\<forall>c. c \<noteq> a \<longrightarrow> handlers s' c = handlers s c) \<and>
    registered s' a (h\<lparr>h_event := Some (ev\<lparr>ev_state := st\<rparr>)\<rparr>) (ev\<lparr>ev_state := st\<rparr>)"
proof -
  let ?ev = "ev\<lparr>ev_state := st\<rparr>"
  let ?h = "h\<lparr>h_event := Some ?ev\<rparr>"
  let ?s = "s\<lparr>handlers := (handlers s)(a \<mapsto> ?h), table := (table s)(h_desc h \<mapsto> (event_state_to_short st, a))\<rparr>"
  have t: "table s (h_desc h) = Some (event_state_to_short (ev_state ev), a)" by (rule ok_registered [OF ok r])
  have hs: "handlers s a = Some h" "ev_active ev" "h_event h = Some ev" using r by (simp_all add: registered_def)
  have run: "event_change_state ctl st a h ev s = Inr ?s"
    using doc t by (simp add: event_change_state_def mod_event_def epoll_ctl_def set_handler_def ctl_documented_def)
  have regs: "registered ?s c k e \<longleftrightarrow> (if c = a then k = ?h \<and> e = ?ev else registered s c k e)" for c k e
    using hs by (auto simp: registered_def)
  have "reactor_ok ?s"
  proof (rule reactor_okI)
    fix c k e
    assume reg: "registered ?s c k e"
    show "table ?s (h_desc k) = Some (event_state_to_short (ev_state e), c)"
    proof (cases "c = a")
      case True
      with reg have "k = ?h" "e = ?ev" unfolding regs by simp_all
      with True show ?thesis by simp
    next
      case False
      with reg have k: "registered s c k e" unfolding regs by simp
      with False one_owner [OF ok r k] have "h_desc k \<noteq> h_desc h" by blast
      with ok_registered [OF ok k] show ?thesis by simp
    qed
  next
    fix d fl c
    assume tb: "table ?s d = Some (fl, c)"
    show "\<exists>k e. registered ?s c k e \<and> h_desc k = d"
    proof (cases "d = h_desc h")
      case True
      with tb have "c = a" by simp
      with True show ?thesis by (intro exI [of _ ?h] exI [of _ ?ev]) (simp add: regs)
    next
      case False
      with tb ok_table [OF ok, of d fl c] obtain k e where k: "registered s c k e" "h_desc k = d" by auto
      with False hs have "c \<noteq> a" by (auto simp: registered_def)
      with k show ?thesis using regs by auto
    qed
  next
    show "distinct (tasks ?s)" using ok_tasks [OF ok] by simp
    show "(c \<in> set (tasks ?s)) = (\<exists>k. handlers ?s c = Some k \<and> \<not> is_active k)" for c
      using ok_tasks [OF ok, of c] hs by (auto simp: is_active_def)
    show "h_reactor k \<and> (\<exists>e. h_event k = Some e)" if "handlers ?s c = Some k" for c k
      using ok_handler [OF ok, of c] ok_handler [OF ok hs(1)] that by (auto split: if_splits)
  qed
  moreover have "dom (handlers ?s) = dom (handlers s)" using hs by auto
  moreover have "registered ?s a ?h ?ev" by (simp add: regs)
  ultimately show ?thesis using run by auto
qed

text \<open>Cancelling an active handler, and releasing a cancelled one.\<close>

lemma event_cancel_ok:
  assumes ok: "reactor_ok s" and doc: "ctl_documented ctl" and r: "registered s a h ev"
  shows "\<exists>s'. cancel ctl a s = Inr s' \<and> reactor_ok s' \<and> tasks s' = tasks s @ [a] \<and> table s' (h_desc h) = None \<and>
    dom (handlers s') = dom (handlers s) \<and> (\<forall>c. c \<noteq> a \<longrightarrow> handlers s' c = handlers s c)"
proof -
  let ?h = "h\<lparr>h_event := Some (ev\<lparr>ev_active := False\<rparr>)\<rparr>"
  let ?s = "s\<lparr>handlers := (handlers s)(a \<mapsto> ?h), table := (table s)(h_desc h := None), tasks := tasks s @ [a]\<rparr>"
  have t: "table s (h_desc h) = Some (event_state_to_short (ev_state ev), a)" by (rule ok_registered [OF ok r])
  have hs: "handlers s a = Some h" "ev_active ev" "h_event h = Some ev" using r by (simp_all add: registered_def)
  have run: "cancel ctl a s = Inr ?s"
    using doc t hs by (simp add: cancel_def event_cancel_def del_event_def epoll_ctl_def set_handler_def ctl_documented_def)
  have regs: "registered ?s c k e \<longleftrightarrow> c \<noteq> a \<and> registered s c k e" for c k e
    by (auto simp: registered_def)
  have "reactor_ok ?s"
  proof (rule reactor_okI)
    fix c k e
    assume "registered ?s c k e"
    then have k: "c \<noteq> a" "registered s c k e" unfolding regs by simp_all
    with one_owner [OF ok r k(2)] have "h_desc k \<noteq> h_desc h" by blast
    with ok_registered [OF ok k(2)] show "table ?s (h_desc k) = Some (event_state_to_short (ev_state e), c)" by simp
  next
    fix d fl c
    assume tb: "table ?s d = Some (fl, c)"
    with ok_table [OF ok, of d fl c] obtain k e where k: "registered s c k e" "h_desc k = d" "d \<noteq> h_desc h"
      by (auto split: if_splits)
    with hs have "c \<noteq> a" by (auto simp: registered_def)
    with k show "\<exists>k e. registered ?s c k e \<and> h_desc k = d" using regs by auto
  next
    have n: "a \<notin> set (tasks s)" using ok_tasks [OF ok, of a] hs by (simp add: is_active_def)
    with ok_tasks [OF ok] show "distinct (tasks ?s)" by simp
    show "(c \<in> set (tasks ?s)) = (\<exists>k. handlers ?s c = Some k \<and> \<not> is_active k)" for c
      using ok_tasks [OF ok, of c] by (auto simp: is_active_def)
    show "h_reactor k \<and> (\<exists>e. h_event k = Some e)" if "handlers ?s c = Some k" for c k
      using ok_handler [OF ok, of c] ok_handler [OF ok hs(1)] that by (auto split: if_splits)
  qed
  moreover have "dom (handlers ?s) = dom (handlers s)" using hs by auto
  ultimately show ?thesis using run by auto
qed

lemma run_cancelled_ok:
  assumes ok: "reactor_ok s"
  shows "reactor_ok (run_cancelled s) \<and> tasks (run_cancelled s) = tl (tasks s) \<and> table (run_cancelled s) = table s \<and>
    dom (handlers (run_cancelled s)) = dom (handlers s) - set (take 1 (tasks s))"
proof (cases "tasks s")
  case Nil
  with ok show ?thesis by (simp add: run_cancelled_def)
next
  case (Cons a as)
  from ok_tasks [OF ok, of a] Cons obtain h where h: "handlers s a = Some h" "\<not> is_active h" by auto
  from ok_handler [OF ok h(1)] have r: "h_reactor h" by blast
  let ?s = "s\<lparr>tasks := as, handlers := (handlers s)(a := None)\<rparr>"
  have run: "run_cancelled s = ?s" using Cons h r by (simp add: run_cancelled_def Let_def set_handler_def detach_handler_def)
  have regs: "registered ?s c k e \<longleftrightarrow> registered s c k e" for c k e
    using h by (auto simp: registered_def is_active_def)
  have d: "a \<notin> set as" "distinct as" using ok_tasks [OF ok] Cons by auto
  have "reactor_ok ?s"
  proof (rule reactor_okI)
    show "(c \<in> set (tasks ?s)) = (\<exists>k. handlers ?s c = Some k \<and> \<not> is_active k)" for c
      using ok_tasks [OF ok, of c] Cons d by auto
    show "h_reactor k \<and> (\<exists>e. h_event k = Some e)" if "handlers ?s c = Some k" for c k
      using ok_handler [OF ok, of c] that by (auto split: if_splits)
  qed (use ok_registered [OF ok] ok_table [OF ok] d regs in simp_all)
  with Cons h show ?thesis by (auto simp: run)
qed

text \<open>A handler is attached if its descriptor is not registered yet; otherwise nothing changes.\<close>

lemma attach_ok:
  assumes ok: "reactor_ok s" and doc: "ctl_documented ctl" and a: "handlers s a = None"
  shows "reactor_ok (snd (attach_handler ctl a (handler_new d st) s)) \<and>
    tasks (snd (attach_handler ctl a (handler_new d st) s)) = tasks s \<and>
    (fst (attach_handler ctl a (handler_new d st) s) = None \<longleftrightarrow> table s d = None)"
proof (cases "table s d")
  case (Some x)
  have "s\<lparr>handlers := (handlers s)(a := None)\<rparr> = s" using a by (simp add: fun_upd_idem)
  then have "attach_handler ctl a (handler_new d st) s = (Some System_failure, s)"
    using Some doc
    by (simp add: attach_handler_def attach_reactor_def event_arm_def arm_event_def epoll_ctl_def set_handler_def
        handler_new_def ctl_documented_def Let_def)
  with ok Some show ?thesis by simp
next
  case None
  let ?ev = "\<lparr>ev_state = st, ev_active = True\<rparr>"
  let ?h = "\<lparr>h_desc = d, h_expected = st, h_event = Some ?ev, h_reactor = True\<rparr>"
  let ?s = "s\<lparr>handlers := (handlers s)(a \<mapsto> ?h), table := (table s)(d \<mapsto> (event_state_to_short st, a))\<rparr>"
  have run: "attach_handler ctl a (handler_new d st) s = (None, ?s)"
    using None doc
    by (simp add: attach_handler_def attach_reactor_def event_arm_def arm_event_def epoll_ctl_def set_handler_def
        handler_new_def ctl_documented_def Let_def)
  have regs: "registered ?s c k e \<longleftrightarrow> (if c = a then k = ?h \<and> e = ?ev else registered s c k e)" for c k e
    by (auto simp: registered_def)
  have "reactor_ok ?s"
  proof (rule reactor_okI)
    fix c k e
    assume reg: "registered ?s c k e"
    show "table ?s (h_desc k) = Some (event_state_to_short (ev_state e), c)"
    proof (cases "c = a")
      case False
      with reg have "registered s c k e" unfolding regs by simp
      from ok_registered [OF ok this] None show ?thesis by auto
    qed (use reg in \<open>simp add: regs\<close>)
  next
    fix d' fl c
    assume tb: "table ?s d' = Some (fl, c)"
    show "\<exists>k e. registered ?s c k e \<and> h_desc k = d'"
    proof (cases "d' = d")
      case True
      with tb have "c = a" by simp
      with True show ?thesis by (intro exI [of _ ?h] exI [of _ ?ev]) (simp add: regs)
    next
      case False
      with tb ok_table [OF ok, of d' fl c] obtain k e where k: "registered s c k e" "h_desc k = d'" by auto
      with a have "c \<noteq> a" by (auto simp: registered_def)
      with k show ?thesis using regs by auto
    qed
  next
    show "distinct (tasks ?s)" using ok_tasks [OF ok] by simp
    show "(c \<in> set (tasks ?s)) = (\<exists>k. handlers ?s c = Some k \<and> \<not> is_active k)" for c
      using ok_tasks [OF ok, of c] a by (auto simp: is_active_def)
    show "h_reactor k \<and> (\<exists>e. h_event k = Some e)" if "handlers ?s c = Some k" for c k
      using ok_handler [OF ok, of c] that by (auto split: if_splits)
  qed
  with run None show ?thesis by simp
qed

section \<open>Runs of the reactor\<close>

text \<open>Between callbacks a handler may be attached, cancelled or told what to expect, and the shard runs a deferred task.\<close>

inductive reactor_next :: "ctl \<Rightarrow> reactor \<Rightarrow> reactor \<Rightarrow> bool" for ctl where
  Attach: "handlers s a = None \<Longrightarrow> attach_handler ctl a (handler_new d st) s = (e, s') \<Longrightarrow> reactor_next ctl s s'"
| Request: "handlers s a = Some h \<Longrightarrow> is_active h \<Longrightarrow> do_request ctl a r s = Inr s' \<Longrightarrow> reactor_next ctl s s'"
| Release: "reactor_next ctl s (run_cancelled s)"

lemma active_registered: "handlers s a = Some h \<Longrightarrow> is_active h \<Longrightarrow> \<exists>ev. registered s a h ev"
  by (auto simp: is_active_def registered_def split: option.splits)

text \<open>One request of a handler whose event is active.\<close>

lemma do_request_ok:
  assumes ok: "reactor_ok s" and doc: "ctl_documented ctl" and r: "registered s a h ev"
  shows "\<exists>s'. do_request ctl a r s = Inr s' \<and> reactor_ok s' \<and> dom (handlers s') = dom (handlers s) \<and>
    (\<forall>c. c \<noteq> a \<longrightarrow> handlers s' c = handlers s c) \<and> (r \<noteq> Cancel_me \<longrightarrow> (\<exists>h ev. registered s' a h ev))"
proof -
  have hs: "handlers s a = Some h" "h_event h = Some ev" using r by (simp_all add: registered_def)
  have step: "\<exists>s'. with_event (\<lambda>a h ev. event_change_state ctl (f ev) a h ev) a s = Inr s' \<and> reactor_ok s' \<and>
      dom (handlers s') = dom (handlers s) \<and> (\<forall>c. c \<noteq> a \<longrightarrow> handlers s' c = handlers s c) \<and> (\<exists>h ev. registered s' a h ev)" for f
    using change_state_ok [OF ok doc r, of "f ev"] hs by (auto simp: with_event_def)
  show ?thesis
  proof (cases r)
    case (Expect_read b)
    with step [of "\<lambda>ev. ev_state ev OR kRead"] step [of "\<lambda>ev. ev_state ev AND NOT kRead"] show ?thesis
      by (cases b) (auto simp: expect_read_def event_add_state_def [abs_def] event_remove_state_def [abs_def])
  next
    case (Expect_write b)
    with step [of "\<lambda>ev. ev_state ev OR kWrite"] step [of "\<lambda>ev. ev_state ev AND NOT kWrite"] show ?thesis
      by (cases b) (auto simp: expect_write_def event_add_state_def [abs_def] event_remove_state_def [abs_def])
  next
    case Cancel_me
    with event_cancel_ok [OF ok doc r] show ?thesis by auto
  qed
qed

lemma reactor_next_ok: "reactor_next ctl s t \<Longrightarrow> ctl_documented ctl \<Longrightarrow> reactor_ok s \<Longrightarrow> reactor_ok t"
proof (induction rule: reactor_next.induct)
  case (Attach s a d st e s')
  then show ?case using attach_ok [of s ctl a d st] by simp
next
  case (Request s a h r s')
  then obtain ev where "registered s a h ev" using active_registered by blast
  with Request do_request_ok [of s ctl a h ev r] show ?case by auto
next
  case (Release s)
  then show ?case using run_cancelled_ok by blast
qed

interpretation reactors: started_system "reactor_next ctl" "\<lambda>s. ctl_documented ctl \<longrightarrow> reactor_ok s" reactor_new for ctl
  by unfold_locales (auto intro: reactor_next_ok reactor_new_ok)

section \<open>A batch of events\<close>

text \<open>Cancelling comes last in what a callback does, and after all callbacks that still expect something.\<close>

definition orderly :: "behaviour \<Rightarrow> bool" where
  "orderly beh \<longleftrightarrow> (\<forall>a state. \<exists>xs n. concat (map (beh a) (callbacks state)) = xs @ replicate n Cancel_me \<and> Cancel_me \<notin> set xs)"

lemma expects_ok:
  "reactor_ok s \<Longrightarrow> ctl_documented ctl \<Longrightarrow> registered s a h ev \<Longrightarrow> Cancel_me \<notin> set xs \<Longrightarrow>
     \<exists>s'. do_requests ctl a xs s = Inr s' \<and> reactor_ok s' \<and> dom (handlers s') = dom (handlers s) \<and>
       (\<forall>c. c \<noteq> a \<longrightarrow> handlers s' c = handlers s c) \<and> (\<exists>h ev. registered s' a h ev)"
proof (induction xs arbitrary: s h ev)
  case (Cons x xs)
  from do_request_ok [OF Cons.prems(1-3), of x] Cons.prems(4)
  obtain s1 h1 ev1 where s1: "do_request ctl a x s = Inr s1" "reactor_ok s1" "dom (handlers s1) = dom (handlers s)"
    "\<forall>c. c \<noteq> a \<longrightarrow> handlers s1 c = handlers s c" "registered s1 a h1 ev1" by auto
  from Cons.IH [OF s1(2) Cons.prems(2) s1(5)] Cons.prems(4) s1 show ?case by auto
qed auto

lemma cancels_ok:
  "reactor_ok s \<Longrightarrow> ctl_documented ctl \<Longrightarrow> handlers s a = Some h \<Longrightarrow>
     \<exists>s'. do_requests ctl a (replicate n Cancel_me) s = Inr s' \<and> reactor_ok s' \<and> dom (handlers s') = dom (handlers s) \<and>
       (\<forall>c. c \<noteq> a \<longrightarrow> handlers s' c = handlers s c)"
proof (induction n arbitrary: s h)
  case (Suc n)
  show ?case
  proof (cases "is_active h")
    case True
    with Suc.prems(3) obtain ev where r: "registered s a h ev" using active_registered by blast
    from event_cancel_ok [OF Suc.prems(1,2) r] obtain s1 where s1: "cancel ctl a s = Inr s1" "reactor_ok s1"
      "dom (handlers s1) = dom (handlers s)" "\<forall>c. c \<noteq> a \<longrightarrow> handlers s1 c = handlers s c" by blast
    from s1(3) Suc.prems(3) obtain h1 where "handlers s1 a = Some h1" by (metis domD domI)
    from Suc.IH [OF s1(2) Suc.prems(2) this] s1 show ?thesis by auto
  next
    case False
    with Suc.prems(3) have "cancel ctl a s = Inr s" by (auto simp: cancel_def is_active_def split: option.splits)
    with Suc.IH [OF Suc.prems] show ?thesis by auto
  qed
qed auto

lemma do_requests_append:
  "do_requests ctl a (xs @ ys) s = (case do_requests ctl a xs s of Inl e \<Rightarrow> Inl e | Inr s' \<Rightarrow> do_requests ctl a ys s')"
  by (induction xs arbitrary: s) (auto split: sum.split)

lemma dispatch_ok:
  "reactor_ok s \<Longrightarrow> ctl_documented ctl \<Longrightarrow> orderly beh \<Longrightarrow> distinct (map snd evs) \<Longrightarrow>
     (\<forall>(w, a) \<in> set evs. \<exists>h ev. registered s a h ev) \<Longrightarrow>
     \<exists>s'. dispatch_events ctl beh evs s = Inr s' \<and> reactor_ok s' \<and> dom (handlers s') = dom (handlers s)"
proof (induction evs arbitrary: s)
  case (Cons x evs)
  obtain w a where x: "x = (w, a)" by force
  with Cons.prems(5) obtain h ev where r: "registered s a h ev" by auto
  obtain xs n where rs: "concat (map (beh a) (callbacks (short_to_event_state w))) = xs @ replicate n Cancel_me"
    "Cancel_me \<notin> set xs" using Cons.prems(3) unfolding orderly_def by blast
  from expects_ok [OF Cons.prems(1,2) r rs(2)] obtain s1 h1 ev1 where s1: "do_requests ctl a xs s = Inr s1" "reactor_ok s1"
    "dom (handlers s1) = dom (handlers s)" "\<forall>c. c \<noteq> a \<longrightarrow> handlers s1 c = handlers s c" "registered s1 a h1 ev1" by blast
  from s1(5) have "handlers s1 a = Some h1" by (simp add: registered_def)
  from cancels_ok [OF s1(2) Cons.prems(2) this] obtain s2 where s2: "do_requests ctl a (replicate n Cancel_me) s1 = Inr s2"
    "reactor_ok s2" "dom (handlers s2) = dom (handlers s1)" "\<forall>c. c \<noteq> a \<longrightarrow> handlers s2 c = handlers s1 c" by blast
  have "event_callback ctl beh w a s = Inr s2"
    using r s1(1) s2(1) by (simp add: event_callback_def io_handle_def rs(1) do_requests_append registered_def)
  moreover have "\<forall>(w, c) \<in> set evs. \<exists>h ev. registered s2 c h ev"
  proof clarify
    fix w' c
    assume c: "(w', c) \<in> set evs"
    with Cons.prems(4) x have "c \<noteq> a" by force
    with s1(4) s2(4) have "handlers s2 c = handlers s c" by simp
    moreover from c Cons.prems(5) obtain h ev where "registered s c h ev" by fastforce
    ultimately show "\<exists>h ev. registered s2 c h ev" by (auto simp: registered_def)
  qed
  ultimately show ?case using Cons.IH [OF s2(2) Cons.prems(2,3)] Cons.prems(4) x s1(3) s2(3) by auto
qed auto

section \<open>The conversions agree\<close>

lemma and_flag: "w AND 2 ^ k = (if bit w k then 2 ^ k else 0)" for w :: "'a::len word"
  by (rule bit_word_eqI) (auto simp: bit_simps)

lemma and_flags:
  "st AND 1 = (if bit st 0 then 1 else 0)" "st AND 2 = (if bit st 1 then 2 else 0)" "st AND 4 = (if bit st 2 then 4 else 0)"
  for st :: u16
  using and_flag [of st 0] and_flag [of st 1] and_flag [of st 2] by simp_all

lemma epoll_flags_roundtrip: "short_to_event_state (event_state_to_short st) = (st AND (kRead OR kWrite)) OR kClose"
proof -
  have "st AND 3 = (st AND 1) OR (st AND 2)" by (simp add: bit.conj_disj_distrib [symmetric])
  then show ?thesis
    by (simp add: event_state_to_short_def short_to_event_state_def and_flags Let_def)
qed

lemma libevent_flags_roundtrip:
  "libevent_short_to_state (libevent_state_to_short st) = st AND (kRead OR kWrite OR kTimeout)"
proof -
  have "st AND 7 = (st AND 1) OR (st AND 2) OR (st AND 4)" by (simp add: bit.conj_disj_distrib [symmetric])
  then show ?thesis
    by (simp add: libevent_state_to_short_def libevent_short_to_state_def and_flags Let_def)
qed

end
