(* ===== verification/Client_Pipe.thy ===== *)
theory Client_Pipe
  imports Socket Buffer_Allocator
begin

text \<open>
  \<^verbatim>\<open>xi/io/net/async_channel.h\<close>: the last filter of a stream pipe, which moves bytes between the pipe and the socket,
  the datagram filter, and the sockets that accept and connect. The calls of other components are recorded: what
  the handler is told to expect, what is deferred to the shard, what is forwarded to the next filter. \<open>K\<close> is the
  operating system, \<open>fd\<close> the descriptor and \<open>f\<close> the fuel of one write.
\<close>

section \<open>The filter of a stream\<close>

datatype sink_task = Write_data | Read_data | Write_closing

datatype forward = Forward_buffer buffer | Forward_error error_code

record 'k sink =
  net :: "'k net"
  write_buf :: buffer
  scheduled_write :: bool
  closing :: bool
  inline_writes :: "16 word"
  deferred :: "sink_task list"
  expects_read :: bool
  expects_write :: bool
  cancelled :: bool
  forwarded :: "forward list"

datatype socket_event = Readable | Writable | Closing

definition sink_new :: "'k net \<Rightarrow> 'k sink" where
  "sink_new n = \<lparr>net = n, write_buf = buffer_default, scheduled_write = False, closing = False, inline_writes = 0,
     deferred = [], expects_read = True, expects_write = False, cancelled = False, forwarded = []\<rparr>"

definition defer_task :: "sink_task \<Rightarrow> 'k sink \<Rightarrow> 'k sink" where
  "defer_task t s = s\<lparr>deferred := deferred s @ [t]\<rparr>"

text \<open>\<^verbatim>\<open>socket_base::close\<close> writes \<open>kClosing\<close> into the pipe later.\<close>

definition pipe_close :: "'k sink \<Rightarrow> 'k sink" where
  "pipe_close s = defer_task Write_closing s"

definition sink_forward :: "forward \<Rightarrow> 'k sink \<Rightarrow> 'k sink" where
  "sink_forward x s = s\<lparr>forwarded := forwarded s @ [x]\<rparr>"

definition sink_write_buffer :: "nat \<Rightarrow> 'k kernel \<Rightarrow> int \<Rightarrow> 'k sink \<Rightarrow> (int expected \<times> 'k sink) option" where
  "sink_write_buffer f K fd s =
     do { (r, b, n) \<leftarrow> write_buffer f K fd (write_buf s) (net s); Some (r, s\<lparr>write_buf := b, net := n\<rparr>) }"

definition write_data :: "nat \<Rightarrow> 'k kernel \<Rightarrow> int \<Rightarrow> 'k sink \<Rightarrow> 'k sink option" where
  "write_data f K fd s =
     do { let s0 = s\<lparr>scheduled_write := False\<rparr>;
          (close, s1) \<leftarrow>
            (if \<not> closing s0 \<and> \<not> buffer_empty (write_buf s0)
             then do { (r, s') \<leftarrow> sink_write_buffer f K fd s0;
                       Some (case r of
                               Value _ \<Rightarrow> (False, s')
                             | Failed e \<Rightarrow>
                                 if e = kRetry then (False, s'\<lparr>expects_write := True\<rparr>)
                                 else (True, if e \<noteq> kEOF then sink_forward (Forward_error e) s' else s')) }
             else Some (False, s0));
          let s2 = s1\<lparr>inline_writes := 0\<rparr>;
          Some (if close then pipe_close s2 else s2) }"

text \<open>
  \<^verbatim>\<open>read_data\<close>: fragments of 16 KiB are read into until the socket has no more, or after three when an event asked for
  it. The buffer is forwarded if it has a fragment, even an empty one. \<open>alloc\<close> is the allocator of the channel.
\<close>

fun read_data_loop ::
    "nat \<Rightarrow> 'k kernel \<Rightarrow> int \<Rightarrow> fragment_allocator \<Rightarrow> bool \<Rightarrow> u8 \<Rightarrow> buffer \<Rightarrow> 'k sink \<Rightarrow> (bool \<times> buffer \<times> 'k sink) option" where
  "read_data_loop 0 K fd alloc on_io loops b s = None"
| "read_data_loop (Suc g) K fd alloc on_io loops b s =
     (if closing s then Some (False, b, s)
      else do { (fr, w) \<leftarrow> alloc 16384 (wld (net s));
                let b1 = buffer_push_back (Some fr) b;
                (r, b2, n) \<leftarrow> read_buffer K fd b1 ((net s)\<lparr>wld := w\<rparr>);
                let s1 = s\<lparr>net := n\<rparr>;
                (case r of
                   Failed e \<Rightarrow>
                     Some (if e = kRetry then (False, b2, s1\<lparr>expects_read := True\<rparr>)
                           else (True, b2, if e \<noteq> kEOF then sink_forward (Forward_error e) s1 else s1))
                 | Value _ \<Rightarrow>
                     if loops = 2 \<and> on_io then Some (False, b2, defer_task Read_data s1)
                     else read_data_loop g K fd alloc on_io (loops + 1) b2 s1) })"

definition read_data :: "nat \<Rightarrow> 'k kernel \<Rightarrow> int \<Rightarrow> fragment_allocator \<Rightarrow> bool \<Rightarrow> 'k sink \<Rightarrow> 'k sink option" where
  "read_data g K fd alloc on_io s =
     do { (close, b, s1) \<leftarrow> read_data_loop g K fd alloc on_io 0 buffer_default s;
          let s2 = (if \<not> buffer_empty b then sink_forward (Forward_buffer b) s1 else s1);
          Some (if close then pipe_close s2 else s2) }"

text \<open>Events from the handler arrive as reads, the closing event and the data as writes.\<close>

definition sink_read :: "nat \<Rightarrow> nat \<Rightarrow> 'k kernel \<Rightarrow> int \<Rightarrow> fragment_allocator \<Rightarrow> socket_event \<Rightarrow> 'k sink \<Rightarrow> 'k sink option" where
  "sink_read f g K fd alloc e s =
     (case e of
        Readable \<Rightarrow> read_data g K fd alloc True s
      | Writable \<Rightarrow>
          if \<not> buffer_empty (write_buf s)
          then do { (_, s1) \<leftarrow> sink_write_buffer f K fd s; Some (s1\<lparr>expects_write := \<not> buffer_empty (write_buf s1)\<rparr>) }
          else Some s
      | Closing \<Rightarrow> Some s)"

definition sink_write_event :: "socket_event \<Rightarrow> 'k sink \<Rightarrow> 'k sink" where
  "sink_write_event e s = (case e of Closing \<Rightarrow> s\<lparr>closing := True, cancelled := True\<rparr> | _ \<Rightarrow> s)"

definition enqueue :: "buffer \<Rightarrow> 'k sink \<Rightarrow> 'k sink" where
  "enqueue b s =
     (let s1 = s\<lparr>write_buf := buffer_push_back_buffer (Some b) (write_buf s)\<rparr>
      in if bufsize (write_buf s1) > 100 * 2 ^ 20 then pipe_close s1
         else if \<not> closing s1 \<and> \<not> scheduled_write s1 then (defer_task Write_data s1)\<lparr>scheduled_write := True\<rparr>
         else s1)"

text \<open>The counter is an \<^verbatim>\<open>i16\<close>; it is incremented only if no write is scheduled.\<close>

definition sink_write :: "nat \<Rightarrow> 'k kernel \<Rightarrow> int \<Rightarrow> buffer \<Rightarrow> 'k sink \<Rightarrow> 'k sink option" where
  "sink_write f K fd b s =
     (if scheduled_write s then Some (enqueue b s)
      else let s1 = s\<lparr>inline_writes := inline_writes s + 1\<rparr>
           in if sint (inline_writes s1) < 1
              then do { (_, b', n) \<leftarrow> write_buffer f K fd b (net s1);
                        let s2 = s1\<lparr>net := n\<rparr>;
                        Some (if buffer_empty b' then s2 else enqueue b' s2) }
              else Some (enqueue b s1))"

text \<open>The shard runs what was deferred.\<close>

definition run_deferred :: "nat \<Rightarrow> nat \<Rightarrow> 'k kernel \<Rightarrow> int \<Rightarrow> fragment_allocator \<Rightarrow> 'k sink \<Rightarrow> 'k sink option" where
  "run_deferred f g K fd alloc s =
     (case deferred s of
        [] \<Rightarrow> Some s
      | t # ts \<Rightarrow>
          let s1 = s\<lparr>deferred := ts\<rparr>
          in case t of
               Write_data \<Rightarrow> write_data f K fd s1
             | Read_data \<Rightarrow> read_data g K fd alloc False s1
             | Write_closing \<Rightarrow> Some (sink_write_event Closing s1))"

section \<open>Datagrams\<close>

datatype datagram_forward = Forward_datagram buffer posix_endpoint | Forward_failure error_code

record 'k dgram =
  d_net :: "'k net"
  d_forwarded :: "datagram_forward list"
  d_closes :: nat
  d_cancelled :: bool

text \<open>One datagram per event, into a fragment of 64 KiB. The endpoint is filled in by the system call.\<close>

definition dgram_read :: "'k kernel \<Rightarrow> int \<Rightarrow> fragment_allocator \<Rightarrow> posix_endpoint \<Rightarrow> socket_event \<Rightarrow> 'k dgram \<Rightarrow> 'k dgram option" where
  "dgram_read K fd alloc remote e d =
     (case e of
        Readable \<Rightarrow>
          do { (fr, w) \<leftarrow> alloc (2 ^ 16) (wld (d_net d));
               (b, w1) \<leftarrow> buffer_of_fragment (Some fr) w;
               (r, b', n) \<leftarrow> read_buffer_from K fd b remote ((d_net d)\<lparr>wld := w1\<rparr>);
               let d1 = d\<lparr>d_net := n\<rparr>;
               Some (case r of
                       Failed e \<Rightarrow> if e = kEOF then d1\<lparr>d_closes := d_closes d1 + 1\<rparr>
                                   else d1\<lparr>d_forwarded := d_forwarded d1 @ [Forward_failure e]\<rparr>
                     | Value _ \<Rightarrow> d1\<lparr>d_forwarded := d_forwarded d1 @ [Forward_datagram b' remote]\<rparr>) }
      | _ \<Rightarrow> Some d)"

definition dgram_write_event :: "socket_event \<Rightarrow> 'k dgram \<Rightarrow> 'k dgram" where
  "dgram_write_event e d = (case e of Closing \<Rightarrow> d\<lparr>d_cancelled := True\<rparr> | _ \<Rightarrow> d)"

text \<open>The result is ignored, and the buffer with what was not sent is dropped.\<close>

definition dgram_write :: "nat \<Rightarrow> 'k kernel \<Rightarrow> int \<Rightarrow> buffer \<Rightarrow> posix_endpoint \<Rightarrow> 'k dgram \<Rightarrow> 'k dgram option" where
  "dgram_write f K fd b remote d =
     do { (_, b', n) \<leftarrow> write_buffer_to f K fd b remote (d_net d);
          w \<leftarrow> buffer_destroy b' (wld n);
          Some (d\<lparr>d_net := n\<lparr>wld := w\<rparr>\<rparr>) }"

section \<open>Accepting and connecting\<close>

text \<open>
  An accepted socket is handed to the next shard in turn. \<open>run_on\<close> is shared by all acceptors of the process;
  \<open>placed\<close> lists the sockets with their shards.
\<close>

record acceptor =
  acc_fd :: int
  run_on :: u16
  acc_expects_read :: bool
  acc_errors :: "error_code list"
  placed :: "(int \<times> nat) list"
  acc_cancelled :: bool

definition next_shard :: "nat \<Rightarrow> u16 \<Rightarrow> u16" where
  "next_shard cpus r = word_of_nat ((unat r + 1) mod cpus)"

definition acceptor_read :: "'k kernel \<Rightarrow> option_t list \<Rightarrow> nat \<Rightarrow> acceptor \<Rightarrow> 'k \<Rightarrow> acceptor \<times> 'k" where
  "acceptor_read K opts cpus a s =
     (case server_accept K (acc_fd a) opts s of
        (Failed e, s') \<Rightarrow> (a\<lparr>acc_errors := acc_errors a @ [e]\<rparr>, s')
      | (Value sock, s') \<Rightarrow>
          let r = next_shard cpus (run_on a)
          in (a\<lparr>acc_expects_read := True, run_on := r, placed := placed a @ [(sock, unat r)]\<rparr>, s'))"

definition acceptor_close :: "'k kernel \<Rightarrow> acceptor \<Rightarrow> 'k \<Rightarrow> acceptor \<times> 'k" where
  "acceptor_close K a s =
     (let (_, fd, s') = socket_close K (acc_fd a) s in (a\<lparr>acc_cancelled := True, acc_fd := fd\<rparr>, s'))"

text \<open>
  A connecting socket: its promise is the descriptor or the error, once known. The descriptor it hands over is
  no longer its own.
\<close>

record connecting =
  con_fd :: int
  con_promise :: "int expected option"
  con_expects_write :: bool
  con_cancelled :: bool

definition connecting_close :: "'k kernel \<Rightarrow> connecting \<Rightarrow> 'k \<Rightarrow> connecting \<times> 'k" where
  "connecting_close K c s =
     (let (_, fd, s') = socket_close K (con_fd c) s in (c\<lparr>con_cancelled := True, con_fd := fd\<rparr>, s'))"

definition connecting_release :: "connecting \<Rightarrow> connecting" where
  "connecting_release c = c\<lparr>con_fd := -1, con_cancelled := True\<rparr>"

text \<open>The future that \<^verbatim>\<open>connect\<close> returns is ready (\<open>Some\<close>), or the one of the promise (\<open>None\<close>).\<close>

definition connecting_connect ::
    "'k kernel \<Rightarrow> posix_endpoint \<Rightarrow> connecting \<Rightarrow> 'k \<Rightarrow> int expected option \<times> connecting \<times> 'k" where
  "connecting_connect K ep c s =
     (let (e, s1) = socket_connect K (con_fd c) ep s
      in if expv_has_error e then
           if e = kRetry then (None, c\<lparr>con_expects_write := True\<rparr>, s1)
           else let (c', s2) = connecting_close K c s1 in (Some (Failed e), c', s2)
         else (Some (Value (con_fd c)), connecting_release c, s1))"

text \<open>\<^verbatim>\<open>handle_write\<close> asks for the pending error; \<^verbatim>\<open>value()\<close> of a failed query ends the process.\<close>

definition connecting_write :: "'k kernel \<Rightarrow> int \<times> int \<Rightarrow> connecting \<Rightarrow> 'k \<Rightarrow> (connecting \<times> 'k) outcome" where
  "connecting_write K so_error c s =
     (let (err, s1) = socket_get_option K (con_fd c) so_error s
      in case exp_value err of
           Returns v \<Rightarrow>
             (case con_promise c of
                Some _ \<Rightarrow> Throws Invalid_promise
              | None \<Rightarrow>
                  if v = 0 then Returns (connecting_release (c\<lparr>con_promise := Some (Value (con_fd c))\<rparr>), s1)
                  else Returns (connecting_close K (c\<lparr>con_promise := Some (Failed (error_from_value v))\<rparr>) s1))
         | Throws x \<Rightarrow> Throws x
         | Aborts \<Rightarrow> Aborts)"

section \<open>Bytes leave in the order they came\<close>

text \<open>What was sent and what is still waiting.\<close>

definition stream :: "'k sink \<Rightarrow> u8 list" where
  "stream s = sent (net s) @ buffer_content (mem (wld (net s))) (write_buf s)"

abbreviation sink_mem :: "'k sink \<Rightarrow> memory" where
  "sink_mem s \<equiv> mem (wld (net s))"

definition sink_ok :: "guard multiset \<Rightarrow> 'k sink \<Rightarrow> bool" where
  "sink_ok M s \<longleftrightarrow> buffer_ok (write_buf s) \<and> guard_inv (buffer_guards (write_buf s) + M) (wld (net s)) \<and>
     Read_data \<notin> set (deferred s) \<and> 0 \<le> sint (inline_writes s)"

text \<open>A step that only moves waiting bytes to the socket.\<close>

definition drains :: "guard multiset \<Rightarrow> 'k sink \<Rightarrow> 'k sink \<Rightarrow> bool" where
  "drains M s s' \<longleftrightarrow> sink_ok M s' \<and> stream s' = stream s \<and> sink_mem s' = sink_mem s \<and>
     bufsize (write_buf s') \<le> bufsize (write_buf s) \<and> sint (inline_writes s') \<le> sint (inline_writes s)"

lemma drains_refl: "sink_ok M s \<Longrightarrow> drains M s s"
  by (simp add: drains_def)

lemma sink_write_buffer_drains:
  assumes "sends_within K" "sink_ok M s" "bufsize (write_buf s) < 2 ^ 31" "bufsize (write_buf s) < f"
  shows "\<exists>r b n. sink_write_buffer f K fd s = Some (r, s\<lparr>write_buf := b, net := n\<rparr>) \<and>
    drains M s (s\<lparr>write_buf := b, net := n\<rparr>)"
proof -
  have ok: "buffer_ok (write_buf s)" "guard_inv (buffer_guards (write_buf s) + M) (wld (net s))"
    using assms(2) by (simp_all add: sink_ok_def)
  from data_write_spec [OF assms(1) ok assms(3,4) refl, of fd None]
  obtain r b n k where "write_buffer f K fd (write_buf s) (net s) = Some (r, b, n)" "buffer_ok b"
    "guard_inv (buffer_guards b + M) (wld n)" "mem (wld n) = sink_mem s"
    "sent n = sent (net s) @ take k (buffer_content (sink_mem s) (write_buf s))"
    "buffer_content (sink_mem s) b = drop k (buffer_content (sink_mem s) (write_buf s))"
    "bufsize b = bufsize (write_buf s) - k"
    unfolding write_buffer_def by blast
  with assms(2) show ?thesis
    by (intro exI [of _ r] exI [of _ b] exI [of _ n]) (simp add: sink_write_buffer_def drains_def sink_ok_def stream_def)
qed

lemma write_data_drains:
  assumes "sends_within K" "sink_ok M s" "bufsize (write_buf s) < 2 ^ 31" "bufsize (write_buf s) < f"
  shows "\<exists>s'. write_data f K fd s = Some s' \<and> drains M s s'"
proof (cases "\<not> closing s \<and> \<not> buffer_empty (write_buf s)")
  case False
  with assms(2) show ?thesis by (auto simp: write_data_def drains_def sink_ok_def stream_def)
next
  case True
  let ?s0 = "s\<lparr>scheduled_write := False\<rparr>"
  have "sink_ok M ?s0" using assms(2) by (simp add: sink_ok_def)
  from sink_write_buffer_drains [OF assms(1) this, of f fd] assms(3,4)
  obtain r b n where w: "sink_write_buffer f K fd ?s0 = Some (r, ?s0\<lparr>write_buf := b, net := n\<rparr>)"
    "drains M ?s0 (?s0\<lparr>write_buf := b, net := n\<rparr>)" by auto
  note ds = write_data_def drains_def sink_ok_def stream_def sink_forward_def pipe_close_def defer_task_def Let_def
  show ?thesis
  proof (cases r)
    case (Value v)
    with w True show ?thesis by (clarsimp simp: ds)
  next
    case (Failed e)
    consider "e = kRetry" | "e \<noteq> kRetry" "e = kEOF" | "e \<noteq> kRetry" "e \<noteq> kEOF" by blast
    then show ?thesis using w True Failed by cases (clarsimp simp: ds)+
  qed
qed

lemma run_deferred_drains:
  assumes "sends_within K" "sink_ok M s" "bufsize (write_buf s) < 2 ^ 31" "bufsize (write_buf s) < f"
  shows "\<exists>s'. run_deferred f g K fd alloc s = Some s' \<and> drains M s s'"
proof (cases "deferred s")
  case Nil
  with assms(2) show ?thesis by (simp add: run_deferred_def drains_refl)
next
  case (Cons t ts)
  let ?s1 = "s\<lparr>deferred := ts\<rparr>"
  have ok: "sink_ok M ?s1" "t \<noteq> Read_data" using assms(2) Cons by (auto simp: sink_ok_def)
  from write_data_drains [OF assms(1) ok(1), of f fd] assms(3,4)
  obtain s' where "write_data f K fd ?s1 = Some s'" "drains M ?s1 s'" by auto
  with Cons ok assms(2) show ?thesis
    by (cases t) (auto simp: run_deferred_def sink_write_event_def drains_def sink_ok_def stream_def)
qed

lemma writable_drains:
  assumes "sends_within K" "sink_ok M s" "bufsize (write_buf s) < 2 ^ 31" "bufsize (write_buf s) < f"
  shows "\<exists>s'. sink_read f g K fd alloc Writable s = Some s' \<and> drains M s s'"
  using sink_write_buffer_drains [OF assms, of fd] assms(2)
  by (auto simp: sink_read_def drains_refl) (auto simp: drains_def sink_ok_def stream_def)

lemma enqueue_appends:
  assumes "sink_ok (buffer_guards b + M) s" "buffer_ok b" "bufsize (write_buf s) + bufsize b < 2 ^ 31"
  shows "sink_ok M (enqueue b s) \<and> stream (enqueue b s) = stream s @ buffer_content (sink_mem s) b \<and>
    sink_mem (enqueue b s) = sink_mem s \<and> bufsize (write_buf (enqueue b s)) = bufsize (write_buf s) + bufsize b \<and>
    inline_writes (enqueue b s) = inline_writes s"
proof -
  have w: "write_buf (enqueue b s) = \<lparr>frags = frags (write_buf s) @ frags b, bufsize = bufsize (write_buf s) + bufsize b\<rparr>"
    using assms(3) by (simp add: enqueue_def buffer_push_back_buffer_def pipe_close_def defer_task_def Let_def)
  have n: "net (enqueue b s) = net s" "inline_writes (enqueue b s) = inline_writes s"
    "Read_data \<in> set (deferred (enqueue b s)) \<longleftrightarrow> Read_data \<in> set (deferred s)"
    by (auto simp: enqueue_def pipe_close_def defer_task_def Let_def)
  from assms show ?thesis
    by (auto simp: sink_ok_def stream_def w n buffer_ok_def ac_simps)
qed

section \<open>Runs of the filter\<close>

datatype sink_op = Op_write buffer | Op_writable | Op_run

fun op_buffers :: "sink_op list \<Rightarrow> buffer list" where
  "op_buffers [] = []"
| "op_buffers (Op_write b # ops) = b # op_buffers ops"
| "op_buffers (_ # ops) = op_buffers ops"

fun sink_step :: "nat \<Rightarrow> nat \<Rightarrow> 'k kernel \<Rightarrow> int \<Rightarrow> fragment_allocator \<Rightarrow> sink_op \<Rightarrow> 'k sink \<Rightarrow> 'k sink option" where
  "sink_step f g K fd alloc (Op_write b) s = sink_write f K fd b s"
| "sink_step f g K fd alloc Op_writable s = sink_read f g K fd alloc Writable s"
| "sink_step f g K fd alloc Op_run s = run_deferred f g K fd alloc s"

fun run_sink :: "nat \<Rightarrow> nat \<Rightarrow> 'k kernel \<Rightarrow> int \<Rightarrow> fragment_allocator \<Rightarrow> sink_op list \<Rightarrow> 'k sink \<Rightarrow> 'k sink option" where
  "run_sink f g K fd alloc [] s = Some s"
| "run_sink f g K fd alloc (x # xs) s = do { s1 \<leftarrow> sink_step f g K fd alloc x s; run_sink f g K fd alloc xs s1 }"

abbreviation buffers_guards :: "buffer list \<Rightarrow> guard multiset" where
  "buffers_guards bs \<equiv> \<Sum>\<^sub># (mset (map buffer_guards bs))"

abbreviation buffers_size :: "buffer list \<Rightarrow> nat" where
  "buffers_size bs \<equiv> sum_list (map bufsize bs)"

lemma sink_write_appends:
  assumes "sink_ok (buffer_guards b + M) s" "buffer_ok b" "bufsize (write_buf s) + bufsize b < 2 ^ 31"
    and "sint (inline_writes s) < 2 ^ 15 - 1"
  shows "\<exists>s'. sink_write f K fd b s = Some s' \<and> sink_ok M s' \<and> stream s' = stream s @ buffer_content (sink_mem s) b \<and>
    sink_mem s' = sink_mem s \<and> bufsize (write_buf s') = bufsize (write_buf s) + bufsize b \<and>
    sint (inline_writes s') \<le> sint (inline_writes s) + 1"
proof (cases "scheduled_write s")
  case True
  with enqueue_appends [OF assms(1-3)] show ?thesis by (simp add: sink_write_def)
next
  case False
  let ?s1 = "s\<lparr>inline_writes := inline_writes s + 1\<rparr>"
  have i: "sint (inline_writes s + 1) = sint (inline_writes s) + 1"
    using assms(1,4) by (simp add: sink_ok_def signed_take_bit_int_eq_self sint_word_ariths)
  with assms(1) have "sink_ok (buffer_guards b + M) ?s1" by (simp add: sink_ok_def)
  from enqueue_appends [OF this assms(2)] assms(3) have e: "sink_ok M (enqueue b ?s1)"
    "stream (enqueue b ?s1) = stream ?s1 @ buffer_content (sink_mem s) b" "sink_mem (enqueue b ?s1) = sink_mem s"
    "bufsize (write_buf (enqueue b ?s1)) = bufsize (write_buf s) + bufsize b"
    "inline_writes (enqueue b ?s1) = inline_writes s + 1" by auto
  have "stream ?s1 = stream s" by (simp add: stream_def)
  with e i False assms(1) show ?thesis by (simp add: sink_write_def sink_ok_def)
qed

lemma run_sink_stream:
  assumes "sends_within K" "sink_ok (buffers_guards (op_buffers ops) + M) s" "list_all buffer_ok (op_buffers ops)"
    and "bufsize (write_buf s) + buffers_size (op_buffers ops) < 2 ^ 31"
    and "bufsize (write_buf s) + buffers_size (op_buffers ops) < f"
    and "sint (inline_writes s) + int (length (op_buffers ops)) < 2 ^ 15"
  shows "\<exists>s'. run_sink f g K fd alloc ops s = Some s' \<and> sink_ok M s' \<and>
    stream s' = stream s @ concat (map (buffer_content (sink_mem s)) (op_buffers ops)) \<and> sink_mem s' = sink_mem s"
  using assms
proof (induction ops arbitrary: s)
  case Nil
  then show ?case by simp
next
  case (Cons x ops)
  have go: ?case if "sink_step f g K fd alloc x s = Some s1" "sink_ok (buffers_guards (op_buffers ops) + M) s1"
    "stream s1 = stream s @ c" "sink_mem s1 = sink_mem s"
    "concat (map (buffer_content (sink_mem s)) (op_buffers (x # ops))) = c @ concat (map (buffer_content (sink_mem s)) (op_buffers ops))"
    "bufsize (write_buf s1) + buffers_size (op_buffers ops) \<le> bufsize (write_buf s) + buffers_size (op_buffers (x # ops))"
    "sint (inline_writes s1) + int (length (op_buffers ops)) \<le> sint (inline_writes s) + int (length (op_buffers (x # ops)))"
    "list_all buffer_ok (op_buffers ops)" for s1 c
    using Cons.IH [OF Cons.prems(1) that(2,8)] Cons.prems(4-6) that by auto
  show ?case
  proof (cases x)
    case (Op_write b)
    have "sink_ok (buffer_guards b + (buffers_guards (op_buffers ops) + M)) s" "buffer_ok b"
      using Cons.prems(2,3) Op_write by (simp_all add: ac_simps)
    from sink_write_appends [OF this, of f K fd] Cons.prems(4,6) Op_write
    obtain s1 where "sink_write f K fd b s = Some s1" "sink_ok (buffers_guards (op_buffers ops) + M) s1"
      "stream s1 = stream s @ buffer_content (sink_mem s) b" "sink_mem s1 = sink_mem s"
      "bufsize (write_buf s1) = bufsize (write_buf s) + bufsize b" "sint (inline_writes s1) \<le> sint (inline_writes s) + 1"
      by auto
    with Op_write Cons.prems(3) show ?thesis by (intro go [of s1 "buffer_content (sink_mem s) b"]) auto
  next
    case Op_writable
    with writable_drains [OF Cons.prems(1), of _ s f g fd alloc] Cons.prems
    obtain s1 where "sink_step f g K fd alloc x s = Some s1" "drains (buffers_guards (op_buffers ops) + M) s s1" by auto
    with Op_writable Cons.prems(3) show ?thesis by (intro go [of s1 "[]"]) (auto simp: drains_def)
  next
    case Op_run
    with run_deferred_drains [OF Cons.prems(1), of _ s f g fd alloc] Cons.prems
    obtain s1 where "sink_step f g K fd alloc x s = Some s1" "drains (buffers_guards (op_buffers ops) + M) s s1" by auto
    with Op_run Cons.prems(3) show ?thesis by (intro go [of s1 "[]"]) (auto simp: drains_def)
  qed
qed

end
