(* ===== verification/Net_Properties.thy ===== *)
theory Net_Properties
  imports Io_Properties Pipes Ports Event_Loop Client_Pipe
begin

text \<open>
  The properties of pipes, sockets, ports, the event loop and the stream filter (\<^verbatim>\<open>xi/io/pipes\<close>, \<^verbatim>\<open>xi/io/net\<close>,
  \<^verbatim>\<open>src/core/epoll\<close>), with concrete instances.
\<close>

section \<open>Pipes\<close>

abbreviation pipe_reaches :: "'m pipe \<Rightarrow> 'm pipe \<Rightarrow> bool" where
  "pipe_reaches \<equiv> pipe_next\<^sup>*\<^sup>*"

lemma make_pipe_views [simp]:
  "contexts (make_pipe ms) = []" "pipe_decl (make_pipe ms) = ms" "removals (make_pipe ms) = []"
  "decl_of (make_pipe ms) c = []" "tail (make_pipe ms) m = None"
  by (simp_all add: make_pipe_def decl_of_def)

lemma reachable_wf: "pipe_reaches (make_pipe ms) p \<Longrightarrow> pipe_wf p"
  using pipes.reachable_inv by (auto simp: pipe_inv_def)





text \<open>
  \<^verbatim>\<open>push_front\<close> links the new filter the wrong way round: in a pipe that was right before, a message read reaches the new
  filter and no other, and a message written never reaches it, although the same filter appended to the front of
  an empty pipe would see both.
\<close>

theorem push_front_misroutes:
  assumes "pipe_reaches (make_pipe ms) p" "removals p = []" "n \<notin> set (contexts p)"
    and "reads (pipe_decl p) m" "writes (pipe_decl p) m" "reads ds m" "writes ds m" "tail p m \<noteq> None" "2 \<le> k"
  shows "pipe_read k (relay g) m v (push_front n ds p, []) = Inr (push_front n ds p, [(n, v)]) \<and>
    (\<forall>c. c \<noteq> n \<longrightarrow> nwrite (push_front n ds p) c m \<noteq> Some n) \<and> tail (push_front n ds p) m \<noteq> Some n"
proof -
  have wf: "pipe_wf p" using reachable_wf [OF assms(1)] .
  let ?q = "push_front n ds p"
  note v = push_front_view [OF assms(3)]
  have d: "dom (objs p) = set (contexts p)" using wf by (simp add: pipe_wf_def)
  obtain j where k: "k = Suc (Suc j)" using assms(9) by (metis add_2_eq_Suc le_Suc_ex)
  have h: "head ?q m = Some n" "next_link ?q Reading m n = None"
    by (simp_all add: v(2,4) assms(4,6) next_link_def)
  have o: "objs ?q n \<noteq> None" using v(7) [of ds] by (auto simp del: not_None_eq simp flip: domIff)
  have "nwrite p c m \<noteq> Some n" for c
    using wf_typed_links [OF wf, unfolded typed_links_def typed_target_def, rule_format, of Writing m c n] d assms(3)
    by (auto simp: next_link_def)
  moreover have "tail p m \<noteq> Some n"
    using wf_ends_typed(2) [OF wf assms(5)] d assms(3) by (auto simp: typed_target_def)
  ultimately show ?thesis
    using v(3,5) assms(8) relay_step [OF o, of j g Reading m v "[]"]
    by (auto simp: pipe_read_def h k simp del: deliver.simps(2,3))
qed

theorem push_front_misroutes_witness:
  "\<exists>p :: nat pipe. pipe_reaches (make_pipe [Read_write 0]) p \<and> contexts p = [7] \<and>
    pipe_read 9 (relay (\<lambda>c v. v)) 0 (5 :: int) (push_front 8 [Read_write 0] p, []) = Inr (push_front 8 [Read_write 0] p, [(8, 5)])"
proof -
  let ?p0 = "make_pipe [Read_write 0] :: nat pipe"
  let ?p1 = "push_back 7 [Read_write 0] ?p0"
  have c: "contexts ?p1 = [7]" "pipe_decl ?p1 = [Read_write 0]" "removals ?p1 = []" "tail ?p1 0 = Some 7"
    by (simp_all add: push_back_view)
  have r: "pipe_reaches ?p0 ?p1" by (rule r_into_rtranclp, rule pipe_next.Push) simp
  from push_front_misroutes [OF r c(3), of 8 0 "[Read_write 0]" 9 "\<lambda>c v. v" "5 :: int"] r show ?thesis
    by (intro exI [of _ ?p1]) (simp add: c)
qed

text \<open>
  Two filters removed before the shard runs the deferred part of the first removal leave the pipe with a dangling
  end: when the one before the last is removed first, the tail becomes that filter, which the deferred part
  destroys; the next write follows the dangling pointer, whatever the filters are.
\<close>

theorem removals_together_dangle:
  assumes "pipe_reaches (make_pipe ms) p" "removals p = []" "contexts p = xs @ [a, b]"
    and "writes (pipe_decl p) m" "writers p m a" "writers p m b"
  shows "\<exists>q1 q2 q3. remove a p = Inr q1 \<and> remove b q1 = Inr q2 \<and> run_removal q2 = Inr q3 \<and>
    (\<forall>n fs v f. pipe_write (Suc n) fs m v (q3, f) = Inl Dangling)"
proof -
  have wf: "pipe_wf p" using reachable_wf [OF assms(1)] .
  then have d: "dom (objs p) = set (contexts p)" "distinct (contexts p)" and lk: "links_ok p" and en: "ends_ok p"
    by (auto simp: pipe_wf_def)
  have o: "objs p a \<noteq> None" "objs p b \<noteq> None" and ab: "a \<noteq> b" using d assms(3) by auto
  have ns: "no_self_link a p" "no_self_link b p" using wf_no_self_link [OF wf] assms(3) by auto
  have t: "tail p m = Some b" using en assms(2-4,6) by (simp add: ends_ok_def staying_def)
  have nb: "nwrite p b m = Some a" using links_okD(2) [OF lk, of "xs @ [a]" b "[]"] assms(3,5,6) by simp
  from remove_view [OF o(1)] ns(1) assms(2) obtain q1 where q1: "remove a p = Inr q1" "contexts q1 = contexts p"
    "objs q1 = objs p" "pipe_decl q1 = pipe_decl p" "removals q1 = [a]" "tail q1 m = Some b"
    using t ab by (auto simp: no_self_link_def)
  have v1: "nread q1 = nread p" "nwrite q1 = nwrite p" using q1(3) by (simp_all add: nread_def nwrite_def fun_eq_iff)
  from remove_view [of q1 b] ns(2) o(2) obtain q2 where q2: "remove b q1 = Inr q2" "contexts q2 = contexts p"
    "objs q2 = objs p" "removals q2 = [a, b]" "tail q2 m = Some a"
    using q1 nb assms(4) by (auto simp: no_self_link_def v1)
  let ?q = "q2\<lparr>removals := [b]\<rparr>"
  have "no_self_link a ?q" using ns(1) q2(3) by (simp add: no_self_link_def nread_def nwrite_def)
  with base_remove_view [of a ?q] q2 d assms(3) obtain q3 where q3: "base_remove a ?q = Inr q3" "dom (objs q3) = dom (objs p) - {a}"
    "tail q3 m = Some a" by auto
  have "objs q3 a = None" using q3(2) by (metis DiffE domIff insertI1)
  with q1(1) q2(1,4) q3(1,3) show ?thesis by (simp add: run_removal_def pipe_write_def)
qed

theorem removals_together_dangle_witness:
  "\<exists>p q1 q2 q3 :: nat pipe. pipe_reaches (make_pipe [Read_write 0]) p \<and> contexts p = [7, 8] \<and> remove 7 p = Inr q1 \<and>
    remove 8 q1 = Inr q2 \<and> run_removal q2 = Inr q3 \<and> pipe_write 9 (relay (\<lambda>c v. v)) 0 (5 :: int) (q3, []) = Inl Dangling"
proof -
  let ?p0 = "make_pipe [Read_write 0] :: nat pipe"
  let ?p1 = "push_back 7 [Read_write 0] ?p0"
  let ?p2 = "push_back 8 [Read_write 0] ?p1"
  have c: "contexts ?p1 = [7]" "contexts ?p2 = [] @ [7, 8]" "pipe_decl ?p2 = [Read_write 0]" "removals ?p2 = []"
    "decl_of ?p2 7 = [Read_write 0]" "decl_of ?p2 8 = [Read_write 0]"
    by (simp_all add: push_back_view)
  have "pipe_next ?p0 ?p1" "pipe_next ?p1 ?p2" by (rule pipe_next.Push; simp add: c)+
  then have r: "pipe_reaches ?p0 ?p2" by (meson converse_rtranclp_into_rtranclp rtranclp.rtrancl_refl)
  have "\<exists>q1 q2 q3. remove 7 ?p2 = Inr q1 \<and> remove 8 q1 = Inr q2 \<and> run_removal q2 = Inr q3 \<and>
      (\<forall>n fs (v :: int) (f :: (addr \<times> int) list). pipe_write (Suc n) fs 0 v (q3, f) = Inl Dangling)"
    by (rule removals_together_dangle [OF r c(4,2)]) (simp_all add: c)
  then obtain q1 q2 q3 where "remove 7 ?p2 = Inr q1" "remove 8 q1 = Inr q2" "run_removal q2 = Inr q3"
    "pipe_write (Suc 8) (relay (\<lambda>c v. v)) 0 (5 :: int) (q3, []) = Inl Dangling" by blast
  with r c(2) show ?thesis by (intro exI [of _ ?p2] exI [of _ q1] exI [of _ q2] exI [of _ q3]) simp
qed

section \<open>Sockets\<close>

text \<open>A system for the instances: it takes three bytes and delivers two at a time.\<close>

definition ex_kernel :: "unit kernel" where
  "ex_kernel = \<lparr>k_socket = Pair (5, 0), k_close = (\<lambda>fd. Pair (0, 0)), k_connect = (\<lambda>fd ep. Pair (0, 0)),
     k_bind = (\<lambda>fd ep. Pair (0, 0)), k_listen = (\<lambda>fd n. Pair (0, 0)), k_accept4 = (\<lambda>fd. Pair (6, 0)),
     k_setsockopt = (\<lambda>fd opt. Pair (0, 0)), k_getsockopt = (\<lambda>fd opt. Pair (0, 0, 0)), k_fionread = (\<lambda>fd. Pair (0, 0, 0)),
     k_sendmsg = (\<lambda>fd ep bs. Pair (int (min 3 (length bs)), 0)), k_recvmsg = (\<lambda>fd ep n. Pair (int (min 2 n), 0, replicate (min 2 n) 1)),
     k_send = (\<lambda>fd bs. Pair (int (min 3 (length bs)), 0)), k_recv = (\<lambda>fd n. Pair (int (min 2 n), 0, replicate (min 2 n) 1))\<rparr>"

lemma ex_kernel_ok [simp]:
  "sends_within ex_kernel" "receives_within ex_kernel" "send_within ex_kernel" "always_sends ex_kernel"
  by (auto simp: ex_kernel_def sends_within_def receives_within_def send_within_def always_sends_def)

definition ex_net :: "unit net" where
  "ex_net = \<lparr>kst = (), wld = ex_world, sent = []\<rparr>"

text \<open>
  C23. \<^verbatim>\<open>data_socket::write\<close> neither loses, repeats nor reorders a byte, however little the system takes at a time: what was
  sent is a prefix of the content, what is left in the buffer is the rest, and a returned count is the number of
  bytes sent. It always returns.
\<close>

theorem socket_write_exact:
  assumes "sends_within K" "buffer_ok b" "guard_inv (buffer_guards b + M) (wld n)" "bufsize b < 2 ^ 31" "bufsize b < f"
  shows "\<exists>r b' n' k. data_write f K fd remote b n = Some (r, b', n') \<and> buffer_ok b' \<and>
    guard_inv (buffer_guards b' + M) (wld n') \<and> mem (wld n') = mem (wld n) \<and> k \<le> bufsize b \<and>
    sent n' = sent n @ take k (buffer_content (mem (wld n)) b) \<and>
    buffer_content (mem (wld n)) b' = drop k (buffer_content (mem (wld n)) b) \<and>
    bufsize b' = bufsize b - k \<and> (\<forall>v. r = Value v \<longrightarrow> v = int k)"
  using assms by (intro data_write_spec) auto

theorem socket_write_exact_witness:
  "\<exists>r b' n' k. data_write 10 ex_kernel 5 None ex_buffer ex_net = Some (r, b', n') \<and> buffer_ok b' \<and>
    sent n' = take k (buffer_content (mem ex_world) ex_buffer) \<and> bufsize b' = 9 - k"
proof -
  have "guard_inv (buffer_guards ex_buffer + {#}) (wld ex_net)" by (simp add: ex_net_def)
  from socket_write_exact [OF ex_kernel_ok(1) ex_buffer_ok this, of 10 5 None] show ?thesis
    by (fastforce simp: ex_net_def)
qed

text \<open>
  \<^verbatim>\<open>data_socket::read\<close> appends what was received to the content of the buffer, within the room behind its last fragment,
  and leaves the buffer alone when it returns an error.
\<close>

theorem socket_read_appends:
  assumes "receives_within K" "buffer_ok b" "frags b \<noteq> []" "bufsize b + buffer_tailroom b < 2 ^ 63"
    and "apart (fragment_tail (last (frags b))) (buffer_tailroom b) (frags b)"
  shows "\<exists>r b' n' bs. data_read K fd remote b n = Some (r, b', n') \<and> buffer_ok b' \<and>
    buffer_content (mem (wld n')) b' = buffer_content (mem (wld n)) b @ bs \<and> length bs \<le> buffer_tailroom b \<and>
    (\<forall>v. r = Value v \<longrightarrow> v = int (length bs)) \<and> (\<forall>e. r = Failed e \<longrightarrow> bs = [] \<and> b' = b)"
  using assms by (rule data_read_spec)

theorem socket_read_appends_witness:
  "\<exists>r b' n' bs. data_read ex_kernel 5 None ex_buffer ex_net = Some (r, b', n') \<and> buffer_ok b' \<and>
    buffer_content (mem (wld n')) b' = buffer_content (mem ex_world) ex_buffer @ bs"
proof -
  have t: "buffer_tailroom ex_buffer = 3" "fragment_tail (last (frags ex_buffer)) = 205"
    by (simp_all add: buffer_tailroom_def ex_frags fragment_tailroom_def fragment_tail_def)
       (simp add: ex_frag2_def blob_end_def)
  have "apart 205 3 (frags ex_buffer)" by (simp add: apart_def ex_frags)
  with t socket_read_appends [OF ex_kernel_ok(2) ex_buffer_ok, of 5 None ex_net] show ?thesis
    by (fastforce simp: ex_net_def)
qed

text \<open>
  \<^verbatim>\<open>write_exactly\<close> returns the size only when all bytes were sent in order; otherwise it returns the largest
  \<^verbatim>\<open>size_t\<close> with a proper prefix sent. While the system takes bytes it returns the size, after at most one round per byte.
\<close>

theorem write_exactly_all:
  assumes "send_within K"
  shows "(\<forall>r t'. write_exactly f g K fd data t = Some (r, t') \<longrightarrow>
      r = length data \<and> out t' = out t @ data \<or> r = usize_max \<and> (\<exists>k < length data. out t' = out t @ take k data)) \<and>
    (always_sends K \<and> length data < f \<and> 0 < g \<longrightarrow> (\<exists>t'. write_exactly f g K fd data t = Some (length data, t')))"
  using write_exactly_loop_spec [OF assms, of f g fd data 0 t]
    write_exactly_loop_returns [OF _ assms, of data 0 f "g - 1" fd t]
  by (auto simp: write_exactly_def)

theorem write_exactly_all_witness:
  "\<exists>t'. write_exactly 8 1 ex_kernel 5 [1, 2, 3, 4, 5] \<lparr>tk = (), waits = [], closes = [], out = []\<rparr> = Some (5, t') \<and>
    out t' = [1, 2, 3, 4, 5]"
  using write_exactly_all [OF ex_kernel_ok(3), of 8 1 5 "[1, 2, 3, 4, 5]" "\<lparr>tk = (), waits = [], closes = [], out = []\<rparr>"]
  by (auto simp: usize_max_def)

text \<open>
  C33. However often a port is moved, its descriptor is closed exactly once when all owners are gone. A posix socket
  closes its descriptor once more for every move, so \<^verbatim>\<open>accept\<close> hands out a descriptor that is closed already.
\<close>

theorem descriptors_closed:
  assumes "fd \<noteq> -1"
  shows "closes (destroy_all (port_destroy K) (move_chain port_move k fd) t) = closes t @ [fd] \<and>
    closes (destroy_all (posix_destroy K) (move_chain posix_move k fd) t) = closes t @ replicate (Suc k) fd \<and>
    (k_accept4 K l (tk t) = ((fd, e), s) \<longrightarrow>
       (\<exists>t'. posix_accept K l t = (res_ok fd, t') \<and> closes t' = closes t @ [fd]))"
  using port_chain_closes [OF assms] posix_chain_closes [of K k fd t] assms
  by (simp add: posix_accept_def posix_move_def posix_destroy_def close_fd_def)

theorem descriptors_closed_witness:
  "closes (destroy_all (port_destroy ex_kernel) [-1, -1, 6] \<lparr>tk = (), waits = [], closes = [], out = []\<rparr>) = [6] \<and>
    closes (snd (posix_accept ex_kernel 5 \<lparr>tk = (), waits = [], closes = [], out = []\<rparr>)) = [6]"
  using descriptors_closed [of 6 ex_kernel 2 "\<lparr>tk = (), waits = [], closes = [], out = []\<rparr>" 5 0 "()"]
  by (auto simp: port_move_def numeral_2_eq_2 ex_kernel_def)

section \<open>The event loop\<close>





section \<open>The stream filter\<close>

text \<open>
  C9. The filter of a stream sends the bytes of the buffers written to it in order: after any sequence of writes, writable
  events and deferred tasks, the bytes sent followed by the bytes waiting are all bytes written, whatever the system
  takes or refuses. The counter of inline writes is an \<^verbatim>\<open>i16\<close> and the total of one call an \<^verbatim>\<open>i32\<close>, which bounds the run.
\<close>

theorem client_stream_order:
  assumes "sends_within K" "sink_ok (buffers_guards (op_buffers ops) + M) s" "list_all buffer_ok (op_buffers ops)"
    and "bufsize (write_buf s) + buffers_size (op_buffers ops) < 2 ^ 31"
    and "bufsize (write_buf s) + buffers_size (op_buffers ops) < f"
    and "sint (inline_writes s) + int (length (op_buffers ops)) < 2 ^ 15"
  shows "\<exists>s'. run_sink f g K fd alloc ops s = Some s' \<and>
    stream s' = stream s @ concat (map (buffer_content (sink_mem s)) (op_buffers ops))"
  using run_sink_stream [OF assms] by blast

theorem client_stream_order_witness:
  "\<exists>s'. run_sink 10 0 ex_kernel 5 (\<lambda>_ _. None) [Op_write ex_buffer, Op_run, Op_writable] (sink_new ex_net) = Some s' \<and>
    stream s' = buffer_content (mem ex_world) ex_buffer"
proof -
  have "sink_ok (buffers_guards (op_buffers [Op_write ex_buffer, Op_run, Op_writable]) + {#}) (sink_new ex_net)"
    by (simp add: sink_ok_def sink_new_def buffer_default_def buffer_ok_def ex_net_def)
  from client_stream_order [OF ex_kernel_ok(1) this, of 10 0 5 "\<lambda>_ _. None"] show ?thesis
    by (simp add: sink_new_def stream_def buffer_default_def ex_net_def)
qed



end
