(* ===== verification/Signals.thy ===== *)
theory Signals
  imports Xi_Prelude "HOL-Library.Monad_Syntax"
begin

text \<open>
  \<^verbatim>\<open>src/core/signals.cpp\<close>: the signals of a shard. A signal sets its bit in a word, and polling calls the handlers.
  Handlers are names. Ending the process (an exception in a \<^verbatim>\<open>noexcept\<close> function) and a shift by the whole width,
  which is undefined, are \<open>None\<close>.
\<close>

record 'h signals =
  sig_handlers :: "int \<Rightarrow> 'h option"
  pending_signals :: u64

definition signals_new :: "'h signals" where
  "signals_new = \<lparr>sig_handlers = (\<lambda>_. None), pending_signals = 0\<rparr>"

text \<open>
  \<open>act\<close> is the result of \<^verbatim>\<open>sigaction\<close> and \<open>msk\<close> the one of \<^verbatim>\<open>pthread_sigmask\<close>. The handler is recorded before either is
  called. The first component tells whether an exception was thrown.
\<close>

definition signals_handle :: "int \<Rightarrow> int \<Rightarrow> int \<Rightarrow> 'h \<Rightarrow> 'h signals \<Rightarrow> bool \<times> 'h signals" where
  "signals_handle act msk signo h s =
     (let s1 = s\<lparr>sig_handlers := (sig_handlers s)(signo \<mapsto> h)\<rparr>
      in if act < 0 then (True, s1) else if msk < 0 then (True, s1) else (False, s1))"

definition signal_arrives :: "nat \<Rightarrow> 'h signals \<Rightarrow> 'h signals option" where
  "signal_arrives signo s =
     (if signo < 64 then Some (s\<lparr>pending_signals := pending_signals s OR push_bit signo 1\<rparr>) else None)"

text \<open>The loop shifts the handled bit out, so later bits are counted from there.\<close>

lemma drop_bit_less:
  fixes x :: u64
  assumes "x \<noteq> 0"
  shows "unat (drop_bit (Suc i) x) < unat x"
proof -
  have "0 < unat x" using assms by (simp add: unat_gt_0)
  moreover have "unat (drop_bit (Suc i) x) = unat x div 2 ^ Suc i" unfolding unat_drop_bit_eq by (rule drop_bit_eq_div)
  moreover have "(1 :: nat) < 2 ^ Suc i" using one_less_power [of "2 :: nat" "Suc i"] by simp
  ultimately show ?thesis by (simp only: div_less_dividend)
qed

function handle_pending :: "(int \<Rightarrow> 'h option) \<Rightarrow> u64 \<Rightarrow> 'h list option" where
  "handle_pending hs x =
     (case count_trailing_zeroes x of
        None \<Rightarrow> Some []
      | Some i \<Rightarrow>
          (case hs (int i) of
             None \<Rightarrow> None
           | Some h \<Rightarrow>
               if i + 1 = 64 then None
               else map_option (\<lambda>calls. h # calls) (handle_pending hs (drop_bit (i + 1) x))))"
  by pat_completeness auto
termination
  by (relation "measure (\<lambda>(hs, x). unat x)") (auto simp: count_trailing_zeroes_def drop_bit_less split: if_splits)

text \<open>\<open>arrived\<close> are the signals between the load and the store; the calls, the returned number and the new state.\<close>

definition signals_poll :: "u64 \<Rightarrow> 'h signals \<Rightarrow> ('h list \<times> u32 \<times> 'h signals) option" where
  "signals_poll arrived s =
     (let seen = pending_signals s; s1 = s\<lparr>pending_signals := seen OR arrived\<rparr>
      in if seen = 0 then Some ([], 0, s1)
         else map_option (\<lambda>calls. (calls, 0, s1\<lparr>pending_signals := pending_signals s1 AND NOT seen\<rparr>))
                (handle_pending (sig_handlers s) seen))"

section \<open>Which handlers run\<close>

definition bits_of :: "u64 \<Rightarrow> nat list" where
  "bits_of x = filter (bit x) [0..<64]"

text \<open>The distance of each signal from the one before.\<close>

fun gaps :: "nat \<Rightarrow> nat list \<Rightarrow> nat list" where
  "gaps from [] = []"
| "gaps from (b # bs) = (b - from) # gaps (Suc b) bs"

lemma gaps_shift: "gaps (from + k) (map (\<lambda>j. j + k) bs) = gaps from bs"
  by (induction bs arbitrary: "from") (simp_all flip: add_Suc)

lemma bits_of_ctz:
  assumes "count_trailing_zeroes x = Some i"
  shows "bits_of x = i # map (\<lambda>j. j + Suc i) (bits_of (drop_bit (Suc i) x))"
proof (rule sorted_distinct_set_unique)
  have i: "bit x i" "\<And>j. j < i \<Longrightarrow> \<not> bit x j" using ctz_bit [OF assms] by auto
  have b: "j < 64" if "bit x j" for j using that by (simp add: bit_imp_le_length [of x j, simplified])
  have "j = i \<or> (\<exists>k. j = k + Suc i \<and> bit (drop_bit (Suc i) x) k)" if "bit x j" for j
  proof (cases "j \<le> i")
    case True
    with i that show ?thesis by (metis le_neq_implies_less)
  next
    case False
    with that show ?thesis by (intro disjI2 exI [of _ "j - Suc i"]) (simp add: bit_drop_bit_eq)
  qed
  then show "set (bits_of x) = set (i # map (\<lambda>j. j + Suc i) (bits_of (drop_bit (Suc i) x)))"
    using i b by (fastforce simp: bits_of_def bit_drop_bit_eq add.commute)
  have so: "sorted (bits_of y)" for y unfolding bits_of_def by (rule sorted_wrt_filter) simp
  then show "sorted (bits_of x)" .
  show "distinct (bits_of x)" by (simp add: bits_of_def)
  show "sorted (i # map (\<lambda>j. j + Suc i) (bits_of (drop_bit (Suc i) x)))"
    using so [of "drop_bit (Suc i) x"] by (auto simp: sorted_map elim: sorted_wrt_mono_rel [rotated])
  show "distinct (i # map (\<lambda>j. j + Suc i) (bits_of (drop_bit (Suc i) x)))"
    by (auto simp: bits_of_def distinct_map inj_on_def)
qed

lemma bits_of_zero: "count_trailing_zeroes x = None \<longleftrightarrow> bits_of x = []"
proof -
  have "bits_of x \<noteq> []" if "count_trailing_zeroes x = Some i" for i using bits_of_ctz [OF that] by simp
  moreover have "bits_of (0 :: u64) = []" by (simp add: bits_of_def)
  ultimately show ?thesis by (cases "count_trailing_zeroes x") (auto simp: count_trailing_zeroes_def split: if_splits)
qed

lemma handle_pending_gaps:
  "\<not> bit x 63 \<Longrightarrow> handle_pending hs x = those (map (\<lambda>g. hs (int g)) (gaps 0 (bits_of x)))"
proof (induction hs x rule: handle_pending.induct)
  case (1 hs x)
  show ?case
  proof (cases "count_trailing_zeroes x")
    case None
    then show ?thesis using bits_of_zero [of x] by simp
  next
    case (Some i)
    have ix: "bit x i" using ctz_bit(1) [OF Some] .
    then have i: "i < 63" using 1(2) bit_imp_le_length [OF ix] by (cases "i = 63") auto
    have nb: "\<not> bit (drop_bit (i + 1) x) 63" using bit_imp_le_length [of x "63 + (i + 1)"] by (auto simp: bit_drop_bit_eq add.commute)
    have g: "gaps 0 (bits_of x) = i # gaps 0 (bits_of (drop_bit (i + 1) x))"
      using bits_of_ctz [OF Some] gaps_shift [of 0 "Suc i"] by simp
    show ?thesis
      using 1(1) [OF Some _ _ nb] Some i by (simp add: g split: option.split del: handle_pending.simps) (simp add: Some)
  qed
qed

end
