(* ===== verification/Endpoint.thy ===== *)
theory Endpoint
  imports Socket
begin

text \<open>
  \<^verbatim>\<open>xi/io/net/ip_address.h\<close> and \<^verbatim>\<open>xi/io/net/endpoint.h\<close>: addresses and the structures handed to the system, as the bytes they
  have in memory on a little-endian machine.
\<close>

section \<open>Internet addresses\<close>

definition le_bytes2 :: "u16 \<Rightarrow> u8 list" where
  "le_bytes2 w = [ucast w, ucast (drop_bit 8 w)]"

definition le_bytes4 :: "u32 \<Rightarrow> u8 list" where
  "le_bytes4 w = [ucast w, ucast (drop_bit 8 w), ucast (drop_bit 16 w), ucast (drop_bit 24 w)]"

text \<open>An address is the word whose bytes in memory are the four numbers.\<close>

definition ip4_default :: u32 where
  "ip4_default = 0"

definition ip4_of_bytes :: "u8 list \<Rightarrow> u32" where
  "ip4_of_bytes bs = ucast (bs ! 0) OR push_bit 8 (ucast (bs ! 1)) OR push_bit 16 (ucast (bs ! 2)) OR push_bit 24 (ucast (bs ! 3))"

definition ip4_of_long :: "u32 \<Rightarrow> u32" where
  "ip4_of_long w = w"

definition ip4_any :: u32 where
  "ip4_any = ip4_of_long 0"

definition ip4_native :: "u32 \<Rightarrow> u32" where
  "ip4_native w = w"

fun digits :: "nat \<Rightarrow> string" where
  "digits n = (if n < 10 then [char_of (48 + n)] else digits (n div 10) @ [char_of (48 + n mod 10)])"

definition inet_ntoa :: "u32 \<Rightarrow> string" where
  "inet_ntoa w =
     (let ds = map (\<lambda>b. digits (unat b)) (le_bytes4 w)
      in ds ! 0 @ ''.'' @ ds ! 1 @ ''.'' @ ds ! 2 @ ''.'' @ ds ! 3)"

definition ip4_to_string :: "u32 \<Rightarrow> string" where
  "ip4_to_string w = inet_ntoa w"

section \<open>Internet endpoints\<close>

definition htons :: "u16 \<Rightarrow> u16" where
  "htons w = push_bit 8 w OR drop_bit 8 w"

definition ntohs :: "u16 \<Rightarrow> u16" where
  "ntohs w = push_bit 8 w OR drop_bit 8 w"

record sockaddr_in =
  sin_family :: u16
  sin_port :: u16
  s_addr :: u32

definition AF_INET :: u16 where
  "AF_INET = 2"

definition inet_endpoint :: "u16 \<Rightarrow> sockaddr_in" where
  "inet_endpoint p = \<lparr>sin_family = AF_INET, sin_port = htons p, s_addr = 0\<rparr>"

definition inet_endpoint_default :: sockaddr_in where
  "inet_endpoint_default = inet_endpoint (- 1)"

definition inet_port :: "sockaddr_in \<Rightarrow> u16" where
  "inet_port a = ntohs (sin_port a)"

definition inet_address :: "sockaddr_in \<Rightarrow> u32" where
  "inet_address a = ip4_of_long (s_addr a)"

definition inet_to_posix :: "sockaddr_in \<Rightarrow> posix_endpoint" where
  "inet_to_posix a = le_bytes2 (sin_family a) @ le_bytes2 (sin_port a) @ le_bytes4 (s_addr a) @ replicate 8 0"

definition inet_to_string :: "sockaddr_in \<Rightarrow> string" where
  "inet_to_string a = ip4_to_string (inet_address a) @ '':'' @ digits (unat (inet_port a))"

section \<open>Unix endpoints\<close>

text \<open>
  The structure has two bytes for the family and 108 for the path. \<open>junk\<close> is what is in its memory before. Only as many
  bytes are zeroed as an internet address has.
\<close>

type_synonym sockaddr_un = "u8 list"

definition AF_UNIX :: u16 where
  "AF_UNIX = 1"

definition overwrite :: "nat \<Rightarrow> u8 list \<Rightarrow> u8 list \<Rightarrow> u8 list" where
  "overwrite i bs m = take i m @ bs @ drop (i + length bs) m"

definition unix_endpoint_default :: "sockaddr_un \<Rightarrow> sockaddr_un" where
  "unix_endpoint_default junk = junk"

text \<open>From an array of characters with its terminator.\<close>

definition unix_endpoint_array :: "u8 list \<Rightarrow> sockaddr_un \<Rightarrow> sockaddr_un" where
  "unix_endpoint_array path junk = overwrite 2 path (overwrite 0 (le_bytes2 AF_UNIX) (overwrite 0 (replicate 16 0) junk))"

text \<open>From a pointer to characters and a length, which is looked for when it is the largest number.\<close>

definition c_string :: "u8 list \<Rightarrow> u8 list option" where
  "c_string m = (if 0 \<in> set m then Some (takeWhile (\<lambda>c. c \<noteq> 0) m) else None)"

definition unix_endpoint_path :: "u8 list \<Rightarrow> usize \<Rightarrow> sockaddr_un \<Rightarrow> sockaddr_un option" where
  "unix_endpoint_path path len junk =
     do { len' \<leftarrow> (if len = usize_max then map_option length (c_string path) else Some len);
          if \<not> len' \<le> 108 then None
          else if length path < len' then None
          else Some (overwrite 2 (take len' path) (overwrite 0 (le_bytes2 AF_UNIX) (overwrite 0 (replicate 16 0) junk))) }"

definition unix_path :: "sockaddr_un \<Rightarrow> u8 list option" where
  "unix_path a = c_string (drop 2 a)"

definition unix_to_posix :: "sockaddr_un \<Rightarrow> posix_endpoint" where
  "unix_to_posix a = a"

definition unix_to_string :: "sockaddr_un \<Rightarrow> u8 list option" where
  "unix_to_string a = unix_path a"

section \<open>Round trips\<close>

lemma ntohs_htons: "ntohs (htons p) = p"
  by (rule bit_word_eqI) (auto simp: ntohs_def htons_def bit_simps)

lemma inet_port_endpoint: "inet_port (inet_endpoint p) = p"
  by (simp add: inet_port_def inet_endpoint_def ntohs_htons)

text \<open>The port is in network order: its high byte comes first.\<close>

lemma inet_posix_port: "take 2 (drop 2 (inet_to_posix (inet_endpoint p))) = [ucast (drop_bit 8 p), ucast p]"
proof -
  have "(ucast (htons p) :: u8) = ucast (drop_bit 8 p)" "(ucast (drop_bit 8 (htons p)) :: u8) = ucast p"
    by (rule bit_word_eqI; auto simp: htons_def bit_simps)+
  then show ?thesis by (simp add: inet_to_posix_def le_bytes2_def inet_endpoint_def)
qed

lemma ip4_bytes: "length bs = 4 \<Longrightarrow> le_bytes4 (ip4_of_bytes bs) = bs"
proof -
  assume "length bs = 4"
  then obtain a b c d where bs: "bs = [a, b, c, d]" by (auto simp: numeral_eq_Suc length_Suc_conv)
  show ?thesis
    unfolding le_bytes4_def ip4_of_bytes_def bs
    by simp (intro conjI; rule bit_word_eqI; auto simp: bit_simps dest: bit_imp_le_length)
qed

lemma c_string_terminated: "0 \<notin> set p \<Longrightarrow> c_string (p @ 0 # r) = Some p"
  by (simp add: c_string_def takeWhile_append)

lemma unix_bytes:
  assumes "length junk = 110" "length p \<le> 108"
  shows "drop 2 (overwrite 2 p (overwrite 0 (le_bytes2 AF_UNIX) (overwrite 0 (replicate 16 0) junk))) =
    p @ drop (length p) (replicate 14 0 @ drop 16 junk)"
  using assms by (simp add: overwrite_def le_bytes2_def)

lemma unix_array_path:
  assumes "length junk = 110" "length p < 108" "0 \<notin> set p"
  shows "unix_path (unix_endpoint_array (p @ [0]) junk) = Some p"
  using unix_bytes [OF assms(1), of "p @ [0]"] assms(2,3)
  by (simp add: unix_path_def unix_endpoint_array_def c_string_terminated)

lemma unix_pointer_path:
  assumes "length junk = 110" "length p \<le> 108" "0 \<notin> set p"
  shows "\<exists>a. unix_endpoint_path (p @ 0 # r) usize_max junk = Some a \<and>
    unix_path a = c_string (p @ drop (length p) (replicate 14 0 @ drop 16 junk))"
  using unix_bytes [OF assms(1,2)] assms(2,3)
  by (simp add: unix_endpoint_path_def unix_path_def c_string_terminated)

lemma unix_pointer_short:
  assumes "length p < 14" "0 \<notin> set p"
  shows "c_string (p @ drop (length p) (replicate 14 0 @ m)) = Some p"
proof -
  have "drop (length p) (replicate 14 (0 :: u8) @ m) = 0 # replicate (13 - length p) 0 @ m"
    using assms(1) by (simp add: replicate_Suc [symmetric] Suc_diff_Suc del: replicate_Suc)
  with c_string_terminated [OF assms(2)] show ?thesis by simp
qed

end
