(* ===== verification/Coroutine.thy ===== *)
theory Coroutine
  imports Worker Worker_Policy
begin

text \<open>
  \<^verbatim>\<open>xi/core/generic_resumable.h\<close>: tasks that run on a stack of their own, and the tasks of \<^verbatim>\<open>xi/core/coordinator.h\<close> that do not.

  The body of a task is what it does up to its next call of \<^verbatim>\<open>yield\<close>, with the value it yields, and what it does then.
  Switching to a context continues it where it left off. A switch to a body that has returned is \<open>None\<close>.
\<close>

section \<open>Resuming and yielding\<close>

datatype ('s, 'r) body = Body "'s \<Rightarrow> 's \<times> ('r \<times> ('s, 'r) body) option"

record ('s, 'r) coroutine =
  co_rest :: "('s, 'r) body option"
  co_result :: 'r
  co_running :: bool

definition co_new :: "'r \<Rightarrow> ('s, 'r) body \<Rightarrow> ('s, 'r) coroutine" where
  "co_new later b = \<lparr>co_rest = Some b, co_result = later, co_running = False\<rparr>"

text \<open>\<open>co_yield\<close> tells whether it switches back.\<close>

definition co_yield :: "'r \<Rightarrow> ('s, 'r) coroutine \<Rightarrow> bool \<times> ('s, 'r) coroutine" where
  "co_yield r c = (if co_running c then (True, c\<lparr>co_running := False, co_result := r\<rparr>) else (False, c))"

text \<open>
  The body runs until it yields, or to its end, where the result is \<open>fin\<close> and the flag stays set.
\<close>

definition co_switch :: "'r \<Rightarrow> ('s, 'r) coroutine \<Rightarrow> 's \<Rightarrow> (('s, 'r) coroutine \<times> 's) option" where
  "co_switch fin c s =
     (case co_rest c of
        None \<Rightarrow> None
      | Some (Body f) \<Rightarrow>
          (case f s of
             (s', None) \<Rightarrow> Some (c\<lparr>co_rest := None, co_result := fin\<rparr>, s')
           | (s', Some (r, b)) \<Rightarrow> Some (snd (co_yield r (c\<lparr>co_rest := Some b\<rparr>)), s')))"

definition co_resume :: "'r \<Rightarrow> 'r \<Rightarrow> ('s, 'r) coroutine \<Rightarrow> 's \<Rightarrow> ('r \<times> ('s, 'r) coroutine \<times> 's) option" where
  "co_resume later fin c s =
     (if \<not> co_running c
      then map_option (\<lambda>(c', s'). (co_result c', c', s')) (co_switch fin (c\<lparr>co_running := True\<rparr>) s)
      else Some (later, c, s))"

text \<open>The two classes.\<close>

definition v2_resume :: "('s, resume_result) coroutine \<Rightarrow> 's \<Rightarrow> (resume_result \<times> ('s, resume_result) coroutine \<times> 's) option" where
  "v2_resume c s = co_resume Reschedule Done c s"

definition v2_yield :: "resume_result \<Rightarrow> ('s, resume_result) coroutine \<Rightarrow> bool \<times> ('s, resume_result) coroutine" where
  "v2_yield r c = co_yield r c"

definition v2_new :: "('s, resume_result) body \<Rightarrow> ('s, resume_result) coroutine" where
  "v2_new b = co_new Reschedule b"

definition v1_resume :: "('s, resume_answer) coroutine \<Rightarrow> 's \<Rightarrow> (resume_answer \<times> ('s, resume_answer) coroutine \<times> 's) option" where
  "v1_resume c s = co_resume Resume_later Finished c s"

definition v1_yield :: "resume_answer \<Rightarrow> ('s, resume_answer) coroutine \<Rightarrow> bool \<times> ('s, resume_answer) coroutine" where
  "v1_yield r c = co_yield r c"

definition v1_new :: "('s, resume_answer) body \<Rightarrow> ('s, resume_answer) coroutine" where
  "v1_new b = co_new Resume_later b"

text \<open>A blocking task runs its function to the end; yielding does nothing.\<close>

definition blocking_resume :: "('s \<Rightarrow> 's) \<Rightarrow> 's \<Rightarrow> resume_answer \<times> 's" where
  "blocking_resume call s = (Finished, call s)"

definition blocking_yield :: "resume_answer \<Rightarrow> 's \<Rightarrow> 's" where
  "blocking_yield r s = s"

text \<open>
  Stacks are mapped: \<open>ret\<close> is what \<^verbatim>\<open>mmap\<close> returned, the largest address when it failed. The sum is compared with that
  value, not \<open>ret\<close>. The result is the stack pointer, or an exception.
\<close>

definition max_stack_size :: u64 where
  "max_stack_size = 2 ^ 20"

definition stack_allocate :: "u64 \<Rightarrow> u64 option" where
  "stack_allocate ret = (let sp = ret + max_stack_size in if sp = - 1 then None else Some sp)"

definition stack_deallocate :: "u64 \<Rightarrow> u64" where
  "stack_deallocate sp = sp - max_stack_size"

section \<open>What a worker sees\<close>

text \<open>Other tasks change the state between two turns, as \<open>es\<close> says.\<close>

fun co_turns ::
    "(('s, 'r) coroutine \<Rightarrow> 's \<Rightarrow> ('r \<times> ('s, 'r) coroutine \<times> 's) option) \<Rightarrow> ('s \<Rightarrow> 's) list \<Rightarrow> ('s, 'r) coroutine \<Rightarrow> 's \<Rightarrow>
      ('r list \<times> 's) option" where
  "co_turns resume [] c s = Some ([], s)"
| "co_turns resume (e # es) c s =
     (case resume c s of
        None \<Rightarrow> None
      | Some (r, c', s') \<Rightarrow> map_option (\<lambda>(rs, s''). (r # rs, s'')) (co_turns resume es c' (e s')))"

text \<open>The body as a sequence of steps, with no flag, stack or result.\<close>

fun body_turns :: "'r \<Rightarrow> 'r \<Rightarrow> ('s \<Rightarrow> 's) list \<Rightarrow> ('s, 'r) body \<Rightarrow> 's \<Rightarrow> 'r list \<times> 's" where
  "body_turns later fin [] b s = ([], s)"
| "body_turns later fin (e # es) (Body f) s =
     (case f s of
        (s', None) \<Rightarrow> (fin # replicate (length es) later, fold id es (e s'))
      | (s', Some (r, b)) \<Rightarrow> let (rs, s'') = body_turns later fin es b (e s') in (r # rs, s''))"

lemma co_turns_finished:
  "co_running c \<Longrightarrow> co_turns (co_resume later fin) es c s = Some (replicate (length es) later, fold id es s)"
proof (induction es arbitrary: s)
  case (Cons e es)
  then have "co_resume later fin c s = Some (later, c, s)" by (simp add: co_resume_def)
  with Cons show ?case by simp
qed simp

lemma co_turns_body:
  "\<not> co_running c \<Longrightarrow> co_rest c = Some b \<Longrightarrow> co_turns (co_resume later fin) es c s = Some (body_turns later fin es b s)"
proof (induction es arbitrary: c b s)
  case (Cons e es)
  obtain f where b: "b = Body f" by (cases b) auto
  obtain s' o' where f: "f s = (s', o')" by force
  show ?case
  proof (cases o')
    case None
    with Cons.prems b f have "co_resume later fin c s = Some (fin, c\<lparr>co_running := True, co_rest := None, co_result := fin\<rparr>, s')"
      by (simp add: co_resume_def co_switch_def)
    with b f None show ?thesis by (simp add: co_turns_finished)
  next
    case (Some x)
    obtain r b' where x: "x = (r, b')" by force
    let ?c = "c\<lparr>co_running := False, co_rest := Some b', co_result := r\<rparr>"
    from Cons.prems b f Some x have "co_resume later fin c s = Some (r, ?c, s')"
      by (simp add: co_resume_def co_switch_def co_yield_def)
    with b f Some x Cons.IH [of ?c b' "e s'"] show ?thesis by (simp add: case_prod_unfold Let_def)
  qed
qed simp

lemma resumes_co: "v2_resume = co_resume Reschedule Done" "v1_resume = co_resume Resume_later Finished"
  by (simp_all add: fun_eq_iff v2_resume_def v1_resume_def)

lemma stack_allocate_failure: "stack_allocate (- 1) = Some (max_stack_size - 1)"
  by (simp add: stack_allocate_def max_stack_size_def)

end
