(* ===== verification/Isolation_Reactor.thy ===== *)
theory Isolation_Reactor
  imports Worker Worker_Policy Steps "HOL-Library.Signed_Division"
begin

text \<open>
  The reactor of the workers of the isolation policy (\<^verbatim>\<open>src/core/reactor/epoll.cpp\<close>) and how other threads wake such a
  worker up (\<^verbatim>\<open>push_externally\<close> and \<^verbatim>\<open>pop\<close> of \<^verbatim>\<open>xi/core/policy/worker_isolation.h\<close>).

  What the system answers is an input. The data of an event is a union of 64 bits: a pointer to a task, or a descriptor in
  its lower half, the upper one being whatever was on the stack. A failed assertion, a call of \<^verbatim>\<open>exit\<close> and a dangling
  pointer are \<open>None\<close>.
\<close>

section \<open>Polling\<close>

record epoll_reactor =
  wakeup_fd :: u32
  timer_fd :: u32
  wakeups :: u64
  interest :: "int \<Rightarrow> (u32 \<times> u64) option"

definition EFD_MAX :: u64 where
  "EFD_MAX = - 2"

text \<open>Seconds and nanoseconds.\<close>

definition itimer :: "int \<Rightarrow> int \<times> int" where
  "itimer ns = (ns sdiv 1000000000, ns smod 1000000000)"

text \<open>\<open>tasks\<close> are the tasks at their addresses.\<close>

definition handle_event :: "(u64 \<Rightarrow> resumable option) \<Rightarrow> u64 \<Rightarrow> epoll_reactor \<times> worker_data \<Rightarrow> (epoll_reactor \<times> worker_data) option" where
  "handle_event tasks data p =
     (let (e, d) = p; fd = ucast data in
      if fd = wakeup_fd e then Some (e\<lparr>wakeups := 0\<rparr>, d)
      else if fd = timer_fd e then Some (e, d)
      else case tasks data of
             None \<Rightarrow> None
           | Some r \<Rightarrow> if is_linked r (wd_ready d) then None else Some (e, unblock True r d))"

fun handle_events :: "(u64 \<Rightarrow> resumable option) \<Rightarrow> u64 list \<Rightarrow> epoll_reactor \<times> worker_data \<Rightarrow> (epoll_reactor \<times> worker_data) option" where
  "handle_events tasks [] p = Some p"
| "handle_events tasks (x # xs) p = (case handle_event tasks x p of None \<Rightarrow> None | Some p' \<Rightarrow> handle_events tasks xs p')"

text \<open>\<open>settime\<close> is \<^verbatim>\<open>timerfd_settime\<close>, \<open>wait\<close> is \<^verbatim>\<open>epoll_pwait\<close> with its timeout: an error number or the data of the events.\<close>

definition poll_for ::
    "(int \<times> int \<Rightarrow> int) \<Rightarrow> (int \<Rightarrow> int + u64 list) \<Rightarrow> (u64 \<Rightarrow> resumable option) \<Rightarrow> int \<Rightarrow> epoll_reactor \<times> worker_data \<Rightarrow>
      (epoll_reactor \<times> worker_data) option" where
  "poll_for settime wait tasks ns p =
     (if 0 < ns \<and> settime (itimer ns) < 0 then None
      else case wait (if 0 < ns then -1 else 0) of
             Inl errno \<Rightarrow> if errno = Worker.EINTR then Some p else None
           | Inr evs \<Rightarrow> handle_events tasks evs p)"

text \<open>
  \<^verbatim>\<open>await_readable\<close> and \<^verbatim>\<open>await_writable\<close>; \<open>data\<close> is the address of the current task, which blocks whether or not it was registered.
\<close>

definition EPOLLONESHOT :: u32 where
  "EPOLLONESHOT = 0x40000000"

definition epoll_await :: "u32 \<Rightarrow> (ctl_op \<Rightarrow> int \<times> int) \<Rightarrow> int \<Rightarrow> u64 \<Rightarrow> epoll_reactor \<Rightarrow> (resume_answer \<times> epoll_reactor) option" where
  "epoll_await flags ctl fd data e =
     (let (ret, errno) = ctl Epoll_ctl_mod; reg = e\<lparr>interest := (interest e)(fd \<mapsto> (flags, data))\<rparr>
      in if ret = -1 \<and> errno = ENOENT
         then if fst (ctl Epoll_ctl_add) = -1 then None else Some (Blocked, reg)
         else Some (Blocked, if ret = -1 then e else reg))"

definition await_readable :: "(ctl_op \<Rightarrow> int \<times> int) \<Rightarrow> int \<Rightarrow> u64 \<Rightarrow> epoll_reactor \<Rightarrow> (resume_answer \<times> epoll_reactor) option" where
  "await_readable ctl fd data e = epoll_await (1 OR EPOLLONESHOT) ctl fd data e"

definition await_writable :: "(ctl_op \<Rightarrow> int \<times> int) \<Rightarrow> int \<Rightarrow> u64 \<Rightarrow> epoll_reactor \<Rightarrow> (resume_answer \<times> epoll_reactor) option" where
  "await_writable ctl fd data e = epoll_await (4 OR EPOLLONESHOT) ctl fd data e"

text \<open>An \<^verbatim>\<open>eventfd\<close> that is full refuses the write; the result is ignored.\<close>

definition eventfd_write :: "u64 \<Rightarrow> u64" where
  "eventfd_write c = (if c = EFD_MAX then c else c + 1)"

definition maybe_wakeup :: "epoll_reactor \<Rightarrow> epoll_reactor" where
  "maybe_wakeup e = e\<lparr>wakeups := eventfd_write (wakeups e)\<rparr>"

definition begin_task_quota_monitor :: "(int \<times> int \<Rightarrow> int) \<Rightarrow> int \<Rightarrow> unit option" where
  "begin_task_quota_monitor settime ns = (if settime (itimer ns) < 0 then None else Some ())"

definition end_task_quota_monitor :: "(int \<times> int \<Rightarrow> int) \<Rightarrow> unit option" where
  "end_task_quota_monitor settime = (if settime (0, 0) < 0 then None else Some ())"

section \<open>Workers and the threads that wake them up\<close>

text \<open>
  The worker goes through the steps of \<^verbatim>\<open>pop\<close>. \<open>edge\<close> says that the \<^verbatim>\<open>eventfd\<close> was written since the last poll, which reports
  it if it can still be read: the descriptor is registered edge-triggered. \<open>wakers\<close> counts the wake-ups other threads
  are about to write. \<open>Polling\<close> tells whether the call may block.
\<close>

datatype iso_pc = Drain_external | Drain_sleepers | Polling bool | Reading | Popping

record iso =
  iso_data :: worker_data
  iso_pc :: iso_pc
  edge :: bool
  counter :: u64
  wakers :: nat

definition iso_new :: iso where
  "iso_new = \<lparr>iso_data = worker_data_new, iso_pc = Drain_external, edge = False, counter = 0, wakers = 0\<rparr>"

text \<open>\<^verbatim>\<open>central_schedule\<close> wakes the worker up a second time after \<^verbatim>\<open>push_externally\<close> has.\<close>

inductive iso_step :: "iso \<Rightarrow> iso \<Rightarrow> bool" where
  Push: "k = 1 \<or> k = 2 \<Longrightarrow> iso_step s (s\<lparr>iso_data := push_externally r (iso_data s), wakers := wakers s + k\<rparr>)"
| Wake: "wakers s = Suc n \<Longrightarrow>
     iso_step s (s\<lparr>wakers := n, edge := edge s \<or> counter s \<noteq> EFD_MAX, counter := eventfd_write (counter s)\<rparr>)"
| External: "iso_pc s = Drain_external \<Longrightarrow>
     iso_step s (s\<lparr>iso_data := drain_external_queue (iso_data s), iso_pc := Drain_sleepers\<rparr>)"
| Sleepers: "iso_pc s = Drain_sleepers \<Longrightarrow> d = drain_sleep_queue now (iso_data s) \<Longrightarrow>
     iso_step s (s\<lparr>iso_data := d, iso_pc := Polling (0 < poll_timeout clock d)\<rparr>)"
| Reported: "iso_pc s = Polling b \<Longrightarrow> edge s \<Longrightarrow> counter s \<noteq> 0 \<Longrightarrow>
     iso_step s (s\<lparr>edge := False, iso_data := fold (unblock True) rs (iso_data s), iso_pc := Reading\<rparr>)"
| Other_events: "iso_pc s = Polling b \<Longrightarrow> \<not> (edge s \<and> counter s \<noteq> 0) \<Longrightarrow>
     iso_step s (s\<lparr>edge := False, iso_data := fold (unblock True) rs (iso_data s), iso_pc := Popping\<rparr>)"
| Read: "iso_pc s = Reading \<Longrightarrow> iso_step s (s\<lparr>counter := 0, iso_pc := Popping\<rparr>)"
| Pop_none: "iso_pc s = Popping \<Longrightarrow> wd_ready (iso_data s) = [] \<Longrightarrow> iso_step s (s\<lparr>iso_pc := Drain_external\<rparr>)"
| Pop_run: "iso_pc s = Popping \<Longrightarrow> wd_ready (iso_data s) = r # rest \<Longrightarrow>
     iso_step s (s\<lparr>iso_data := after_resume a r ((iso_data s)\<lparr>wd_ready := rest, wd_tasks_ready := wd_tasks_ready (iso_data s) - 1\<rparr>),
       iso_pc := Drain_external\<rparr>)"

text \<open>The worker is inside a call that may block, and no wake-up is to be reported.\<close>

definition iso_blocked :: "iso \<Rightarrow> bool" where
  "iso_blocked s \<longleftrightarrow> iso_pc s = Polling True \<and> \<not> (edge s \<and> counter s \<noteq> 0)"

definition iso_inv :: "iso \<Rightarrow> bool" where
  "iso_inv s \<longleftrightarrow>
     counter s \<noteq> - 1 \<and> (counter s \<noteq> 0 \<longrightarrow> edge s \<or> iso_pc s = Reading) \<and>
     (wd_external (iso_data s) \<noteq> [] \<longrightarrow>
        edge s \<and> counter s \<noteq> 0 \<or> 0 < wakers s \<or> iso_pc s \<in> {Drain_external, Reading, Popping})"

lemma eventfd_write_bounds:
  assumes "c \<noteq> - 1"
  shows "eventfd_write c \<noteq> 0" "eventfd_write c \<noteq> - 1"
proof -
  have "c + 1 \<noteq> 0" using assms by (metis add_eq_0_iff2)
  moreover have "c + 1 \<noteq> - 1" if "c \<noteq> - 2" using that by (metis add_diff_cancel_right' diff_minus_eq_add minus_add_distrib one_add_one uminus_add_conv_diff)
  ultimately show "eventfd_write c \<noteq> 0" "eventfd_write c \<noteq> - 1" by (auto simp: eventfd_write_def EFD_MAX_def)
qed

lemma queues_keep_external [simp]:
  "wd_external (drain_external_queue d) = []" "wd_external (drain_sleep_queue now d) = wd_external d"
  "wd_external (fold (unblock True) rs d) = wd_external d" "wd_external (after_resume a r d) = wd_external d"
proof -
  have "wd_external (drain_due now xs d) = wd_external d" for now xs d
    by (induction xs arbitrary: d) (auto simp: push_internally_def Let_def)
  then show "wd_external (drain_sleep_queue now d) = wd_external d" by (simp add: drain_sleep_queue_def Let_def)
  show "wd_external (drain_external_queue d) = []" using fold_push [of "wd_external d"] by (simp add: drain_external_queue_def)
  show "wd_external (fold (unblock True) rs d) = wd_external d"
    by (induction rs arbitrary: d) (simp_all add: unblock_def worker_schedule_def push_internally_def Let_def)
  show "wd_external (after_resume a r d) = wd_external d"
    by (cases a) (simp_all add: after_resume_def push_internally_def Let_def)
qed

lemma iso_step_inv: "iso_step s t \<Longrightarrow> iso_inv s \<Longrightarrow> iso_inv t"
proof (induction rule: iso_step.induct)
  case (Wake s n)
  then show ?case using eventfd_write_bounds [of "counter s"] by (auto simp: iso_inv_def eventfd_write_def EFD_MAX_def)
qed (auto simp: iso_inv_def)

lemma iso_new_inv: "iso_inv iso_new"
  by (simp add: iso_inv_def iso_new_def worker_data_new_def)

interpretation iso_workers: started_system iso_step iso_inv iso_new
  by unfold_locales (auto intro: iso_step_inv iso_new_inv)

lemma reachable_not_blocked:
  assumes "iso_step\<^sup>*\<^sup>* iso_new s" "wd_external (iso_data s) \<noteq> []" "wakers s = 0"
  shows "\<not> iso_blocked s"
  using iso_workers.reachable_inv [OF assms(1)] assms(2,3) by (auto simp: iso_inv_def iso_blocked_def)

section \<open>What a poll does\<close>

lemma itimer_parts: "0 < ns \<Longrightarrow> 0 \<le> snd (itimer ns) \<and> snd (itimer ns) < 1000000000 \<and> fst (itimer ns) * 1000000000 + snd (itimer ns) = ns"
  by (simp add: itimer_def signed_divide_int_def signed_modulo_int_def sgn_if)

text \<open>A task whose address ends in the number of one of the two descriptors is taken for that descriptor.\<close>

lemma aliased_event_lost: "ucast data = wakeup_fd e \<or> ucast data = timer_fd e \<Longrightarrow> \<exists>e'. handle_event tasks data (e, d) = Some (e', d)"
  by (auto simp: handle_event_def Let_def)

lemma await_unregistered: "ctl Epoll_ctl_mod = (-1, errno) \<Longrightarrow> errno \<noteq> ENOENT \<Longrightarrow> epoll_await flags ctl fd data e = Some (Blocked, e)"
  by (simp add: epoll_await_def)

end
