(* ===== verification/Kernel.thy ===== *)
theory Kernel
  imports Outcome "HOL-Library.Monad_Syntax"
begin

text \<open>
  \<^verbatim>\<open>src/core/kernel.cpp\<close> and \<^verbatim>\<open>xi/core/kernel.h\<close>: the shards of a process, exceptions and the shutdown.

  A shard is its address, \<open>None\<close> for the null pointer. What is asked of a shard is recorded. A failed assertion and a call
  through a null pointer are \<open>None\<close>; exceptions are outcomes. \<open>mk\<close> is the virtual method that makes a shard.
\<close>

datatype shard_call = Post nat | Dispatch nat | Shutdown_task | Register_poller nat | Deregister_poller nat | Poll_shard

record 'e kernel_state =
  kr_cpus :: nat
  kr_queue_size :: nat
  kr_shards :: "nat option list"
  kr_filter :: "('e \<Rightarrow> bool) option"
  kr_exit :: "'e option"
  kr_calls :: "(nat \<times> shard_call) list"

datatype 'e kernel_exn = Invalid_core_count | Not_enough_cores | Not_registered | Exit_exception 'e

definition kernel_new :: "nat \<Rightarrow> 'e kernel_state" where
  "kernel_new cpus = \<lparr>kr_cpus = cpus, kr_queue_size = 2 ^ 12, kr_shards = [], kr_filter = Some (\<lambda>_. False), kr_exit = None, kr_calls = []\<rparr>"

text \<open>\<^verbatim>\<open>vector::resize\<close> cuts off or fills with null pointers.\<close>

definition kernel_start :: "nat \<Rightarrow> nat \<Rightarrow> 'e kernel_state \<Rightarrow> ('e kernel_exn + unit) \<times> 'e kernel_state" where
  "kernel_start count queue_size k =
     (if count < 1 then (Inl Invalid_core_count, k)
      else if kr_cpus k < count then (Inl Not_enough_cores, k)
      else (Inr (), k\<lparr>kr_queue_size := queue_size,
              kr_shards := take count (kr_shards k) @ replicate (count - length (kr_shards k)) None\<rparr>))"

definition core_count :: "'e kernel_state \<Rightarrow> nat" where
  "core_count k = length (kr_shards k)"

definition make_shard :: "nat \<Rightarrow> nat option" where
  "make_shard core = None"

definition startup :: "(nat \<Rightarrow> nat option) \<Rightarrow> nat \<Rightarrow> 'e kernel_state \<Rightarrow> 'e kernel_state option" where
  "startup mk core k =
     (if core_count k \<le> core \<or> kr_shards k ! core \<noteq> None then None else Some (k\<lparr>kr_shards := (kr_shards k)[core := mk core]\<rparr>))"

definition cleanup :: "nat \<Rightarrow> 'e kernel_state \<Rightarrow> 'e kernel_state option" where
  "cleanup core k =
     (if core_count k \<le> core \<or> kr_shards k ! core = None then None else Some (k\<lparr>kr_shards := (kr_shards k)[core := None]\<rparr>))"

text \<open>A call of a shard: the index is checked, the pointer is not.\<close>

definition call_shard :: "nat \<Rightarrow> shard_call \<Rightarrow> 'e kernel_state \<Rightarrow> (('e kernel_exn + unit) \<times> 'e kernel_state) option" where
  "call_shard core c k =
     (if core_count k \<le> core then Some (Inl Not_registered, k)
      else case kr_shards k ! core of
             None \<Rightarrow> None
           | Some a \<Rightarrow> Some (Inr (), k\<lparr>kr_calls := kr_calls k @ [(a, c)]\<rparr>))"

definition kernel_post :: "nat \<Rightarrow> nat \<Rightarrow> 'e kernel_state \<Rightarrow> (('e kernel_exn + unit) \<times> 'e kernel_state) option" where
  "kernel_post core f k = call_shard core (Post f) k"

definition kernel_dispatch :: "nat \<Rightarrow> nat \<Rightarrow> 'e kernel_state \<Rightarrow> (('e kernel_exn + unit) \<times> 'e kernel_state) option" where
  "kernel_dispatch core f k = call_shard core (Dispatch f) k"

definition kernel_register_poller :: "nat \<Rightarrow> nat \<Rightarrow> 'e kernel_state \<Rightarrow> (('e kernel_exn + unit) \<times> 'e kernel_state) option" where
  "kernel_register_poller core p k = call_shard core (Register_poller p) k"

definition kernel_deregister_poller :: "nat \<Rightarrow> nat \<Rightarrow> 'e kernel_state \<Rightarrow> (('e kernel_exn + unit) \<times> 'e kernel_state) option" where
  "kernel_deregister_poller core p k = call_shard core (Deregister_poller p) k"

definition mut_shard :: "nat \<Rightarrow> 'e kernel_state \<Rightarrow> 'e kernel_exn + nat option" where
  "mut_shard core k = (if core_count k \<le> core then Inl Not_registered else Inr (kr_shards k ! core))"

definition poll_core :: "nat \<Rightarrow> 'e kernel_state \<Rightarrow> (('e kernel_exn + unit) \<times> 'e kernel_state) option" where
  "poll_core core k = call_shard core Poll_shard k"

fun post_shutdown :: "nat \<Rightarrow> nat \<Rightarrow> 'e kernel_state \<Rightarrow> 'e kernel_state option" where
  "post_shutdown 0 core k = Some k"
| "post_shutdown (Suc n) core k = do { (_, k') \<leftarrow> call_shard core Shutdown_task k; post_shutdown n (core + 1) k' }"

definition kernel_initiate_shutdown :: "'e kernel_state \<Rightarrow> 'e kernel_state option" where
  "kernel_initiate_shutdown k = post_shutdown (core_count k) 0 k"

definition await_shutdown :: "'e kernel_state \<Rightarrow> 'e kernel_exn + unit" where
  "await_shutdown k = (case kr_exit k of Some e \<Rightarrow> Inl (Exit_exception e) | None \<Rightarrow> Inr ())"

text \<open>The destructor swallows the exception.\<close>

definition kernel_destroy :: "'e kernel_state \<Rightarrow> unit" where
  "kernel_destroy k = (case await_shutdown k of Inl _ \<Rightarrow> () | Inr _ \<Rightarrow> ())"

definition set_exception_filter :: "('e \<Rightarrow> bool) option \<Rightarrow> 'e kernel_state \<Rightarrow> 'e kernel_state" where
  "set_exception_filter f k = k\<lparr>kr_filter := f\<rparr>"

definition kernel_handle_exception :: "'e \<Rightarrow> 'e kernel_state \<Rightarrow> 'e kernel_state option" where
  "kernel_handle_exception e k =
     (if (case kr_filter k of None \<Rightarrow> True | Some f \<Rightarrow> \<not> f e)
      then kernel_initiate_shutdown (k\<lparr>kr_exit := Some e\<rparr>)
      else Some k)"

text \<open>The loop of a core, until the shutdown was received after \<open>n\<close> polls.\<close>

fun poll_times :: "nat \<Rightarrow> nat \<Rightarrow> 'e kernel_state \<Rightarrow> 'e kernel_state option" where
  "poll_times 0 core k = Some k"
| "poll_times (Suc n) core k = do { (_, k') \<leftarrow> poll_core core k; poll_times n core k' }"

definition run_on_core :: "(nat \<Rightarrow> nat option) \<Rightarrow> nat \<Rightarrow> nat \<Rightarrow> 'e kernel_state \<Rightarrow> 'e kernel_state option" where
  "run_on_core mk n core k = do { k1 \<leftarrow> startup mk core k; k2 \<leftarrow> poll_times n core k1; cleanup core k2 }"

section \<open>Starting and stopping\<close>

lemma poll_times_ok:
  "core < core_count k \<Longrightarrow> kr_shards k ! core = Some a \<Longrightarrow>
     poll_times n core k = Some (k\<lparr>kr_calls := kr_calls k @ replicate n (a, Poll_shard)\<rparr>)"
proof (induction n arbitrary: k)
  case (Suc n)
  from Suc.IH [of "k\<lparr>kr_calls := kr_calls k @ [(a, Poll_shard)]\<rparr>"] Suc.prems show ?case
    by (simp add: poll_core_def call_shard_def core_count_def)
qed simp

lemma run_on_core_ok:
  assumes "core < core_count k" "kr_shards k ! core = None" "mk core = Some a"
  shows "run_on_core mk n core k = Some (k\<lparr>kr_calls := kr_calls k @ replicate n (a, Poll_shard)\<rparr>)"
proof -
  let ?k1 = "k\<lparr>kr_shards := (kr_shards k)[core := Some a]\<rparr>"
  have s: "startup mk core k = Some ?k1" using assms by (simp add: startup_def)
  have i: "core < core_count ?k1" "kr_shards ?k1 ! core = Some a" using assms(1) by (simp_all add: core_count_def)
  have "(kr_shards k)[core := None] = kr_shards k" using assms(1,2) by (metis list_update_id core_count_def)
  with s poll_times_ok [OF i, of n] i show ?thesis by (simp add: run_on_core_def cleanup_def core_count_def)
qed

text \<open>The method makes no shard, so no core ever runs.\<close>

lemma run_on_core_stuck: "run_on_core make_shard n core k = None"
proof (cases "startup make_shard core k")
  case (Some k1)
  then have i: "core < core_count k1" "kr_shards k1 ! core = None"
    by (auto simp: startup_def make_shard_def core_count_def split: if_splits)
  then show ?thesis
    using Some by (cases n) (simp_all add: run_on_core_def cleanup_def poll_core_def call_shard_def)
qed (simp add: run_on_core_def)

lemma post_shutdown_ok:
  "(\<forall>i < n. core + i < core_count k \<and> kr_shards k ! (core + i) \<noteq> None) \<Longrightarrow>
     post_shutdown n core k = Some (k\<lparr>kr_calls := kr_calls k @ map (\<lambda>i. (the (kr_shards k ! i), Shutdown_task)) [core..<core + n]\<rparr>)"
proof (induction n arbitrary: core k)
  case (Suc n)
  from Suc.prems [rule_format, of 0] obtain a where a: "core < core_count k" "kr_shards k ! core = Some a" by auto
  let ?k = "k\<lparr>kr_calls := kr_calls k @ [(a, Shutdown_task)]\<rparr>"
  have "\<forall>i < n. core + 1 + i < core_count ?k \<and> kr_shards ?k ! (core + 1 + i) \<noteq> None"
    using Suc.prems [rule_format, of "Suc i" for i] by (auto simp: core_count_def)
  from Suc.IH [OF this] a show ?case by (simp add: call_shard_def upt_rec [of core] del: upt_Suc)
qed simp

end
