(* ===== verification/Startup.thy ===== *)
theory Startup
  imports Steps Worker_Policy "HOL-Library.Monad_Syntax"
begin

text \<open>
  How the threads of a process come up: \<^verbatim>\<open>xi/core/bootstrap.h\<close> and \<^verbatim>\<open>src/core/bootstrap.cpp\<close> for shards,
  \<^verbatim>\<open>xi/core/coordinator.h\<close> for the workers of the isolation policy, and \<^verbatim>\<open>src/core/runtime.cpp\<close> for the schedulers.

  Threads interleave; a barrier lets no thread pass before all have arrived, as boost documents it.
\<close>

section \<open>Barriers\<close>

datatype phase = Before | Waiting | After

definition barrier_ok :: "nat \<Rightarrow> (nat \<Rightarrow> phase) \<Rightarrow> bool" where
  "barrier_ok n ph \<longleftrightarrow> (\<forall>i < n. ph i = After \<longrightarrow> (\<forall>j < n. ph j \<noteq> Before))"

definition may_pass :: "nat \<Rightarrow> (nat \<Rightarrow> phase) \<Rightarrow> nat \<Rightarrow> bool" where
  "may_pass n ph i \<longleftrightarrow> i < n \<and> ph i = Waiting \<and> (\<forall>j < n. ph j \<noteq> Before)"

lemma barrier_arrive: "barrier_ok n ph \<Longrightarrow> ph i = Before \<Longrightarrow> barrier_ok n (ph(i := Waiting))"
  by (auto simp: barrier_ok_def)

lemma barrier_pass: "barrier_ok n ph \<Longrightarrow> may_pass n ph i \<Longrightarrow> barrier_ok n (ph(i := After))"
  by (auto simp: barrier_ok_def may_pass_def)

section \<open>Shards\<close>

text \<open>
  The thread that configures is thread 0. \<open>None\<close> in \<open>bt_shards\<close> is memory nobody has written. \<open>bt_buses (i, j)\<close> are the two
  pointers the bus from shard \<open>i\<close> to shard \<open>j\<close> was made with; \<open>bt_next\<close> counts the buses made, \<open>bt_ready\<close> that
  \<^verbatim>\<open>configure\<close> has returned.
\<close>

record bootstrap =
  bt_cpus :: nat
  bt_shards :: "nat \<Rightarrow> nat option"
  bt_buses :: "nat \<times> nat \<Rightarrow> (nat option \<times> nat option) option"
  bt_next :: nat
  bt_ready :: bool
  bt_phase :: "nat \<Rightarrow> phase"
  bt_before_shutdown :: "nat list"

text \<open>The number of cores comes from the command line and is cut to eight bits. With none, writing the first shard is out of bounds.\<close>

definition cpu_count :: "nat \<Rightarrow> int \<Rightarrow> nat" where
  "cpu_count argc arg = (if 2 < argc then unat (word_of_int arg :: u8) else 1)"

definition bootstrap_configure :: "nat \<Rightarrow> int \<Rightarrow> bootstrap" where
  "bootstrap_configure argc arg = \<lparr>bt_cpus = cpu_count argc arg, bt_shards = (\<lambda>_. None), bt_buses = (\<lambda>_. None), bt_next = 0, bt_ready = False,
     bt_phase = (\<lambda>_. Before), bt_before_shutdown = []\<rparr>"

definition prepare_shard :: "nat \<Rightarrow> bootstrap \<Rightarrow> bootstrap" where
  "prepare_shard i b = b\<lparr>bt_shards := (bt_shards b)(i \<mapsto> i)\<rparr>"

definition create_queue :: "bootstrap \<Rightarrow> bootstrap" where
  "create_queue b =
     (let i = bt_next b div bt_cpus b; j = bt_next b mod bt_cpus b
      in b\<lparr>bt_buses := (bt_buses b)((i, j) \<mapsto> (bt_shards b i, bt_shards b j)), bt_next := bt_next b + 1\<rparr>)"

inductive boot_step :: "bootstrap \<Rightarrow> bootstrap \<Rightarrow> bool" where
  Prepare_other: "0 < i \<Longrightarrow> i < bt_cpus b \<Longrightarrow> bt_phase b i = Before \<Longrightarrow> bt_shards b i = None \<Longrightarrow>
     boot_step b (prepare_shard i b)"
| Arrive_other: "0 < i \<Longrightarrow> i < bt_cpus b \<Longrightarrow> bt_phase b i = Before \<Longrightarrow> bt_shards b i \<noteq> None \<Longrightarrow>
     boot_step b (b\<lparr>bt_phase := (bt_phase b)(i := Waiting)\<rparr>)"
| Prepare_first: "0 < bt_cpus b \<Longrightarrow> bt_shards b 0 = None \<Longrightarrow> boot_step b (prepare_shard 0 b)"
| Create: "bt_shards b 0 \<noteq> None \<Longrightarrow> bt_next b < bt_cpus b * bt_cpus b \<Longrightarrow> boot_step b (create_queue b)"
| Configured: "bt_shards b 0 \<noteq> None \<Longrightarrow> bt_next b = bt_cpus b * bt_cpus b \<Longrightarrow> boot_step b (b\<lparr>bt_ready := True\<rparr>)"
| Before_shutdown: "bt_ready b \<Longrightarrow> boot_step b (b\<lparr>bt_before_shutdown := f # bt_before_shutdown b\<rparr>)"
| Run_first: "bt_ready b \<Longrightarrow> bt_phase b 0 = Before \<Longrightarrow> boot_step b (b\<lparr>bt_phase := (bt_phase b)(0 := Waiting)\<rparr>)"
| Pass: "may_pass (bt_cpus b) (bt_phase b) i \<Longrightarrow> boot_step b (b\<lparr>bt_phase := (bt_phase b)(i := After)\<rparr>)"

text \<open>The functions run on shard 0 in turn, then every shard is told to shut down.\<close>

definition bootstrap_initiate_shutdown :: "bootstrap \<Rightarrow> nat list \<times> nat list \<times> bootstrap" where
  "bootstrap_initiate_shutdown b = (bt_before_shutdown b, [0..<bt_cpus b], b\<lparr>bt_before_shutdown := []\<rparr>)"

definition boot_shards :: "bootstrap \<Rightarrow> bool" where
  "boot_shards b \<longleftrightarrow> (\<forall>i. bt_phase b i \<noteq> Before \<longrightarrow> bt_shards b i \<noteq> None) \<and> (\<forall>i a. bt_shards b i = Some a \<longrightarrow> a = i) \<and>
     (bt_ready b \<longrightarrow> bt_shards b 0 \<noteq> None)"

definition boot_ready :: "bootstrap \<Rightarrow> bool" where
  "boot_ready b \<longleftrightarrow> (bt_phase b 0 \<noteq> Before \<longrightarrow> bt_ready b) \<and> (bt_ready b \<longrightarrow> bt_next b = bt_cpus b * bt_cpus b)"

definition boot_buses :: "bootstrap \<Rightarrow> bool" where
  "boot_buses b \<longleftrightarrow> (\<forall>k < bt_next b. bt_buses b (k div bt_cpus b, k mod bt_cpus b) \<noteq> None)"

definition boot_inv :: "bootstrap \<Rightarrow> bool" where
  "boot_inv b \<longleftrightarrow> barrier_ok (bt_cpus b) (bt_phase b) \<and> boot_shards b \<and> boot_ready b \<and> boot_buses b"

lemma boot_step_barrier: "boot_step b c \<Longrightarrow> barrier_ok (bt_cpus b) (bt_phase b) \<Longrightarrow> barrier_ok (bt_cpus c) (bt_phase c)"
  by (induction rule: boot_step.induct)
    (simp_all add: prepare_shard_def create_queue_def Let_def barrier_arrive barrier_pass)

lemma boot_step_shards: "boot_step b c \<Longrightarrow> boot_shards b \<Longrightarrow> boot_shards c"
  by (induction rule: boot_step.induct)
    (auto simp: boot_shards_def prepare_shard_def create_queue_def Let_def may_pass_def)

lemma boot_step_ready: "boot_step b c \<Longrightarrow> boot_ready b \<Longrightarrow> boot_ready c"
  by (induction rule: boot_step.induct)
    (auto simp: boot_ready_def prepare_shard_def create_queue_def Let_def may_pass_def)

lemma boot_step_buses: "boot_step b c \<Longrightarrow> boot_buses b \<Longrightarrow> boot_buses c"
  by (induction rule: boot_step.induct)
    (auto simp: boot_buses_def prepare_shard_def create_queue_def Let_def less_Suc_eq)

lemma boot_step_inv: "boot_step b c \<Longrightarrow> boot_inv b \<Longrightarrow> boot_inv c"
  unfolding boot_inv_def using boot_step_barrier boot_step_shards boot_step_ready boot_step_buses by blast

lemma configure_inv: "boot_inv (bootstrap_configure argc arg)"
  by (simp add: boot_inv_def boot_shards_def boot_ready_def boot_buses_def bootstrap_configure_def barrier_ok_def)

interpretation boots: started_system boot_step boot_inv "bootstrap_configure argc arg" for argc arg
  by unfold_locales (auto intro: boot_step_inv configure_inv)

lemma pair_index: "i < n \<Longrightarrow> j < n \<Longrightarrow> \<exists>k < n * n. k div n = i \<and> k mod n = (j :: nat)"
proof -
  assume a: "i < n" "j < n"
  then have "i * n + j < Suc i * n" "Suc i * n \<le> n * n" by (simp, intro mult_le_mono1) simp
  then have "i * n + j < n * n" by linarith
  moreover have "(i * n + j) div n = i" "(i * n + j) mod n = j" using a by simp_all
  ultimately show ?thesis by blast
qed

lemma running_complete:
  assumes "boot_step\<^sup>*\<^sup>* (bootstrap_configure argc arg) b" "i < bt_cpus b" "bt_phase b i = After" "j < bt_cpus b" "k < bt_cpus b"
  shows "bt_shards b j = Some j \<and> bt_buses b (j, k) \<noteq> None"
proof -
  have inv: "barrier_ok (bt_cpus b) (bt_phase b)" "boot_shards b" "boot_ready b" "boot_buses b"
    using boots.reachable_inv [OF assms(1)] by (simp_all add: boot_inv_def)
  have ph: "bt_phase b l \<noteq> Before" if "l < bt_cpus b" for l using inv(1) assms(2,3) that unfolding barrier_ok_def by blast
  have "bt_phase b 0 \<noteq> Before" using ph [of 0] assms(2) by simp
  then have "bt_next b = bt_cpus b * bt_cpus b" using inv(3) unfolding boot_ready_def by blast
  with pair_index [OF assms(4,5)] inv(4) have "bt_buses b (j, k) \<noteq> None" unfolding boot_buses_def by metis
  moreover have "bt_shards b j = Some j" using ph [OF assms(4)] inv(2) unfolding boot_shards_def by (metis option.exhaust)
  ultimately show ?thesis by blast
qed

text \<open>The buses are made before the barrier, so a shard may not be there yet.\<close>

lemma buses_race:
  assumes "2 \<le> cpu_count argc arg"
  shows "\<exists>b. boot_step\<^sup>*\<^sup>* (bootstrap_configure argc arg) b \<and> bt_buses b (0, 1) = Some (Some 0, None)"
proof -
  let ?b0 = "bootstrap_configure argc arg"
  let ?b1 = "prepare_shard 0 ?b0"
  let ?b2 = "create_queue ?b1"
  let ?b3 = "create_queue ?b2"
  note defs = bootstrap_configure_def prepare_shard_def create_queue_def Let_def
  have n: "0 < cpu_count argc arg" "Suc 0 < cpu_count argc arg * cpu_count argc arg"
    using assms by (auto simp: less_le_trans [of _ 2] intro: less_le_trans [OF _ mult_le_mono [OF assms assms]])
  have "boot_step ?b0 ?b1" by (rule boot_step.Prepare_first) (use n in \<open>simp_all add: bootstrap_configure_def\<close>)
  moreover have "boot_step ?b1 ?b2" by (rule boot_step.Create) (use n in \<open>simp_all add: defs\<close>)
  moreover have "boot_step ?b2 ?b3" by (rule boot_step.Create) (use n in \<open>simp_all add: defs\<close>)
  moreover have "bt_buses ?b3 (0, 1) = Some (Some 0, None)" using assms by (simp add: defs)
  ultimately show ?thesis by (meson converse_rtranclp_into_rtranclp rtranclp.rtrancl_refl)
qed

section \<open>Workers\<close>

text \<open>
  \<^verbatim>\<open>coordinator::start\<close>: each thread makes its worker and waits, and so does the caller, who is participant \<open>cores\<close>.
\<close>

record coordinator =
  co_cores :: nat
  co_workers :: "worker_data list"
  co_made :: "nat \<Rightarrow> bool"
  co_phase :: "nat \<Rightarrow> phase"

definition coordinator_new :: "u8 \<Rightarrow> coordinator" where
  "coordinator_new cores = \<lparr>co_cores = unat cores, co_workers = [], co_made = (\<lambda>_. False), co_phase = (\<lambda>_. Before)\<rparr>"

definition start_worker :: "nat \<Rightarrow> coordinator \<Rightarrow> coordinator" where
  "start_worker i c = c\<lparr>co_workers := co_workers c @ [worker_data_new], co_made := (co_made c)(i := True)\<rparr>"

inductive coordinator_step :: "coordinator \<Rightarrow> coordinator \<Rightarrow> bool" where
  Start: "i < co_cores c \<Longrightarrow> \<not> co_made c i \<Longrightarrow> coordinator_step c (start_worker i c)"
| Arrive: "i = co_cores c \<or> i < co_cores c \<and> co_made c i \<Longrightarrow> co_phase c i = Before \<Longrightarrow>
     coordinator_step c (c\<lparr>co_phase := (co_phase c)(i := Waiting)\<rparr>)"
| Pass_barrier: "may_pass (Suc (co_cores c)) (co_phase c) i \<Longrightarrow> coordinator_step c (c\<lparr>co_phase := (co_phase c)(i := After)\<rparr>)"

text \<open>\<open>started\<close>: the call has returned.\<close>

definition started :: "coordinator \<Rightarrow> bool" where
  "started c \<longleftrightarrow> co_phase c (co_cores c) = After"

definition coordinator_inv :: "coordinator \<Rightarrow> bool" where
  "coordinator_inv c \<longleftrightarrow> barrier_ok (Suc (co_cores c)) (co_phase c) \<and>
     (\<forall>i < co_cores c. co_phase c i \<noteq> Before \<longrightarrow> co_made c i) \<and>
     length (co_workers c) = card {i. i < co_cores c \<and> co_made c i}"

lemma made_card: "i < n \<Longrightarrow> \<not> P i \<Longrightarrow> card {j. j < n \<and> (P(i := True)) j} = Suc (card {j. j < n \<and> P j})" for n :: nat
proof -
  assume a: "i < n" "\<not> P i"
  then have "{j. j < n \<and> (P(i := True)) j} = insert i {j. j < n \<and> P j}" by auto
  with a show ?thesis by simp
qed

lemma coordinator_step_inv: "coordinator_step c d \<Longrightarrow> coordinator_inv c \<Longrightarrow> coordinator_inv d"
proof (induction rule: coordinator_step.induct)
  case (Start i c)
  then show ?case using made_card [of i "co_cores c" "co_made c"] by (simp add: coordinator_inv_def start_worker_def)
next
  case (Arrive i c)
  then show ?case using barrier_arrive [of "Suc (co_cores c)" "co_phase c" i] by (auto simp: coordinator_inv_def)
next
  case (Pass_barrier c i)
  then show ?case using barrier_pass [of "Suc (co_cores c)" "co_phase c" i] by (auto simp: coordinator_inv_def may_pass_def)
qed

interpretation coordinators: started_system coordinator_step coordinator_inv "coordinator_new cores" for cores
  by unfold_locales (rule coordinator_step_inv, auto simp: coordinator_inv_def coordinator_new_def barrier_ok_def)

lemma started_workers:
  assumes "coordinator_step\<^sup>*\<^sup>* (coordinator_new cores) c" "started c"
  shows "length (co_workers c) = co_cores c"
proof -
  have inv: "coordinator_inv c" using coordinators.reachable_inv [OF assms(1)] .
  then have "\<forall>i < co_cores c. co_made c i" using assms(2) by (auto simp: coordinator_inv_def started_def barrier_ok_def)
  then have "{i. i < co_cores c \<and> co_made c i} = {..<co_cores c}" by auto
  with inv show ?thesis by (simp add: coordinator_inv_def)
qed

text \<open>\<^verbatim>\<open>schedule\<close> hands the task to the policy.\<close>

definition coordinator_schedule :: "resumable \<Rightarrow> u64 \<Rightarrow> coordinator \<Rightarrow> (u64 \<times> coordinator) option" where
  "coordinator_schedule r cnt c = map_option (\<lambda>(ws, cnt'). (cnt', c\<lparr>co_workers := ws\<rparr>)) (central_schedule r (co_workers c) cnt)"

text \<open>
  The first runtime makes its coordinator on the first use, with the number of cores set until then.
\<close>

record runtime_context =
  rc_n_cores :: u8
  rc_coordinator :: "coordinator option"

definition runtime_context_new :: runtime_context where
  "runtime_context_new = \<lparr>rc_n_cores = 1, rc_coordinator = None\<rparr>"

definition set_max_cores :: "u8 \<Rightarrow> runtime_context \<Rightarrow> runtime_context" where
  "set_max_cores cores rc = rc\<lparr>rc_n_cores := cores\<rparr>"

definition runtime_coordinator :: "runtime_context \<Rightarrow> coordinator \<times> runtime_context" where
  "runtime_coordinator rc =
     (case rc_coordinator rc of
        Some c \<Rightarrow> (c, rc)
      | None \<Rightarrow> let c = coordinator_new (rc_n_cores rc) in (c, rc\<lparr>rc_coordinator := Some c\<rparr>))"

lemma coordinator_once:
  "runtime_coordinator rc = (c, rc') \<Longrightarrow> fst (runtime_coordinator (set_max_cores n rc')) = c"
  by (auto simp: runtime_coordinator_def set_max_cores_def Let_def split: option.splits)

section \<open>Schedulers\<close>

text \<open>
  The second runtime: a scheduler is the number of cores it was started with and the builders given to it.
  \<open>rt_cores\<close> is \<open>None\<close> until it is set; the member has no initial value.
\<close>

record 'b runtime_environment =
  rt_cores :: "u8 option"
  rt_schedulers :: "(u8 \<times> 'b list) list"
  rt_round_robin :: u64
  rt_started :: bool

definition runtime_new :: "'b runtime_environment" where
  "runtime_new = \<lparr>rt_cores = None, rt_schedulers = [], rt_round_robin = 0, rt_started = False\<rparr>"

definition set_cores :: "u8 \<Rightarrow> 'b runtime_environment \<Rightarrow> 'b runtime_environment" where
  "set_cores n rt = rt\<lparr>rt_cores := Some n\<rparr>"

definition runtime_start :: "'b runtime_environment \<Rightarrow> 'b runtime_environment option" where
  "runtime_start rt =
     map_option (\<lambda>n. rt\<lparr>rt_schedulers := map (\<lambda>(_, q). (n, q)) (rt_schedulers rt @ [(0, [])])\<rparr>) (rt_cores rt)"

definition impl_spawn :: "'b \<Rightarrow> 'b runtime_environment \<Rightarrow> 'b runtime_environment option" where
  "impl_spawn rb rt =
     (let idx = unat (rt_round_robin rt) mod length (rt_schedulers rt)
      in if rt_schedulers rt = [] then None
         else let (n, q) = rt_schedulers rt ! idx
              in Some (rt\<lparr>rt_round_robin := rt_round_robin rt + 1, rt_schedulers := (rt_schedulers rt)[idx := (n, q @ [rb])]\<rparr>))"

text \<open>The first call starts the schedulers.\<close>

definition runtime_spawn :: "'b \<Rightarrow> 'b runtime_environment \<Rightarrow> 'b runtime_environment option" where
  "runtime_spawn rb rt =
     do { rt1 \<leftarrow> (if rt_started rt then Some rt else map_option (\<lambda>r. r\<lparr>rt_started := True\<rparr>) (runtime_start rt));
          impl_spawn rb rt1 }"

fun runtime_spawns :: "'b list \<Rightarrow> 'b runtime_environment \<Rightarrow> 'b runtime_environment option" where
  "runtime_spawns [] rt = Some rt"
| "runtime_spawns (b # bs) rt = do { rt' \<leftarrow> runtime_spawn b rt; runtime_spawns bs rt' }"

lemma spawns_started:
  "rt_started rt \<Longrightarrow> rt_schedulers rt = [(n, q)] \<Longrightarrow>
     \<exists>rt'. runtime_spawns bs rt = Some rt' \<and> rt_schedulers rt' = [(n, q @ bs)] \<and> rt_started rt'"
proof (induction bs arbitrary: rt q)
  case (Cons b bs)
  then show ?case
    using Cons.IH [of "rt\<lparr>rt_round_robin := rt_round_robin rt + 1, rt_schedulers := [(n, q @ [b])]\<rparr>" "q @ [b]"]
    by (simp add: runtime_spawn_def impl_spawn_def)
qed simp

lemma spawns_in_order:
  assumes "rt_cores rt = Some n" "rt_schedulers rt = []" "\<not> rt_started rt" "bs \<noteq> []"
  shows "\<exists>rt'. runtime_spawns bs rt = Some rt' \<and> rt_schedulers rt' = [(n, bs)]"
proof (cases bs)
  case (Cons b rest)
  let ?rt1 = "rt\<lparr>rt_schedulers := [(n, [b])], rt_started := True, rt_round_robin := rt_round_robin rt + 1\<rparr>"
  have "runtime_spawn b rt = Some ?rt1" using assms by (simp add: runtime_spawn_def runtime_start_def impl_spawn_def)
  with spawns_started [of ?rt1 n "[b]" rest] Cons show ?thesis by auto
qed (use assms in simp)

lemma spawn_unset: "rt_cores rt = None \<Longrightarrow> \<not> rt_started rt \<Longrightarrow> runtime_spawn b rt = None"
  by (simp add: runtime_spawn_def runtime_start_def)

end
