(* ===== verification/Demo_Server.thy ===== *)
theory Demo_Server
  imports Ports
begin

text \<open>
  The two servers of \<^verbatim>\<open>src/play/context.cpp\<close>: one sends back what it receives, the other sends one response over and over.
  \<open>f\<close> bounds the rounds of a server, \<open>g\<close> the loops of the socket.
\<close>

text \<open>The first result lists what was received.\<close>

fun channel2_call :: "nat \<Rightarrow> nat \<Rightarrow> 'k kernel \<Rightarrow> int \<Rightarrow> 'k task \<Rightarrow> (u8 list \<times> 'k task) option" where
  "channel2_call 0 g K fd t = None"
| "channel2_call (Suc f) g K fd t =
     do { (r, bs, t1) \<leftarrow> read_some g K fd (4 * 2 ^ 12) t;
          if r > 0 then do { let data = take (nat r) bs;
                             (_, t2) \<leftarrow> write_exactly g g K fd data t1;
                             (got, t3) \<leftarrow> channel2_call f g K fd t2;
                             Some (data @ got, t3) }
          else Some ([], t1) }"

text \<open>The size of the array counts the terminator.\<close>

definition RESPONSE :: "u8 list" where
  "RESPONSE = map (\<lambda>c. of_char c)
     (''HTTP/1.1 200 OK'' @ [CHR 0x0D, CHR 0x0A] @ ''Content-Length: 14'' @ [CHR 0x0D, CHR 0x0A, CHR 0x0D, CHR 0x0A] @
      ''Hello World'' @ [CHR 0x0D, CHR 0x0A, CHR 0x0D, CHR 0x0A, CHR 0x00])"

fun cheat_call :: "nat \<Rightarrow> nat \<Rightarrow> 'k kernel \<Rightarrow> int \<Rightarrow> 'k task \<Rightarrow> 'k task option" where
  "cheat_call 0 g K fd t = None"
| "cheat_call (Suc f) g K fd t =
     do { (r, t1) \<leftarrow> write_exactly g g K fd RESPONSE t;
          if r \<le> 0 then Some t1 else cheat_call f g K fd t1 }"

section \<open>The echo\<close>

text \<open>
  A system that delivers the pieces \<open>pieces\<close> finds in its state one after the other, each in one call where there is room
  for it, and then the end of the stream; sending does not change them.
\<close>

definition delivers :: "'k kernel \<Rightarrow> ('k \<Rightarrow> u8 list list) \<Rightarrow> bool" where
  "delivers K pieces \<longleftrightarrow>
     (\<forall>fd n s. case pieces s of
        [] \<Rightarrow> fst (fst (k_recv K fd n s)) = 0
      | c # cs \<Rightarrow> length c \<le> n \<longrightarrow> (\<exists>e s'. k_recv K fd n s = ((int (length c), e, c), s') \<and> pieces s' = cs)) \<and>
     (\<forall>fd bs s. pieces (snd (k_send K fd bs s)) = pieces s)"

lemma write_some_pieces:
  assumes "delivers K pieces" "write_some f K fd data t = Some (r, t')"
  shows "pieces (tk t') = pieces (tk t)"
  using assms(2)
proof (induction f arbitrary: t)
  case (Suc f)
  obtain v e s where k: "k_send K fd data (tk t) = ((v, e), s)" by (metis surj_pair)
  then have "pieces s = pieces (tk t)" using assms(1) unfolding delivers_def by (metis snd_conv)
  with k show ?case
    using Suc.prems Suc.IH [of "t\<lparr>tk := s\<rparr>"] Suc.IH [of "port_await_writable fd (t\<lparr>tk := s\<rparr>)"]
    by (auto simp: task_wait_def port_await_writable_def Let_def split: if_splits)
qed simp

lemma write_exactly_pieces:
  assumes "delivers K pieces"
  shows "write_exactly_loop f g K fd data s t = Some (r, t') \<Longrightarrow> pieces (tk t') = pieces (tk t)"
proof (induction f arbitrary: s t)
  case (Suc f)
  show ?case
  proof (cases "s < length data")
    case True
    with Suc.prems obtain ret t1 where w: "write_some g K fd (drop s data) t = Some (ret, t1)"
      and go: "(if ret < 0 then Some (usub 0 (nat (- ret)), t1)
                else write_exactly_loop f g K fd data (s + nat ret) t1) = Some (r, t')"
      by (auto simp: bind_eq_Some_conv)
    note p = write_some_pieces [OF assms w]
    show ?thesis
    proof (cases "ret < 0")
      case True
      with go p show ?thesis by simp
    next
      case False
      with go Suc.IH [of "s + nat ret" t1] p show ?thesis by simp
    qed
  qed (use Suc.prems in simp)
qed simp

lemma write_exactly_sends:
  assumes "send_within K" "always_sends K" "length data < g"
  shows "\<exists>t'. write_exactly g g K fd data t = Some (length data, t') \<and> out t' = out t @ data"
proof -
  obtain h where "g = Suc h" using assms(3) by (cases g) auto
  with write_exactly_loop_returns [OF assms(2,1), of data 0 g h fd t] assms(3) show ?thesis
    by (simp add: write_exactly_def del: write_exactly_loop.simps)
qed

lemma channel2_echoes:
  assumes "send_within K" "always_sends K" "delivers K pieces" "\<forall>c \<in> set (pieces (tk t)). c \<noteq> [] \<and> length c < g \<and> length c \<le> 4 * 2 ^ 12"
    and "length (pieces (tk t)) < f" "0 < g"
  shows "\<exists>t'. channel2_call f g K fd t = Some (concat (pieces (tk t)), t') \<and> out t' = out t @ concat (pieces (tk t))"
  using assms(4,5)
proof (induction f arbitrary: t)
  case (Suc f)
  obtain h where g: "g = Suc h" using assms(6) by (cases g) auto
  show ?case
  proof (cases "pieces (tk t)")
    case Nil
    then have "fst (fst (k_recv K fd (4 * 2 ^ 12) (tk t))) = 0"
      using conjunct1 [OF assms(3) [unfolded delivers_def], rule_format, of fd "4 * 2 ^ 12" "tk t"] by simp
    then obtain e ds s where "k_recv K fd (4 * 2 ^ 12) (tk t) = ((0, e, ds), s)" by (metis surj_pair fst_conv)
    then show ?thesis using Nil g by (simp add: kEOF_def)
  next
    case (Cons c cs)
    have c: "c \<noteq> []" "length c < g" "length c \<le> 4 * 2 ^ 12" using Suc.prems(1) Cons by auto
    with Cons obtain e s' where k: "k_recv K fd (4 * 2 ^ 12) (tk t) = ((int (length c), e, c), s')" "pieces s' = cs"
      using conjunct1 [OF assms(3) [unfolded delivers_def], rule_format, of fd "4 * 2 ^ 12" "tk t"] by auto
    let ?t1 = "t\<lparr>tk := s'\<rparr>"
    obtain t2 where w: "write_exactly g g K fd c ?t1 = Some (length c, t2)" "out t2 = out t @ c"
      using write_exactly_sends [OF assms(1,2) c(2), of fd ?t1] by auto
    have p: "pieces (tk t2) = cs" using write_exactly_pieces [OF assms(3)] w(1) k(2) by (simp add: write_exactly_def)
    from Suc.IH [of t2] Suc.prems Cons p obtain t' where
      "channel2_call f g K fd t2 = Some (concat cs, t')" "out t' = out t2 @ concat cs" by auto
    moreover have "read_some g K fd (4 * 2 ^ 12) t = Some (int (length c), c, ?t1)" using k(1) c(1) by (simp add: g)
    ultimately show ?thesis using w c(1) by (simp add: Cons)
  qed
qed simp

section \<open>The response\<close>

lemma write_some_least: "write_some f K fd data t = Some (r, t') \<Longrightarrow> -1 \<le> r"
  by (induction f arbitrary: t) (auto simp: Let_def split: if_splits prod.splits)

lemma write_exactly_positive:
  "data \<noteq> [] \<Longrightarrow> write_exactly_loop f g K fd data s t = Some (r, t') \<Longrightarrow> 0 < r"
proof (induction f arbitrary: s t)
  case (Suc f)
  show ?case
  proof (cases "s < length data")
    case True
    with Suc.prems(2) obtain ret t1 where w: "write_some g K fd (drop s data) t = Some (ret, t1)"
      and go: "(if ret < 0 then Some (usub 0 (nat (- ret)), t1)
                else write_exactly_loop f g K fd data (s + nat ret) t1) = Some (r, t')"
      by (auto simp: bind_eq_Some_conv)
    show ?thesis
    proof (cases "ret < 0")
      case True
      then have "ret = -1" using write_some_least [OF w] by simp
      then show ?thesis using go by (auto simp: usub_def)
    next
      case False
      with go Suc.IH [OF Suc.prems(1), of "s + nat ret" t1] show ?thesis by simp
    qed
  next
    case False
    with Suc.prems show ?thesis by (cases data) auto
  qed
qed simp

lemma cheat_never_ends: "cheat_call f g K fd t = None"
proof (induction f arbitrary: t)
  case (Suc f)
  have ne: "RESPONSE \<noteq> []" by (simp add: RESPONSE_def)
  show ?case
  proof (cases "write_exactly g g K fd RESPONSE t")
    case (Some p)
    obtain r t1 where p: "p = (r, t1)" by force
    with write_exactly_positive [OF ne, of g g K fd 0 t] Some have "0 < r" by (simp add: write_exactly_def)
    with Some p Suc.IH show ?thesis by simp
  qed simp
qed simp

end
