(* ===== verification/Ownership.thy ===== *)
theory Ownership
  imports Xi_Prelude
begin

text \<open>
  \<^verbatim>\<open>xi/util/ownership.h\<close>: how a class declares who owns its objects, the types that follow from it, and the operations on
  owners.
\<close>

section \<open>Types\<close>

text \<open>Types as the templates see them; \<open>pol\<close> is the policy a class derives from, if any.\<close>

datatype policy = KARC | KRC | KSTD | Unique

datatype cpp_type =
    Class nat
  | Ptr cpp_type
  | Reference cpp_type
  | Const cpp_type
  | Unique_ptr cpp_type
  | Shared_ptr cpp_type
  | Intrusive_ptr cpp_type

fun remove_reference :: "cpp_type \<Rightarrow> cpp_type" where
  "remove_reference (Reference t) = t"
| "remove_reference t = t"

fun remove_pointer :: "cpp_type \<Rightarrow> cpp_type" where
  "remove_pointer (Ptr t) = t"
| "remove_pointer t = t"

fun add_const :: "cpp_type \<Rightarrow> cpp_type" where
  "add_const (Const t) = Const t"
| "add_const t = Const t"

fun is_const :: "cpp_type \<Rightarrow> bool" where
  "is_const (Const t) = True"
| "is_const t = False"

text \<open>The specialisations for the four policies, which a constant class has too, and the primary template.\<close>

fun class_policy :: "(nat \<Rightarrow> policy option) \<Rightarrow> cpp_type \<Rightarrow> policy option" where
  "class_policy pol (Class c) = pol c"
| "class_policy pol (Const t) = class_policy pol t"
| "class_policy pol t = None"

definition own :: "(nat \<Rightarrow> policy option) \<Rightarrow> cpp_type \<Rightarrow> cpp_type" where
  "own pol t =
     (case class_policy pol t of
        Some KSTD \<Rightarrow> Shared_ptr t
      | Some KRC \<Rightarrow> Intrusive_ptr t
      | Some KARC \<Rightarrow> Intrusive_ptr t
      | Some Unique \<Rightarrow> Unique_ptr t
      | None \<Rightarrow> remove_pointer (remove_reference t))"

fun ref_type :: "cpp_type \<Rightarrow> cpp_type" where
  "ref_type (Unique_ptr t) = ref_type t"
| "ref_type (Shared_ptr t) = ref_type t"
| "ref_type (Intrusive_ptr t) = ref_type t"
| "ref_type (Ptr t) = ref_type t"
| "ref_type t = Reference (add_const (remove_reference t))"

definition ensure_not_const :: "cpp_type \<Rightarrow> cpp_type option" where
  "ensure_not_const t = (let u = remove_reference (remove_pointer t) in if is_const u then None else Some u)"

fun mut_type :: "cpp_type \<Rightarrow> cpp_type option" where
  "mut_type (Unique_ptr t) = mut_type t"
| "mut_type (Shared_ptr t) = mut_type t"
| "mut_type (Intrusive_ptr t) = mut_type t"
| "mut_type t = map_option Ptr (ensure_not_const t)"

section \<open>Owners\<close>

text \<open>An object with the number of its owners.\<close>

record owned =
  ow_policy :: policy
  ow_count :: nat

definition own_make :: "policy \<Rightarrow> owned" where
  "own_make p = \<lparr>ow_policy = p, ow_count = 1\<rparr>"

text \<open>\<^verbatim>\<open>share\<close> of an owner or of a pointer to the object; for a unique object there is no such function.\<close>

definition own_share :: "owned \<Rightarrow> owned option" where
  "own_share x = (if ow_policy x = Unique then None else Some (x\<lparr>ow_count := ow_count x + 1\<rparr>))"

text \<open>An owner is given up; the last one takes the object with it.\<close>

definition own_release :: "owned \<Rightarrow> owned option" where
  "own_release x = (if ow_count x = 1 then None else Some (x\<lparr>ow_count := ow_count x - 1\<rparr>))"

definition is_shared_owner :: "owned \<Rightarrow> bool" where
  "is_shared_owner x = (if ow_policy x = Unique then False else ow_count x > 1)"

text \<open>Of a pointer: \<^verbatim>\<open>shared_from_this\<close> makes one more owner, which is counted.\<close>

definition is_shared_pointer :: "owned \<Rightarrow> bool" where
  "is_shared_pointer x = (case ow_policy x of KSTD \<Rightarrow> ow_count x + 1 > 1 | _ \<Rightarrow> ow_count x > 1)"

definition is_valid_pointer :: "addr option \<Rightarrow> bool" where
  "is_valid_pointer p \<longleftrightarrow> p \<noteq> None"

section \<open>What holds\<close>

text \<open>Owning, sharing and editing agree on the object: the static tests of the header, for every class.\<close>

lemma mut_types:
  "mut_type (Class c) = Some (Ptr (Class c))" "mut_type (own pol (Class c)) = Some (Ptr (Class c))"
  "mut_type (Ptr (Class c)) = Some (Ptr (Class c))" "mut_type (Const (Class c)) = None"
  by (auto simp: own_def ensure_not_const_def split: option.split policy.split)

lemma ref_types:
  "ref_type (Class c) = Reference (Const (Class c))" "ref_type (own pol (Class c)) = Reference (Const (Class c))"
  "ref_type (Ptr (Class c)) = Reference (Const (Class c))" "ref_type (ref_type t) = ref_type t"
proof -
  show "ref_type (own pol (Class c)) = Reference (Const (Class c))" by (auto simp: own_def split: option.split policy.split)
  show "ref_type (ref_type t) = ref_type t"
  proof (induction t)
    case (Const t)
    show ?case by (cases t) simp_all
  next
    case (Reference t)
    show ?case by (cases t) simp_all
  qed simp_all
qed simp_all

text \<open>Shares and releases.\<close>

fun share_release :: "bool list \<Rightarrow> owned \<Rightarrow> owned option" where
  "share_release [] x = Some x"
| "share_release (b # bs) x = Option.bind (if b then own_share x else own_release x) (share_release bs)"

lemma pointer_always_shared: "ow_policy x = KSTD \<Longrightarrow> 0 < ow_count x \<Longrightarrow> is_shared_pointer x"
  by (simp add: is_shared_pointer_def)

lemma owner_shared: "is_shared_owner x \<Longrightarrow> \<exists>y. own_release x = Some y \<and> ow_count x = ow_count y + 1 \<and> 0 < ow_count y"
  by (auto simp: is_shared_owner_def own_release_def split: if_splits)

lemma share_release_count:
  "share_release bs x = Some y \<Longrightarrow> 0 < ow_count x \<Longrightarrow>
     0 < ow_count y \<and> ow_count y + length (filter (\<lambda>b. \<not> b) bs) = ow_count x + length (filter (\<lambda>b. b) bs)"
proof (induction bs arbitrary: x)
  case (Cons b bs)
  then obtain z where z: "(if b then own_share x else own_release x) = Some z" "share_release bs z = Some y"
    by (auto simp: bind_eq_Some_conv)
  then have "0 < ow_count z" "(if b then ow_count z = ow_count x + 1 else ow_count z + 1 = ow_count x)"
    using Cons.prems(2) by (auto simp: own_share_def own_release_def split: if_splits)
  with Cons.IH [OF z(2)] show ?case by (cases b) auto
qed simp

end
