(* ===== verification/Libevent.thy ===== *)
theory Libevent
  imports Event_Loop "HOL-Library.Signed_Division"
begin

text \<open>
  \<^verbatim>\<open>src/core/libevent/event.cpp\<close> and \<^verbatim>\<open>src/core/libevent/event_loop.cpp\<close>: events of the library libevent. \<open>base\<close> holds the events the
  library has made and not freed, with their flags, and the ones that wait, with their timeout in seconds and microseconds.
  \<open>new\<close> is the event the library makes, if it can. A call with a null event is \<open>None\<close>.
\<close>

record event_base =
  lb_events :: "nat \<Rightarrow> u16 option"
  lb_waiting :: "nat \<Rightarrow> (int \<times> int) option option"

record le_event =
  le_event :: "nat option"
  le_state :: u16

definition prepare_event :: "nat option \<Rightarrow> nat option \<Rightarrow> u16 \<Rightarrow> event_base \<Rightarrow> nat option \<times> event_base" where
  "prepare_event new e state b =
     (let s = libevent_state_to_short state
      in case e of
           None \<Rightarrow> (case new of None \<Rightarrow> (None, b) | Some n \<Rightarrow> (Some n, b\<lparr>lb_events := (lb_events b)(n \<mapsto> s)\<rparr>))
         | Some p \<Rightarrow> (Some p, b\<lparr>lb_events := (lb_events b)(p \<mapsto> s)\<rparr>))"

text \<open>The constructor throws when there is no event.\<close>

definition le_new :: "nat option \<Rightarrow> u16 \<Rightarrow> event_base \<Rightarrow> le_event option \<times> event_base" where
  "le_new new state b =
     (case prepare_event new None state b of
        (None, b') \<Rightarrow> (None, b')
      | (Some p, b') \<Rightarrow> (Some \<lparr>le_event = Some p, le_state = state\<rparr>, b'))"

definition le_cancel :: "le_event \<times> event_base \<Rightarrow> (le_event \<times> event_base) option" where
  "le_cancel s =
     (case le_event (fst s) of
        None \<Rightarrow> None
      | Some p \<Rightarrow> Some ((fst s)\<lparr>le_event := None\<rparr>, (snd s)\<lparr>lb_waiting := (lb_waiting (snd s))(p := None)\<rparr>))"

definition le_is_active :: "le_event \<Rightarrow> bool" where
  "le_is_active ev \<longleftrightarrow> le_event ev \<noteq> None"

text \<open>The timeout is in milliseconds; their remainder is stored as microseconds.\<close>

definition le_timeval :: "int \<Rightarrow> int \<times> int" where
  "le_timeval ms = (ms sdiv 1000, ms smod 1000)"

definition le_arm :: "int option \<Rightarrow> le_event \<times> event_base \<Rightarrow> (le_event \<times> event_base) option" where
  "le_arm timeout s =
     (case le_event (fst s) of
        None \<Rightarrow> None
      | Some p \<Rightarrow> Some (fst s, (snd s)\<lparr>lb_waiting := (lb_waiting (snd s))(p \<mapsto> map_option le_timeval timeout)\<rparr>))"

definition le_change_state :: "nat option \<Rightarrow> int option \<Rightarrow> u16 \<Rightarrow> le_event \<times> event_base \<Rightarrow> (le_event \<times> event_base) option" where
  "le_change_state new timeout state s =
     Option.bind (le_cancel s) (\<lambda>(ev, b).
       let (e, b') = prepare_event new (le_event ev) state b
       in le_arm timeout (ev\<lparr>le_event := e, le_state := state\<rparr>, b'))"

definition le_add_state :: "nat option \<Rightarrow> int option \<Rightarrow> u16 \<Rightarrow> le_event \<times> event_base \<Rightarrow> (le_event \<times> event_base) option" where
  "le_add_state new timeout state s = le_change_state new timeout (le_state (fst s) OR state) s"

definition le_remove_state :: "nat option \<Rightarrow> int option \<Rightarrow> u16 \<Rightarrow> le_event \<times> event_base \<Rightarrow> (le_event \<times> event_base) option" where
  "le_remove_state new timeout state s = le_change_state new timeout (le_state (fst s) AND NOT state) s"

text \<open>The callback converts the flags back and calls the handler, if there is one.\<close>

definition le_event_callback :: "u16 \<Rightarrow> nat option \<Rightarrow> (nat \<times> callback list) option" where
  "le_event_callback what arg = map_option (\<lambda>h. (h, callbacks (libevent_short_to_state what))) arg"

section \<open>What holds\<close>

text \<open>Every change of the state makes a new event and leaves the old one with the library.\<close>

lemma change_state_leaks:
  assumes "le_event ev = Some p" "lb_events b p \<noteq> None" "new = Some n" "n \<noteq> p"
  shows "\<exists>ev' b'. le_change_state new timeout state (ev, b) = Some (ev', b') \<and> le_event ev' = Some n \<and>
    lb_events b' p \<noteq> None \<and> lb_waiting b' p = None \<and> lb_events b' n = Some (libevent_state_to_short state) \<and>
    lb_waiting b' n = Some (map_option le_timeval timeout)"
  using assms by (simp add: le_change_state_def le_cancel_def prepare_event_def le_arm_def)

lemma timeval_short: "fst (le_timeval ms) * 1000000 + snd (le_timeval ms) = ms * 1000 \<longleftrightarrow> ms smod 1000 = 0"
proof -
  have "ms sdiv 1000 * 1000 + ms smod 1000 = ms" by (rule sdiv_mult_smod_eq)
  then have "ms * 1000 = ms sdiv 1000 * 1000000 + ms smod 1000 * 1000" by linarith
  then show ?thesis by (auto simp: le_timeval_def)
qed

end
