(* ===== verification/System_Properties.thy ===== *)
theory System_Properties
  imports Client_Pipe Signals Endpoint Coroutine Isolation_Reactor Kernel Startup Demo_Server Ownership Libevent
begin

text \<open>
  The properties of the theories on start-up, reactors, coroutines, signals and servers, with concrete instances.
\<close>

section \<open>Waking a worker up\<close>

text \<open>
  C17. A worker of the isolation policy never sleeps on a task it was given from another thread: in every reachable state, if
  tasks are in the external queue and no thread is still about to write its wake-up, the worker is not blocked in \<^verbatim>\<open>epoll_pwait\<close>,
  although the descriptor is edge-triggered and the worker reads it after the poll has reported it.
\<close>

theorem isolation_no_lost_wakeup:
  assumes "iso_step\<^sup>*\<^sup>* iso_new s" "wd_external (iso_data s) \<noteq> []" "wakers s = 0"
  shows "\<not> iso_blocked s \<and> (iso_pc s = Polling b \<longrightarrow> edge s \<and> counter s \<noteq> 0)"
  using iso_workers.reachable_inv [OF assms(1)] assms(2,3) by (auto simp: iso_inv_def iso_blocked_def)

text \<open>A task arrives between the drain of the external queue and the poll.\<close>

theorem isolation_no_lost_wakeup_witness:
  "let d = push_externally \<lparr>rs_id = 3, rs_wakeup = 0\<rparr> worker_data_new;
       s = \<lparr>iso_data = d, iso_pc = Polling True, edge = True, counter = 1, wakers = 0\<rparr>
   in iso_step\<^sup>*\<^sup>* iso_new s \<and> \<not> iso_blocked s"
proof -
  let ?r = "\<lparr>rs_id = 3, rs_wakeup = 0\<rparr> :: resumable"
  let ?d = "push_externally ?r worker_data_new"
  let ?s1 = "\<lparr>iso_data = worker_data_new, iso_pc = Drain_sleepers, edge = False, counter = 0, wakers = 0\<rparr>"
  let ?s2 = "?s1\<lparr>iso_data := ?d, wakers := 1\<rparr>"
  let ?s3 = "?s2\<lparr>wakers := 0, edge := True, counter := 1\<rparr>"
  let ?s4 = "\<lparr>iso_data = ?d, iso_pc = Polling True, edge = True, counter = 1, wakers = 0\<rparr>"
  have "iso_step iso_new ?s1" using iso_step.External [of iso_new] by (simp add: iso_new_def drain_external_queue_def worker_data_new_def)
  moreover have "iso_step ?s1 ?s2" using iso_step.Push [of 1 ?s1 ?r] by simp
  moreover have "iso_step ?s2 ?s3" using iso_step.Wake [of ?s2 0] by (simp add: eventfd_write_def EFD_MAX_def)
  moreover have "iso_step ?s3 ?s4" using iso_step.Sleepers [of ?s3 ?d 0 0]
    by (simp add: drain_sleep_queue_def poll_timeout_def push_externally_def worker_data_new_def time_max_def Let_def)
  ultimately have r: "iso_step\<^sup>*\<^sup>* iso_new ?s4" by (meson converse_rtranclp_into_rtranclp rtranclp.rtrancl_refl)
  with isolation_no_lost_wakeup [OF r] show ?thesis by (simp add: push_externally_def)
qed

section \<open>Starting shards\<close>

text \<open>
  C20. As soon as one shard thread is past the barrier, every shard exists and there is a bus between any two of them, in whatever order
  the threads come up.
\<close>

theorem boot_complete:
  assumes "boot_step\<^sup>*\<^sup>* (bootstrap_configure argc arg) b" "i < bt_cpus b" "bt_phase b i = After" "j < bt_cpus b" "k < bt_cpus b"
  shows "bt_shards b j = Some j \<and> bt_buses b (j, k) \<noteq> None"
  using running_complete [OF assms] .

theorem boot_complete_witness:
  "\<exists>b. boot_step\<^sup>*\<^sup>* (bootstrap_configure 1 0) b \<and> bt_phase b 0 = After \<and> bt_shards b 0 = Some 0 \<and> bt_buses b (0, 0) \<noteq> None"
proof -
  let ?b0 = "bootstrap_configure 1 0"
  let ?b1 = "prepare_shard 0 ?b0"
  let ?b2 = "create_queue ?b1"
  let ?b3 = "?b2\<lparr>bt_ready := True\<rparr>"
  let ?b4 = "?b3\<lparr>bt_phase := (bt_phase ?b3)(0 := Waiting)\<rparr>"
  let ?b5 = "?b4\<lparr>bt_phase := (bt_phase ?b4)(0 := After)\<rparr>"
  note defs = bootstrap_configure_def cpu_count_def prepare_shard_def create_queue_def Let_def may_pass_def
  have "boot_step ?b0 ?b1" by (rule boot_step.Prepare_first) (simp_all add: defs)
  moreover have "boot_step ?b1 ?b2" by (rule boot_step.Create) (simp_all add: defs)
  moreover have "boot_step ?b2 ?b3" by (rule boot_step.Configured) (simp_all add: defs)
  moreover have "boot_step ?b3 ?b4" by (rule boot_step.Run_first) (simp_all add: defs)
  moreover have "boot_step ?b4 ?b5" by (rule boot_step.Pass) (simp add: defs)
  ultimately have r: "boot_step\<^sup>*\<^sup>* ?b0 ?b5" by (meson converse_rtranclp_into_rtranclp rtranclp.rtrancl_refl)
  have "bt_cpus ?b5 = 1" "bt_phase ?b5 0 = After" by (simp_all add: defs)
  with boot_complete [OF r, of 0 0 0] r show ?thesis by auto
qed

section \<open>Coroutines\<close>

text \<open>
  C21. A task with a stack of its own behaves as its body read as a sequence of steps: each turn runs it from where it
  yielded to the next \<^verbatim>\<open>yield\<close>, answers with the value yielded, and with the final answer when the body has returned; later turns
  run nothing. This holds for both classes, whatever other tasks do between the turns, and no turn fails.
\<close>

theorem coroutine_turns:
  "co_turns v2_resume es (v2_new b) s = Some (body_turns Reschedule Done es b s) \<and>
   co_turns v1_resume fs (v1_new c) u = Some (body_turns Resume_later Finished fs c u)"
  unfolding resumes_co v2_new_def v1_new_def co_new_def by (simp add: co_turns_body)

section \<open>Signals\<close>

text \<open>
  C36. Polling calls, for each pending signal in increasing order, the handler registered for its distance from the signal handled before,
  not for its number, and ends the process when there is none. The lowest signal gets its own handler, any other one the
  wrong one. The signals seen are cleared, those that arrived meanwhile are kept.
\<close>

theorem signals_poll_gaps:
  assumes "\<not> bit (pending_signals s) 63"
  shows "signals_poll arrived s =
    map_option (\<lambda>calls. (calls, 0, s\<lparr>pending_signals := arrived AND NOT (pending_signals s)\<rparr>))
      (those (map (\<lambda>g. sig_handlers s (int g)) (gaps 0 (bits_of (pending_signals s)))))"
proof -
  have "(pending_signals s OR arrived) AND NOT (pending_signals s) = arrived AND NOT (pending_signals s)"
    by (auto intro!: bit_word_eqI simp: bit_and_iff bit_or_iff bit_not_iff)
  moreover have "bits_of 0 = []" by (simp add: bits_of_def)
  ultimately show ?thesis using handle_pending_gaps [OF assms, of "sig_handlers s"] by (simp add: signals_poll_def Let_def)
qed

theorem signals_poll_gaps_witness:
  "let s = \<lparr>sig_handlers = [2 \<mapsto> ''int'', 12 \<mapsto> ''usr2'', 15 \<mapsto> ''term''], pending_signals = 0\<rparr>
   in (\<exists>s1 s2. signal_arrives 2 s = Some s1 \<and> signal_arrives 15 s1 = Some s2 \<and>
        map_option fst (signals_poll 0 s2) = Some [''int'', ''usr2'']) \<and>
      (\<exists>s1. signal_arrives 15 s = Some s1 \<and> map_option fst (signals_poll 0 s1) = Some [''term''])"
proof -
  let ?hs = "[2 \<mapsto> ''int'', 12 \<mapsto> ''usr2'', 15 \<mapsto> ''term''] :: int \<Rightarrow> string option"
  have b: "\<not> bit (0x8004 :: u64) 63" "bits_of 0x8004 = [2, 15]" "\<not> bit (0x8000 :: u64) 63" "bits_of 0x8000 = [15]" by code_simp+
  have a: "(0 :: u64) OR push_bit 2 1 = 0x4" "(0x4 :: u64) OR push_bit 15 1 = 0x8004" "(0 :: u64) OR push_bit 15 1 = 0x8000" by code_simp+
  from signals_poll_gaps [of "\<lparr>sig_handlers = ?hs, pending_signals = 0x8004\<rparr>" 0]
    signals_poll_gaps [of "\<lparr>sig_handlers = ?hs, pending_signals = 0x8000\<rparr>" 0] show ?thesis
    by (simp add: signal_arrives_def a b Let_def)
qed

section \<open>Servers\<close>


definition ex_peer :: "u8 list list kernel" where
  "ex_peer = \<lparr>k_socket = Pair (5, 0), k_close = (\<lambda>fd. Pair (0, 0)), k_connect = (\<lambda>fd ep. Pair (0, 0)),
     k_bind = (\<lambda>fd ep. Pair (0, 0)), k_listen = (\<lambda>fd n. Pair (0, 0)), k_accept4 = (\<lambda>fd. Pair (6, 0)),
     k_setsockopt = (\<lambda>fd opt. Pair (0, 0)), k_getsockopt = (\<lambda>fd opt. Pair (0, 0, 0)), k_fionread = (\<lambda>fd. Pair (0, 0, 0)),
     k_sendmsg = (\<lambda>fd ep bs. Pair (-1, EPIPE)), k_recvmsg = (\<lambda>fd ep n. Pair (-1, EPIPE, [])),
     k_send = (\<lambda>fd bs. Pair (int (min 3 (length bs)), 0)),
     k_recv = (\<lambda>fd n s. case s of [] \<Rightarrow> ((0, 0, []), []) | c # cs \<Rightarrow>
       if length c \<le> n then ((int (length c), 0, c), cs) else ((int n, 0, take n c), drop n c # cs))\<rparr>"


text \<open>
  The server that repeats its response does not notice that its peer is gone: the failure of a write comes back as the largest
  \<^verbatim>\<open>size_t\<close>, which is not at most zero, so the loop goes on forever.
\<close>

theorem cheat_spins:
  assumes "\<forall>s. k_send K fd RESPONSE s = ((-1, EPIPE), s)" "0 < g"
  shows "write_exactly g g K fd RESPONSE t = Some (usize_max, t) \<and> cheat_call f g K fd t = None"
proof -
  obtain h where g: "g = Suc h" using assms(2) by (cases g) auto
  have "RESPONSE \<noteq> []" by (simp add: RESPONSE_def)
  then show ?thesis using assms(1) cheat_never_ends [of f g K fd t] by (simp add: g write_exactly_def usub_def usize_max_def)
qed

theorem cheat_spins_witness:
  "write_exactly 1 1 (ex_peer\<lparr>k_send := (\<lambda>fd bs. Pair (-1, EPIPE))\<rparr>) 5 RESPONSE \<lparr>tk = [], waits = [], closes = [], out = []\<rparr> =
    Some (usize_max, \<lparr>tk = [], waits = [], closes = [], out = []\<rparr>)"
  using cheat_spins [of "ex_peer\<lparr>k_send := (\<lambda>fd bs. Pair (-1, EPIPE))\<rparr>" 5 1 "\<lparr>tk = [], waits = [], closes = [], out = []\<rparr>" 0] by simp

end
