(* ===== verification/Echo_Pipe.thy ===== *)
theory Echo_Pipe
  imports Client_Pipe Pipes
begin

text \<open>
  The server of \<^verbatim>\<open>src/play/main.cpp\<close>: a stream pipe (\<^verbatim>\<open>client_pipe\<close> of \<^verbatim>\<open>xi/io/net/async_channel.h\<close>) with a filter that counts
  and one that sends back what it reads. The filters are programs for the pipe of \<open>Pipes\<close>; the first one is the filter
  of \<open>Client_Pipe\<close>, whose calls of its context now reach the others.
\<close>

section \<open>Filters\<close>

datatype server_message = Events | Errors | Buffers | Ip_datagrams | Unix_datagrams

datatype server_value =
    Event socket_event
  | Error error_code
  | Bytes buffer
  | Datagram buffer posix_endpoint

text \<open>The counters of a thread.\<close>

record stats =
  st_connections :: usize
  st_reads :: usize
  st_r_bytes :: usize
  st_writes :: usize
  st_w_bytes :: usize

text \<open>\<open>sv_sink\<close> is \<open>None\<close> after a failed assertion or a loop that has run out of fuel.\<close>

record 'k server =
  sv_sink :: "'k sink option"
  sv_stats :: stats

type_synonym 'k server_program = "(server_message, server_value, 'k server) program"

definition value_size :: "server_value \<Rightarrow> usize" where
  "value_size v = (case v of Bytes b \<Rightarrow> bufsize b | Datagram b _ \<Rightarrow> bufsize b | _ \<Rightarrow> 0)"

definition count_read :: "usize \<Rightarrow> stats \<Rightarrow> stats" where
  "count_read n st = st\<lparr>st_reads := uadd (st_reads st) 1, st_r_bytes := uadd (st_r_bytes st) n\<rparr>"

definition count_write :: "usize \<Rightarrow> stats \<Rightarrow> stats" where
  "count_write n st = st\<lparr>st_writes := uadd (st_writes st) 1, st_w_bytes := uadd (st_w_bytes st) n\<rparr>"

definition logging_filter_new :: "stats \<Rightarrow> stats" where
  "logging_filter_new st = st\<lparr>st_connections := uadd (st_connections st) 1\<rparr>"

definition forward_once :: "(server_message, server_value) action \<Rightarrow> 'k server \<Rightarrow> 'k server \<times> 'k server_program" where
  "forward_once a sv = (sv, Do a (\<lambda>sv'. (sv', Return)))"

fun logging_filter :: "direction \<Rightarrow> server_message \<Rightarrow> server_value \<Rightarrow> 'k server \<Rightarrow> 'k server \<times> 'k server_program" where
  "logging_filter Reading m v sv = forward_once (Forward_read m v) (sv\<lparr>sv_stats := count_read (value_size v) (sv_stats sv)\<rparr>)"
| "logging_filter Writing m v sv = forward_once (Forward_write m v) (sv\<lparr>sv_stats := count_write (value_size v) (sv_stats sv)\<rparr>)"

text \<open>Writes are not overridden.\<close>

fun range_echo :: "direction \<Rightarrow> server_message \<Rightarrow> server_value \<Rightarrow> 'k server \<Rightarrow> 'k server \<times> 'k server_program" where
  "range_echo Reading m v sv = forward_once (Forward_write m v) sv"
| "range_echo Writing m v sv = filter_impl Writing m v sv"

text \<open>
  The filter on the socket. What \<open>read_data_loop\<close> forwards is at most one error, at its end; the call comes before the one
  that forwards the buffer, and the pipe is closed last.
\<close>

definition close_sink :: "bool \<Rightarrow> 'k server \<Rightarrow> 'k server" where
  "close_sink close sv = (if close then sv\<lparr>sv_sink := map_option pipe_close (sv_sink sv)\<rparr> else sv)"

definition forward_bytes :: "bool \<Rightarrow> buffer \<Rightarrow> 'k server \<Rightarrow> 'k server \<times> 'k server_program" where
  "forward_bytes close b sv =
     (if buffer_empty b then (close_sink close sv, Return)
      else (sv, Do (Forward_read Buffers (Bytes b)) (\<lambda>sv'. (close_sink close sv', Return))))"

definition server_read_data ::
    "nat \<Rightarrow> 'k kernel \<Rightarrow> int \<Rightarrow> fragment_allocator \<Rightarrow> bool \<Rightarrow> 'k server \<Rightarrow> 'k server \<times> 'k server_program" where
  "server_read_data g K fd alloc on_io sv =
     (case Option.bind (sv_sink sv) (\<lambda>s. read_data_loop g K fd alloc on_io 0 buffer_default (s\<lparr>forwarded := []\<rparr>)) of
        None \<Rightarrow> (sv\<lparr>sv_sink := None\<rparr>, Return)
      | Some (close, b, s) \<Rightarrow>
          let sv1 = sv\<lparr>sv_sink := Some (s\<lparr>forwarded := []\<rparr>)\<rparr>
          in case forwarded s of
               Forward_error e # _ \<Rightarrow> (sv1, Do (Forward_read Errors (Error e)) (\<lambda>sv'. forward_bytes close b sv'))
             | _ \<Rightarrow> forward_bytes close b sv1)"

definition on_sink :: "('k sink \<Rightarrow> 'k sink option) \<Rightarrow> 'k server \<Rightarrow> 'k server \<times> 'k server_program" where
  "on_sink h sv = (sv\<lparr>sv_sink := Option.bind (sv_sink sv) h\<rparr>, Return)"

fun data_sink ::
    "nat \<Rightarrow> nat \<Rightarrow> 'k kernel \<Rightarrow> int \<Rightarrow> fragment_allocator \<Rightarrow> direction \<Rightarrow> server_message \<Rightarrow> server_value \<Rightarrow> 'k server \<Rightarrow>
      'k server \<times> 'k server_program" where
  "data_sink f g K fd alloc Reading m (Event Readable) sv = server_read_data g K fd alloc True sv"
| "data_sink f g K fd alloc Reading m (Event e) sv = on_sink (sink_read f g K fd alloc e) sv"
| "data_sink f g K fd alloc Writing m (Event e) sv = on_sink (\<lambda>s. Some (sink_write_event e s)) sv"
| "data_sink f g K fd alloc Writing m (Bytes b) sv = on_sink (sink_write f K fd b) sv"
| "data_sink f g K fd alloc dir m v sv = filter_impl dir m v sv"

section \<open>The pipe\<close>

definition client_pipe_new :: "addr \<Rightarrow> server_message pipe" where
  "client_pipe_new a =
     push_back a [Read_write Events, Read_only Errors, Read_write Buffers] (make_pipe [Read_write Events, Read_only Errors])"

definition echo_messages :: "server_message modifier list" where
  "echo_messages = [Read_write Buffers, Read_write Ip_datagrams, Read_write Unix_datagrams]"

text \<open>\<open>a\<close>, \<open>b\<close> and \<open>c\<close> are the addresses of the three contexts.\<close>

definition http2_pipe :: "addr \<Rightarrow> addr \<Rightarrow> addr \<Rightarrow> stats \<Rightarrow> server_message pipe \<times> stats" where
  "http2_pipe a b c st = (push_back c echo_messages (push_back b echo_messages (client_pipe_new a)), logging_filter_new st)"

definition server_filters ::
    "addr \<Rightarrow> addr \<Rightarrow> nat \<Rightarrow> nat \<Rightarrow> 'k kernel \<Rightarrow> int \<Rightarrow> fragment_allocator \<Rightarrow> (server_message, server_value, 'k server) filters" where
  "server_filters a b f g K fd alloc x =
     (if x = a then data_sink f g K fd alloc else if x = b then logging_filter else range_echo)"

text \<open>What the event loop calls.\<close>

definition handle_read ::
    "nat \<Rightarrow> (server_message, server_value, 'k server) filters \<Rightarrow> server_message pipe \<times> 'k server \<Rightarrow>
      pipe_error + server_message pipe \<times> 'k server" where
  "handle_read n fs s = pipe_read n fs Events (Event Readable) s"

definition handle_write ::
    "nat \<Rightarrow> (server_message, server_value, 'k server) filters \<Rightarrow> server_message pipe \<times> 'k server \<Rightarrow>
      pipe_error + server_message pipe \<times> 'k server" where
  "handle_write n fs s = pipe_read n fs Events (Event Writable) s"

section \<open>Reading a round\<close>

text \<open>A system that keeps account of what it delivered; sending leaves the account alone.\<close>

definition logs :: "'k kernel \<Rightarrow> ('k \<Rightarrow> u8 list) \<Rightarrow> bool" where
  "logs K got \<longleftrightarrow>
     (\<forall>fd ep n s. case k_recvmsg K fd ep n s of ((_, _, bs), s') \<Rightarrow> got s' = got s @ bs) \<and>
     (\<forall>fd ep bs s. got (snd (k_sendmsg K fd ep bs s)) = got s)"

text \<open>The heap has room for \<open>k\<close> more fragments, and hands out less than a megabyte each time.\<close>

fun can_alloc :: "heap \<Rightarrow> nat \<Rightarrow> world \<Rightarrow> bool" where
  "can_alloc h 0 w = True"
| "can_alloc h (Suc k) w \<longleftrightarrow> malloc_succeeds h 16384 w \<and> snd (h 16384 w) \<le> 2 ^ 20 \<and>
     (\<forall>w'. blocks w' = h 16384 w # blocks w \<longrightarrow> can_alloc h k w')"

definition reading_inv :: "guard multiset \<Rightarrow> buffer \<Rightarrow> buffer \<Rightarrow> world \<Rightarrow> bool" where
  "reading_inv M b out w \<longleftrightarrow> buffer_ok b \<and> buffer_ok out \<and> guard_inv (buffer_guards b + (buffer_guards out + M)) w \<and>
     covered (frags b) w \<and> covered (frags out) w"

lemma logsD: "logs K got \<Longrightarrow> k_recvmsg K fd ep n s = ((v, e, bs), s') \<Longrightarrow> got s' = got s @ bs"
  unfolding logs_def by (drule conjunct1, drule spec [of _ fd], drule spec [of _ ep], drule spec [of _ n], drule spec [of _ s]) simp

lemma data_read_run:
  assumes "receives_within K" "buffer_ok b" "frags b = fs @ [f]" "fsize f = 0" "0 < fragment_tailroom f"
    and "bufsize b + fragment_tailroom f < 2 ^ 63"
  obtains v e bs s' where "k_recvmsg K fd remote (fragment_tailroom f) (kst n) = ((v, e, bs), s')"
    "length bs \<le> fragment_tailroom f"
    "data_read K fd remote b n = Some (read_iov_result v e,
       \<lparr>frags = fs @ [f\<lparr>fsize := length bs\<rparr>], bufsize = bufsize b + length bs\<rparr>,
       n\<lparr>kst := s', wld := (wld n)\<lparr>mem := store (mem (wld n)) (fhead f) bs\<rparr>\<rparr>)"
proof -
  let ?room = "fragment_tailroom f"
  obtain v e bs s' where r: "k_recvmsg K fd remote ?room (kst n) = ((v, e, bs), s')" by (metis surj_pair)
  have bs: "v = -1 \<and> bs = [] \<or> v = int (length bs) \<and> length bs \<le> ?room" using receives_withinD [OF assms(1) r] .
  let ?n' = "n\<lparr>kst := s', wld := (wld n)\<lparr>mem := store (mem (wld n)) (fhead f) bs\<rparr>\<rparr>"
  have t: "buffer_tailroom b = ?room" using assms(3) by (simp add: buffer_tailroom_def)
  have "fill_writable_iovec b = [\<lparr>rdata = fhead f, rsize = ?room\<rparr>]"
    using assms(3-5) by (simp add: fill_writable_iovec_def buffer_empty_def fragment_tail_range_def br_empty_def fragment_tail_def)
  then have run: "read_iov K fd remote (fill_writable_iovec b) n = (read_iov_result v e, ?n')"
    using r bs by (auto simp: read_iov_def)
  have b: "b = \<lparr>frags = fs @ [f\<lparr>fsize := 0\<rparr>], bufsize = bufsize b + 0\<rparr>" using assms(3,4) by (cases b; cases f) simp
  show ?thesis
  proof (cases "0 < v")
    case False
    with bs have "bs = []" "\<exists>e'. read_iov_result v e = Failed e'" by (auto simp: read_iov_result_def)
    with run t assms(5) b r show ?thesis by (intro that [of v e bs s']) (auto simp: data_read_def)
  next
    case True
    with bs have v: "v = int (length bs)" "length bs \<le> ?room" "read_iov_result v e = Value v"
      by (auto simp: read_iov_result_def)
    have "fragment_record_bytes (length bs) f = Some (length bs, f\<lparr>fsize := length bs\<rparr>)"
      using v(2) assms(4,6) by (simp add: fragment_record_bytes_def signed_nonneg_def min_def Let_def)
    then have "report_written (length bs) b = Some \<lparr>frags = fs @ [f\<lparr>fsize := length bs\<rparr>], bufsize = bufsize b + length bs\<rparr>"
      using assms(3,6) v(2) by (simp add: report_written_def buffer_empty_def)
    with run t assms(5) r v show ?thesis by (intro that [of v e bs s']) (auto simp: data_read_def)
  qed
qed

lemma simple_allocate_block:
  assumes "malloc_succeeds h sz w" "0 < sz" "guard_inv M w"
  obtains f where "simple_fragment_allocate h sz w = Some (f, w\<lparr>blocks := h sz w # blocks w\<rparr>)" "fsize f = 0" "fragment_ok f"
    "fhead f = bytes (fbytes f)" "h sz w = (bytes (fbytes f), bsize (fbytes f))" "sz \<le> bsize (fbytes f)"
    "fresh (bytes (fbytes f)) (bsize (fbytes f)) w" "guard_inv (add_mset (fguard f) M) (w\<lparr>blocks := h sz w # blocks w\<rparr>)"
proof -
  obtain p n where mb: "malloc_block h sz w = (p, n, w\<lparr>blocks := (p, n) # blocks w\<rparr>)" "0 < p" "sz \<le> n"
    "p + n < 2 ^ 63" "fresh p n w" "guard_inv (add_mset (make_simple_guard p) M) (w\<lparr>blocks := (p, n) # blocks w\<rparr>)"
    using malloc_block_live [OF assms(1,3)] .
  then have "h sz w = (p, n)" by (auto simp: malloc_block_def split: prod.splits if_splits)
  with mb assms(2) show ?thesis
    by (intro that [of "\<lparr>fbytes = \<lparr>bytes = p, bsize = n, bguard = make_simple_guard p\<rparr>, fhead = p, fsize = 0\<rparr>"])
      (auto simp: simple_fragment_allocate_def simple_make_heap_byte_blob_def fragment_new_def
        fragment_maybe_release_def blob_empty_def fragment_ok_def blob_end_def)
qed

lemma covered_mono: "covered fs w \<Longrightarrow> set (blocks w) \<subseteq> set (blocks w') \<Longrightarrow> covered fs w'"
  unfolding covered_def list_all_iff list_ex_iff by blast

text \<open>One round: a new fragment, and what is received in it; nothing else changes.\<close>

lemma read_round:
  assumes "receives_within K" "logs K got" "reading_inv M b out (wld n)" "bufsize b + 2 ^ 20 < 2 ^ 63"
    and "malloc_succeeds h 16384 (wld n)" "snd (h 16384 (wld n)) \<le> 2 ^ 20"
  obtains f w r b' n' bs where "simple_fragment_allocate h 16384 (wld n) = Some (f, w)"
    "read_buffer K fd (buffer_push_back (Some f) b) (n\<lparr>wld := w\<rparr>) = Some (r, b', n')" "reading_inv M b' out (wld n')"
    "frags b' \<noteq> []" "got (kst n') = got (kst n) @ bs" "buffer_content (mem (wld n')) b' = buffer_content (mem (wld n)) b @ bs"
    "buffer_content (mem (wld n')) out = buffer_content (mem (wld n)) out" "sent n' = sent n"
    "bufsize b' = bufsize b + length bs" "length bs \<le> 2 ^ 20" "blocks (wld n') = h 16384 (wld n) # blocks (wld n)"
proof -
  have inv: "buffer_ok b" "buffer_ok out" "guard_inv (buffer_guards b + (buffer_guards out + M)) (wld n)"
    "covered (frags b) (wld n)" "covered (frags out) (wld n)" using assms(3) by (simp_all add: reading_inv_def)
  let ?w = "(wld n)\<lparr>blocks := h 16384 (wld n) # blocks (wld n)\<rparr>"
  obtain f where f: "simple_fragment_allocate h 16384 (wld n) = Some (f, ?w)" "fsize f = 0" "fragment_ok f" "fhead f = bytes (fbytes f)"
    "h 16384 (wld n) = (bytes (fbytes f), bsize (fbytes f))" "16384 \<le> bsize (fbytes f)"
    "fresh (bytes (fbytes f)) (bsize (fbytes f)) (wld n)"
    "guard_inv (add_mset (fguard f) (buffer_guards b + (buffer_guards out + M))) ?w"
    by (rule simple_allocate_block [OF assms(5) _ inv(3)]) auto
  have room: "fragment_tailroom f = bsize (fbytes f)" "bsize (fbytes f) \<le> 2 ^ 20"
    using fragment_rooms(2) [OF f(3)] f(2,4,5) assms(6) by (simp_all add: blob_end_def)
  let ?b1 = "buffer_push_back (Some f) b"
  have b1: "?b1 = \<lparr>frags = frags b @ [f], bufsize = bufsize b\<rparr>" using inv(1) f(2) by (simp add: buffer_push_back_def buffer_ok_def)
  then have "buffer_ok ?b1" using inv(1) f(2,3) by (simp add: buffer_ok_def)
  moreover have "frags ?b1 = frags b @ [f]" "0 < fragment_tailroom f" "bufsize ?b1 + fragment_tailroom f < 2 ^ 63"
    using b1 f(6) room assms(4) by simp_all
  ultimately
  obtain v e bs s' where r: "k_recvmsg K fd None (fragment_tailroom f) (kst n) = ((v, e, bs), s')" "length bs \<le> fragment_tailroom f"
    "data_read K fd None ?b1 (n\<lparr>wld := ?w\<rparr>) = Some (read_iov_result v e,
       \<lparr>frags = frags b @ [f\<lparr>fsize := length bs\<rparr>], bufsize = bufsize b + length bs\<rparr>,
       n\<lparr>kst := s', wld := ?w\<lparr>mem := store (mem (wld n)) (fhead f) bs\<rparr>\<rparr>)"
    by (rule data_read_run [OF assms(1) _ _ f(2), where remote = None and n = "n\<lparr>wld := ?w\<rparr>" and fd = fd]) (rule that, simp_all add: b1)
  let ?f = "f\<lparr>fsize := length bs\<rparr>"
  let ?b' = "\<lparr>frags = frags b @ [?f], bufsize = bufsize b + length bs\<rparr>"
  let ?n' = "n\<lparr>kst := s', wld := ?w\<lparr>mem := store (mem (wld n)) (fhead f) bs\<rparr>\<rparr>"
  have le: "length bs \<le> bsize (fbytes f)" "length bs \<le> 2 ^ 20" using r(2) room by auto
  have keep: "frags_content (store (mem (wld n)) (fhead f) bs) fs = frags_content (mem (wld n)) fs" if "covered fs (wld n)" for fs
    using apart_store [OF fresh_apart [OF f(3,2) r(2) f(7) that]] .
  have "fragment_ok ?f" using f(3,4) le by (simp add: fragment_ok_def blob_end_def)
  then have ok: "buffer_ok ?b'" using inv(1) assms(4) le(2) by (simp add: buffer_ok_def)
  have "covered (frags b) (wld ?n')" "covered (frags out) (wld ?n')"
    using covered_mono [OF inv(4), of "wld ?n'"] covered_mono [OF inv(5), of "wld ?n'"] by auto
  moreover have "covered [?f] (wld ?n')" using f(4,5) le(1) by (simp add: covered_def)
  ultimately have cov: "covered (frags ?b') (wld ?n')" "covered (frags out) (wld ?n')" by (simp_all add: covered_def)
  have "guard_inv (buffer_guards ?b' + (buffer_guards out + M)) (wld ?n')" using f(8) by (simp add: ac_simps)
  with ok inv(2) cov have "reading_inv M ?b' out (wld ?n')" by (simp add: reading_inv_def)
  then show ?thesis
    using f(1) r(3) keep [OF inv(4)] keep [OF inv(5)] logsD [OF assms(2) r(1)] le(2)
    by (intro that [of f ?w "read_iov_result v e" ?b' ?n' bs]) (simp_all add: read_buffer_def fragment_content_def)
qed

text \<open>What the loop changes in the sink.\<close>

definition only_read :: "'k sink \<Rightarrow> 'k sink \<Rightarrow> bool" where
  "only_read s s' \<longleftrightarrow> write_buf s' = write_buf s \<and> closing s' = closing s \<and> scheduled_write s' = scheduled_write s \<and>
     inline_writes s' = inline_writes s \<and> sent (net s') = sent (net s) \<and>
     (forwarded s' = forwarded s \<or> (\<exists>e. forwarded s' = forwarded s @ [Forward_error e]))"

lemma read_stops:
  assumes "alloc 16384 (wld (net s)) = Some (f, w)"
    and "read_buffer K fd (buffer_push_back (Some f) b) ((net s)\<lparr>wld := w\<rparr>) = Some (r, b', n')"
    and "\<not> closing s" "(\<exists>e. r = Failed e) \<or> loops = 2" "sent n' = sent (net s)"
  shows "\<exists>close s'. read_data_loop (Suc i) K fd alloc True loops b s = Some (close, b', s') \<and> net s' = n' \<and> only_read s s'"
proof (cases r)
  case (Value v)
  with assms show ?thesis
    by (intro exI [of _ False] exI [of _ "defer_task Read_data (s\<lparr>net := n'\<rparr>)"]) (auto simp: only_read_def defer_task_def)
next
  case (Failed e)
  let ?s1 = "s\<lparr>net := n'\<rparr>"
  let ?s2 = "if e = kRetry then ?s1\<lparr>expects_read := True\<rparr> else if e \<noteq> kEOF then sink_forward (Forward_error e) ?s1 else ?s1"
  from Failed assms show ?thesis
    by (intro exI [of _ "e \<noteq> kRetry"] exI [of _ ?s2]) (auto simp: only_read_def sink_forward_def)
qed

lemma read_data_rounds:
  assumes "receives_within K" "logs K got" "\<not> closing s" "reading_inv M b (write_buf s) (wld (net s))"
    and "bufsize b + Suc k * 2 ^ 20 < 2 ^ 63" "can_alloc h (Suc k) (wld (net s))" "loops + word_of_nat k = 2" "k < 256" "k < g"
  shows "\<exists>close b' s' bs. read_data_loop g K fd (simple_fragment_allocate h) True loops b s = Some (close, b', s') \<and>
    reading_inv M b' (write_buf s) (wld (net s')) \<and> frags b' \<noteq> [] \<and> only_read s s' \<and>
    got (kst (net s')) = got (kst (net s)) @ bs \<and> buffer_content (sink_mem s') b' = buffer_content (sink_mem s) b @ bs \<and>
    buffer_content (sink_mem s') (write_buf s) = buffer_content (sink_mem s) (write_buf s) \<and>
    bufsize b' = bufsize b + length bs \<and> length bs \<le> Suc k * 2 ^ 20"
  using assms(3-9)
proof (induction k arbitrary: g loops b s)
  case 0
  then obtain i where g: "g = Suc i" by (cases g) auto
  have h: "bufsize b + 2 ^ 20 < 2 ^ 63" "malloc_succeeds h 16384 (wld (net s))" "snd (h 16384 (wld (net s))) \<le> 2 ^ 20"
    using 0(3,4) by simp_all
  obtain f w r b' n' bs where o: "simple_fragment_allocate h 16384 (wld (net s)) = Some (f, w)"
    "read_buffer K fd (buffer_push_back (Some f) b) ((net s)\<lparr>wld := w\<rparr>) = Some (r, b', n')" "reading_inv M b' (write_buf s) (wld n')"
    "frags b' \<noteq> []" "got (kst n') = got (kst (net s)) @ bs" "buffer_content (mem (wld n')) b' = buffer_content (sink_mem s) b @ bs"
    "buffer_content (mem (wld n')) (write_buf s) = buffer_content (sink_mem s) (write_buf s)" "sent n' = sent (net s)"
    "bufsize b' = bufsize b + length bs" "length bs \<le> 2 ^ 20" by (rule read_round [OF assms(1,2) 0(2) h, where fd = fd])
  have "loops = 2" using 0(5) by simp
  obtain close s' where "read_data_loop g K fd (simple_fragment_allocate h) True loops b s = Some (close, b', s')"
    "net s' = n'" "only_read s s'"
    using read_stops [where alloc = "simple_fragment_allocate h", OF o(1,2) 0(1), of loops i] o(8) \<open>loops = 2\<close> g by blast
  then show ?case using o(3-7,9,10)
    by (intro exI [of _ close] exI [of _ b'] exI [of _ s'] exI [of _ bs] conjI) (simp_all only: simp_thms mult_1 One_nat_def [symmetric])
next
  case (Suc k)
  from Suc.prems(7) obtain i where g: "g = Suc i" "k < i" by (cases g) auto
  have h: "bufsize b + 2 ^ 20 < 2 ^ 63" "malloc_succeeds h 16384 (wld (net s))" "snd (h 16384 (wld (net s))) \<le> 2 ^ 20"
    using Suc.prems(3,4) by simp_all
  obtain f w r b' n' bs where o: "simple_fragment_allocate h 16384 (wld (net s)) = Some (f, w)"
    "read_buffer K fd (buffer_push_back (Some f) b) ((net s)\<lparr>wld := w\<rparr>) = Some (r, b', n')" "reading_inv M b' (write_buf s) (wld n')"
    "frags b' \<noteq> []" "got (kst n') = got (kst (net s)) @ bs" "buffer_content (mem (wld n')) b' = buffer_content (sink_mem s) b @ bs"
    "buffer_content (mem (wld n')) (write_buf s) = buffer_content (sink_mem s) (write_buf s)" "sent n' = sent (net s)"
    "bufsize b' = bufsize b + length bs" "length bs \<le> 2 ^ 20" "blocks (wld n') = h 16384 (wld (net s)) # blocks (wld (net s))"
    by (rule read_round [OF assms(1,2) Suc.prems(2) h, where fd = fd])
  have "loops + 1 + word_of_nat k = 2" using Suc.prems(5) by (simp add: ac_simps)
  have "loops \<noteq> 2"
  proof
    assume "loops = 2"
    with Suc.prems(5) have "(word_of_nat (Suc k) :: u8) = 0" by simp
    then have "Suc k mod 256 = 0" by (simp only: word_of_nat_eq_0_iff) (simp add: dvd_eq_mod_eq_0 del: of_nat_Suc)
    with Suc.prems(6) show False by simp
  qed
  show ?case
  proof (cases r)
    case (Failed e)
    obtain close s' where "read_data_loop g K fd (simple_fragment_allocate h) True loops b s = Some (close, b', s')"
      "net s' = n'" "only_read s s'"
    using read_stops [where alloc = "simple_fragment_allocate h", OF o(1,2) Suc.prems(1), of loops i] o(8) Failed g by blast
    then show ?thesis using o(3-7,9,10)
      by (intro exI [of _ close] exI [of _ b'] exI [of _ s'] exI [of _ bs] conjI) (simp_all only: simp_thms, simp)
  next
    case (Value v)
    let ?s = "s\<lparr>net := n'\<rparr>"
    have "can_alloc h (Suc k) (wld (net ?s))" using Suc.prems(4) o(11) by simp
    from Suc.IH [of ?s b' "loops + 1" i] this o(3,9,10) Suc.prems(1,3,6) g(2) \<open>loops + 1 + word_of_nat k = 2\<close>
    obtain close b2 s2 bs2 where "read_data_loop i K fd (simple_fragment_allocate h) True (loops + 1) b' ?s = Some (close, b2, s2)"
      "reading_inv M b2 (write_buf s) (wld (net s2))" "frags b2 \<noteq> []" "only_read ?s s2" "got (kst (net s2)) = got (kst n') @ bs2"
      "buffer_content (sink_mem s2) b2 = buffer_content (mem (wld n')) b' @ bs2"
      "buffer_content (sink_mem s2) (write_buf s) = buffer_content (mem (wld n')) (write_buf s)"
      "bufsize b2 = bufsize b' + length bs2" "length bs2 \<le> Suc k * 2 ^ 20" by auto
    with o Value \<open>loops \<noteq> 2\<close> Suc.prems(1) g show ?thesis
      by (intro exI [of _ close] exI [of _ b2] exI [of _ s2] exI [of _ "bs @ bs2"]) (auto simp: only_read_def)
  qed
qed

section \<open>Through the pipe and back\<close>

lemma http2_pipe_links:
  assumes "distinct [a, b, c]"
  shows "head (fst (http2_pipe a b c st)) Events = Some a"
    "\<exists>x. objs (fst (http2_pipe a b c st)) a = Some x \<and> next_read x Buffers = Some b \<and> next_read x Errors = None"
    "\<exists>x. objs (fst (http2_pipe a b c st)) b = Some x \<and> next_read x Buffers = Some c \<and> next_write x Buffers = Some a"
    "\<exists>x. objs (fst (http2_pipe a b c st)) c = Some x \<and> next_write x Buffers = Some b"
  using assms
  by (simp_all add: http2_pipe_def client_pipe_new_def echo_messages_def push_back_def push_back_ctx_def add_context_def
      maybe_update_tail_def base_push_back_def make_pipe_def make_filter_context_def set_head_if_reads_def set_tail_if_writes_def
      decl_of_def link_reads_def link_writes_def update_context_def read_add_link_if_null_def write_add_link_if_null_def Let_def)

lemma echo_append:
  assumes "reading_inv M b (write_buf s) (wld (net s))" "0 \<le> sint (inline_writes s)" "sint (inline_writes s) < 2 ^ 15 - 1"
    and "bufsize (write_buf s) + bufsize b < 2 ^ 63"
  shows "\<exists>s'. sink_write f K fd b s = Some s' \<and> net s' = net s \<and>
    write_buf s' = \<lparr>frags = frags (write_buf s) @ frags b, bufsize = bufsize (write_buf s) + bufsize b\<rparr>"
proof -
  have e: "net (enqueue b u) = net u \<and> write_buf (enqueue b u) =
      \<lparr>frags = frags (write_buf u) @ frags b, bufsize = bufsize (write_buf u) + bufsize b\<rparr>"
    if "write_buf u = write_buf s" for u :: "'a sink"
    using assms(4) that by (simp add: enqueue_def buffer_push_back_buffer_def pipe_close_def defer_task_def Let_def)
  have i: "sint (inline_writes s + 1) = sint (inline_writes s) + 1"
    using assms(2,3) by (simp add: signed_take_bit_int_eq_self sint_word_ariths)
  show ?thesis
  proof (cases "scheduled_write s")
    case True
    with e [of s] show ?thesis by (simp add: sink_write_def)
  next
    case False
    with i assms(2) e [of "s\<lparr>inline_writes := inline_writes s + 1\<rparr>"] show ?thesis by (simp add: sink_write_def)
  qed
qed

text \<open>What holds of a sink between two events.\<close>

definition sink_sound :: "guard multiset \<Rightarrow> 'k sink \<Rightarrow> bool" where
  "sink_sound M s \<longleftrightarrow> buffer_ok (write_buf s) \<and> guard_inv (buffer_guards (write_buf s) + M) (wld (net s)) \<and>
     covered (frags (write_buf s)) (wld (net s))"

text \<open>The buffer goes from the sink through the counter to the echo and back.\<close>

lemma forward_bytes_echoes:
  assumes "distinct [a, b, c]" "sv_sink sv = Some s" "\<not> buffer_empty buf" "sink_write f K fd buf s = Some s'"
  shows "\<exists>sv'. run_filter (8 + n) (server_filters a b f g K fd alloc) a
      (snd (forward_bytes close buf sv)) (fst (http2_pipe a b c st), fst (forward_bytes close buf sv)) =
        Inr (fst (http2_pipe a b c st), sv') \<and>
    sv_sink sv' = Some (if close then pipe_close s' else s') \<and>
    sv_stats sv' = count_write (bufsize buf) (count_read (bufsize buf) (sv_stats sv))"
proof -
  from http2_pipe_links [OF assms(1), of st] obtain x y z where
    "objs (fst (http2_pipe a b c st)) a = Some x" "next_read x Buffers = Some b"
    "objs (fst (http2_pipe a b c st)) b = Some y" "next_read y Buffers = Some c" "next_write y Buffers = Some a"
    "objs (fst (http2_pipe a b c st)) c = Some z" "next_write z Buffers = Some b" by blast
  with assms show ?thesis
    by (simp add: forward_bytes_def server_filters_def forward_once_def on_sink_def close_sink_def value_size_def numeral_eq_Suc)
qed

lemma handle_read_starts:
  assumes "head p Events = Some a" "objs p a = Some x"
  shows "handle_read (Suc m) fs (p, sv) =
    run_filter m fs a (snd (fs a Reading Events (Event Readable) sv)) (p, fst (fs a Reading Events (Event Readable) sv))"
  using assms by (simp add: handle_read_def pipe_read_def case_prod_unfold Let_def)

lemma error_is_dropped:
  assumes "objs p a = Some x" "next_read x Errors = None"
  shows "run_filter (Suc m) fs a (Do (Forward_read Errors v) k) (p, sv) = run_filter m fs a (snd (k sv)) (p, fst (k sv))"
  using assms by (simp add: case_prod_unfold Let_def)

lemma handle_read_echoes:
  assumes sys: "receives_within K" "logs K got" "distinct [a, b, c]" "2 < g"
    and sink: "sv_sink sv = Some s" "sink_sound M s" "\<not> closing s" "can_alloc h 3 (wld (net s))"
    and room: "bufsize (write_buf s) + 3 * 2 ^ 20 < 2 ^ 63" "0 \<le> sint (inline_writes s)" "sint (inline_writes s) < 2 ^ 15 - 1"
    and p_def: "p = fst (http2_pipe a b c st)"
  shows "\<exists>sv' s' bs. handle_read (11 + n) (server_filters a b f g K fd (simple_fragment_allocate h)) (p, sv) = Inr (p, sv') \<and>
    sv_sink sv' = Some s' \<and> sink_sound M s' \<and> got (kst (net s')) = got (kst (net s)) @ bs \<and> stream s' = stream s @ bs \<and>
    sv_stats sv' = count_write (length bs) (count_read (length bs) (sv_stats sv))"
proof -
  let ?s = "s\<lparr>forwarded := []\<rparr>" and ?alloc = "simple_fragment_allocate h"
  have inv: "reading_inv M buffer_default (write_buf ?s) (wld (net ?s))"
    using sink(2) by (simp add: reading_inv_def sink_sound_def buffer_default_def buffer_ok_def covered_def)
  have c: "\<not> closing ?s" "can_alloc h (Suc 2) (wld (net ?s))" "bufsize buffer_default + Suc 2 * 2 ^ 20 < 2 ^ 63"
    "(0 :: u8) + word_of_nat 2 = 2" using sink(3,4) by (simp_all add: buffer_default_def del: can_alloc.simps)
  from read_data_rounds [OF sys(1,2) c(1) inv c(3,2,4) _ sys(4), of fd]
  obtain close buf s1 bs where r: "read_data_loop g K fd ?alloc True 0 buffer_default ?s = Some (close, buf, s1)"
    "reading_inv M buf (write_buf s) (wld (net s1))" "frags buf \<noteq> []" "only_read ?s s1" "got (kst (net s1)) = got (kst (net s)) @ bs"
    "buffer_content (sink_mem s1) buf = bs" "buffer_content (sink_mem s1) (write_buf s) = buffer_content (sink_mem s) (write_buf s)"
    "bufsize buf = length bs" "length bs \<le> 3 * 2 ^ 20"
    by (auto simp: buffer_default_def)
  have same: "write_buf s1 = write_buf s" "inline_writes s1 = inline_writes s" "sent (net s1) = sent (net s)"
    using r(4) by (simp_all add: only_read_def)
  let ?s1 = "s1\<lparr>forwarded := []\<rparr>" and ?sv1 = "sv\<lparr>sv_sink := Some (s1\<lparr>forwarded := []\<rparr>)\<rparr>"
  obtain s2 where w: "sink_write f K fd buf ?s1 = Some s2" "net s2 = net s1"
    "write_buf s2 = \<lparr>frags = frags (write_buf s) @ frags buf, bufsize = bufsize (write_buf s) + bufsize buf\<rparr>"
    using echo_append [of M buf ?s1 f K fd] r(2,8,9) room by (auto simp: same)
  have ne: "\<not> buffer_empty buf" using r(3) by (simp add: buffer_empty_def)
  let ?s3 = "if close then pipe_close s2 else s2"
  have s3: "net ?s3 = net s1" "write_buf ?s3 = write_buf s2" using w(2) by (simp_all add: pipe_close_def defer_task_def)
  have sound: "sink_sound M ?s3" unfolding sink_sound_def s3 w(3)
    using r(2,8,9) room(1) by (auto simp: reading_inv_def buffer_ok_def covered_def ac_simps)
  have str: "stream ?s3 = stream s @ bs" unfolding stream_def s3 w(3) using r(6,7) same(3) by simp
  from http2_pipe_links(1,2) [OF sys(3), of st] obtain x where
    x: "head p Events = Some a" "objs p a = Some x" "next_read x Errors = None" unfolding p_def by blast
  let ?fs = "server_filters a b f g K fd ?alloc"
  have f: "\<exists>sv'. run_filter (8 + m) ?fs a (snd (forward_bytes close buf ?sv1)) (p, fst (forward_bytes close buf ?sv1)) = Inr (p, sv') \<and>
    sv_sink sv' = Some ?s3 \<and> sv_stats sv' = count_write (length bs) (count_read (length bs) (sv_stats sv))" for m
    using forward_bytes_echoes [OF sys(3) _ ne w(1), of ?sv1 m g ?alloc close st] r(8) p_def by simp
  have data: "?fs a Reading Events (Event Readable) sv = server_read_data g K fd ?alloc True sv" by (simp add: server_filters_def)
  have n: "11 + n = Suc (8 + (2 + n))" "8 + (2 + n) = Suc (8 + (1 + n))" by simp_all
  have "forwarded s1 = [] \<or> (\<exists>e. forwarded s1 = [Forward_error e])" using r(4) by (simp add: only_read_def)
  then have "\<exists>sv'. handle_read (11 + n) ?fs (p, sv) = Inr (p, sv') \<and> sv_sink sv' = Some ?s3 \<and>
    sv_stats sv' = count_write (length bs) (count_read (length bs) (sv_stats sv))"
  proof
    assume "forwarded s1 = []"
    then have "server_read_data g K fd ?alloc True sv = forward_bytes close buf ?sv1"
      using sink(1) r(1) by (simp add: server_read_data_def)
    with f [of "2 + n"] show ?thesis unfolding n(1) handle_read_starts [OF x(1,2)] data by simp
  next
    assume "\<exists>e. forwarded s1 = [Forward_error e]"
    then obtain e where e: "server_read_data g K fd ?alloc True sv =
        (?sv1, Do (Forward_read Errors (Error e)) (forward_bytes close buf))"
      using sink(1) r(1) by (auto simp: server_read_data_def)
    from f [of "1 + n"] show ?thesis
      unfolding n(1) handle_read_starts [OF x(1,2)] data e fst_conv snd_conv n(2) error_is_dropped [OF x(2,3)] .
  qed
  with sound str r(5) s3(1) show ?thesis by (metis)
qed

end
