(* ===== verification/Tester.thy ===== *)
theory Tester
  imports Xi_Prelude Steps
begin

text \<open>
  The load generator \<^verbatim>\<open>src/tester\<close>: a client that writes numbered messages ahead of the echoes it reads, and the session
  of its echo server. The operations of asio are steps: a started write or read ends with a call of its handler.
\<close>

section \<open>The client\<close>

record message =
  ms_version :: u8
  ms_type :: u8
  ms_size :: u32
  ms_magic :: u32
  ms_id :: usize
  ms_timestamp :: usize

text \<open>
  \<open>cl_writing\<close> counts the writes that have not ended. \<open>cl_clobbered\<close> says that the message was changed while one was
  running. \<open>cl_started\<close>, \<open>cl_finished\<close> and \<open>cl_received\<close> count without wrapping around; the code does not have them.
\<close>

record client =
  cl_write :: message
  cl_write_id :: usize
  cl_read_id :: usize
  cl_totaltime :: usize
  cl_min_lat :: usize
  cl_max_lat :: usize
  cl_bad :: usize
  cl_out :: usize
  cl_reading :: bool
  cl_writing :: nat
  cl_clobbered :: bool
  cl_failed :: bool
  cl_started :: nat
  cl_finished :: nat
  cl_received :: nat

definition COON :: u32 where
  "COON = 0x434F4F4E"

definition message_new :: message where
  "message_new = \<lparr>ms_version = 1, ms_type = 1, ms_size = 256 - 8, ms_magic = COON, ms_id = 0, ms_timestamp = 0\<rparr>"

definition client_new :: client where
  "client_new = \<lparr>cl_write = message_new, cl_write_id = 0, cl_read_id = 0, cl_totaltime = 0, cl_min_lat = 2 ^ 64 - 1,
     cl_max_lat = 0, cl_bad = 0, cl_out = 0, cl_reading = False, cl_writing = 0, cl_clobbered = False, cl_failed = False,
     cl_started = 0, cl_finished = 0, cl_received = 0\<rparr>"

definition start_writing :: "usize \<Rightarrow> client \<Rightarrow> client" where
  "start_writing now c =
     (let i = uadd (cl_write_id c) 1
      in c\<lparr>cl_write_id := i, cl_write := (cl_write c)\<lparr>ms_id := i, ms_timestamp := now\<rparr>, cl_writing := cl_writing c + 1,
           cl_clobbered := cl_clobbered c \<or> 0 < cl_writing c, cl_started := cl_started c + 1\<rparr>)"

definition start_reading :: "client \<Rightarrow> client" where
  "start_reading c = c\<lparr>cl_reading := True\<rparr>"

definition client_start :: "usize \<Rightarrow> client \<Rightarrow> client" where
  "client_start now c = start_writing now (start_reading c)"

text \<open>The handler of a write.\<close>

definition written :: "bool \<Rightarrow> usize \<Rightarrow> client \<Rightarrow> client" where
  "written error now c =
     (let c1 = c\<lparr>cl_writing := cl_writing c - 1, cl_out := uadd (cl_out c) 1, cl_failed := cl_failed c \<or> error,
                 cl_finished := cl_finished c + 1\<rparr>
      in if \<not> error \<and> cl_out c1 < 200 then start_writing now c1 else c1)"

text \<open>The handler of a read; times are in microseconds.\<close>

definition record_latency :: "usize \<Rightarrow> message \<Rightarrow> client \<Rightarrow> client" where
  "record_latency now m c =
     (if ms_magic m = COON
      then let lat = usub now (ms_timestamp m)
           in c\<lparr>cl_min_lat := min lat (cl_min_lat c), cl_max_lat := max lat (cl_max_lat c), cl_totaltime := uadd (cl_totaltime c) lat\<rparr>
      else c\<lparr>cl_bad := uadd (cl_bad c) 1\<rparr>)"

definition read_done :: "bool \<Rightarrow> usize \<Rightarrow> message \<Rightarrow> client \<Rightarrow> client" where
  "read_done error now m c =
     (let c0 = c\<lparr>cl_reading := False\<rparr>
      in if error then c0
         else let c1 = record_latency now m (c0\<lparr>cl_read_id := uadd (cl_read_id c0) 1, cl_received := cl_received c0 + 1\<rparr>);
                  c2 = start_reading c1;
                  c3 = (if cl_out c2 = 200 then start_writing now c2 else c2)
              in c3\<lparr>cl_out := usub (cl_out c3) 1\<rparr>)"

text \<open>Only messages that were started come back, each once.\<close>

inductive client_step :: "client \<Rightarrow> client \<Rightarrow> bool" where
  Connected: "cl_started c = 0 \<Longrightarrow> client_step c (client_start now c)"
| Written: "0 < cl_writing c \<Longrightarrow> client_step c (written error now c)"
| Read_back: "cl_reading c \<Longrightarrow> cl_received c < cl_started c \<Longrightarrow> client_step c (read_done False now m c)"
| Read_failed: "cl_reading c \<Longrightarrow> client_step c (read_done True now m c)"

section \<open>The window\<close>

text \<open>The counter is the difference of the writes that ended and the echoes, which may be -1.\<close>

definition window_inv :: "client \<Rightarrow> bool" where
  "window_inv c \<longleftrightarrow>
     \<not> cl_clobbered c \<and> cl_writing c \<le> 1 \<and> cl_started c = cl_finished c + cl_writing c \<and> cl_received c \<le> cl_started c \<and>
     cl_out c = (if cl_received c \<le> cl_finished c then cl_finished c - cl_received c else 2 ^ 64 - 1) \<and>
     cl_started c \<le> cl_received c + 200 \<and>
     (0 < cl_started c \<and> cl_writing c = 0 \<longrightarrow> cl_failed c \<or> cl_started c = cl_received c + 200)"

lemma start_writing_view [simp]:
  "cl_writing (start_writing now c) = cl_writing c + 1" "cl_started (start_writing now c) = cl_started c + 1"
  "cl_clobbered (start_writing now c) \<longleftrightarrow> cl_clobbered c \<or> 0 < cl_writing c"
  "cl_finished (start_writing now c) = cl_finished c" "cl_received (start_writing now c) = cl_received c"
  "cl_out (start_writing now c) = cl_out c" "cl_failed (start_writing now c) = cl_failed c"
  by (simp_all add: start_writing_def Let_def)

lemma record_latency_view [simp]:
  "cl_writing (record_latency now m c) = cl_writing c" "cl_started (record_latency now m c) = cl_started c"
  "cl_clobbered (record_latency now m c) = cl_clobbered c" "cl_finished (record_latency now m c) = cl_finished c"
  "cl_received (record_latency now m c) = cl_received c" "cl_out (record_latency now m c) = cl_out c"
  "cl_failed (record_latency now m c) = cl_failed c"
  by (simp_all add: record_latency_def Let_def)

lemma written_inv: "window_inv c \<Longrightarrow> 0 < cl_writing c \<Longrightarrow> window_inv (written error now c)"
  by (cases "cl_received c \<le> cl_finished c") (auto simp: window_inv_def written_def uadd_def Let_def)

lemma read_done_inv:
  "window_inv c \<Longrightarrow> cl_received c < cl_started c \<Longrightarrow> window_inv (read_done False now m c)"
  by (auto simp: window_inv_def read_done_def start_reading_def usub_def Let_def split: if_splits)

lemma client_step_inv: "client_step c d \<Longrightarrow> window_inv c \<Longrightarrow> window_inv d"
proof (induction rule: client_step.induct)
  case (Connected c now)
  then show ?case by (simp add: window_inv_def client_start_def start_reading_def)
next
  case (Written c error now)
  then show ?case by (simp add: written_inv)
next
  case (Read_back c now m)
  then show ?case by (simp add: read_done_inv)
next
  case (Read_failed c now m)
  then show ?case by (auto simp: window_inv_def read_done_def)
qed

interpretation clients: started_system client_step window_inv client_new
  by unfold_locales (rule client_step_inv, simp_all add: window_inv_def client_new_def)

text \<open>
  One message is written at a time, at most 200 echoes are missing, and when no write runs and none has failed exactly 200
  are, so the next read starts a write.
\<close>

lemma reachable_window:
  assumes "client_step\<^sup>*\<^sup>* client_new c"
  shows "\<not> cl_clobbered c \<and> cl_started c \<le> cl_received c + 200 \<and>
    (0 < cl_started c \<and> cl_writing c = 0 \<and> \<not> cl_failed c \<longrightarrow> cl_started c = cl_received c + 200 \<and>
       cl_writing (read_done False now m c) = 1)"
proof -
  have inv: "window_inv c" using clients.reachable_inv [OF assms] .
  then have "cl_out c = 200" if "0 < cl_started c" "cl_writing c = 0" "\<not> cl_failed c" using that by (auto simp: window_inv_def)
  with inv show ?thesis by (auto simp: window_inv_def read_done_def start_reading_def Let_def)
qed

section \<open>The session of the server\<close>

text \<open>
  The session reads into one array and starts writes from it. \<open>se_writes\<close> are the lengths of the writes that have not
  ended; \<open>se_torn\<close> says that the array was overwritten while one was running. \<open>recv\<close> is the non-blocking receive: an error
  code, which is set when nothing is there, and the bytes.
\<close>

record tcp_session =
  se_data :: "u8 list"
  se_writes :: "nat list"
  se_torn :: bool
  se_reading :: bool
  se_deleted :: bool

definition max_length :: nat where
  "max_length = 4 * 2 ^ 12"

definition session_new :: "u8 list \<Rightarrow> tcp_session" where
  "session_new junk = \<lparr>se_data = junk, se_writes = [], se_torn = False, se_reading = False, se_deleted = False\<rparr>"

text \<open>A read of no bytes, which ends at once.\<close>

definition schedule_read :: "tcp_session \<Rightarrow> tcp_session" where
  "schedule_read s = s\<lparr>se_reading := True\<rparr>"

definition session_start :: "tcp_session \<Rightarrow> tcp_session" where
  "session_start s = schedule_read s"

fun handle_read_event :: "nat \<Rightarrow> ('k \<Rightarrow> (bool \<times> u8 list) \<times> 'k) \<Rightarrow> bool \<Rightarrow> tcp_session \<times> 'k \<Rightarrow> (tcp_session \<times> 'k) option" where
  "handle_read_event 0 recv error p = None"
| "handle_read_event (Suc f) recv error (s, k) =
     (if error then Some (s\<lparr>se_deleted := True\<rparr>, k)
      else let ((error', bs), k') = recv k;
               s1 = s\<lparr>se_data := bs @ drop (length bs) (se_data s), se_torn := se_torn s \<or> bs \<noteq> [] \<and> se_writes s \<noteq> []\<rparr>;
               s2 = (if bs \<noteq> [] then s1\<lparr>se_writes := se_writes s1 @ [length bs]\<rparr> else s1)
           in if length bs < max_length
              then Some (if error' then s2\<lparr>se_deleted := True\<rparr> else schedule_read s2, k')
              else handle_read_event f recv error' (s2, k'))"

text \<open>With nothing to receive the session ends; after a full array the next bytes overwrite those being written.\<close>

lemma session_ends: "recv k = ((True, []), k') \<Longrightarrow> handle_read_event (Suc f) recv False (s, k) = Some (s\<lparr>se_deleted := True\<rparr>, k')"
  by (simp add: max_length_def)

lemma session_tears:
  assumes "recv k = ((False, bs), k1)" "length bs = max_length" "recv k1 = ((False, cs), k2)" "cs \<noteq> []" "length cs < max_length"
  shows "\<exists>s'. handle_read_event (Suc (Suc f)) recv False (s, k) = Some (s', k2) \<and> se_torn s'"
  using assms by (auto simp: schedule_read_def max_length_def Let_def)

section \<open>The server\<close>

text \<open>Accepting hands the session over and makes the next one.\<close>

record server_state =
  sr_sessions :: "tcp_session list"
  sr_next :: "tcp_session option"

definition handle_accept :: "bool \<Rightarrow> u8 list \<Rightarrow> server_state \<Rightarrow> server_state" where
  "handle_accept error junk sr =
     (case sr_next sr of
        None \<Rightarrow> sr
      | Some s \<Rightarrow>
          if \<not> error then sr\<lparr>sr_sessions := sr_sessions sr @ [session_start s], sr_next := Some (session_new junk)\<rparr>
          else sr\<lparr>sr_next := None\<rparr>)"

end
