(* ===== verification/Mem_Base.thy ===== *)
theory Mem_Base
  imports Cpu_Pages
begin

text \<open>
  Where the pools of all cores lie: \<^verbatim>\<open>mem_base\<close> of \<^verbatim>\<open>src/core/memory/memory.cpp\<close> reserves twice what is needed, keeps an
  aligned half and gives the rest back. Addresses are words.
\<close>

definition mem_alloc :: "64 word" where
  "mem_alloc = 2 ^ 44"

text \<open>The base and the two regions given back, as addresses and lengths; \<open>cr\<close> is what \<^verbatim>\<open>mmap\<close> returned.\<close>

definition mem_base :: "64 word \<Rightarrow> 64 word \<times> (64 word \<times> 64 word) \<times> (64 word \<times> 64 word)" where
  "mem_base cr =
     (let known = align_up cr mem_alloc
      in (known, (cr, known - cr), (known + mem_alloc, cr + 2 * mem_alloc - (known + mem_alloc))))"

definition pool_base :: "64 word \<Rightarrow> nat \<Rightarrow> 64 word" where
  "pool_base base cpu = base + push_bit 36 (word_of_nat cpu)"

text \<open>The parts make up the reserved region, and the base is aligned.\<close>

lemma mem_base_parts:
  assumes "unat cr + 2 ^ 45 < 2 ^ 64" "mem_base cr = (known, (a1, n1), (a2, n2))"
  shows "2 ^ 44 dvd unat known" "unat cr + unat n1 = unat known" "unat a2 = unat known + 2 ^ 44"
    "unat a2 + unat n2 = unat cr + 2 ^ 45"
proof -
  have k: "known = align_up cr (2 ^ 44)" "n1 = known - cr" "a2 = known + 2 ^ 44" "n2 = cr + 2 ^ 45 - a2"
    using assms(2) by (auto simp: mem_base_def mem_alloc_def Let_def)
  have r: "unat known = (unat cr + 2 ^ 44 - 1) div 2 ^ 44 * 2 ^ 44"
    unfolding k(1) using assms(1) by (subst unat_align_up) (simp_all add: round_up_def)
  then show d: "2 ^ 44 dvd unat known" by simp
  have "unat cr \<le> unat known" "unat known < unat cr + 2 ^ 44" unfolding r
    using div_mult_mod_eq [of "unat cr + 2 ^ 44 - 1" "2 ^ 44"] mod_less_divisor [of "2 ^ 44" "unat cr + 2 ^ 44 - 1"] by simp_all
  note le = this
  show "unat cr + unat n1 = unat known" unfolding k(2) using le by (simp add: unat_sub word_le_nat_alt)
  have a2: "unat a2 = unat known + 2 ^ 44" unfolding k(3) using le assms(1) by (subst unat_add_lem [THEN iffD1]) simp_all
  then show "unat a2 = unat known + 2 ^ 44" .
  have c: "unat (cr + 2 ^ 45) = unat cr + 2 ^ 45" using assms(1) by (subst unat_add_lem [THEN iffD1]) simp_all
  show "unat a2 + unat n2 = unat cr + 2 ^ 45"
    unfolding k(4) using le a2 c by (simp add: unat_sub word_le_nat_alt)
qed

text \<open>The pools of different cores do not overlap, and the address of an object tells its core.\<close>

lemma pool_owner:
  assumes "2 ^ 44 dvd unat base" "unat base + 2 ^ 44 < 2 ^ 64" "cpu < 256" "k < 2 ^ 36"
  shows "object_cpu_id (unat (pool_base base cpu) + k) = cpu" "unat (pool_base base cpu) = unat base + cpu * 2 ^ 36"
proof -
  have "unat (push_bit 36 (word_of_nat cpu) :: 64 word) = cpu * 2 ^ 36"
  proof -
    have "push_bit 36 (word_of_nat cpu) = (word_of_nat (cpu * 2 ^ 36) :: 64 word)" by (simp add: push_bit_eq_mult)
    then show ?thesis using assms(3) by (simp add: unat_of_nat del: of_nat_mult)
  qed
  then show b: "unat (pool_base base cpu) = unat base + cpu * 2 ^ 36"
    unfolding pool_base_def using assms(2,3) by (subst unat_add_lem [THEN iffD1]) simp_all
  obtain q where q: "unat base = 2 ^ 44 * q" using assms(1) by blast
  have "(2 ^ 44 * q + cpu * 2 ^ 36 + k) div 2 ^ 36 = 256 * q + cpu" using assms(4) by simp
  then have "object_cpu_id (unat (pool_base base cpu) + k) = (256 * q + cpu) mod 256" unfolding object_cpu_id_def b q by simp
  also have "\<dots> = cpu" using assms(3) by simp
  finally show "object_cpu_id (unat (pool_base base cpu) + k) = cpu" .
qed

end
