(* ===== verification/Sharded_Service.thy ===== *)
theory Sharded_Service
  imports Future Steps
begin

text \<open>
  A service with one implementation per thread of a pool (\<^verbatim>\<open>xi/core/sharded_service.h\<close>). The pool is a parameter: \<open>place i\<close>
  is the thread that gets the \<open>i\<close>-th task posted, threads are numbered from 0, and each runs its tasks in order.
\<close>

section \<open>State\<close>

text \<open>
  Implementations are numbered as they are made. \<open>ss_held\<close> are those moved into the continuation of the latch by \<^verbatim>\<open>stop\<close>,
  \<open>ss_local\<close> is the pointer \<^verbatim>\<open>_local_impl\<close> of each thread, \<open>ss_stopped\<close> counts the settings of the promise. \<open>ss_calls\<close> and
  \<open>ss_dangling\<close> are not in the code: the calls of \<^verbatim>\<open>start\<close> and \<^verbatim>\<open>stop\<close> of implementations, and whether one was called that
  had been destroyed.
\<close>

datatype service_task = Start_impl nat | Stop_local

datatype service_call = Started nat nat | Stopped nat nat

fun call_thread :: "service_call \<Rightarrow> nat" where
  "call_thread (Started t i) = t"
| "call_thread (Stopped t i) = t"

record sharded_service =
  ss_size :: nat
  ss_made :: nat
  ss_impls :: "nat list"
  ss_start_latch :: latch
  ss_stop_latch :: "latch option"
  ss_held :: "nat list"
  ss_stopped :: nat
  ss_awaited :: bool
  ss_local :: "nat \<Rightarrow> nat option"
  ss_queue :: "nat \<Rightarrow> service_task list"
  ss_calls :: "service_call list"
  ss_dangling :: bool

definition alive_impls :: "sharded_service \<Rightarrow> nat list" where
  "alive_impls s = ss_impls s @ ss_held s"

definition service_new :: "nat \<Rightarrow> sharded_service" where
  "service_new n = \<lparr>ss_size = n, ss_made = 0, ss_impls = [], ss_start_latch = latch_new n, ss_stop_latch = None, ss_held = [],
     ss_stopped = 0, ss_awaited = False, ss_local = (\<lambda>t. None), ss_queue = (\<lambda>t. []), ss_calls = [], ss_dangling = False\<rparr>"

section \<open>Operations\<close>

text \<open>\<open>ok i\<close> says whether making implementation \<open>i\<close> succeeds; False as the result is the exception.\<close>

fun make_impls :: "(nat \<Rightarrow> bool) \<Rightarrow> nat \<Rightarrow> sharded_service \<Rightarrow> bool \<times> sharded_service" where
  "make_impls ok 0 s = (True, s)"
| "make_impls ok (Suc k) s =
     (let s1 = s\<lparr>ss_made := ss_made s + 1\<rparr>
      in if ok (ss_made s) then make_impls ok k (s1\<lparr>ss_impls := ss_impls s @ [ss_made s]\<rparr>) else (False, s1))"

definition post_impl :: "(nat \<Rightarrow> nat) \<Rightarrow> nat \<Rightarrow> sharded_service \<Rightarrow> sharded_service" where
  "post_impl place i s = s\<lparr>ss_queue := (ss_queue s)(place i := ss_queue s (place i) @ [Start_impl (ss_impls s ! i)])\<rparr>"

definition service_start :: "(nat \<Rightarrow> nat) \<Rightarrow> (nat \<Rightarrow> bool) \<Rightarrow> sharded_service \<Rightarrow> bool \<times> sharded_service" where
  "service_start place ok s =
     (case make_impls ok (ss_size s) s of
        (False, s1) \<Rightarrow> (False, s1\<lparr>ss_impls := []\<rparr>)
      | (True, s1) \<Rightarrow> (True, fold (post_impl place) [0..<ss_size s] s1))"

definition service_await_shutdown :: "sharded_service \<Rightarrow> sharded_service option" where
  "service_await_shutdown s = (if ss_awaited s then None else Some (s\<lparr>ss_awaited := True\<rparr>))"

text \<open>The continuation of the latch destroys the implementations and sets the promise.\<close>

definition latch_reached :: "sharded_service \<Rightarrow> sharded_service" where
  "latch_reached s = s\<lparr>ss_held := [], ss_stopped := ss_stopped s + 1\<rparr>"

text \<open>A second \<^verbatim>\<open>stop\<close> would set a promise that has been moved from: None.\<close>

definition service_stop :: "sharded_service \<Rightarrow> sharded_service option" where
  "service_stop s =
     (if ss_stop_latch s \<noteq> None then None
      else let s1 = s\<lparr>ss_stop_latch := Some (latch_new (ss_size s)), ss_held := ss_impls s, ss_impls := []\<rparr>;
               s2 = (if ss_size s = 0 then latch_reached s1 else s1)
           in Some (s2\<lparr>ss_queue := (\<lambda>t. if t < ss_size s then ss_queue s t @ [Stop_local] else ss_queue s t)\<rparr>))"

definition call_impl :: "service_call \<Rightarrow> nat \<Rightarrow> sharded_service \<Rightarrow> sharded_service" where
  "call_impl c i s = s\<lparr>ss_calls := ss_calls s @ [c], ss_dangling := ss_dangling s \<or> i \<notin> set (alive_impls s)\<rparr>"

definition run_start :: "nat \<Rightarrow> nat \<Rightarrow> sharded_service \<Rightarrow> sharded_service" where
  "run_start t i s =
     (let s1 = call_impl (Started t i) i (s\<lparr>ss_local := (ss_local s)(t := Some i)\<rparr>)
      in s1\<lparr>ss_start_latch := count_down 1 (ss_start_latch s1)\<rparr>)"

definition run_stop :: "nat \<Rightarrow> sharded_service \<Rightarrow> sharded_service" where
  "run_stop t s =
     (let s1 = (case ss_local s t of Some i \<Rightarrow> call_impl (Stopped t i) i s | None \<Rightarrow> s);
          s2 = s1\<lparr>ss_local := (ss_local s1)(t := None)\<rparr>
      in case ss_stop_latch s2 of
           None \<Rightarrow> s2
         | Some l \<Rightarrow>
             let l' = count_down 1 l; s3 = s2\<lparr>ss_stop_latch := Some l'\<rparr>
             in if la_set l < la_set l' then latch_reached s3 else s3)"

definition run_service_task :: "nat \<Rightarrow> sharded_service \<Rightarrow> sharded_service option" where
  "run_service_task t s =
     (case ss_queue s t of
        [] \<Rightarrow> None
      | x # q \<Rightarrow>
          let s1 = s\<lparr>ss_queue := (ss_queue s)(t := q)\<rparr>
          in Some (case x of Start_impl i \<Rightarrow> run_start t i s1 | Stop_local \<Rightarrow> run_stop t s1))"

definition service_local :: "nat \<Rightarrow> sharded_service \<Rightarrow> nat option" where
  "service_local t s = ss_local s t"

inductive service_step :: "sharded_service \<Rightarrow> sharded_service \<Rightarrow> bool" where
  Run: "run_service_task t s = Some s' \<Longrightarrow> service_step s s'"
| Stop: "service_stop s = Some s' \<Longrightarrow> service_step s s'"

inductive_cases service_stepE: "service_step s s'"

section \<open>What a thread will have called\<close>

fun pending_calls :: "nat \<Rightarrow> nat option \<Rightarrow> service_task list \<Rightarrow> service_call list" where
  "pending_calls t loc [] = []"
| "pending_calls t loc (Start_impl i # q) = Started t i # pending_calls t (Some i) q"
| "pending_calls t loc (Stop_local # q) = (case loc of Some i \<Rightarrow> [Stopped t i] | None \<Rightarrow> []) @ pending_calls t None q"

definition thread_calls :: "nat \<Rightarrow> sharded_service \<Rightarrow> service_call list" where
  "thread_calls t s = filter (\<lambda>c. call_thread c = t) (ss_calls s)"

text \<open>The calls a thread has made and those to come, with the one that \<^verbatim>\<open>stop\<close> brings.\<close>

definition all_calls :: "nat \<Rightarrow> sharded_service \<Rightarrow> service_call list" where
  "all_calls t s = thread_calls t s @
     pending_calls t (ss_local s t) (ss_queue s t @ (if ss_stop_latch s = None then [Stop_local] else []))"

definition starts_left :: "nat \<Rightarrow> sharded_service \<Rightarrow> nat" where
  "starts_left t s = length (filter (\<lambda>x. x \<noteq> Stop_local) (ss_queue s t))"

text \<open>
  Before \<^verbatim>\<open>stop\<close> no thread has a task to stop. After it every thread has exactly one left, as its last task, or has run out
  of tasks and has no implementation; the latch counts the former.
\<close>

definition service_alive :: "sharded_service \<Rightarrow> bool" where
  "service_alive s \<longleftrightarrow> \<not> ss_dangling s \<and>
     (\<forall>t i. Start_impl i \<in> set (ss_queue s t) \<longrightarrow> i \<in> set (alive_impls s)) \<and>
     (\<forall>t i. ss_local s t = Some i \<longrightarrow> i \<in> set (alive_impls s))"

definition service_starting :: "nat \<Rightarrow> sharded_service \<Rightarrow> bool" where
  "service_starting n s \<longleftrightarrow> ss_size s = n \<and>
     (\<forall>t. n \<le> t \<longrightarrow> ss_queue s t = [] \<and> ss_local s t = None) \<and>
     la_count (ss_start_latch s) = (\<Sum>t<n. starts_left t s) \<and>
     la_set (ss_start_latch s) = (if la_count (ss_start_latch s) = 0 then 1 else 0)"

definition stops_last :: "service_task list \<Rightarrow> bool" where
  "stops_last q \<longleftrightarrow> (\<exists>xs. q = xs @ [Stop_local] \<and> Stop_local \<notin> set xs)"

definition service_stopping :: "nat \<Rightarrow> latch \<Rightarrow> sharded_service \<Rightarrow> bool" where
  "service_stopping n l s \<longleftrightarrow> ss_impls s = [] \<and>
     (\<forall>t < n. if ss_queue s t = [] then ss_local s t = None else stops_last (ss_queue s t)) \<and>
     la_count l = card {t. t < n \<and> ss_queue s t \<noteq> []} \<and>
     (if la_count l = 0 then ss_held s = [] \<and> ss_stopped s = 1 else ss_stopped s = 0 \<and> la_set l = 0)"

definition service_inv :: "nat \<Rightarrow> (nat \<Rightarrow> nat) \<Rightarrow> sharded_service \<Rightarrow> bool" where
  "service_inv n place s \<longleftrightarrow> service_alive s \<and> service_starting n s \<and>
     (case ss_stop_latch s of
        None \<Rightarrow> ss_stopped s = 0 \<and> ss_held s = [] \<and> (\<forall>t. Stop_local \<notin> set (ss_queue s t))
      | Some l \<Rightarrow> service_stopping n l s) \<and>
     (\<forall>i < n. all_calls (place i) s = [Started (place i) i, Stopped (place i) i])"

section \<open>Running a task\<close>

lemma run_start_view:
  "ss_size (run_start t i s) = ss_size s" "ss_impls (run_start t i s) = ss_impls s" "ss_held (run_start t i s) = ss_held s"
  "ss_stop_latch (run_start t i s) = ss_stop_latch s" "ss_stopped (run_start t i s) = ss_stopped s"
  "ss_local (run_start t i s) = (ss_local s)(t := Some i)" "ss_queue (run_start t i s) = ss_queue s"
  "ss_dangling (run_start t i s) \<longleftrightarrow> ss_dangling s \<or> i \<notin> set (alive_impls s)"
  "ss_start_latch (run_start t i s) = count_down 1 (ss_start_latch s)" "alive_impls (run_start t i s) = alive_impls s"
  "ss_calls (run_start t i s) = ss_calls s @ [Started t i]"
  by (simp_all add: run_start_def call_impl_def alive_impls_def Let_def)

lemma run_stop_view:
  "ss_size (run_stop t s) = ss_size s" "ss_impls (run_stop t s) = ss_impls s"
  "ss_local (run_stop t s) = (ss_local s)(t := None)" "ss_queue (run_stop t s) = ss_queue s"
  "ss_dangling (run_stop t s) \<longleftrightarrow> ss_dangling s \<or> (\<exists>i. ss_local s t = Some i \<and> i \<notin> set (alive_impls s))"
  "ss_start_latch (run_stop t s) = ss_start_latch s" "ss_stop_latch (run_stop t s) = None \<longleftrightarrow> ss_stop_latch s = None"
  "ss_calls (run_stop t s) = ss_calls s @ (case ss_local s t of Some i \<Rightarrow> [Stopped t i] | None \<Rightarrow> [])"
  by (auto simp: run_stop_def call_impl_def latch_reached_def Let_def split: option.splits)

lemma run_all_calls:
  assumes "run_service_task t s = Some s'"
  shows "all_calls u s' = all_calls u s"
proof -
  obtain x q where q: "ss_queue s t = x # q" using assms by (auto simp: run_service_task_def split: list.splits)
  then have s': "s' = (case x of Start_impl i \<Rightarrow> run_start t i (s\<lparr>ss_queue := (ss_queue s)(t := q)\<rparr>)
      | Stop_local \<Rightarrow> run_stop t (s\<lparr>ss_queue := (ss_queue s)(t := q)\<rparr>))"
    using assms by (simp add: run_service_task_def Let_def)
  show ?thesis
  proof (cases x)
    case (Start_impl i)
    then show ?thesis unfolding s' by (cases "u = t") (simp_all add: all_calls_def thread_calls_def run_start_view q)
  next
    case Stop_local
    then show ?thesis unfolding s' by (cases "u = t") (auto simp: all_calls_def thread_calls_def run_stop_view q split: option.split)
  qed
qed

lemma start_sum:
  fixes f g :: "nat \<Rightarrow> nat"
  assumes "t < n" "\<And>u. u \<noteq> t \<Longrightarrow> g u = f u" "f t = Suc (g t)"
  shows "(\<Sum>u<n. f u) = Suc (\<Sum>u<n. g u)"
  using assms by (simp add: sum.remove [of "{..<n}" t])

lemma stop_card:
  fixes t n :: nat
  assumes "t < n" "Q t \<noteq> []"
  shows "card {u. u < n \<and> Q u \<noteq> []} = Suc (card {u. u < n \<and> (Q(t := [])) u \<noteq> []})"
proof -
  have "card (insert t {u. u < n \<and> (Q(t := [])) u \<noteq> []}) = Suc (card {u. u < n \<and> (Q(t := [])) u \<noteq> []})"
  proof (rule card_insert_disjoint)
    show "finite {u. u < n \<and> (Q(t := [])) u \<noteq> []}" by (rule finite_subset [of _ "{..<n}"]) auto
  qed simp
  moreover have "insert t {u. u < n \<and> (Q(t := [])) u \<noteq> []} = {u. u < n \<and> Q u \<noteq> []}" using assms by auto
  ultimately show ?thesis by (simp only:)
qed

lemma stops_last_start: "stops_last (Start_impl i # q) \<longleftrightarrow> stops_last q"
  by (auto simp: stops_last_def Cons_eq_append_conv)

lemma stops_last_stop: "stops_last (Stop_local # q) \<longleftrightarrow> q = []"
  by (auto simp: stops_last_def Cons_eq_append_conv)

lemma stops_last_nil [simp]: "\<not> stops_last []"
  by (simp add: stops_last_def)

lemma queue_thread: "service_starting n s \<Longrightarrow> ss_queue s t = x # q \<Longrightarrow> t < n"
  unfolding service_starting_def by (rule ccontr) simp

lemma run_start_inv:
  assumes inv: "service_inv n place s" and q: "ss_queue s t = Start_impl i # q"
  shows "service_inv n place (run_start t i (s\<lparr>ss_queue := (ss_queue s)(t := q)\<rparr>))" (is "service_inv n place ?s'")
proof -
  note v = run_start_view
  have al: "service_alive s" and st: "service_starting n s" using inv by (simp_all add: service_inv_def)
  have t: "t < n" using queue_thread [OF st q] .
  have calls: "all_calls u ?s' = all_calls u s" for u
    by (rule run_all_calls [of t]) (simp add: run_service_task_def q)
  have i: "i \<in> set (alive_impls s)" using al q unfolding service_alive_def by (metis list.set_intros(1))
  have sub: "Start_impl j \<in> set (ss_queue s u)" if "Start_impl j \<in> set (ss_queue ?s' u)" for j u
    using that q by (cases "u = t") (simp_all add: v)
  have eq: "alive_impls ?s' = alive_impls s" "ss_dangling ?s' \<longleftrightarrow> ss_dangling s" using i by (simp_all add: v alive_impls_def)
  have "service_alive ?s'" unfolding service_alive_def eq
  proof (intro conjI allI impI)
    show "\<not> ss_dangling s" using al by (simp add: service_alive_def)
    show "j \<in> set (alive_impls s)" if "Start_impl j \<in> set (ss_queue ?s' u)" for u j
      using al sub [OF that] unfolding service_alive_def by blast
    show "j \<in> set (alive_impls s)" if "ss_local ?s' u = Some j" for u j
      using al i that unfolding service_alive_def by (auto simp: v split: if_splits)
  qed
  moreover have sum: "(\<Sum>u<n. starts_left u s) = Suc (\<Sum>u<n. starts_left u ?s')"
    by (rule start_sum [OF t]) (simp_all add: starts_left_def v q)
  have "service_starting n ?s'" using st t sum unfolding service_starting_def v
    by (auto simp: count_down_def Let_def)
  moreover have "service_stopping n l ?s'" if "service_stopping n l s" for l
  proof -
    have sl: "stops_last q" using that t q unfolding service_stopping_def by (auto simp: stops_last_start)
    then have "q \<noteq> []" by auto
    then have same: "{u. u < n \<and> ss_queue ?s' u \<noteq> []} = {u. u < n \<and> ss_queue s u \<noteq> []}" using q by (auto simp: v)
    have "if ss_queue ?s' u = [] then ss_local ?s' u = None else stops_last (ss_queue ?s' u)" if "u < n" for u
      using \<open>service_stopping n l s\<close> that sl \<open>q \<noteq> []\<close> unfolding service_stopping_def by (auto simp: v)
    moreover have "ss_impls ?s' = ss_impls s" "ss_held ?s' = ss_held s" "ss_stopped ?s' = ss_stopped s" by (simp_all add: v)
    ultimately show ?thesis using that unfolding service_stopping_def same by presburger
  qed
  ultimately show ?thesis using inv unfolding service_inv_def calls
    by (auto simp: v split: option.splits) (metis q list.set_intros(2))
qed

lemma run_stop_latch:
  assumes "ss_stop_latch s = Some l" "la_set l = 0" "0 < la_count l"
  shows "ss_stop_latch (run_stop t s) = Some (count_down 1 l)"
    "ss_held (run_stop t s) = (if la_count l = 1 then [] else ss_held s)"
    "ss_stopped (run_stop t s) = (if la_count l = 1 then ss_stopped s + 1 else ss_stopped s)"
  using assms by (auto simp: run_stop_def call_impl_def latch_reached_def count_down_def Let_def split: option.splits)

lemma run_stop_inv:
  assumes inv: "service_inv n place s" and q: "ss_queue s t = Stop_local # q"
  shows "service_inv n place (run_stop t (s\<lparr>ss_queue := (ss_queue s)(t := q)\<rparr>))" (is "service_inv n place (run_stop t ?s1)")
proof -
  note v = run_stop_view
  have al: "service_alive s" and st: "service_starting n s" using inv by (simp_all add: service_inv_def)
  have t: "t < n" using queue_thread [OF st q] .
  have calls: "all_calls u (run_stop t ?s1) = all_calls u s" for u
    by (rule run_all_calls [of t]) (simp add: run_service_task_def q)
  have "Stop_local \<in> set (ss_queue s t)" using q by simp
  then obtain l where l: "ss_stop_latch s = Some l" "service_stopping n l s"
    using inv unfolding service_inv_def by (auto split: option.splits)
  have "stops_last (ss_queue s t)" using l(2) t q unfolding service_stopping_def by auto
  then have nil: "q = []" using q by (simp add: stops_last_stop)
  let ?A = "\<lambda>Q. card {u. u < n \<and> Q u \<noteq> []}"
  have card: "la_count l = Suc (?A ((ss_queue s)(t := [])))"
    using l(2) stop_card [OF t, of "ss_queue s"] q unfolding service_stopping_def by simp
  then have pos: "0 < la_count l" "la_set l = 0" "ss_stopped s = 0" using l(2) unfolding service_stopping_def by auto
  note stop = run_stop_latch [of ?s1 l t, simplified, OF l(1) pos(2,1)]
  have cd: "la_count (count_down 1 l) = ?A ((ss_queue s)(t := []))" "la_count l \<noteq> 1 \<longrightarrow> la_set (count_down 1 l) = 0"
    using card pos by (auto simp: count_down_def Let_def)
  have held: "if la_count (count_down 1 l) = 0 then ss_held (run_stop t ?s1) = [] \<and> ss_stopped (run_stop t ?s1) = 1
      else ss_stopped (run_stop t ?s1) = 0 \<and> la_set (count_down 1 l) = 0"
    using stop pos by (cases "la_count l = 1") (simp_all add: count_down_def Let_def)
  have queues: "ss_queue (run_stop t ?s1) = (ss_queue s)(t := [])" using nil by (simp add: v)
  have stopping: "service_stopping n (count_down 1 l) (run_stop t ?s1)"
    unfolding service_stopping_def queues
  proof (intro conjI allI impI)
    show "if ((ss_queue s)(t := [])) u = [] then ss_local (run_stop t ?s1) u = None else stops_last (((ss_queue s)(t := [])) u)"
      if "u < n" for u
      using l(2) that unfolding service_stopping_def by (auto simp: v)
    show "ss_impls (run_stop t ?s1) = []" using l(2) by (simp add: v service_stopping_def)
  qed (rule cd(1), rule held)
  have "ss_queue s u = [] \<and> ss_local s u = None" if "la_count l = 1" "u \<noteq> t" for u
  proof (cases "u < n")
    case True
    have "{u. u < n \<and> ((ss_queue s)(t := [])) u \<noteq> []} = {}" using card that(1) by simp
    then have "ss_queue s u = []" using True that(2) by force
    then show ?thesis using l(2) True unfolding service_stopping_def by auto
  qed (use st in \<open>simp add: service_starting_def\<close>)
  then have "service_alive (run_stop t ?s1)"
    using al stop nil unfolding service_alive_def v alive_impls_def by auto
  moreover have "starts_left u (run_stop t ?s1) = starts_left u s" for u
    using q nil by (simp add: starts_left_def v)
  then have "service_starting n (run_stop t ?s1)" using st nil unfolding service_starting_def v by auto
  ultimately show ?thesis using stopping stop inv unfolding service_inv_def calls by simp
qed

lemma service_stop_inv:
  assumes inv: "service_inv n place s" and "service_stop s = Some s'" and place: "\<And>i. i < n \<Longrightarrow> place i < n"
  shows "service_inv n place s'"
proof -
  have al: "service_alive s" and st: "service_starting n s" using inv by (simp_all add: service_inv_def)
  have none: "ss_stop_latch s = None" using assms(2) by (auto simp: service_stop_def split: if_splits)
  have nostop: "Stop_local \<notin> set (ss_queue s t)" and h: "ss_stopped s = 0" "ss_held s = []" for t
    using inv none by (simp_all add: service_inv_def)
  have n: "ss_size s = n" using st by (simp add: service_starting_def)
  let ?m = "s\<lparr>ss_stop_latch := Some (latch_new n), ss_held := ss_impls s, ss_impls := []\<rparr>"
  have s': "s' = (if n = 0 then latch_reached ?m else ?m)
      \<lparr>ss_queue := (\<lambda>t. if t < n then ss_queue s t @ [Stop_local] else ss_queue s t)\<rparr>"
    using assms(2) none n by (simp add: service_stop_def Let_def)
  have v: "ss_size s' = n" "ss_impls s' = []" "ss_stop_latch s' = Some (latch_new n)" "ss_start_latch s' = ss_start_latch s"
    "ss_local s' = ss_local s" "ss_queue s' = (\<lambda>t. if t < n then ss_queue s t @ [Stop_local] else ss_queue s t)"
    "ss_held s' = (if n = 0 then [] else ss_impls s)" "ss_stopped s' = (if n = 0 then 1 else 0)" "ss_calls s' = ss_calls s"
    "ss_dangling s' = ss_dangling s"
    unfolding s' using h n by (simp_all add: latch_reached_def)
  have "service_alive s'"
  proof (cases "n = 0")
    case True
    then have "ss_queue s t = [] \<and> ss_local s t = None" for t using st by (simp add: service_starting_def)
    then show ?thesis using al by (simp add: service_alive_def v True)
  next
    case False
    then have "alive_impls s' = alive_impls s" by (simp add: alive_impls_def v h)
    then show ?thesis using al unfolding service_alive_def by (auto simp: v split: if_splits)
  qed
  moreover have "service_starting n s'" using st unfolding service_starting_def by (simp add: v starts_left_def)
  moreover have "{t. t < n \<and> ss_queue s' t \<noteq> []} = {..<n}" by (auto simp: v)
  then have "service_stopping n (latch_new n) s'"
    using nostop unfolding service_stopping_def by (auto simp: v latch_new_def stops_last_def)
  moreover have "all_calls (place i) s' = all_calls (place i) s" if "i < n" for i
    using place [OF that] by (simp add: all_calls_def thread_calls_def v none)
  ultimately show ?thesis using inv by (simp add: service_inv_def v)
qed

lemma run_service_inv:
  assumes "service_inv n place s" "run_service_task t s = Some s'"
  shows "service_inv n place s'"
proof -
  obtain x q where q: "ss_queue s t = x # q" using assms(2) by (auto simp: run_service_task_def split: list.splits)
  then show ?thesis
    using assms run_start_inv [of n place s t _ q] run_stop_inv [of n place s t q]
    by (cases x) (auto simp: run_service_task_def Let_def)
qed

lemma service_step_inv:
  "service_step s s' \<Longrightarrow> service_inv n place s \<Longrightarrow> (\<And>i. i < n \<Longrightarrow> place i < n) \<Longrightarrow> service_inv n place s'"
  by (erule service_stepE) (auto intro: run_service_inv service_stop_inv)

text \<open>The invariant of the machine, for a pool that posts to its own threads.\<close>

definition placed_inv :: "nat \<Rightarrow> (nat \<Rightarrow> nat) \<Rightarrow> sharded_service \<Rightarrow> bool" where
  "placed_inv n place s \<longleftrightarrow> (\<forall>i < n. place i < n) \<and> service_inv n place s"

interpretation services: step_system service_step "placed_inv n place" for n place
  by unfold_locales (auto simp: placed_inv_def intro: service_step_inv)

section \<open>Starting\<close>

lemma make_impls_ok:
  "(\<And>i. i < ss_made s + k \<Longrightarrow> ok i) \<Longrightarrow>
   make_impls ok k s = (True, s\<lparr>ss_made := ss_made s + k, ss_impls := ss_impls s @ [ss_made s..<ss_made s + k]\<rparr>)"
proof (induction k arbitrary: s)
  case (Suc k)
  then have "make_impls ok k (s\<lparr>ss_made := Suc (ss_made s), ss_impls := ss_impls s @ [ss_made s]\<rparr>) =
    (True, s\<lparr>ss_made := Suc (ss_made s) + k, ss_impls := (ss_impls s @ [ss_made s]) @ [Suc (ss_made s)..<Suc (ss_made s) + k]\<rparr>)"
    by (subst Suc.IH) simp_all
  moreover have "ok (ss_made s)" using Suc.prems by simp
  ultimately show ?case by (simp add: upt_conv_Cons del: upt_Suc)
qed simp

lemma make_impls_fails: "make_impls ok k s = (False, s') \<Longrightarrow> ss_queue s' = ss_queue s"
  by (induction k arbitrary: s) (auto simp: Let_def split: if_splits)

lemma post_impls:
  "fold (post_impl place) is s =
     s\<lparr>ss_queue := (\<lambda>t. ss_queue s t @ map (\<lambda>i. Start_impl (ss_impls s ! i)) (filter (\<lambda>i. place i = t) is))\<rparr>"
  by (induction "is" arbitrary: s) (auto simp: post_impl_def fun_eq_iff)

text \<open>A failure leaves no implementation, and no task was posted.\<close>

lemma service_start_fails:
  assumes "service_start place ok s = (False, s')"
  shows "ss_impls s' = [] \<and> ss_queue s' = ss_queue s"
  using assms by (auto simp: service_start_def split: prod.splits bool.splits dest: make_impls_fails)

lemma filter_place:
  assumes "inj_on place {..<n}" "i < n"
  shows "filter (\<lambda>j. place j = place i) [0..<n] = [i]"
proof -
  have "filter (\<lambda>j. place j = place i) [0..<n] = filter (\<lambda>j. j = i) [0..<n]"
    using assms by (auto simp: inj_on_def intro: filter_cong)
  also have "\<dots> = [i]" using assms(2) by (induction n) (auto simp: less_Suc_eq)
  finally show ?thesis .
qed

lemma sum_filter:
  fixes n :: nat
  shows "\<forall>i \<in> set xs. place i < n \<Longrightarrow> (\<Sum>t<n. length (filter (\<lambda>i. place i = t) xs)) = length xs"
proof (induction xs)
  case (Cons x xs)
  have "(\<Sum>t<n. length (filter (\<lambda>i. place i = t) (x # xs))) =
      (\<Sum>t<n. (if place x = t then 1 else 0) + length (filter (\<lambda>i. place i = t) xs))"
    by (rule sum.cong) simp_all
  moreover have "(\<Sum>t<n. if place x = t then 1 else 0) = (1 :: nat)"
    using Cons.prems sum.delta' [of "{..<n}" "place x" "\<lambda>t. 1 :: nat"] by simp
  ultimately show ?case using Cons by (simp only: sum.distrib) simp
qed simp

lemma service_start_inv:
  assumes "service_start place ok (service_new n) = (True, s)" "inj_on place {..<n}" "\<And>i. i < n \<Longrightarrow> place i < n"
  shows "service_inv n place s"
proof -
  have made: "make_impls ok n (service_new n) = (True, m) \<Longrightarrow> m = (service_new n)\<lparr>ss_made := n, ss_impls := [0..<n]\<rparr>" for m
  proof -
    assume m: "make_impls ok n (service_new n) = (True, m)"
    have "make_impls ok k s0 = (True, m) \<Longrightarrow> make_impls (\<lambda>i. True) k s0 = (True, m)" for k s0
      by (induction k arbitrary: s0) (auto simp: Let_def split: if_splits)
    from this [OF m] show ?thesis using make_impls_ok [of "service_new n" n "\<lambda>i. True"] by (simp add: service_new_def)
  qed
  have impls: "map (\<lambda>i. Start_impl ([0..<n] ! i)) (filter P [0..<n]) = map Start_impl (filter P [0..<n])" for P
    by (rule map_cong) simp_all
  have s: "s = (service_new n)\<lparr>ss_made := n, ss_impls := [0..<n],
      ss_queue := (\<lambda>t. map Start_impl (filter (\<lambda>i. place i = t) [0..<n]))\<rparr>"
    using assms(1) made by (auto simp: service_start_def post_impls impls split: prod.splits bool.splits) 
       (simp add: service_new_def impls)
  have alive: "service_alive s" by (auto simp: s service_new_def service_alive_def alive_impls_def)
  have far: "filter (\<lambda>i. place i = t) [0..<n] = []" if "n \<le> t" for t
    using assms(3) that by (fastforce simp: filter_empty_conv)
  have "(\<Sum>t<n. length (filter (\<lambda>i. place i = t) [0..<n])) = length [0..<n]"
    by (rule sum_filter) (simp add: assms(3))
  then have "service_starting n s" using far by (simp add: s service_new_def service_starting_def starts_left_def filter_map comp_def latch_new_def)
  moreover have "all_calls (place i) s = [Started (place i) i, Stopped (place i) i]" if "i < n" for i
    using filter_place [OF assms(2) that] by (simp add: s service_new_def all_calls_def thread_calls_def)
  ultimately show ?thesis using alive by (auto simp: service_inv_def s service_new_def)
qed

section \<open>A service that was stopped\<close>

lemma service_lifecycle:
  assumes "service_start place ok (service_new n) = (True, s0)" "inj_on place {..<n}" "\<And>i. i < n \<Longrightarrow> place i < n"
    and "service_step\<^sup>*\<^sup>* s0 s"
  shows "\<not> ss_dangling s \<and>
    (ss_stop_latch s \<noteq> None \<and> (\<forall>t < n. ss_queue s t = []) \<longrightarrow>
       alive_impls s = [] \<and> ss_stopped s = 1 \<and> la_set (ss_start_latch s) = 1 \<and> (\<forall>t. service_local t s = None) \<and>
       (\<forall>i < n. thread_calls (place i) s = [Started (place i) i, Stopped (place i) i]))"
proof -
  have "placed_inv n place s0" using service_start_inv [OF assms(1,2)] assms(3) by (simp add: placed_inv_def)
  then have "placed_inv n place s" using services.reach_keeps [OF assms(4)] by blast
  then have inv: "service_inv n place s" by (simp add: placed_inv_def)
  then have dangling: "\<not> ss_dangling s" by (simp add: service_inv_def service_alive_def)
  show ?thesis
  proof (intro conjI impI dangling; elim conjE exE)
    assume stop: "ss_stop_latch s \<noteq> None" and none: "\<forall>t < n. ss_queue s t = []"
    then obtain l where l: "ss_stop_latch s = Some l" by blast
    then have st: "service_stopping n l s" "service_starting n s" using inv by (simp_all add: service_inv_def)
    then have "{t. t < n \<and> ss_queue s t \<noteq> []} = {}" using none by simp
    then have "la_count l = 0" using st(1) by (simp add: service_stopping_def)
    then show "alive_impls s = []" "ss_stopped s = 1" using st(1) by (simp_all add: service_stopping_def alive_impls_def)
    show "la_set (ss_start_latch s) = 1" using st(2) none by (simp add: service_starting_def starts_left_def)
    show "\<forall>t. service_local t s = None"
    proof
      show "service_local t s = None" for t
        using st none by (cases "t < n") (auto simp: service_local_def service_stopping_def service_starting_def)
    qed
    show "\<forall>i < n. thread_calls (place i) s = [Started (place i) i, Stopped (place i) i]"
      using inv none assms(3) l by (simp add: service_inv_def all_calls_def)
  qed
qed

end
