(* ===== verification/Shutdown.thy ===== *)
theory Shutdown
  imports Signals Steps
begin

text \<open>
  How a process of shards is interrupted: \<^verbatim>\<open>bootstrap::run\<close>, \<^verbatim>\<open>_run_shard\<close> and \<^verbatim>\<open>_initiate_shutdown\<close> of
  \<^verbatim>\<open>src/core/bootstrap.cpp\<close>, the masks of \<^verbatim>\<open>src/core/signals.cpp\<close> and the flag of \<^verbatim>\<open>shard::run\<close>. Threads interleave. The
  kernel delivers a signal to any thread that does not block it.
\<close>

section \<open>Masks\<close>

abbreviation (input) SIGINT :: nat where "SIGINT \<equiv> 2"

text \<open>SIGHUP, SIGQUIT, SIGILL, SIGABRT, SIGFPE, SIGSEGV, SIGALRM, SIGCONT, SIGSTOP, SIGTSTP, SIGTTIN, SIGTTOU.\<close>

definition left_unblocked :: "nat list" where
  "left_unblocked = [1, 3, 4, 6, 8, 11, 14, 18, 19, 20, 21, 22]"

definition signals_mask_new :: "nat set \<Rightarrow> nat set" where
  "signals_mask_new blocked = blocked \<union> ({1..64} - set left_unblocked)"

definition signals_mask_destroy :: "nat set \<Rightarrow> nat set" where
  "signals_mask_destroy blocked = blocked \<union> {1..64}"

definition signals_mask_handle :: "nat \<Rightarrow> nat set \<Rightarrow> nat set" where
  "signals_mask_handle signo blocked = blocked - {signo}"

section \<open>The process\<close>

text \<open>
  What a thread has reached: it was launched; its shard is prepared; it is past the barrier; its shard polls; its shard was
  deleted.
\<close>

datatype stage = Launched | Prepared | Past_barrier | Polling | Ended

datatype signal_handler = Initiate_shutdown

text \<open>
  \<open>pc_installed\<close>: the action for SIGINT is set. \<open>pc_killed\<close>: a signal took its default action. \<open>pc_crashed\<close>: a null pointer
  was followed, or an exception left a \<^verbatim>\<open>noexcept\<close> function. \<open>pc_dangling\<close>: a shard was told to shut down after it was deleted.
\<close>

record process =
  pc_cpus :: nat
  pc_stage :: "nat \<Rightarrow> stage"
  pc_blocked :: "nat \<Rightarrow> nat set"
  pc_signals :: "nat \<Rightarrow> signal_handler signals"
  pc_running :: "nat \<Rightarrow> bool"
  pc_installed :: bool
  pc_shutdowns :: nat
  pc_killed :: bool
  pc_crashed :: bool
  pc_dangling :: bool

definition process_new :: "nat \<Rightarrow> process" where
  "process_new n = \<lparr>pc_cpus = n, pc_stage = (\<lambda>_. Launched), pc_blocked = (\<lambda>_. {}), pc_signals = (\<lambda>_. signals_new),
     pc_running = (\<lambda>_. False), pc_installed = False, pc_shutdowns = 0, pc_killed = False, pc_crashed = False,
     pc_dangling = False\<rparr>"

definition alive_process :: "process \<Rightarrow> bool" where
  "alive_process p \<longleftrightarrow> \<not> pc_killed p \<and> \<not> pc_crashed p"

definition prepare_signals :: "nat \<Rightarrow> process \<Rightarrow> process" where
  "prepare_signals i p = p\<lparr>pc_stage := (pc_stage p)(i := Prepared), pc_blocked := (pc_blocked p)(i := signals_mask_new (pc_blocked p i))\<rparr>"

text \<open>The first lines of \<^verbatim>\<open>run\<close>, on thread 0; the function given to it becomes a task of the first shard and is left out here.\<close>

definition bootstrap_run :: "process \<Rightarrow> process" where
  "bootstrap_run p =
     p\<lparr>pc_signals := (pc_signals p)(0 := snd (signals_handle 0 0 (int SIGINT) Initiate_shutdown (pc_signals p 0))),
       pc_blocked := (pc_blocked p)(0 := signals_mask_handle SIGINT (pc_blocked p 0)), pc_installed := True\<rparr>"

definition shard_begin :: "nat \<Rightarrow> process \<Rightarrow> process" where
  "shard_begin i p = p\<lparr>pc_stage := (pc_stage p)(i := Polling), pc_running := (pc_running p)(i := True)\<rparr>"

definition shard_end :: "nat \<Rightarrow> process \<Rightarrow> process" where
  "shard_end i p = p\<lparr>pc_stage := (pc_stage p)(i := Ended), pc_blocked := (pc_blocked p)(i := signals_mask_destroy (pc_blocked p i))\<rparr>"

definition initiate_shutdown :: "process \<Rightarrow> process" where
  "initiate_shutdown p =
     p\<lparr>pc_running := (\<lambda>i. pc_running p i \<and> pc_cpus p \<le> i), pc_shutdowns := pc_shutdowns p + 1,
       pc_dangling := pc_dangling p \<or> list_ex (\<lambda>i. pc_stage p i = Ended) [0..<pc_cpus p]\<rparr>"

text \<open>The action runs on the thread that is interrupted and looks for the shard of that thread.\<close>

definition interrupt :: "nat \<Rightarrow> process \<Rightarrow> process" where
  "interrupt i p =
     (if \<not> pc_installed p then p\<lparr>pc_killed := True\<rparr>
      else if pc_stage p i = Launched then p\<lparr>pc_crashed := True\<rparr>
      else case signal_arrives SIGINT (pc_signals p i) of
             None \<Rightarrow> p\<lparr>pc_crashed := True\<rparr>
           | Some s \<Rightarrow> p\<lparr>pc_signals := (pc_signals p)(i := s)\<rparr>)"

definition poll_interrupts :: "nat \<Rightarrow> process \<Rightarrow> process" where
  "poll_interrupts i p =
     (case signals_poll 0 (pc_signals p i) of
        None \<Rightarrow> p\<lparr>pc_crashed := True\<rparr>
      | Some (calls, _, s) \<Rightarrow> fold (\<lambda>_. initiate_shutdown) calls (p\<lparr>pc_signals := (pc_signals p)(i := s)\<rparr>))"

text \<open>The barrier is reached with a prepared shard, by thread 0 after the handler was installed.\<close>

definition at_barrier :: "process \<Rightarrow> nat \<Rightarrow> bool" where
  "at_barrier p i \<longleftrightarrow> pc_stage p i \<noteq> Launched \<and> (i = 0 \<longrightarrow> pc_installed p)"

inductive process_step :: "process \<Rightarrow> process \<Rightarrow> bool" where
  Prepare: "alive_process p \<Longrightarrow> i < pc_cpus p \<Longrightarrow> pc_stage p i = Launched \<Longrightarrow> process_step p (prepare_signals i p)"
| Install: "alive_process p \<Longrightarrow> pc_stage p 0 = Prepared \<Longrightarrow> \<not> pc_installed p \<Longrightarrow> process_step p (bootstrap_run p)"
| Pass: "alive_process p \<Longrightarrow> i < pc_cpus p \<Longrightarrow> pc_stage p i = Prepared \<Longrightarrow> list_all (at_barrier p) [0..<pc_cpus p] \<Longrightarrow>
    process_step p (p\<lparr>pc_stage := (pc_stage p)(i := Past_barrier)\<rparr>)"
| Begin: "alive_process p \<Longrightarrow> i < pc_cpus p \<Longrightarrow> pc_stage p i = Past_barrier \<Longrightarrow> process_step p (shard_begin i p)"
| Interrupt: "alive_process p \<Longrightarrow> i < pc_cpus p \<Longrightarrow> SIGINT \<notin> pc_blocked p i \<Longrightarrow> process_step p (interrupt i p)"
| Poll: "alive_process p \<Longrightarrow> i < pc_cpus p \<Longrightarrow> pc_stage p i = Polling \<Longrightarrow> process_step p (poll_interrupts i p)"
| Throw: "alive_process p \<Longrightarrow> i < pc_cpus p \<Longrightarrow> pc_stage p i = Polling \<Longrightarrow> process_step p (initiate_shutdown p)"
| End: "alive_process p \<Longrightarrow> i < pc_cpus p \<Longrightarrow> pc_stage p i = Polling \<Longrightarrow> \<not> pc_running p i \<Longrightarrow> process_step p (shard_end i p)"

section \<open>Invariant\<close>

definition sigint_bit :: u64 where
  "sigint_bit = push_bit SIGINT 1"

text \<open>Only the first shard ever has a signal pending, and it is SIGINT, which it handles.\<close>

definition pending_ok :: "process \<Rightarrow> bool" where
  "pending_ok p \<longleftrightarrow>
     (\<forall>i. pending_signals (pc_signals p i) = 0 \<or>
        i = 0 \<and> pc_installed p \<and> pending_signals (pc_signals p i) = sigint_bit) \<and>
     (pc_installed p \<longrightarrow> sig_handlers (pc_signals p 0) (int SIGINT) = Some Initiate_shutdown)"

definition masks_ok :: "process \<Rightarrow> bool" where
  "masks_ok p \<longleftrightarrow>
     (\<forall>i. pc_stage p i \<noteq> Launched \<and> (i = 0 \<longrightarrow> \<not> pc_installed p \<or> pc_stage p i = Ended) \<longrightarrow> SIGINT \<in> pc_blocked p i) \<and>
     (pc_installed p \<longrightarrow> pc_stage p 0 \<noteq> Launched)"

definition stages_ok :: "process \<Rightarrow> bool" where
  "stages_ok p \<longleftrightarrow>
     (\<forall>i < pc_cpus p. pc_stage p i \<in> {Past_barrier, Polling, Ended} \<longrightarrow> (\<forall>j < pc_cpus p. at_barrier p j)) \<and>
     (pc_crashed p \<longrightarrow> (\<exists>j < pc_cpus p. pc_stage p j = Launched)) \<and>
     (\<forall>i < pc_cpus p. pc_stage p i = Ended \<or> pc_stage p i = Polling \<and> \<not> pc_running p i \<longrightarrow> 0 < pc_shutdowns p) \<and>
     (pc_dangling p \<longrightarrow> 1 < pc_shutdowns p)"

definition process_inv :: "process \<Rightarrow> bool" where
  "process_inv p \<longleftrightarrow> pending_ok p \<and> masks_ok p \<and> stages_ok p"

lemma poll_nothing: "pending_signals s = 0 \<Longrightarrow> signals_poll 0 s = Some ([], 0, s)"
  by (simp add: signals_poll_def Let_def)

lemma poll_sigint:
  assumes "sig_handlers s 2 = Some h" "pending_signals s = sigint_bit"
  shows "signals_poll 0 s = Some ([h], 0, s\<lparr>pending_signals := 0\<rparr>)"
proof -
  have c: "count_trailing_zeroes sigint_bit = Some 2" "count_trailing_zeroes (0 :: u64) = None" "drop_bit 3 sigint_bit = 0"
    by code_simp+
  have "handle_pending (sig_handlers s) sigint_bit = Some [h]" using assms(1) c by simp
  then show ?thesis using assms(2) by (simp add: signals_poll_def Let_def) (simp add: sigint_bit_def)
qed

lemma poll_effect:
  assumes "pending_ok p"
  shows "poll_interrupts i p =
    (if pending_signals (pc_signals p i) = 0 then p
     else initiate_shutdown (p\<lparr>pc_signals := (pc_signals p)(i := (pc_signals p i)\<lparr>pending_signals := 0\<rparr>)\<rparr>))"
proof (cases "pending_signals (pc_signals p i) = 0")
  case True
  then show ?thesis by (simp add: poll_interrupts_def poll_nothing)
next
  case False
  then have "i = 0" "pending_signals (pc_signals p 0) = sigint_bit" "sig_handlers (pc_signals p 0) 2 = Some Initiate_shutdown"
    using assms by (auto simp: pending_ok_def)
  then show ?thesis by (simp add: poll_interrupts_def poll_sigint) (simp add: sigint_bit_def)
qed

lemma interrupt_effect:
  "interrupt i p =
     (if \<not> pc_installed p then p\<lparr>pc_killed := True\<rparr>
      else if pc_stage p i = Launched then p\<lparr>pc_crashed := True\<rparr>
      else p\<lparr>pc_signals := (pc_signals p)(i := (pc_signals p i)\<lparr>pending_signals := pending_signals (pc_signals p i) OR sigint_bit\<rparr>)\<rparr>)"
  by (simp add: interrupt_def signal_arrives_def sigint_bit_def)

lemma sigint_masked: "2 \<in> signals_mask_new b" "2 \<in> signals_mask_destroy b"
  by (simp_all add: signals_mask_new_def signals_mask_destroy_def left_unblocked_def)

lemma process_step_masks: "process_step p q \<Longrightarrow> masks_ok p \<Longrightarrow> pending_ok p \<Longrightarrow> masks_ok q"
proof (induction rule: process_step.induct)
  case (Poll p i)
  then show ?case by (auto simp: poll_effect masks_ok_def initiate_shutdown_def)
qed (auto simp: masks_ok_def prepare_signals_def bootstrap_run_def shard_begin_def shard_end_def interrupt_effect initiate_shutdown_def
    sigint_masked)

text \<open>A signal that does not crash the process is taken by the first shard.\<close>

lemma unblocked_thread:
  assumes "masks_ok p" "SIGINT \<notin> pc_blocked p i" "pc_stage p i \<noteq> Launched"
  shows "i = 0 \<and> pc_installed p \<and> pc_stage p i \<noteq> Ended"
  using assms unfolding masks_ok_def by blast

lemma process_step_pending: "process_step p q \<Longrightarrow> pending_ok p \<Longrightarrow> masks_ok p \<Longrightarrow> pending_ok q"
proof (induction rule: process_step.induct)
  case (Poll p i)
  then show ?case by (auto simp: poll_effect pending_ok_def initiate_shutdown_def)
next
  case (Interrupt p i)
  show ?case
  proof (cases "pc_installed p \<and> pc_stage p i \<noteq> Launched")
    case True
    then have "i = 0" using unblocked_thread [OF Interrupt.prems(2) Interrupt.hyps(3)] by blast
    moreover have "pending_signals (pc_signals p 0) = 0 \<or> pending_signals (pc_signals p 0) = sigint_bit"
      using Interrupt.prems(1) unfolding pending_ok_def by blast
    then have "pending_signals (pc_signals p 0) OR sigint_bit = sigint_bit" by auto
    ultimately show ?thesis using True Interrupt.prems(1) by (auto simp: interrupt_effect pending_ok_def)
  next
    case False
    then show ?thesis using Interrupt.prems(1) by (auto simp: interrupt_effect pending_ok_def)
  qed
next
  case (Install p)
  then show ?case by (auto simp: pending_ok_def bootstrap_run_def signals_handle_def Let_def)
qed (auto simp: pending_ok_def prepare_signals_def shard_begin_def shard_end_def initiate_shutdown_def)

lemma initiate_stages: "stages_ok p \<Longrightarrow> stages_ok (initiate_shutdown p)"
  by (auto simp: stages_ok_def initiate_shutdown_def at_barrier_def list_ex_iff)

lemma process_step_stages: "process_step p q \<Longrightarrow> stages_ok p \<Longrightarrow> pending_ok p \<Longrightarrow> stages_ok q"
proof (induction rule: process_step.induct)
  case (Poll p i)
  have "stages_ok (p\<lparr>pc_signals := f\<rparr>)" for f using Poll.prems(1) by (simp add: stages_ok_def at_barrier_def)
  then show ?case using Poll.prems by (simp add: poll_effect initiate_stages)
next
  case (Throw p i)
  then show ?case by (simp add: initiate_stages)
next
  case (Interrupt p i)
  then show ?case by (auto simp: interrupt_effect stages_ok_def at_barrier_def)
next
  case (Pass p i)
  then show ?case by (auto simp: stages_ok_def at_barrier_def list_all_iff alive_process_def)
qed (auto simp: stages_ok_def at_barrier_def prepare_signals_def bootstrap_run_def shard_begin_def shard_end_def alive_process_def)

lemma process_step_inv: "process_step p q \<Longrightarrow> process_inv p \<Longrightarrow> process_inv q"
  unfolding process_inv_def using process_step_masks process_step_pending process_step_stages by blast

lemma process_new_inv: "process_inv (process_new n)"
  by (simp add: process_inv_def pending_ok_def masks_ok_def stages_ok_def process_new_def signals_new_def)

interpretation processes: started_system process_step process_inv "process_new n" for n
  by unfold_locales (auto intro: process_step_inv process_new_inv)

section \<open>What interrupting does\<close>

text \<open>
  Past the barrier an interrupt is safe: it can only reach the first shard, whose handler is there, and polling does not end
  the process. One shutdown never touches a deleted shard.
\<close>

lemma interrupts_safe:
  assumes "process_step\<^sup>*\<^sup>* (process_new n) p"
  shows "(i < pc_cpus p \<and> pc_stage p i \<in> {Past_barrier, Polling, Ended} \<longrightarrow> \<not> pc_crashed p \<and>
      (\<forall>j < pc_cpus p. SIGINT \<notin> pc_blocked p j \<longrightarrow> j = 0 \<and> alive_process (interrupt j p) = alive_process p) \<and>
      alive_process (poll_interrupts i p) = alive_process p) \<and>
    (pc_dangling p \<longrightarrow> 1 < pc_shutdowns p)"
proof -
  have inv: "pending_ok p" "masks_ok p" "stages_ok p"
    using processes.reachable_inv [OF assms] by (simp_all add: process_inv_def)
  have poll: "alive_process (poll_interrupts i p) = alive_process p"
    by (simp add: poll_effect [OF inv(1)] alive_process_def initiate_shutdown_def)
  have "j = 0 \<and> alive_process (interrupt j p) = alive_process p"
    if "i < pc_cpus p" "pc_stage p i \<in> {Past_barrier, Polling, Ended}" "j < pc_cpus p" "SIGINT \<notin> pc_blocked p j" for j
  proof -
    have "at_barrier p j" using inv(3) that(1-3) unfolding stages_ok_def by blast
    then have "pc_stage p j \<noteq> Launched" by (simp add: at_barrier_def)
    then show ?thesis using unblocked_thread [OF inv(2) that(4)] by (simp add: interrupt_effect alive_process_def)
  qed
  moreover have "\<not> pc_crashed p" if "i < pc_cpus p" "pc_stage p i \<in> {Past_barrier, Polling, Ended}"
    using inv(3) that unfolding stages_ok_def at_barrier_def by blast
  ultimately show ?thesis using inv(3) poll unfolding stages_ok_def by blast
qed

text \<open>A shutdown when every shard has begun stops them all.\<close>

definition all_begun :: "process \<Rightarrow> bool" where
  "all_begun p \<longleftrightarrow> (\<forall>i < pc_cpus p. pc_stage p i = Polling \<or> pc_stage p i = Ended)"

definition stopping_process :: "process \<Rightarrow> bool" where
  "stopping_process p \<longleftrightarrow> all_begun p \<and> (\<forall>i < pc_cpus p. \<not> pc_running p i)"

lemma initiate_stopping: "all_begun p \<Longrightarrow> stopping_process (initiate_shutdown p)"
  by (simp add: stopping_process_def all_begun_def initiate_shutdown_def)

lemma initiates_stopping: "stopping_process p \<Longrightarrow> stopping_process (fold (\<lambda>_. initiate_shutdown) (cs :: signal_handler list) p)"
proof (induction cs arbitrary: p)
  case (Cons c cs)
  then show ?case using initiate_stopping [of p] by (simp add: stopping_process_def)
qed simp

lemma stopping_step: "process_step p q \<Longrightarrow> stopping_process p \<Longrightarrow> stopping_process q"
proof (induction rule: process_step.induct)
  case (Poll p i)
  have "stopping_process (p\<lparr>pc_signals := f\<rparr>)" "stopping_process (p\<lparr>pc_crashed := True\<rparr>)" for f
    using Poll.prems by (simp_all add: stopping_process_def all_begun_def)
  then show ?case by (auto simp: poll_interrupts_def initiates_stopping split: option.split)
next
  case (Throw p i)
  then show ?case using initiate_stopping [of p] by (simp add: stopping_process_def)
next
  case (Install p)
  then show ?case by (simp add: bootstrap_run_def stopping_process_def all_begun_def)
qed (auto simp: stopping_process_def all_begun_def prepare_signals_def shard_begin_def shard_end_def interrupt_effect)

interpretation stopping: step_system process_step stopping_process
  by unfold_locales (rule stopping_step)

lemma shutdown_stops_all:
  assumes "all_begun p" "process_step\<^sup>*\<^sup>* (initiate_shutdown p) q" "i < pc_cpus q"
  shows "pc_stage q i = Ended \<or>
    pc_stage q i = Polling \<and> \<not> pc_running q i \<and> (alive_process q \<longrightarrow> process_step q (shard_end i q))"
proof -
  have "stopping_process q" using stopping.reach_keeps [OF assms(2)] initiate_stopping [OF assms(1)] by blast
  then show ?thesis using assms(3) by (auto simp: stopping_process_def all_begun_def intro: process_step.End)
qed

section \<open>Interrupts at the wrong time\<close>

text \<open>
  An interrupt between the moment the handler is installed and the moment another thread has prepared its shard reaches that
  thread, which has no shard yet.
\<close>

lemma early_interrupt_crashes: "\<exists>p. process_step\<^sup>*\<^sup>* (process_new 2) p \<and> pc_crashed p"
proof -
  let ?a = "process_new 2" and ?b = "prepare_signals 0 (process_new 2)" and ?c = "bootstrap_run (prepare_signals 0 (process_new 2))"
  note d = process_new_def prepare_signals_def bootstrap_run_def alive_process_def
  have "process_step ?a ?b" by (rule process_step.Prepare) (simp_all add: d)
  moreover have "process_step ?b ?c" by (rule process_step.Install) (simp_all add: d)
  moreover have "process_step ?c (interrupt 1 ?c)" by (rule process_step.Interrupt) (simp_all add: d)
  moreover have "pc_crashed (interrupt 1 ?c)" by (simp add: interrupt_effect d)
  ultimately show ?thesis by (meson r_into_rtranclp rtranclp_trans)
qed

text \<open>
  A shard sets its flag when it begins. One that is still between the barrier and that point when the shutdown comes runs on,
  and with the first shard gone no thread takes another interrupt.
\<close>

definition shutdown_missed :: "process \<Rightarrow> bool" where
  "shutdown_missed p \<longleftrightarrow> 0 < pc_shutdowns p \<and> pc_stage p 0 = Ended \<and> pc_stage p 1 = Polling \<and> pc_running p 1 \<and>
     list_all (\<lambda>i. SIGINT \<in> pc_blocked p i \<and> poll_interrupts i p = p) [0..<pc_cpus p]"

lemma shutdown_can_miss: "\<exists>p. process_step\<^sup>*\<^sup>* (process_new 2) p \<and> shutdown_missed p"
proof -
  let ?pass = "\<lambda>i p. p\<lparr>pc_stage := (pc_stage p)(i := Past_barrier)\<rparr>"
  define a where "a = bootstrap_run (prepare_signals 1 (prepare_signals 0 (process_new 2)))"
  define b where "b = shard_begin 0 (?pass 0 a)"
  define c where "c = initiate_shutdown ((interrupt 0 b)\<lparr>pc_signals := (pc_signals b)(0 := (pc_signals b 0)\<lparr>pending_signals := 0\<rparr>)\<rparr>)"
  define d where "d = shard_begin 1 (?pass 1 (shard_end 0 c))"
  note av = a_def process_new_def prepare_signals_def bootstrap_run_def alive_process_def signals_handle_def signals_new_def Let_def
  note bv = b_def shard_begin_def
  note cv = c_def interrupt_effect initiate_shutdown_def
  note r = r_into_rtranclp
  have "process_step (process_new 2) (prepare_signals 0 (process_new 2))"
    "process_step (prepare_signals 0 (process_new 2)) (prepare_signals 1 (prepare_signals 0 (process_new 2)))"
    by (rule process_step.Prepare; simp add: av)+
  moreover have "process_step (prepare_signals 1 (prepare_signals 0 (process_new 2))) a" unfolding a_def
    by (rule process_step.Install) (simp_all add: av)
  ultimately have ra: "process_step\<^sup>*\<^sup>* (process_new 2) a" by (meson r rtranclp_trans)
  have "process_step a (?pass 0 a)"
    by (rule process_step.Pass) (simp_all add: av upt_rec at_barrier_def)
  moreover have "process_step (?pass 0 a) b" unfolding b_def by (rule process_step.Begin) (simp_all add: av)
  moreover have "process_step b (interrupt 0 b)"
    by (rule process_step.Interrupt) (simp_all add: bv av signals_mask_handle_def)
  ultimately have rb: "process_step\<^sup>*\<^sup>* (process_new 2) (interrupt 0 b)" using ra by (meson r rtranclp_trans)
  then have "pending_ok (interrupt 0 b)" using processes.reachable_inv unfolding process_inv_def by blast
  note poll = poll_effect [OF this, of 0]
  have "pending_signals (pc_signals (interrupt 0 b) 0) \<noteq> 0"
    by (simp add: interrupt_effect bv av) (simp add: sigint_bit_def)
  then have "poll_interrupts 0 (interrupt 0 b) = c"
    unfolding poll c_def by (simp add: interrupt_effect bv av)
  moreover have "process_step (interrupt 0 b) (poll_interrupts 0 (interrupt 0 b))"
    by (rule process_step.Poll) (simp_all add: interrupt_effect bv av)
  moreover have "process_step c (shard_end 0 c)" by (rule process_step.End) (simp_all add: cv bv av)
  moreover have "process_step (shard_end 0 c) (?pass 1 (shard_end 0 c))"
    by (rule process_step.Pass) (simp_all add: shard_end_def cv bv av upt_rec at_barrier_def)
  moreover have "process_step (?pass 1 (shard_end 0 c)) d" unfolding d_def
    by (rule process_step.Begin) (simp_all add: shard_end_def cv bv av)
  ultimately have rd: "process_step\<^sup>*\<^sup>* (process_new 2) d" using rb by (metis (no_types, lifting) rtranclp.rtrancl_into_rtrancl)
  then have "pending_ok d" using processes.reachable_inv unfolding process_inv_def by blast
  moreover have "pending_signals (pc_signals d i) = 0" for i
    by (simp add: d_def shard_begin_def shard_end_def cv bv av)
  ultimately have "poll_interrupts i d = d" for i by (simp add: poll_effect)
  then have "shutdown_missed d"
    by (simp add: shutdown_missed_def) (simp add: d_def shard_begin_def shard_end_def cv bv av upt_rec sigint_masked)
  with rd show ?thesis by blast
qed

end
