(* ===== verification/Server_Properties.thy ===== *)
theory Server_Properties
  imports Echo_Pipe Tester Mem_Base Sharded_Service Shutdown
begin

text \<open>
  The properties of the theories on the server of \<^verbatim>\<open>play/main.cpp\<close>, the load generator, the address space of the pools,
  sharded services and the shutdown, with concrete instances.
\<close>

section \<open>The server\<close>

text \<open>
  C8. The server echoes: when its socket becomes readable, the event goes through the pipe, everything received is put
  behind the bytes that were sent or wait to be sent, in order, and is counted once as read and once as written. This
  takes the kernel, the heap, the buffer, the filter on the socket and the links of the pipe together; it holds whatever
  the system delivers, errors included, and the sink is sound again for the next event.
\<close>

theorem http2_pipe_echoes:
  assumes "receives_within K" "logs K got" "distinct [a, b, c]" "2 < g"
    and "sv_sink sv = Some s" "sink_sound M s" "\<not> closing s" "can_alloc h 3 (wld (net s))"
    and "bufsize (write_buf s) + 3 * 2 ^ 20 < 2 ^ 63" "0 \<le> sint (inline_writes s)" "sint (inline_writes s) < 2 ^ 15 - 1"
    and "p = fst (http2_pipe a b c st)"
  shows "\<exists>sv' s' bs. handle_read (11 + n) (server_filters a b f g K fd (simple_fragment_allocate h)) (p, sv) = Inr (p, sv') \<and>
    sv_sink sv' = Some s' \<and> sink_sound M s' \<and> got (kst (net s')) = got (kst (net s)) @ bs \<and> stream s' = stream s @ bs \<and>
    sv_stats sv' = count_write (length bs) (count_read (length bs) (sv_stats sv))"
  using handle_read_echoes [OF assms] .

text \<open>Pieces that arrive one by one, and the account of what was delivered.\<close>

definition ex_wire_kernel :: "(u8 list list \<times> u8 list) kernel" where
  "ex_wire_kernel = \<lparr>k_socket = Pair (5, 0), k_close = (\<lambda>fd. Pair (0, 0)), k_connect = (\<lambda>fd ep. Pair (0, 0)),
     k_bind = (\<lambda>fd ep. Pair (0, 0)), k_listen = (\<lambda>fd n. Pair (0, 0)), k_accept4 = (\<lambda>fd. Pair (6, 0)),
     k_setsockopt = (\<lambda>fd opt. Pair (0, 0)), k_getsockopt = (\<lambda>fd opt. Pair (0, 0, 0)), k_fionread = (\<lambda>fd. Pair (0, 0, 0)),
     k_sendmsg = (\<lambda>fd ep bs. Pair (int (min 3 (length bs)), 0)),
     k_recvmsg = (\<lambda>fd ep n (ps, log). case ps of
        [] \<Rightarrow> ((-1, EAGAIN, []), [], log)
      | p # qs \<Rightarrow> ((int (length (take n p)), 0, take n p), qs, log @ take n p)),
     k_send = (\<lambda>fd bs. Pair (0, 0)), k_recv = (\<lambda>fd n. Pair (0, 0, []))\<rparr>"

definition ex_fresh_heap :: heap where
  "ex_fresh_heap sz w = (2 * (1 + sum_list (map (\<lambda>(q, k). q + k) (blocks w))), sz)"

lemma ex_fresh_heap_room: "blocks w = bs \<Longrightarrow> sum_list (map (\<lambda>(q, k). q + k) bs) < 2 ^ 40 \<Longrightarrow> malloc_succeeds ex_fresh_heap 16384 w"
proof -
  assume b: "blocks w = bs" "sum_list (map (\<lambda>(q, k). q + k) bs) < 2 ^ 40"
  have le: "q + k \<le> sum_list (map (\<lambda>(q, k). q + k) bs)" if "(q, k) \<in> set bs" for q k
    using member_le_sum_list [of "q + k" "map (\<lambda>(q, k). q + k) bs"] that by force
  then have "2 * (1 + sum_list (map (\<lambda>(q, k). q + k) bs)) \<notin> fst ` set bs" by fastforce
  moreover have "fresh (2 * (1 + sum_list (map (\<lambda>(q, k). q + k) bs))) 16384 w"
    unfolding fresh_def b(1) list_all_iff using le by fastforce
  ultimately show ?thesis using b by (simp add: malloc_succeeds_def ex_fresh_heap_def)
qed

definition ex_server :: "(u8 list list \<times> u8 list) server" where
  "ex_server = \<lparr>sv_sink = Some (sink_new \<lparr>kst = ([[1, 2, 3], [4, 5]], []),
       wld = \<lparr>mem = (\<lambda>a. 0), impls = [], lim = 16, blocks = [], ran = []\<rparr>, sent = []\<rparr>),
     sv_stats = \<lparr>st_connections = 1, st_reads = 0, st_r_bytes = 0, st_writes = 0, st_w_bytes = 0\<rparr>\<rparr>"

lemma ex_wire_sound: "receives_within ex_wire_kernel" "logs ex_wire_kernel snd"
  by (auto simp: receives_within_def logs_def ex_wire_kernel_def split: list.splits)

lemma ex_fresh_heap_room3:
  assumes "blocks w = []"
  shows "can_alloc ex_fresh_heap 3 w"
  using assms ex_fresh_heap_room [of w "[]"] 
  by (simp add: numeral_3_eq_3 ex_fresh_heap_def ex_fresh_heap_room)

theorem http2_pipe_echoes_witness:
  "\<exists>sv' s' bs. handle_read (11 + 0) (server_filters 7 8 9 3 ex_wire_kernel 5 (simple_fragment_allocate ex_fresh_heap))
       (fst (http2_pipe 7 8 9 (sv_stats ex_server)), ex_server) =
       Inr (fst (http2_pipe 7 8 9 (sv_stats ex_server)), sv') \<and>
    sv_sink sv' = Some s' \<and> sink_sound {#} s' \<and>
    snd (kst (net s')) = snd (kst (net (the (sv_sink ex_server)))) @ bs \<and> stream s' = stream (the (sv_sink ex_server)) @ bs \<and>
    sv_stats sv' = count_write (length bs) (count_read (length bs) (sv_stats ex_server))"
proof (rule http2_pipe_echoes [OF ex_wire_sound _ _ _ _ _ _ _ _ _ refl])
  show "sv_sink ex_server = Some (the (sv_sink ex_server))" by (simp add: ex_server_def)
  show "can_alloc ex_fresh_heap 3 (wld (net (the (sv_sink ex_server))))"
    by (rule ex_fresh_heap_room3) (simp add: ex_server_def sink_new_def)
  show "sink_sound {#} (the (sv_sink ex_server))"
    by (simp add: sink_sound_def ex_server_def sink_new_def buffer_default_def buffer_ok_def covered_def guard_inv_def
        heap_guards_def heap_owned_def owned_def)
qed (simp_all add: ex_server_def sink_new_def buffer_default_def)

section \<open>The load generator\<close>

text \<open>
  C34. However its writes end and its echoes arrive, the load generator never changes a message that is being written and is
  never more than 200 messages ahead of the echoes; when it waits with no write running and none failed, it is ahead by
  exactly 200, and the next echo starts a write: it does not stall.
\<close>

theorem client_window:
  assumes "client_step\<^sup>*\<^sup>* client_new c"
  shows "\<not> cl_clobbered c \<and> cl_started c \<le> cl_received c + 200 \<and>
    (0 < cl_started c \<and> cl_writing c = 0 \<and> \<not> cl_failed c \<longrightarrow> cl_started c = cl_received c + 200 \<and>
       cl_writing (read_done False now m c) = 1)"
  using reachable_window [OF assms] .

definition ex_client :: client where
  "ex_client = read_done False 9 message_new (written False 7 (client_start 5 client_new))"

lemma ex_client_counts: "cl_writing ex_client = 1" "cl_received ex_client = 1" "cl_started ex_client = 2"
  by (simp_all add: ex_client_def written_def client_start_def start_writing_def start_reading_def client_new_def read_done_def
      record_latency_def message_new_def uadd_def usub_def Let_def)

theorem client_window_witness: "\<not> cl_clobbered ex_client \<and> cl_started ex_client \<le> 201 \<and> cl_received ex_client = 1"
proof -
  let ?a = "client_start 5 client_new" and ?b = "written False 7 (client_start 5 client_new)"
  have "client_step client_new ?a" by (rule client_step.Connected) (simp add: client_new_def)
  moreover have "client_step ?a ?b"
    by (rule client_step.Written) (simp add: client_start_def start_reading_def)
  moreover have "client_step ?b ex_client" unfolding ex_client_def
    by (rule client_step.Read_back)
      (simp_all add: written_def client_start_def start_writing_def start_reading_def client_new_def uadd_def Let_def)
  ultimately have "client_step\<^sup>*\<^sup>* client_new ex_client" by (meson r_into_rtranclp rtranclp_trans)
  from client_window [OF this] ex_client_counts show ?thesis by simp
qed

section \<open>The address space of the pools\<close>




section \<open>Sharded services\<close>

text \<open>
  C18. A service started on a pool whose threads each get one of its posts, and stopped at any time, even before a thread has
  run its first task: no implementation is called that was destroyed, and when the threads have run their tasks, each
  implementation was started and then stopped once, on its own thread, all are destroyed, no thread still points to one, and
  both promises were set exactly once.
\<close>

theorem service_stops_cleanly:
  assumes "service_start place ok (service_new n) = (True, s0)" "inj_on place {..<n}" "\<And>i. i < n \<Longrightarrow> place i < n"
    and "service_step\<^sup>*\<^sup>* s0 s"
  shows "\<not> ss_dangling s \<and>
    (ss_stop_latch s \<noteq> None \<and> (\<forall>t < n. ss_queue s t = []) \<longrightarrow>
       alive_impls s = [] \<and> ss_stopped s = 1 \<and> la_set (ss_start_latch s) = 1 \<and> (\<forall>t. service_local t s = None) \<and>
       (\<forall>i < n. thread_calls (place i) s = [Started (place i) i, Stopped (place i) i]))"
  by (rule service_lifecycle [OF assms])

definition ex_started :: sharded_service where
  "ex_started = snd (service_start (\<lambda>i. 1 - i) (\<lambda>i. True) (service_new 2))"

text \<open>Stopped with one thread behind.\<close>

definition ex_service :: sharded_service where
  "ex_service = foldl (\<lambda>s t. the (run_service_task t s)) (the (service_stop (the (run_service_task 1 ex_started)))) [1, 0, 0]"

lemmas service_defs = service_start_def service_new_def post_impl_def service_stop_def run_service_task_def run_start_def run_stop_def
  call_impl_def latch_reached_def latch_new_def count_down_def alive_impls_def

lemma ex_started_run: "service_start (\<lambda>i. 1 - i) (\<lambda>i. True) (service_new 2) = (True, ex_started)"
  by (simp add: ex_started_def service_start_def service_new_def numeral_2_eq_2 Let_def)

lemma ex_service_steps: "service_step\<^sup>*\<^sup>* ex_started ex_service"
proof -
  let ?s1 = "the (run_service_task 1 ex_started)"
  let ?s2 = "the (service_stop ?s1)"
  let ?s3 = "the (run_service_task 1 ?s2)"
  let ?s4 = "the (run_service_task 0 ?s3)"
  note d = ex_started_def service_defs Let_def numeral_2_eq_2
  have "run_service_task 1 ex_started = Some ?s1" "service_stop ?s1 = Some ?s2" "run_service_task 1 ?s2 = Some ?s3"
    "run_service_task 0 ?s3 = Some ?s4" "run_service_task 0 ?s4 = Some ex_service"
    by (simp_all add: d ex_service_def)
  then have "service_step ex_started ?s1" "service_step ?s1 ?s2" "service_step ?s2 ?s3" "service_step ?s3 ?s4" "service_step ?s4 ex_service"
    by (blast intro: service_step.intros)+
  then show ?thesis by (meson converse_rtranclp_into_rtranclp rtranclp.rtrancl_refl)
qed

lemma ex_service_done: "ss_stop_latch ex_service \<noteq> None" "\<forall>t < 2. ss_queue ex_service t = []"
  by (simp_all add: ex_service_def ex_started_def service_defs Let_def numeral_2_eq_2 less_Suc_eq)

theorem service_stops_cleanly_witness:
  "\<not> ss_dangling ex_service \<and> alive_impls ex_service = [] \<and> ss_stopped ex_service = 1 \<and>
    thread_calls 1 ex_service = [Started 1 0, Stopped 1 0]"
  using service_stops_cleanly [OF ex_started_run _ _ ex_service_steps] ex_service_done by (force simp: inj_on_def)

section \<open>Shutdown\<close>

text \<open>
  C19. However the threads interleave: once some shard is past the barrier nothing has crashed, an interrupt can only reach the
  first shard, which has its handler, and polling the signals never ends the process. A shard is told to shut down after it
  was deleted only by a second shutdown.
\<close>

theorem process_interrupts:
  assumes "process_step\<^sup>*\<^sup>* (process_new n) p"
  shows "(i < pc_cpus p \<and> pc_stage p i \<in> {Past_barrier, Polling, Ended} \<longrightarrow> \<not> pc_crashed p \<and>
      (\<forall>j < pc_cpus p. SIGINT \<notin> pc_blocked p j \<longrightarrow> j = 0 \<and> alive_process (interrupt j p) = alive_process p) \<and>
      alive_process (poll_interrupts i p) = alive_process p) \<and>
    (pc_dangling p \<longrightarrow> 1 < pc_shutdowns p)"
  by (rule interrupts_safe [OF assms])

definition ex_process :: process where
  "ex_process = (bootstrap_run (prepare_signals 0 (process_new 1)))\<lparr>pc_stage := \<lambda>i. if i = 0 then Past_barrier else Launched\<rparr>"

theorem process_interrupts_witness:
  "\<not> pc_crashed ex_process \<and> SIGINT \<notin> pc_blocked ex_process 0 \<and> alive_process (interrupt 0 ex_process)"
proof -
  let ?a = "process_new 1" and ?b = "prepare_signals 0 (process_new 1)" and ?c = "bootstrap_run (prepare_signals 0 (process_new 1))"
  note d = process_new_def prepare_signals_def bootstrap_run_def alive_process_def ex_process_def
  have "process_step ?a ?b" by (rule process_step.Prepare) (simp_all add: d)
  moreover have "process_step ?b ?c" by (rule process_step.Install) (simp_all add: d)
  moreover have "process_step ?c (?c\<lparr>pc_stage := (pc_stage ?c)(0 := Past_barrier)\<rparr>)"
    by (rule process_step.Pass) (simp_all add: d at_barrier_def)
  moreover have "?c\<lparr>pc_stage := (pc_stage ?c)(0 := Past_barrier)\<rparr> = ex_process" by (simp add: d fun_eq_iff)
  ultimately have r: "process_step\<^sup>*\<^sup>* (process_new 1) ex_process" by (metis converse_rtranclp_into_rtranclp rtranclp.rtrancl_refl)
  have s: "pc_cpus ex_process = 1" "pc_stage ex_process 0 = Past_barrier" "SIGINT \<notin> pc_blocked ex_process 0" "alive_process ex_process"
    by (simp_all add: d signals_mask_handle_def)
  show ?thesis using process_interrupts [OF r, of 0] s by simp
qed

text \<open>
  C35. A shutdown that comes when every shard has begun stops them all for good: each has ended or polls with its flag cleared,
  and may end. One that comes earlier can miss a shard, which then polls on while no thread takes an interrupt; and an
  interrupt during the start can crash the process.
\<close>

theorem shutdown_reaches_shards:
  "(all_begun p \<and> process_step\<^sup>*\<^sup>* (initiate_shutdown p) q \<and> i < pc_cpus q \<longrightarrow>
      pc_stage q i = Ended \<or> pc_stage q i = Polling \<and> \<not> pc_running q i \<and> (alive_process q \<longrightarrow> process_step q (shard_end i q))) \<and>
    (\<exists>r. process_step\<^sup>*\<^sup>* (process_new 2) r \<and> shutdown_missed r) \<and> (\<exists>r. process_step\<^sup>*\<^sup>* (process_new 2) r \<and> pc_crashed r)"
  using shutdown_stops_all [of p q i] shutdown_can_miss early_interrupt_crashes by blast

theorem shutdown_reaches_shards_witness:
  "process_step (initiate_shutdown (shard_begin 0 (process_new 1))) (shard_end 0 (initiate_shutdown (shard_begin 0 (process_new 1))))"
  using shutdown_reaches_shards [of "shard_begin 0 (process_new 1)" "initiate_shutdown (shard_begin 0 (process_new 1))" 0]
  by (simp add: all_begun_def shard_begin_def process_new_def initiate_shutdown_def alive_process_def)

end
