(* ===== verification/Fast_Cast.thy ===== *)
theory Fast_Cast
  imports Xi_Prelude
begin

text \<open>
  \<^verbatim>\<open>xi/ext/fast_cast.h\<close>: casts between the classes of a group by virtual functions. A class is a number, \<open>base d c\<close> says that
  \<open>c\<close> is \<open>d\<close> or derives from it (\<^verbatim>\<open>is_base_of\<close>). A program that does not compile is \<open>None\<close>; a result \<open>Some None\<close> is a null pointer.
\<close>

section \<open>Casting\<close>

type_synonym class_name = nat

text \<open>
  A node is what an object shows of itself to the casts: a plain node, whose casts give null, or the member \<open>Member d\<close> for
  class \<open>d\<close> of a group.
\<close>

datatype cast_node = Plain_node | Member class_name

definition fast_cast_group_member :: "class_name list \<Rightarrow> class_name \<Rightarrow> cast_node option" where
  "fast_cast_group_member grp d = (if d \<in> set grp then Some (Member d) else None)"

definition is_fast_cast_allowed :: "(class_name \<Rightarrow> class_name \<Rightarrow> bool) \<Rightarrow> class_name \<Rightarrow> class_name \<Rightarrow> bool" where
  "is_fast_cast_allowed base dst src \<longleftrightarrow> base dst src \<or> dst = src"

text \<open>The chosen override, which converts \<^verbatim>\<open>this\<close> to the class \<open>d\<close> and so to \<open>t\<close>.\<close>

fun do_cast :: "(class_name \<Rightarrow> class_name \<Rightarrow> bool) \<Rightarrow> class_name \<Rightarrow> class_name \<Rightarrow> class_name option" where
  "do_cast base t d = (if is_fast_cast_allowed base t d then Some t else None)"

text \<open>The recursion over the types of the group: each overrides the cast of its own node.\<close>

fun member_cast :: "(class_name \<Rightarrow> class_name \<Rightarrow> bool) \<Rightarrow> class_name list \<Rightarrow> class_name \<Rightarrow> class_name \<Rightarrow> class_name option option" where
  "member_cast base [] t d = None"
| "member_cast base (x # xs) t d = (if x = t then Some (do_cast base t d) else member_cast base xs t d)"

definition fast_cast :: "(class_name \<Rightarrow> class_name \<Rightarrow> bool) \<Rightarrow> class_name list \<Rightarrow> class_name \<Rightarrow> cast_node \<Rightarrow> class_name option option" where
  "fast_cast base grp t n =
     (case n of
        Plain_node \<Rightarrow> if t \<in> set grp then Some None else None
      | Member d \<Rightarrow> member_cast base grp t d)"

definition dynamic_cast :: "(class_name \<Rightarrow> class_name \<Rightarrow> bool) \<Rightarrow> class_name \<Rightarrow> class_name \<Rightarrow> class_name option" where
  "dynamic_cast base t d = (if base t d then Some t else None)"

section \<open>Casts that consume a pointer\<close>

text \<open>
  A pointer owns an object by its address; \<open>alive\<close> are the objects that exist. The result is the pointer handed out, and what is
  alive when the argument has been destroyed.
\<close>

definition destroy_unique :: "addr option \<Rightarrow> addr set \<Rightarrow> addr set" where
  "destroy_unique p alive = (case p of None \<Rightarrow> alive | Some a \<Rightarrow> alive - {a})"

definition consuming_dynamic_cast :: "bool \<Rightarrow> addr option \<Rightarrow> addr set \<Rightarrow> addr option \<times> addr set" where
  "consuming_dynamic_cast ok src alive =
     (case src of
        Some a \<Rightarrow> if ok then (Some a, alive) else (None, destroy_unique src alive)
      | None \<Rightarrow> (None, alive))"

text \<open>This one does not release its argument.\<close>

definition consuming_fast_cast :: "bool \<Rightarrow> addr option \<Rightarrow> addr set \<Rightarrow> (addr option \<times> addr set) option" where
  "consuming_fast_cast ok src alive =
     (case src of
        None \<Rightarrow> None
      | Some a \<Rightarrow> Some (if ok then Some a else None, destroy_unique src alive))"

section \<open>What holds\<close>

lemma member_cast_group: "member_cast base grp t d = (if t \<in> set grp then Some (do_cast base t d) else None)"
  by (induction grp) auto

text \<open>Within a grp the virtual functions find what \<^verbatim>\<open>dynamic_cast\<close> finds, on an object whose own class is the member.\<close>

lemma fast_cast_dynamic:
  assumes "\<forall>c. base c c" "fast_cast_group_member grp d = Some n" "t \<in> set grp"
  shows "fast_cast base grp t n = Some (dynamic_cast base t d)"
  using assms by (auto simp: fast_cast_group_member_def fast_cast_def member_cast_group is_fast_cast_allowed_def dynamic_cast_def split: if_splits)

lemma dynamic_keeps: "a \<in> alive \<Longrightarrow> consuming_dynamic_cast True (Some a) alive = (Some a, alive)"
  by (simp add: consuming_dynamic_cast_def)

lemma fast_dangles: "\<exists>alive'. consuming_fast_cast True (Some a) alive = Some (Some a, alive') \<and> a \<notin> alive'"
  by (simp add: consuming_fast_cast_def destroy_unique_def)

end
