(* ===== verification/Future_Apply.thy ===== *)
theory Future_Apply
  imports Future
begin

text \<open>
  The other ways to set a promise (\<^verbatim>\<open>xi/core/future/promise.h\<close>), and the tasks of \<^verbatim>\<open>xi/core/kernel_utils.h\<close> that set one on
  another shard. The value of a function that returns nothing is \<open>null\<close>.
\<close>

definition promise_set_void :: "nat \<Rightarrow> 'a \<Rightarrow> promise \<Rightarrow> 'a fstore \<Rightarrow> (unit outcome \<times> promise \<times> 'a fstore) option" where
  "promise_set_void k null p h = promise_set k (Val null) p h"

definition promise_set_exception :: "nat \<Rightarrow> exn \<Rightarrow> promise \<Rightarrow> 'a fstore \<Rightarrow> (unit outcome \<times> promise \<times> 'a fstore) option" where
  "promise_set_exception k e p h = promise_set k (Exc e) p h"

text \<open>
  The future is taken apart: a value is set, an exception is rethrown, after which the promise has no state any more (the last
  component), and an unfinished future gives its state to the promise.
\<close>

definition promise_set_future ::
    "nat \<Rightarrow> 'a future \<Rightarrow> promise \<Rightarrow> 'a fstore \<Rightarrow> (unit outcome \<times> promise \<times> 'a fstore \<times> bool) option" where
  "promise_set_future k f p h =
     (if pr_value_set p then Some (Throws Invalid_promise, p, h, True)
      else let p1 = p\<lparr>pr_value_set := True\<rparr>
           in case future_value h f of
                Val y \<Rightarrow> map_option (\<lambda>(r, h'). (r, p1, h', (case r of Returns _ \<Rightarrow> True | _ \<Rightarrow> False))) (state_set k (pr_state p) (Val y) h)
              | Exc e \<Rightarrow> Some (Throws e, p1, h, False)
              | Unfulfilled \<Rightarrow>
                  (case f of Shared j \<Rightarrow> Some (Returns (), p1\<lparr>pr_state := j\<rparr>, h, True) | Local w \<Rightarrow> Some (Aborts, p1, h, False)))"

text \<open>\<^verbatim>\<open>callable_applier\<close>: a function that returns nothing returns \<open>null\<close>.\<close>

definition callable_apply :: "'a \<Rightarrow> ('a cont_result option) outcome \<Rightarrow> 'a cont_result outcome" where
  "callable_apply null r =
     (case r of
        Returns None \<Rightarrow> Returns (Plain null)
      | Returns (Some x) \<Rightarrow> Returns x
      | Throws e \<Rightarrow> Throws e
      | Aborts \<Rightarrow> Aborts)"

text \<open>Whatever is thrown, by the function or by \<^verbatim>\<open>set\<close>, is set as an exception in its turn.\<close>

definition promise_apply ::
    "nat \<Rightarrow> 'a \<Rightarrow> ('a cont_result option) outcome \<Rightarrow> promise \<Rightarrow> 'a fstore \<Rightarrow> (unit outcome \<times> promise \<times> 'a fstore \<times> bool) option" where
  "promise_apply k null r p h =
     Option.bind
       (case callable_apply null r of
          Returns (Plain y) \<Rightarrow> map_option (\<lambda>(o', p', h'). (o', p', h', True)) (promise_set k (Val y) p h)
        | Returns (Fut f) \<Rightarrow> promise_set_future k f p h
        | Throws e \<Rightarrow> Some (Throws e, p, h, True)
        | Aborts \<Rightarrow> Some (Aborts, p, h, True))
       (\<lambda>(o', p', h', has_state).
         case o' of
           Throws e \<Rightarrow> map_option (\<lambda>(o'', p'', h''). (o'', p'', h'', has_state)) (promise_set_exception k e p' h')
         | _ \<Rightarrow> Some (o', p', h', has_state))"

text \<open>The future, and the promise the task will set.\<close>

definition defer_or_dispatch :: "promise \<Rightarrow> ('a future \<times> promise) outcome" where
  "defer_or_dispatch p =
     (case get_future p of (Returns f, p') \<Rightarrow> Returns (f, p') | (Throws e, _) \<Rightarrow> Throws e | (Aborts, _) \<Rightarrow> Aborts)"

definition run_deferred_task ::
    "nat \<Rightarrow> 'a \<Rightarrow> ('a cont_result option) outcome \<Rightarrow> promise \<Rightarrow> 'a fstore \<Rightarrow> (unit outcome \<times> promise \<times> 'a fstore \<times> bool) option" where
  "run_deferred_task k null r p h = promise_apply k null r p h"

section \<open>What the caller sees\<close>

definition task_value :: "'a \<Rightarrow> ('a cont_result option) outcome \<Rightarrow> 'a fvalue" where
  "task_value null r =
     (case r of Returns None \<Rightarrow> Val null | Returns (Some (Plain y)) \<Rightarrow> Val y | Throws e \<Rightarrow> Exc e | _ \<Rightarrow> Unfulfilled)"

text \<open>A function that returns a value, nothing, or throws: the future gets just that.\<close>

lemma deferred_task_value:
  assumes "defer_or_dispatch p = Returns (f, p')" "\<not> pr_value_set p" "fs_callback h (pr_state p) = None"
    and "r \<noteq> Aborts" "\<forall>g. r \<noteq> Returns (Some (Fut g))"
  shows "\<exists>p2 h2. run_deferred_task (Suc k) null r p' h = Some (Returns (), p2, h2, True) \<and> future_value h2 f = task_value null r"
proof -
  have p: "f = Shared (pr_state p)" "pr_state p' = pr_state p" "\<not> pr_value_set p'"
    using assms(1,2) by (auto simp: defer_or_dispatch_def get_future_def split: if_splits)
  consider y where "callable_apply null r = Returns (Plain y)" "task_value null r = Val y"
    | e where "callable_apply null r = Throws e" "task_value null r = Exc e"
  proof (cases r)
    case (Returns x)
    then show ?thesis using that assms(5)
      by (cases x; cases "the x") (auto simp: callable_apply_def task_value_def)
  qed (use that assms(4) in \<open>auto simp: callable_apply_def task_value_def\<close>)
  then show ?thesis
    using p assms(3)
    by cases (simp_all add: run_deferred_task_def promise_apply_def promise_set_exception_def promise_set_def future_value_def Let_def)
qed

text \<open>A function that returns a failed future: the exception is not passed on, and setting it throws.\<close>

lemma deferred_failed_future:
  assumes "future_value h g = Exc e" "\<not> pr_value_set p"
  shows "\<exists>p2. run_deferred_task k null (Returns (Some (Fut g))) p h = Some (Throws Invalid_promise, p2, h, False)"
  using assms by (simp add: run_deferred_task_def promise_apply_def callable_apply_def promise_set_future_def promise_set_exception_def promise_set_def)

end
