(* ===== verification/Socket_Options.thy ===== *)
theory Socket_Options
  imports Client_Pipe Ports Endpoint
begin

text \<open>
  Socket options as types (\<^verbatim>\<open>xi/io/net/socket_option.h\<close>, \<^verbatim>\<open>channel_options.h\<close>), the functions that set and get them, the constructor
  of the listener (\<^verbatim>\<open>src/io/net/listener.cpp\<close>), and the pipe that connects (\<^verbatim>\<open>async_channel.h\<close>). The numbers are those of the headers
  of Linux.
\<close>

section \<open>Options\<close>

datatype option_access = READ_ONLY | READ_WRITE

record socket_option =
  so_level :: int
  so_name :: int
  so_length :: int
  so_access :: option_access

abbreviation (input) SOL_SOCKET :: int where "SOL_SOCKET \<equiv> 1"
abbreviation (input) IPPROTO_IP :: int where "IPPROTO_IP \<equiv> 0"
abbreviation (input) IPPROTO_TCP :: int where "IPPROTO_TCP \<equiv> 6"
abbreviation (input) IPPROTO_UDP :: int where "IPPROTO_UDP \<equiv> 17"

definition num_opt :: "int \<Rightarrow> int \<Rightarrow> option_access \<Rightarrow> socket_option" where
  "num_opt level name acc = \<lparr>so_level = level, so_name = name, so_length = 4, so_access = acc\<rparr>"

definition bool_opt :: "int \<Rightarrow> int \<Rightarrow> option_access \<Rightarrow> socket_option" where
  "bool_opt level name acc = num_opt level name acc"

definition option_yes :: int where "option_yes = 1"

definition option_no :: int where "option_no = 0"

definition option_bool :: "int \<Rightarrow> bool" where
  "option_bool v \<longleftrightarrow> v \<noteq> 0"

datatype option_kind =
    Reuse_address | Accept_conn | Broadcast | Dont_route | Keep_alive | Oob_inline | Timestamp
  | So_error | Priority | Receive_buffer | Receive_buffer_force | Send_buffer | Send_buffer_force
  | Receive_watermark | Send_watermark | So_protocol | Socket_type
  | Free_bind | Mtu_discover | Allow_multicast_loop | Transparent_proxy | Mtu | Multicast_ttl | Ttl | Tos
  | Tcp_cork | No_delay | Quick_ack | Keep_alive_count | Keep_alive_idle | Keep_alive_interval | Fin_wait_linger
  | Max_segment | Syn_retransmit_count
  | Udp_cork

fun socket_opt :: "option_kind \<Rightarrow> socket_option option" where
  "socket_opt Reuse_address = Some (bool_opt SOL_SOCKET 2 READ_WRITE)"
| "socket_opt Accept_conn = Some (bool_opt SOL_SOCKET 30 READ_WRITE)"
| "socket_opt Broadcast = Some (bool_opt SOL_SOCKET 6 READ_WRITE)"
| "socket_opt Dont_route = Some (bool_opt SOL_SOCKET 5 READ_WRITE)"
| "socket_opt Keep_alive = Some (bool_opt SOL_SOCKET 9 READ_WRITE)"
| "socket_opt Oob_inline = Some (bool_opt SOL_SOCKET 10 READ_WRITE)"
| "socket_opt Timestamp = Some (bool_opt SOL_SOCKET 29 READ_WRITE)"
| "socket_opt So_error = Some (num_opt SOL_SOCKET 4 READ_WRITE)"
| "socket_opt Priority = Some (num_opt SOL_SOCKET 12 READ_WRITE)"
| "socket_opt Receive_buffer = Some (num_opt SOL_SOCKET 8 READ_WRITE)"
| "socket_opt Receive_buffer_force = Some (num_opt SOL_SOCKET 33 READ_WRITE)"
| "socket_opt Send_buffer = Some (num_opt SOL_SOCKET 7 READ_WRITE)"
| "socket_opt Send_buffer_force = Some (num_opt SOL_SOCKET 32 READ_WRITE)"
| "socket_opt Receive_watermark = Some (num_opt SOL_SOCKET 18 READ_WRITE)"
| "socket_opt Send_watermark = Some (num_opt SOL_SOCKET 19 READ_ONLY)"
| "socket_opt So_protocol = Some (num_opt SOL_SOCKET 38 READ_ONLY)"
| "socket_opt Socket_type = Some (num_opt SOL_SOCKET 3 READ_ONLY)"
| "socket_opt _ = None"

fun ip_opt :: "option_kind \<Rightarrow> socket_option option" where
  "ip_opt Free_bind = Some (bool_opt IPPROTO_IP 15 READ_WRITE)"
| "ip_opt Mtu_discover = Some (bool_opt IPPROTO_IP 10 READ_WRITE)"
| "ip_opt Allow_multicast_loop = Some (bool_opt IPPROTO_IP 34 READ_WRITE)"
| "ip_opt Transparent_proxy = Some (bool_opt IPPROTO_IP 19 READ_WRITE)"
| "ip_opt Mtu = Some (num_opt IPPROTO_IP 14 READ_WRITE)"
| "ip_opt Multicast_ttl = Some (num_opt IPPROTO_IP 33 READ_WRITE)"
| "ip_opt Ttl = Some (num_opt IPPROTO_IP 2 READ_WRITE)"
| "ip_opt Tos = Some (num_opt IPPROTO_IP 1 READ_WRITE)"
| "ip_opt _ = None"

text \<open>The number of retransmissions is one byte long.\<close>

fun tcp_opt :: "option_kind \<Rightarrow> socket_option option" where
  "tcp_opt Tcp_cork = Some (bool_opt IPPROTO_TCP 3 READ_WRITE)"
| "tcp_opt No_delay = Some (bool_opt IPPROTO_TCP 1 READ_WRITE)"
| "tcp_opt Quick_ack = Some (bool_opt IPPROTO_TCP 12 READ_WRITE)"
| "tcp_opt Keep_alive_count = Some (num_opt IPPROTO_TCP 6 READ_WRITE)"
| "tcp_opt Keep_alive_idle = Some (num_opt IPPROTO_TCP 4 READ_WRITE)"
| "tcp_opt Keep_alive_interval = Some (num_opt IPPROTO_TCP 5 READ_WRITE)"
| "tcp_opt Fin_wait_linger = Some (num_opt IPPROTO_TCP 8 READ_WRITE)"
| "tcp_opt Max_segment = Some (num_opt IPPROTO_TCP 2 READ_WRITE)"
| "tcp_opt Syn_retransmit_count = Some \<lparr>so_level = IPPROTO_TCP, so_name = 7, so_length = 1, so_access = READ_WRITE\<rparr>"
| "tcp_opt _ = None"

fun udp_opt :: "option_kind \<Rightarrow> socket_option option" where
  "udp_opt Udp_cork = Some (bool_opt IPPROTO_UDP 1 READ_WRITE)"
| "udp_opt _ = None"

text \<open>Two options never stand for the same option of the system.\<close>

definition option_key :: "option_kind \<Rightarrow> (int \<times> int) option" where
  "option_key k =
     map_option (\<lambda>p. (so_level p, so_name p))
       (case socket_opt k of Some p \<Rightarrow> Some p
        | None \<Rightarrow> (case ip_opt k of Some p \<Rightarrow> Some p | None \<Rightarrow> (case tcp_opt k of Some p \<Rightarrow> Some p | None \<Rightarrow> udp_opt k)))"

lemma option_key_defined: "option_key k \<noteq> None"
  by (cases k) (simp_all add: option_key_def)

lemma option_key_inj: "option_key j = option_key k \<Longrightarrow> j = k"
  by (cases j; cases k) (simp_all add: option_key_def bool_opt_def num_opt_def)

text \<open>The values of the type of service.\<close>

definition low_delay :: int where "low_delay = 0x10"

definition throughput :: int where "throughput = 0x08"

definition reliability :: int where "reliability = 0x04"

definition min_cost :: int where "min_cost = 0x02"

section \<open>Setting and getting\<close>

text \<open>The access of an option is not looked at.\<close>

definition set_option :: "'k kernel \<Rightarrow> int \<Rightarrow> socket_option \<Rightarrow> int \<Rightarrow> 'k \<Rightarrow> error_code \<times> 'k" where
  "set_option K fd p v s = socket_set_option K fd (so_level p, so_name p, v, so_length p) s"

definition get_option :: "'k kernel \<Rightarrow> int \<Rightarrow> socket_option \<Rightarrow> 'k \<Rightarrow> int expected \<times> 'k" where
  "get_option K fd p s = socket_get_option K fd (so_level p, so_name p) s"

text \<open>A system that keeps the options that were set, as \<^verbatim>\<open>opts\<close> finds them in its state.\<close>

definition keeps_options :: "'k kernel \<Rightarrow> (int \<Rightarrow> 'k \<Rightarrow> (int \<times> int) \<Rightarrow> int) \<Rightarrow> bool" where
  "keeps_options K opts \<longleftrightarrow>
     (\<forall>fd l n v len s. fst (fst (k_setsockopt K fd (l, n, v, len) s)) \<noteq> -1 \<longrightarrow>
        opts fd (snd (k_setsockopt K fd (l, n, v, len) s)) = (opts fd s)((l, n) := v)) \<and>
     (\<forall>fd l n s. \<exists>e s'. k_getsockopt K fd (l, n) s = ((0, e, opts fd s (l, n)), s') \<and> opts fd s' = opts fd s)"

section \<open>Listening and connecting\<close>

text \<open>An error of \<^verbatim>\<open>bind\<close> or \<^verbatim>\<open>listen\<close> ends the process; one of \<^verbatim>\<open>setsockopt\<close> is ignored.\<close>

definition listener_new :: "'k kernel \<Rightarrow> u16 \<Rightarrow> 'k \<Rightarrow> (int \<times> 'k) option" where
  "listener_new K p s =
     (let ((fd, _), s1) = k_socket K s;
          (_, s2) = k_setsockopt K fd (SOL_SOCKET, 2, 1, 4) s1;
          ((b, _), s3) = k_bind K fd (inet_to_posix (inet_endpoint p)) s2
      in if b < 0 then None
         else let ((l, _), s4) = k_listen K fd 5 s3 in if l < 0 then None else Some (fd, s4))"

text \<open>
  What \<^verbatim>\<open>connector_pipe::connect\<close> does when the connection is made: the new socket is handed to the next shard in turn. On an
  error the promise is dropped, so the future is broken. \<open>made\<close> lists the pipes with their shards.
\<close>

record connector =
  cn_run_on :: u16
  cn_made :: "(int \<times> nat) list"
  cn_dropped :: nat

definition connector_connected :: "nat \<Rightarrow> int expected \<Rightarrow> connector \<Rightarrow> connector" where
  "connector_connected cpus ret c =
     (case ret of
        Failed e \<Rightarrow> c\<lparr>cn_dropped := cn_dropped c + 1\<rparr>
      | Value sock \<Rightarrow>
          let r = next_shard cpus (cn_run_on c) in c\<lparr>cn_run_on := r, cn_made := cn_made c @ [(sock, unat r)]\<rparr>)"

section \<open>What holds\<close>

lemma option_roundtrip:
  assumes "keeps_options K opts" "fst (fst (k_setsockopt K fd (so_level p, so_name p, v, so_length p) s)) = 0"
  shows "\<exists>s1 s2. set_option K fd p v s = (no_error, s1) \<and> get_option K fd p s1 = (Value v, s2) \<and>
    (\<forall>q :: socket_option. (so_level q, so_name q) \<noteq> (so_level p, so_name p) \<longrightarrow>
       opts fd s2 (so_level q, so_name q) = opts fd s (so_level q, so_name q))"
proof -
  obtain e s1 where k: "k_setsockopt K fd (so_level p, so_name p, v, so_length p) s = ((0, e), s1)"
    using assms(2) by (metis prod.collapse)
  have o: "opts fd s1 = (opts fd s)((so_level p, so_name p) := v)"
    using conjunct1 [OF assms(1) [unfolded keeps_options_def], rule_format, of fd "so_level p" "so_name p" v "so_length p" s] k by simp
  obtain e' s2 where g: "k_getsockopt K fd (so_level p, so_name p) s1 = ((0, e', opts fd s1 (so_level p, so_name p)), s2)"
    "opts fd s2 = opts fd s1"
    using conjunct2 [OF assms(1) [unfolded keeps_options_def], rule_format, of fd "so_level p" "so_name p" s1] by blast
  show ?thesis
    using k g o by (simp add: set_option_def socket_set_option_def get_option_def socket_get_option_def posix_to_expected_def
        expv_of_def)
qed

end
