(* ===== verification/Hardware.thy ===== *)
theory Hardware
  imports Xi_Prelude
begin

text \<open>
  The machine the kernel is started on: \<^verbatim>\<open>src/hw/hardware.cpp\<close> and \<^verbatim>\<open>xi/hw/hardware.h\<close>. With hwloc the cores come from
  its topology, without it from the number of threads the system reports; both are parameters. The type of the ids is
  \<^verbatim>\<open>int\<close> with hwloc and \<^verbatim>\<open>unsigned\<close> without.
\<close>

record 'i cpu =
  os :: 'i
  numa :: 'i

record 'i machine =
  cpus :: "'i cpu list"

text \<open>\<^verbatim>\<open>core\<close> throws when there is no such core.\<close>

definition core :: "'i machine \<Rightarrow> nat \<Rightarrow> 'i cpu option" where
  "core m c = (if c < length (cpus m) then Some (cpus m ! c) else None)"

subsection \<open>Without hwloc\<close>

definition cpu_new :: "u32 \<Rightarrow> u32 cpu" where
  "cpu_new c = \<lparr>os = c, numa = c\<rparr>"

definition machine_new :: "u32 \<Rightarrow> u32 machine" where
  "machine_new hardware_concurrency = \<lparr>cpus = map (\<lambda>c. cpu_new (word_of_nat c)) [0..<unat hardware_concurrency]\<rparr>"

definition enumerate_cpus :: "u32 \<Rightarrow> u32 machine" where
  "enumerate_cpus hardware_concurrency = machine_new hardware_concurrency"

subsection \<open>With hwloc\<close>

text \<open>
  An object of the topology has its sets of processors and of memory nodes; \<open>bitmap_first\<close> is their first index, or -1. The
  topology gives the objects at the depth of the cores, which may be null.
\<close>

record 'b hwloc_obj =
  cpuset :: 'b
  nodeset :: 'b

definition hwloc_cpu_new :: "('b \<Rightarrow> int) \<Rightarrow> 'b hwloc_obj \<Rightarrow> int cpu" where
  "hwloc_cpu_new bitmap_first obj = \<lparr>os = bitmap_first (cpuset obj), numa = bitmap_first (nodeset obj)\<rparr>"

fun add_cores :: "('b \<Rightarrow> int) \<Rightarrow> 'b hwloc_obj option list \<Rightarrow> int cpu list" where
  "add_cores bitmap_first [] = []"
| "add_cores bitmap_first (Some obj # objs) = hwloc_cpu_new bitmap_first obj # add_cores bitmap_first objs"
| "add_cores bitmap_first (None # objs) = add_cores bitmap_first objs"

definition hwloc_machine_new :: "('b \<Rightarrow> int) \<Rightarrow> 'b hwloc_obj option list \<Rightarrow> int machine" where
  "hwloc_machine_new bitmap_first objs = \<lparr>cpus = add_cores bitmap_first objs\<rparr>"

subsection \<open>What the kernel relies on\<close>

text \<open>Every core has its own id, and \<^verbatim>\<open>core\<close> is defined just below the number of cores.\<close>

lemma machine_new_core:
  "core (machine_new n) c = (if c < unat n then Some (cpu_new (word_of_nat c)) else None)"
  by (simp add: core_def machine_new_def)

lemma machine_new_distinct: "distinct (map os (cpus (machine_new n)))"
proof -
  have "inj_on (\<lambda>c. word_of_nat c :: u32) {0..<unat n}"
  proof (rule inj_onI)
    fix a b :: nat
    assume ab: "a \<in> {0..<unat n}" "b \<in> {0..<unat n}" "(word_of_nat a :: u32) = word_of_nat b"
    have "unat n < 2 ^ 32" using unsigned_less [of n] by simp
    then have "a < 2 ^ LENGTH(32)" "b < 2 ^ LENGTH(32)" using ab(1,2) by simp_all
    then show "a = b" using arg_cong [OF ab(3), of unat] by (simp add: unat_of_nat)
  qed
  then show ?thesis by (simp add: machine_new_def comp_def cpu_new_def distinct_map)
qed

text \<open>With hwloc, so it is when no processor belongs to two cores.\<close>

lemma add_cores_filter: "add_cores first objs = map (hwloc_cpu_new first) (map the (filter (\<lambda>x. x \<noteq> None) objs))"
  by (induction first objs rule: add_cores.induct) simp_all

lemma sorted_wrt_noteq: "sorted_wrt (\<noteq>) xs \<longleftrightarrow> distinct xs"
  by (induction xs) auto

lemma hwloc_machine_distinct:
  assumes "\<And>obj. Some obj \<in> set objs \<Longrightarrow> first (cpuset obj) = int (Min (bits (cpuset obj))) \<and> finite (bits (cpuset obj)) \<and> bits (cpuset obj) \<noteq> {}"
    and "sorted_wrt (\<lambda>a b. bits (cpuset a) \<inter> bits (cpuset b) = {}) (map the (filter (\<lambda>x. x \<noteq> None) objs))"
  shows "distinct (map os (cpus (hwloc_machine_new first objs)))"
proof -
  let ?os = "map the (filter (\<lambda>x. x \<noteq> None) objs)"
  have in_bits: "\<exists>k \<in> bits (cpuset a). first (cpuset a) = int k" if "a \<in> set ?os" for a
  proof -
    have "Some a \<in> set objs" using that by force
    from assms(1) [OF this] show ?thesis by (auto intro: Min_in)
  qed
  have "sorted_wrt (\<lambda>a b. first (cpuset a) \<noteq> first (cpuset b)) ?os"
  proof (rule sorted_wrt_mono_rel [OF _ assms(2)])
    fix a b
    assume "a \<in> set ?os" "b \<in> set ?os" "bits (cpuset a) \<inter> bits (cpuset b) = {}"
    then show "first (cpuset a) \<noteq> first (cpuset b)" using in_bits [of a] in_bits [of b] by auto
  qed
  then show ?thesis
    by (simp add: hwloc_machine_new_def add_cores_filter hwloc_cpu_new_def flip: sorted_wrt_noteq) (simp add: sorted_wrt_map hwloc_cpu_new_def)
qed

end
