(* ===== verification/Configuration.thy ===== *)
theory Configuration
  imports Xi_Prelude
begin

text \<open>
  Configuration (\<^verbatim>\<open>xi/core/configuration.h\<close>): a front end with at most one back end, and the back end on the program options
  of boost, whose parser is a parameter. Further small parts of \<^verbatim>\<open>xi/ext\<close>: scope guards (\<^verbatim>\<open>scope.h\<close>) and numbers of their own
  type (\<^verbatim>\<open>number.h\<close>).
\<close>

section \<open>Values\<close>

text \<open>The types the back end asks for; \<^verbatim>\<open>double\<close> is a parameter.\<close>

datatype 'd any_value = Any_ulong u64 | Any_uint u32 | Any_byte u8 | Any_double 'd | Any_string string | Any_other

type_synonym 'd variables_map = "string \<rightharpoonup> 'd any_value"

text \<open>\<^verbatim>\<open>boost::any_cast\<close> to each of them: a value of exactly that type.\<close>

fun as_ulong :: "'d any_value \<Rightarrow> u64 option" where
  "as_ulong (Any_ulong v) = Some v" | "as_ulong _ = None"

fun as_uint :: "'d any_value \<Rightarrow> u32 option" where
  "as_uint (Any_uint v) = Some v" | "as_uint _ = None"

fun as_byte :: "'d any_value \<Rightarrow> u8 option" where
  "as_byte (Any_byte v) = Some v" | "as_byte _ = None"

fun as_double :: "'d any_value \<Rightarrow> 'd option" where
  "as_double (Any_double v) = Some v" | "as_double _ = None"

fun as_string :: "'d any_value \<Rightarrow> string option" where
  "as_string (Any_string v) = Some v" | "as_string _ = None"

section \<open>The back end\<close>

record 'd boost_po_backend =
  po_config :: "'d variables_map"
  po_options :: "string list"

definition boost_po_backend_new :: "'d boost_po_backend" where
  "boost_po_backend_new = \<lparr>po_config = Map.empty, po_options = [''help'']\<rparr>"

definition get_typed_value :: "('d any_value \<Rightarrow> 'v option) \<Rightarrow> string \<Rightarrow> 'd boost_po_backend \<Rightarrow> 'v option" where
  "get_typed_value any_cast name b = (case po_config b name of None \<Rightarrow> None | Some v \<Rightarrow> any_cast v)"

definition get_ulong :: "string \<Rightarrow> 'd boost_po_backend \<Rightarrow> u64 option" where
  "get_ulong = get_typed_value as_ulong"

definition get_uint :: "string \<Rightarrow> 'd boost_po_backend \<Rightarrow> u32 option" where
  "get_uint = get_typed_value as_uint"

definition get_byte :: "string \<Rightarrow> 'd boost_po_backend \<Rightarrow> u8 option" where
  "get_byte = get_typed_value as_byte"

definition get_double :: "string \<Rightarrow> 'd boost_po_backend \<Rightarrow> 'd option" where
  "get_double = get_typed_value as_double"

definition get_string :: "string \<Rightarrow> 'd boost_po_backend \<Rightarrow> string option" where
  "get_string = get_typed_value as_string"

text \<open>
  The parser gets the options and the arguments; None is an exception, for instance on an unknown option. Storing does not
  change a value that is there.
\<close>

type_synonym 'd option_parser = "string list \<Rightarrow> string list \<Rightarrow> 'd variables_map option"

definition po_read_command_line :: "'d option_parser \<Rightarrow> string list \<Rightarrow> 'd boost_po_backend \<Rightarrow> 'd boost_po_backend option" where
  "po_read_command_line parse args b =
     map_option (\<lambda>m. b\<lparr>po_config := m ++ po_config b\<rparr>) (parse (po_options b) args)"

definition po_read_file :: "string \<Rightarrow> 'd boost_po_backend \<Rightarrow> 'd boost_po_backend" where
  "po_read_file name b = b"

section \<open>The front end\<close>

record 'd configuration =
  cf_backend :: "'d boost_po_backend option"

text \<open>\<^verbatim>\<open>init\<close> asserts that there is no back end yet; the others follow a null pointer without one. Both are None.\<close>

definition configuration_init :: "'d configuration \<Rightarrow> 'd configuration option" where
  "configuration_init c = (if cf_backend c \<noteq> None then None else Some (c\<lparr>cf_backend := Some boost_po_backend_new\<rparr>))"

definition configuration_read_command_line :: "'d option_parser \<Rightarrow> string list \<Rightarrow> 'd configuration \<Rightarrow> 'd configuration option" where
  "configuration_read_command_line parse args c =
     Option.bind (cf_backend c) (\<lambda>b. map_option (\<lambda>b'. c\<lparr>cf_backend := Some b'\<rparr>) (po_read_command_line parse args b))"

definition configuration_read_file :: "string \<Rightarrow> 'd configuration \<Rightarrow> 'd configuration option" where
  "configuration_read_file name c = map_option (\<lambda>b. c\<lparr>cf_backend := Some (po_read_file name b)\<rparr>) (cf_backend c)"

text \<open>
  Only the option \<^verbatim>\<open>help\<close> is declared. With a parser that stores only what is declared, every other value stays undefined,
  whatever is read.
\<close>

definition stores_declared :: "'d option_parser \<Rightarrow> bool" where
  "stores_declared parse \<longleftrightarrow> (\<forall>opts args m. parse opts args = Some m \<longrightarrow> dom m \<subseteq> set opts)"

fun read_all_args :: "'d option_parser \<Rightarrow> string list list \<Rightarrow> 'd configuration \<Rightarrow> 'd configuration option" where
  "read_all_args parse [] c = Some c"
| "read_all_args parse (args # rest) c = Option.bind (configuration_read_command_line parse args c) (read_all_args parse rest)"

lemma undeclared_undefined:
  assumes "stores_declared parse" "cf_backend c = Some b" "po_options b = [''help'']" "dom (po_config b) \<subseteq> {''help''}"
    and "read_all_args parse argss c = Some c'" "name \<noteq> ''help''"
  shows "\<exists>b'. cf_backend c' = Some b' \<and> get_typed_value cast name b' = None"
  using assms(1-5)
proof (induction parse argss c arbitrary: b rule: read_all_args.induct)
  case (1 parse c)
  then have "po_config b name = None" using assms(6) by auto
  then show ?case using 1 by (simp add: get_typed_value_def)
next
  case (2 parse args rest c)
  then obtain m where m: "parse [''help''] args = Some m"
    "read_all_args parse rest (c\<lparr>cf_backend := Some (b\<lparr>po_config := m ++ po_config b\<rparr>)\<rparr>) = Some c'"
    by (auto simp: configuration_read_command_line_def po_read_command_line_def Option.bind_eq_Some_conv)
  have "dom m \<subseteq> {''help''}" using "2.prems"(1) [unfolded stores_declared_def, rule_format, OF m(1)] by simp
  note dm = this "2.prems"(4)
  show ?case by (rule "2.IH" [where b = "b\<lparr>po_config := m ++ po_config b\<rparr>", OF _ _ _ _ _ m(2)])
      (use m(1) dm in \<open>auto simp: "2.prems"(1-3) configuration_read_command_line_def po_read_command_line_def\<close>)
qed

section \<open>Scope guards\<close>

text \<open>
  The destructor of a guard runs its action when the condition holds, which is a function of whether an exception is in flight
  at that moment.
\<close>

definition scope_action_end :: "(bool \<Rightarrow> bool) \<Rightarrow> ('s \<Rightarrow> 's) \<Rightarrow> bool \<Rightarrow> 's \<Rightarrow> 's" where
  "scope_action_end condition action uncaught s = (if condition uncaught then action s else s)"

definition scope_not :: "(bool \<Rightarrow> bool) \<Rightarrow> bool \<Rightarrow> bool" where
  "scope_not f uncaught \<longleftrightarrow> \<not> f uncaught"

definition always_true :: "bool \<Rightarrow> bool" where
  "always_true uncaught \<longleftrightarrow> True"

definition scope_success :: "bool \<Rightarrow> bool" where
  "scope_success = scope_not (\<lambda>uncaught. uncaught)"

definition scope_failure :: "bool \<Rightarrow> bool" where
  "scope_failure uncaught = uncaught"

text \<open>A block that returns or throws, inside one that may already be unwinding.\<close>

lemma scope_ends:
  "scope_action_end scope_success a thrown s = (if thrown then s else a s)"
  "scope_action_end scope_failure a thrown s = (if thrown then a s else s)"
  "scope_action_end always_true a thrown s = a s"
  by (simp_all add: scope_action_end_def scope_success_def scope_not_def scope_failure_def always_true_def)

section \<open>Numbers of their own type\<close>

text \<open>
  \<^verbatim>\<open>operator+\<close> and \<^verbatim>\<open>operator-\<close> compute a value and drop it; their result is the left operand. The operators with assignment
  change it. Arithmetic is that of the underlying type.
\<close>

record 'n distinct_numeric_type =
  dn_value :: 'n

definition distinct_new :: "'n \<Rightarrow> 'n distinct_numeric_type" where
  "distinct_new v = \<lparr>dn_value = v\<rparr>"

definition distinct_eq :: "'n distinct_numeric_type \<Rightarrow> 'n distinct_numeric_type \<Rightarrow> bool" where
  "distinct_eq a b \<longleftrightarrow> dn_value a = dn_value b"

definition distinct_less :: "'n::linorder distinct_numeric_type \<Rightarrow> 'n distinct_numeric_type \<Rightarrow> bool" where
  "distinct_less a b \<longleftrightarrow> dn_value a < dn_value b"

definition distinct_less_eq :: "'n::linorder distinct_numeric_type \<Rightarrow> 'n distinct_numeric_type \<Rightarrow> bool" where
  "distinct_less_eq a b \<longleftrightarrow> dn_value a \<le> dn_value b"

definition distinct_plus :: "'n::plus distinct_numeric_type \<Rightarrow> 'n distinct_numeric_type \<Rightarrow> 'n distinct_numeric_type" where
  "distinct_plus a b = (let unused = dn_value a + dn_value b in a)"

definition distinct_minus :: "'n::minus distinct_numeric_type \<Rightarrow> 'n distinct_numeric_type \<Rightarrow> 'n distinct_numeric_type" where
  "distinct_minus a b = (let unused = dn_value a - dn_value b in a)"

definition distinct_add :: "'n::plus distinct_numeric_type \<Rightarrow> 'n distinct_numeric_type \<Rightarrow> 'n distinct_numeric_type" where
  "distinct_add a b = a\<lparr>dn_value := dn_value a + dn_value b\<rparr>"

definition distinct_sub :: "'n::minus distinct_numeric_type \<Rightarrow> 'n distinct_numeric_type \<Rightarrow> 'n distinct_numeric_type" where
  "distinct_sub a b = a\<lparr>dn_value := dn_value a - dn_value b\<rparr>"

lemma distinct_add_sub: "distinct_sub (distinct_add a b) b = (a :: 'n::group_add distinct_numeric_type)"
  by (simp add: distinct_sub_def distinct_add_def)

lemma distinct_plus_wrong: "distinct_plus (distinct_new (1 :: u32)) (distinct_new 1) = distinct_new 1"
  by (simp add: distinct_plus_def distinct_new_def)

end
