(* ===== verification/Guard_Append.thy ===== *)
theory Guard_Append
  imports Guard Spin_Lock
begin

text \<open>
  \<^verbatim>\<open>guard::append\<close> of \<^verbatim>\<open>xi/io/detail/guard.h\<close>, which nothing calls, and moving a spin lock
  (\<^verbatim>\<open>xi/util/spin_lock.h\<close>).
\<close>

section \<open>Appending\<close>

text \<open>The guard the loop is at: the appended one itself, or the \<^verbatim>\<open>next\<close> of an implementation.\<close>

datatype guard_slot = This_guard | Next_of addr

fun slot_value :: "guard_slot \<Rightarrow> guard \<Rightarrow> world \<Rightarrow> guard option" where
  "slot_value This_guard this w = Some this"
| "slot_value (Next_of a) this w = map_option nxt (map_of (impls w) a)"

fun slot_reset :: "guard_slot \<Rightarrow> guard \<Rightarrow> guard \<times> world \<Rightarrow> guard \<times> world" where
  "slot_reset This_guard v (this, w) = (v, w)"
| "slot_reset (Next_of a) v (this, w) = (this, upd_impl a (\<lambda>i. i\<lparr>nxt := v\<rparr>) w)"

text \<open>
  A directly owned object gets an implementation; the code takes the object from the whole guard, not from the one the loop
  is at.
\<close>

definition wrap_free :: "guard_slot \<Rightarrow> guard \<Rightarrow> guard \<times> world \<Rightarrow> addr \<times> guard \<times> world" where
  "wrap_free slot v st =
     (if guard_tagged v
      then let (i, w1) = new_impl (free_guard_impl (guard_ptr (fst st))) (snd st) in (i, slot_reset slot i (fst st, w1))
      else (guard_ptr v, st))"

text \<open>A shared implementation is put behind one of its own, which takes its \<^verbatim>\<open>next\<close>.\<close>

definition wrap_shared :: "guard_slot \<Rightarrow> addr \<Rightarrow> guard \<times> world \<Rightarrow> (addr \<times> guard \<times> world) option" where
  "wrap_shared slot i st =
     (case map_of (impls (snd st)) i of
        None \<Rightarrow> None
      | Some im \<Rightarrow>
          if refs im = 1 then Some (i, st)
          else let (j, w1) = new_impl (make_object_guard_impl (nxt im) i) (upd_impl i (\<lambda>x. x\<lparr>nxt := 0\<rparr>) (snd st))
               in Some (j, slot_reset slot j (fst st, w1)))"

text \<open>The fuel bounds the length of the chain.\<close>

fun append_from :: "nat \<Rightarrow> guard_slot \<Rightarrow> guard \<Rightarrow> guard \<times> world \<Rightarrow> (guard \<times> world) option" where
  "append_from 0 slot g st = None"
| "append_from (Suc f) slot g st =
     (case slot_value slot (fst st) (snd st) of
        None \<Rightarrow> None
      | Some v \<Rightarrow>
          if guard_ptr v = 0 then Some (slot_reset slot g st)
          else if guard_ptr v = guard_ptr g then None
          else case wrap_free slot v st of (i, st1) \<Rightarrow>
                 (case wrap_shared slot i st1 of None \<Rightarrow> None | Some (j, st2) \<Rightarrow> append_from f (Next_of j) g st2))"

definition guard_append :: "nat \<Rightarrow> guard \<Rightarrow> guard \<Rightarrow> world \<Rightarrow> (guard \<times> world) option" where
  "guard_append f this g w = (if guard_empty g then Some (this, w) else append_from f This_guard g (this, w))"

text \<open>Two blocks that are owned directly: the first gets an implementation with the second behind it.\<close>

lemma append_simple:
  assumes "even p" "even q" "0 < p" "0 < q" "p \<noteq> q" "even (lim w)" "0 < lim w" "lim w \<notin> fst ` set (impls w)"
  shows "guard_append (Suc (Suc f)) (guard_simple p) (guard_simple q) w =
    Some (lim w, w\<lparr>impls := (lim w, \<lparr>refs = 1, nxt = guard_simple q, payload = Free_obj p\<rparr>) # impls w, lim := lim w + 16\<rparr>)"
proof -
  have "map (\<lambda>(a, i). if a = lim w then (a, F i) else (a, i)) (impls w) = impls w" for F :: "guard_impl \<Rightarrow> guard_impl"
    using assms(8) by (intro map_idI) force
  then show ?thesis
    using assms by (simp add: guard_append_def guard_empty_def wrap_free_def wrap_shared_def new_impl_def free_guard_impl_def upd_impl_def Let_def)
qed

text \<open>Destroying it frees both.\<close>

lemma append_simple_destroyed:
  assumes "even p" "even q" "0 < p" "0 < q" "p \<noteq> q" "even (lim w)" "0 < lim w" "lim w \<notin> fst ` set (impls w)"
    and "p \<in> fst ` set (blocks w)" "q \<in> fst ` set (blocks w)"
  shows "\<exists>w1 w2. guard_append (Suc (Suc f)) (guard_simple p) (guard_simple q) w = Some (lim w, w1) \<and> guard_destroy (lim w) w1 = Some w2 \<and>
    impls w2 = impls w \<and> fst ` set (blocks w2) = fst ` set (blocks w) - {p, q}"
proof -
  have "filter (\<lambda>(a, _). a \<noteq> lim w) (impls w) = impls w" using assms(8) by (intro filter_True) force
  moreover have "\<not> guard_tagged (lim w)" using assms(6) by (simp add: guard_even_untagged)
  moreover have "q \<in> fst ` {x \<in> set (blocks w). case x of (a, _) \<Rightarrow> a \<noteq> p}" using assms(5,10) by force
  ultimately show ?thesis using assms append_simple [OF assms(1-8), of f]
    by (auto simp: guard_destroy_def free_ptr_def usub_def impl_guards_def)
qed

text \<open>
  A third block: the implementation of the first is handed to \<^verbatim>\<open>free\<close>, so that destroying the guard fails.
\<close>

definition ex_three :: world where
  "ex_three = \<lparr>mem = (\<lambda>_. 0), impls = [], lim = 16, blocks = [(100, 8), (200, 8), (300, 8)], ran = []\<rparr>"

lemma append_third_breaks:
  "Option.bind (guard_append 3 (guard_simple 100) (guard_simple 200) ex_three)
     (\<lambda>(g, w). Option.bind (guard_append 3 g (guard_simple 300) w) (\<lambda>(g', w'). Some (g', Option.is_none (guard_destroy g' w')))) = Some (16, True)"
  by code_simp

section \<open>Moving a lock\<close>

text \<open>The new lock takes the state, the old one is unlocked, whoever holds it.\<close>

definition spin_lock_move :: "spin_sys \<Rightarrow> lock_state \<times> spin_sys" where
  "spin_lock_move s = (sl_state s, s\<lparr>sl_state := Unlocked\<rparr>)"

lemma move_free_lock: "spin_inv s \<Longrightarrow> sl_state s = Unlocked \<Longrightarrow> spin_lock_move s = (Unlocked, s)"
  by (simp add: spin_lock_move_def)

lemma move_held_lock: "spin_inv s \<Longrightarrow> sl_state s = Locked \<Longrightarrow> \<not> spin_inv (snd (spin_lock_move s))"
  by (auto simp: spin_lock_move_def spin_inv_def holds_lock_def)

end
