(* ===== verification/Reactor_Setup.thy ===== *)
theory Reactor_Setup
  imports Isolation_Reactor Libevent
begin

text \<open>
  Setting up and taking down the reactors: the descriptors, the timer and the signals of \<^verbatim>\<open>src/core/reactor/epoll.cpp\<close>, and
  the loop of \<^verbatim>\<open>src/core/libevent/event_loop.cpp\<close>.
\<close>

section \<open>Signals of a worker thread\<close>

text \<open>\<open>Set_bit\<close> is \<^verbatim>\<open>action\<close>, \<open>Yield_task\<close> is \<^verbatim>\<open>yield_current_task\<close>, whose body is commented out. Actions belong to the process.\<close>

datatype signal_action = Set_bit | Yield_task

record thread_signals =
  ts_blocked :: "nat set"
  ts_actions :: "nat \<Rightarrow> signal_action option"

definition WAKEUP_SIGNAL :: nat where
  "WAKEUP_SIGNAL = 34"

definition QUOTA_SIGNAL :: nat where
  "QUOTA_SIGNAL = WAKEUP_SIGNAL + 1"

definition block_all_signals :: "thread_signals \<Rightarrow> thread_signals" where
  "block_all_signals s = s\<lparr>ts_blocked := ts_blocked s \<union> ({1..64} - {2})\<rparr>"

definition unblock_all_signals :: "thread_signals \<Rightarrow> thread_signals" where
  "unblock_all_signals s = s\<lparr>ts_blocked := ts_blocked s - {1..64}\<rparr>"

definition handle_signal :: "nat \<Rightarrow> thread_signals \<Rightarrow> thread_signals" where
  "handle_signal signo s = s\<lparr>ts_actions := (ts_actions s)(signo \<mapsto> Set_bit), ts_blocked := ts_blocked s - {signo}\<rparr>"

text \<open>What a signal does to the word of arrived signals.\<close>

fun run_action :: "signal_action \<Rightarrow> nat \<Rightarrow> u64 \<Rightarrow> u64" where
  "run_action Set_bit signo sigs = sigs OR push_bit signo 1"
| "run_action Yield_task signo sigs = sigs"

section \<open>The reactor\<close>

text \<open>
  The arguments are what the system returns: the descriptors of epoll, of the \<^verbatim>\<open>eventfd\<close> and of the timer, the results of
  \<^verbatim>\<open>epoll_ctl\<close> and of \<^verbatim>\<open>timer_create\<close>. A failed assertion and \<^verbatim>\<open>exit\<close> are None.
\<close>

definition EPOLLET :: u32 where
  "EPOLLET = 0x80000000"

definition epoll_new ::
    "int \<Rightarrow> int \<Rightarrow> int \<Rightarrow> (int \<Rightarrow> int) \<Rightarrow> int \<Rightarrow> thread_signals \<Rightarrow> (epoll_reactor \<times> thread_signals) option" where
  "epoll_new ep wake timer ctl quota s =
     (if ep < 0 then None
      else if ctl wake = -1 then None
      else if ctl timer = -1 then None
      else if quota < 0 then None
      else let s1 = handle_signal QUOTA_SIGNAL (handle_signal WAKEUP_SIGNAL (block_all_signals s));
               s2 = s1\<lparr>ts_actions := (ts_actions s1)(QUOTA_SIGNAL \<mapsto> Yield_task)\<rparr>;
               data = (\<lambda>fd. ucast (word_of_int fd :: u32) :: u64)
           in Some (\<lparr>wakeup_fd = word_of_int wake, timer_fd = word_of_int timer, wakeups = 0,
                     interest = [wake \<mapsto> (1 OR EPOLLET, data wake), timer \<mapsto> (1 OR EPOLLET, data timer)]\<rparr>, s2))"

text \<open>The result is the descriptors still open and the signals of the thread.\<close>

definition epoll_destroy :: "int \<Rightarrow> int \<Rightarrow> int \<Rightarrow> thread_signals \<Rightarrow> (int list \<times> thread_signals) option" where
  "epoll_destroy ep wake timer s = (if ep < 0 then None else Some ([wake, timer], unblock_all_signals s))"

text \<open>The mask while the thread waits.\<close>

definition poll_mask :: "nat set" where
  "poll_mask = {}"

text \<open>
  A worker takes SIGINT and the two signals of the reactor only, but while it waits it takes every signal; the signal of the
  quota leaves no trace.
\<close>

lemma epoll_new_signals:
  assumes "epoll_new ep wake timer ctl quota s = Some (e, s')"
  shows "n \<in> {1..64} \<Longrightarrow> n \<notin> ts_blocked s' \<longleftrightarrow> n = 34 \<or> n = 35 \<or> n = 2 \<and> 2 \<notin> ts_blocked s"
    "n \<notin> poll_mask"
    "map_option (\<lambda>a. run_action a QUOTA_SIGNAL sigs) (ts_actions s' QUOTA_SIGNAL) = Some sigs"
    "map_option (\<lambda>a. run_action a WAKEUP_SIGNAL 0) (ts_actions s' WAKEUP_SIGNAL) = Some (push_bit 34 1)"
proof -
  have s': "s' = (handle_signal QUOTA_SIGNAL (handle_signal WAKEUP_SIGNAL (block_all_signals s)))
      \<lparr>ts_actions := (ts_actions s)(34 \<mapsto> Set_bit, 35 \<mapsto> Yield_task)\<rparr>"
    using assms
    by (auto simp: epoll_new_def handle_signal_def block_all_signals_def WAKEUP_SIGNAL_def QUOTA_SIGNAL_def Let_def split: if_splits)
  have b: "ts_blocked s' = (ts_blocked s \<union> ({1..64} - {2})) - {34} - {35}"
    by (simp add: s' handle_signal_def block_all_signals_def WAKEUP_SIGNAL_def QUOTA_SIGNAL_def)
  show "n \<in> {1..64} \<Longrightarrow> n \<notin> ts_blocked s' \<longleftrightarrow> n = 34 \<or> n = 35 \<or> n = 2 \<and> 2 \<notin> ts_blocked s" unfolding b by auto
  show "n \<notin> poll_mask" by (simp add: poll_mask_def)
  show "map_option (\<lambda>a. run_action a QUOTA_SIGNAL sigs) (ts_actions s' QUOTA_SIGNAL) = Some sigs"
    "map_option (\<lambda>a. run_action a WAKEUP_SIGNAL 0) (ts_actions s' WAKEUP_SIGNAL) = Some (push_bit 34 1)"
    by (simp_all add: s' WAKEUP_SIGNAL_def QUOTA_SIGNAL_def)
qed

lemma ucast_back: "(ucast (ucast (w :: u32) :: u64) :: u32) = w"
  by (rule bit_word_eqI) (simp add: bit_simps)

text \<open>The events of the two descriptors are told apart from those of tasks.\<close>

lemma epoll_new_events:
  assumes "epoll_new ep wake timer ctl quota s = Some (e, s')" "wake \<noteq> timer"
  shows "map_option (\<lambda>(f, data). handle_event tsk data (e, d)) (interest e wake) = Some (Some (e\<lparr>wakeups := 0\<rparr>, d))"
    "\<exists>e'. map_option (\<lambda>(f, data). handle_event tsk data (e, d)) (interest e timer) = Some (Some (e', d))"
proof -
  have e: "interest e wake = Some (1 OR EPOLLET, ucast (word_of_int wake :: u32))" "wakeup_fd e = word_of_int wake"
    "interest e timer = Some (1 OR EPOLLET, ucast (word_of_int timer :: u32))" "timer_fd e = word_of_int timer"
    using assms by (auto simp: epoll_new_def Let_def split: if_splits)
  show "map_option (\<lambda>(f, data). handle_event tsk data (e, d)) (interest e wake) = Some (Some (e\<lparr>wakeups := 0\<rparr>, d))"
    unfolding e(1) by (simp add: e(2) handle_event_def ucast_back)
  have "handle_event tsk (ucast (word_of_int timer :: u32)) (e, d) = Some (if wakeup_fd e = timer_fd e then e\<lparr>wakeups := 0\<rparr> else e, d)"
    by (simp add: e(2,4) handle_event_def ucast_back)
  then show "\<exists>e'. map_option (\<lambda>(f, data). handle_event tsk data (e, d)) (interest e timer) = Some (Some (e', d))"
    unfolding e(3) by simp
qed

section \<open>The loop of libevent\<close>

text \<open>\<open>new\<close> is the result of \<^verbatim>\<open>event_base_new\<close>; None is the exception.\<close>

definition le_loop_new :: "event_base option \<Rightarrow> event_base option" where
  "le_loop_new new = new"

definition le_loop_flags :: "bool \<Rightarrow> u32" where
  "le_loop_flags blocking = 1 OR (if blocking then 0 else 2)"

text \<open>The library runs the loop and calls back with the flags and the argument of each event that fired.\<close>

definition le_dispatch_events ::
    "(u32 \<Rightarrow> event_base \<Rightarrow> (u16 \<times> nat option) list \<times> event_base) \<Rightarrow> bool \<Rightarrow> event_base \<Rightarrow>
      (nat \<times> callback list) list \<times> event_base" where
  "le_dispatch_events event_base_loop blocking b =
     (let (fired, b') = event_base_loop (le_loop_flags blocking) b
      in (List.map_filter (\<lambda>(what, arg). le_event_callback what arg) fired, b'))"

end
