(* ===== verification/Spec2Isabelle.thy ===== *)
theory Spec2Isabelle
  imports Memory_Properties Io_Properties Http_Properties Runtime_Properties Net_Properties System_Properties
    Server_Properties Fast_Cast Future_Apply Socket_Options Hardware Configuration Guard_Append Reactor_Setup
begin

text \<open>
  A verification development for \<^verbatim>\<open>xi\<close>, a C++ framework for network servers: a per-core memory allocator, a
  zero-copy buffer library, protocol decoders, pipes of filters over sockets, and a runtime of workers, queues,
  futures and shards.
  Paths below are relative to \<^verbatim>\<open>src/\<close>.

  \<^bold>\<open>Parts and how they interact.\<close> The allocator (\<^verbatim>\<open>src/core/memory/memory.cpp\<close>) serves pages and small
  objects to every other part. Blobs of bytes are kept alive by guards (\<^verbatim>\<open>xi/io/detail/guard.h\<close>), fragments
  are windows on blobs, buffers are lists of fragments, readers and the iovec adapter work on buffers. The
  HTTP/2 decoder reads frames from a buffer and calls a delegate, the codec, which answers with new
  buffers. Sockets move bytes between buffers and the system; a reactor calls the handler of a socket, which is a pipe:
  a row of filters that pass messages on, the last of which reads and writes the socket. Tasks run on workers, which take them from queues the scheduler and the network poller fill;
  channels, futures and the message bus let them wait for each other.

  \<^bold>\<open>Conventions.\<close> A \<open>usize\<close> is a natural number, and every operation of the source that can leave
  \<open>2 ^ 64\<close> is written with the wrapping operations of \<open>Xi_Prelude\<close>; masks, tags and time stamps are words.
  A failed \<^verbatim>\<open>assert\<close>, a dereferenced null or dangling pointer and a call of \<^verbatim>\<open>exit\<close> are the value \<open>None\<close>;
  the build defines no \<^verbatim>\<open>NDEBUG\<close>. Exceptions of the runtime are values of \<open>outcome\<close>. Code outside the
  repository (the system calls, the C heap below the buffers, callbacks and tasks of users) is an argument
  of the definitions, and what is relied on is a hypothesis of the properties. Loops that need not end
  carry fuel and give \<open>None\<close> without it; the properties say how much is enough.

  \<^bold>\<open>Memory\<close> (\<^verbatim>\<open>src/core/memory/memory.cpp\<close>, \<^verbatim>\<open>xi/core/memory/memory.h\<close>).
  \<^item> \<open>Page_List\<close>: the free lists of spans, threaded through the page array.
  \<^item> \<open>Cpu_Pages\<close>: \<^verbatim>\<open>cpu_pages\<close>, the state of one core: initialization, allocation of spans with trimming,
    merging on free, aligned allocation, shrinking, frees from other cores, reclaiming, statistics.
  \<^item> \<open>Spans\<close>, \<open>Span_Alloc\<close>: the abstract view, a partition of the pages into free and used spans, and the
    contract of each operation against it. \<open>Span_Client\<close>: the locale \<open>region_allocator\<close> with the laws a
    client relies on, its session theorem, and the interpretation on the model.
  \<^item> \<open>Small_Pools\<close>: size classes and the pools of small objects. \<open>Malloc\<close>: \<^verbatim>\<open>malloc\<close>, \<^verbatim>\<open>free\<close>, \<^verbatim>\<open>realloc\<close> and the
    operators \<^verbatim>\<open>new\<close> and \<^verbatim>\<open>delete\<close> on top. At this commit \<^verbatim>\<open>memory.cpp\<close> defines \<^verbatim>\<open>DEFAULT_ALLOCATOR\<close> itself, which
    leaves the C library in place: what is modelled is the allocator of the other branch, and the few
    functions the switch leaves.
  \<^item> \<open>Memory_Properties\<close>: allocated regions never overlap and the counts add up in every session; what each
    operation returns, also when memory runs out; freeing merges; size classes waste less than a quarter.

  \<^bold>\<open>Buffers\<close> (\<^verbatim>\<open>xi/io\<close>, \<^verbatim>\<open>src/io\<close>).
  \<^item> \<open>Guard\<close>: reference-counted guards over an explicit heap, with destructors that run other destructors.
  \<^item> \<open>Byte_Range\<close>, \<open>Byte_Blob\<close>, \<open>Fragment\<close>, \<open>Buffer\<close>, \<open>Fragment_String\<close>, \<open>Buffer_Reader\<close>: one theory per class,
    all operations on a byte-addressed memory. \<open>Buffer_Allocator\<close>: the locale \<open>buffer_source\<close>, what buffers
    ask of an allocator, interpreted on the exact and the simple allocator of the source.
  \<^item> \<open>Io_Properties\<close>: no block is used after it is freed and none is freed twice; splitting, joining, reading,
    writing, skipping and coalescing act on the content as on a list of bytes; clones are independent.

  \<^bold>\<open>Protocols\<close> (\<^verbatim>\<open>xi/io/proto\<close>).
  \<^item> \<open>Wire\<close>, \<open>Http2\<close>: the decoder on a buffer, state by state. \<open>Http2_Spec\<close>: the state machine on lists of bytes
    that it refines. \<open>Http2_Frames\<close>: frames as bytes, from RFC 7540. \<open>Http2_Codec\<close>: the delegate. The calls
    to the delegate are collected in order during decoding and handled afterwards; the delegate does not
    change the decoder, so this is the same. \<open>Http\<close>: the HTTP/1 decoder.
  \<^item> \<open>Http_Properties\<close>: refinement, termination within twice as many rounds as bytes (past the preface, and
    with the padding length present), a round trip of SETTINGS frames, rejection of bad headers, and the
    two inputs on which the decoders never return.

  \<^bold>\<open>Runtime\<close> (\<^verbatim>\<open>xi/core\<close>, \<^verbatim>\<open>src/core\<close>, \<^verbatim>\<open>xi/util\<close>).
  \<^item> \<open>Ring_Buffer\<close>: the single-producer single-consumer ring of polymorphic objects; the locale
    \<open>bounded_queue\<close> and its interpretation. Each side publishes with one store to its own index, so the
    operations are atomic steps. \<open>Spin_Lock\<close>: the lock with any number of threads.
    \<open>Steps\<close>: the locales \<open>step_system\<close> and \<open>started_system\<close>, whose lemmas carry an invariant along every run;
    the channel and the spin lock interpret them.
  \<^item> \<open>Channel\<close>: the ring of values, the bus with its blocked senders and receivers, and processes that send,
    receive and retry. The lock of the bus makes each call one step.
  \<^item> \<open>Outcome\<close>: \<^verbatim>\<open>optional\<close>, \<^verbatim>\<open>result\<close>, \<^verbatim>\<open>expected\<close>. \<open>Future\<close>: states, promises, futures, latch; a chain of \<open>n\<close>
    continuations needs a depth of \<open>n + 1\<close>.
  \<^item> \<open>Run_Queues\<close>, \<open>Worker\<close>: budgets, the queues and the loop of a worker as a machine whose control points are
    the labels of \<^verbatim>\<open>worker::run\<close>. \<open>Scheduler\<close>: parking and central enqueueing, one shared access at a time.
    \<open>Worker_Policy\<close>: the queues of the older worker. \<open>Message_Bus\<close>, \<open>Shard\<close>: messages between shards and the
    loop of a shard.
  \<^item> \<open>Runtime_Properties\<close>: queue refinement, no lost wake-ups in channels, no lost tasks in workers and jobs in
    the scheduler, mutual exclusion, the order of continuations, what a poll runs; and the places where
    the code does not do what it means to: late values in buffered channels, lost sleepers, a lost
    wake-up while parking, futures of futures, the carried budget, the message bus.

  \<^bold>\<open>Network\<close> (\<^verbatim>\<open>xi/io/pipes\<close>, \<^verbatim>\<open>xi/io/net\<close>, \<^verbatim>\<open>src/io\<close>, \<^verbatim>\<open>xi/core\<close>, \<^verbatim>\<open>src/core/epoll\<close>). The system is a record of its calls,
  which change an abstract state of it.
  \<^item> \<open>Pipes\<close>: contexts with their links, heads and tails, appending, removing (part of which the shard runs later) and
    delivery. The recursion of the templates over the declared messages is recursion over a list of them. The invariant
    \<open>pipe_wf\<close> says that every link goes to the nearest filter that declares the message; \<open>pipe_next\<close> is an instance of
    \<open>started_system\<close>. A delivery needs fuel twice the number of filters it visits.
  \<^item> \<open>Socket\<close>: \<^verbatim>\<open>socket2\<close>, from the system calls up to reading and writing buffers; the fuel of a write is the size of
    the buffer plus one. \<open>Ports\<close>: the sockets, listeners and posix sockets of tasks that wait.
  \<^item> \<open>Event_Loop\<close>: events, handlers, the reactor and the dispatch of a batch; \<open>reactor_ok\<close> ties the table of the epoll
    instance to the handlers.
  \<^item> \<open>Client_Pipe\<close>: the filter of a stream with its buffer of waiting bytes, the datagram filter, acceptors and
    connecting sockets; deferred tasks and forwarded messages are recorded.
  \<^item> \<open>Net_Properties\<close>: the order and the typing of messages, no byte lost, repeated or reordered from a buffer or through
    the stream filter, dispatch without dead handlers; and the places where the code does not do what it means to:
    filters pushed to the front, removals together, streams that stall, descriptors closed twice.

  \<^bold>\<open>Start-up and system\<close> (\<^verbatim>\<open>src/core\<close>, \<^verbatim>\<open>xi/core\<close>, \<^verbatim>\<open>xi/util\<close>, \<^verbatim>\<open>src/play\<close>).
  \<^item> \<open>Startup\<close>: the threads of the shards (\<^verbatim>\<open>bootstrap\<close>) and of the workers (\<^verbatim>\<open>coordinator\<close>) as interleaving steps
    around a barrier, and the two runtimes. \<open>Kernel\<close>: the older kernel of shards.
  \<^item> \<open>Isolation_Reactor\<close>: the reactor of the isolation policy (\<^verbatim>\<open>reactor/epoll.cpp\<close>) and, as a machine, a worker that polls while
    other threads give it tasks. \<open>Libevent\<close>: events of libevent. \<open>Signals\<close>: the signals of a shard.
  \<^item> \<open>Coroutine\<close>: tasks on stacks of their own. \<open>Endpoint\<close>: addresses. \<open>Ownership\<close>: the types that follow from an
    ownership policy, and counting owners. \<open>Demo_Server\<close>: the servers of \<^verbatim>\<open>play/context.cpp\<close>.
  \<^item> \<open>System_Properties\<close>: no wake-up is lost, a running shard finds all shards and buses, a coroutine behaves as its body read as
    steps, the echo server sends back what it received; and signals that reach the wrong handler, a server that never stops.

  \<^bold>\<open>Servers and services\<close> (\<^verbatim>\<open>src/play/main.cpp\<close>, \<^verbatim>\<open>src/tester\<close>, \<^verbatim>\<open>xi/core\<close>, \<^verbatim>\<open>xi/ext\<close>).
  \<^item> \<open>Echo_Pipe\<close>: the server of \<^verbatim>\<open>main.cpp\<close>, from the event of a readable socket through the pipe of \<^verbatim>\<open>async_channel.h\<close> and
    its filters down to the system calls; it puts \<open>Pipes\<close>, \<open>Client_Pipe\<close>, \<open>Socket\<close>, \<open>Buffer\<close> and \<open>Guard\<close> together. At most
    three fragments are read in a turn, so the heap must have room for three.
  \<^item> \<open>Tester\<close>: the load generator and the sessions of its server. \<open>Sharded_Service\<close>: services with an implementation per
    thread; the pool is a parameter. \<open>Shutdown\<close>: masks, interrupts and the end of a process of shards.
  \<^item> \<open>Mem_Base\<close>: where the pools of the cores lie. \<open>Socket_Options\<close>: the options and the constructor of the listener.
    \<open>Future_Apply\<close>: \<^verbatim>\<open>promise::apply\<close> and the tasks that set promises. \<open>Guard_Append\<close>: \<^verbatim>\<open>guard::append\<close>, moving a spin
    lock. \<open>Fast_Cast\<close>: casts within a group of classes. \<open>Hardware\<close>: the cores of the machine. \<open>Reactor_Setup\<close>: making the
    reactors, with their signals. \<open>Configuration\<close>: options and their values, scope guards, numbers of their own type.
  \<^item> \<open>Server_Properties\<close>: the server echoes what it receives, the generator keeps its window, services stop cleanly, pools are
    apart, interrupts reach only the first shard; and shutdowns that miss a shard.

  \<^bold>\<open>Not modelled.\<close> The insides of libraries (libevent, hwloc, asio, program options, boost contexts), pinning and joining of
  threads, the conversions of \<^verbatim>\<open>ownership.h\<close> that return their argument, NUMA binding, trace output and time statistics, the
  tasks of \<^verbatim>\<open>play/context.cpp\<close> that only print and sleep. The iterator of channels, \<^verbatim>\<open>coro_socket\<close>, which does not compile,
  the executor pool, which is commented out, the poller of the message bus, which is never registered, and stopping a worker of
  the isolation policy, which cannot be instantiated, are left out.
\<close>

end
